(* ===== verification/Prelude.thy ===== *)
theory Prelude
  imports Main "HOL-Library.Word" "HOL-Library.AList" "HOL-Library.List_Lexorder"
    "HOL-Library.Char_ord" "HOL-Library.Product_Lexorder"
    "HOL-Library.Code_Target_Numeral"
begin

text \<open>
  The vocabulary shared by the component theories:
  \<^item> machine words, byte strings and their little- and big-endian codings (Rust's
    \<^verbatim>\<open>to_le_bytes\<close>, \<^verbatim>\<open>from_be_bytes\<close>, \<dots>);
  \<^item> saturating arithmetic and \<^verbatim>\<open>clamp\<close>;
  \<^item> instants and durations, counted in nanoseconds;
  \<^item> \<^verbatim>\<open>HashMap\<close>/\<^verbatim>\<open>BTreeMap\<close> as association lists with distinct keys: the order of the list is
    the iteration order of the container, about which no theorem assumes anything;
  \<^item> the interfaces several components share, as locales: invariant machines, wire codecs and
    tables whose entries expire.
\<close>

unbundle bit_operations_syntax

named_theorems wire_simps \<open>lengths and slices of encoded fields\<close>
named_theorems table_simps \<open>look-ups in updated tables\<close>

section \<open>Words and bytes\<close>

type_synonym u8 = "8 word"
type_synonym u16 = "16 word"
type_synonym u32 = "32 word"
type_synonym u64 = "64 word"
type_synonym u128 = "128 word"
type_synonym bytes = "8 word list"

fun le_bytes :: "nat \<Rightarrow> nat \<Rightarrow> bytes" where
  "le_bytes 0 n = []"
| "le_bytes (Suc k) n = word_of_nat (n mod 256) # le_bytes k (n div 256)"

fun le_nat :: "bytes \<Rightarrow> nat" where
  "le_nat [] = 0"
| "le_nat (b # bs) = unat b + 256 * le_nat bs"

definition be_bytes :: "nat \<Rightarrow> nat \<Rightarrow> bytes" where
  "be_bytes k n = rev (le_bytes k n)"

definition be_nat :: "bytes \<Rightarrow> nat" where
  "be_nat bs = le_nat (rev bs)"

definition u16_to_le :: "u16 \<Rightarrow> bytes" where "u16_to_le w = le_bytes 2 (unat w)"
definition u32_to_le :: "u32 \<Rightarrow> bytes" where "u32_to_le w = le_bytes 4 (unat w)"
definition u64_to_le :: "u64 \<Rightarrow> bytes" where "u64_to_le w = le_bytes 8 (unat w)"
definition u16_to_be :: "u16 \<Rightarrow> bytes" where "u16_to_be w = be_bytes 2 (unat w)"
definition u32_to_be :: "u32 \<Rightarrow> bytes" where "u32_to_be w = be_bytes 4 (unat w)"
definition u64_to_be :: "u64 \<Rightarrow> bytes" where "u64_to_be w = be_bytes 8 (unat w)"
definition u16_from_le :: "bytes \<Rightarrow> u16" where "u16_from_le bs = word_of_nat (le_nat bs)"
definition u32_from_le :: "bytes \<Rightarrow> u32" where "u32_from_le bs = word_of_nat (le_nat bs)"
definition u64_from_le :: "bytes \<Rightarrow> u64" where "u64_from_le bs = word_of_nat (le_nat bs)"
definition u16_from_be :: "bytes \<Rightarrow> u16" where "u16_from_be bs = word_of_nat (be_nat bs)"
definition u32_from_be :: "bytes \<Rightarrow> u32" where "u32_from_be bs = word_of_nat (be_nat bs)"
definition u64_from_be :: "bytes \<Rightarrow> u64" where "u64_from_be bs = word_of_nat (be_nat bs)"

text \<open>ASCII literals of the source (\<^verbatim>\<open>b"MCTS"\<close>) as byte strings.\<close>

definition ascii :: "string \<Rightarrow> bytes" where
  "ascii s = map (\<lambda>c. word_of_nat (of_char c)) s"

section \<open>Saturating arithmetic\<close>

text \<open>
  \<^verbatim>\<open>saturating_add\<close> on a \<open>w\<close>-bit unsigned integer held as a natural number; \<^verbatim>\<open>saturating_sub\<close> is
  subtraction of naturals.
\<close>

definition sat_add :: "nat \<Rightarrow> nat \<Rightarrow> nat \<Rightarrow> nat" where
  "sat_add w a b = min (a + b) (2 ^ w - 1)"

definition clamp :: "'a::linorder \<Rightarrow> 'a \<Rightarrow> 'a \<Rightarrow> 'a" where
  "clamp lo hi x = (if x < lo then lo else if hi < x then hi else x)"

text \<open>A cast to \<^verbatim>\<open>i32\<close> and the wrap-around of its arithmetic.\<close>

definition as_i32 :: "int \<Rightarrow> int" where
  "as_i32 x = (x + 2 ^ 31) mod 2 ^ 32 - 2 ^ 31"

section \<open>Time\<close>

text \<open>
  \<^verbatim>\<open>Instant\<close> and \<^verbatim>\<open>Duration\<close> have nanosecond resolution. \<^verbatim>\<open>Instant::now()\<close> is an argument of
  the operation that calls it. \<^verbatim>\<open>duration_since\<close> and \<^verbatim>\<open>saturating_duration_since\<close> are both zero
  when the argument is later, as subtraction of naturals is.
\<close>

type_synonym instant = nat
type_synonym duration = nat

definition from_micros :: "nat \<Rightarrow> duration" where "from_micros n = n * 1000"
definition from_millis :: "nat \<Rightarrow> duration" where "from_millis n = n * 1000000"
definition from_secs :: "nat \<Rightarrow> duration" where "from_secs n = n * 1000000000"
definition as_millis :: "duration \<Rightarrow> nat" where "as_millis d = d div 1000000"
definition as_micros :: "duration \<Rightarrow> nat" where "as_micros d = d div 1000"
definition duration_since :: "instant \<Rightarrow> instant \<Rightarrow> duration" where
  "duration_since now t = now - t"

section \<open>Tables\<close>

type_synonym ('k, 'v) table = "('k \<times> 'v) list"

definition tab_get :: "('k, 'v) table \<Rightarrow> 'k \<Rightarrow> 'v option" where
  "tab_get t k = map_of t k"

definition tab_put :: "'k \<Rightarrow> 'v \<Rightarrow> ('k, 'v) table \<Rightarrow> ('k, 'v) table" where
  "tab_put k v t = AList.update k v t"

definition tab_del :: "'k \<Rightarrow> ('k, 'v) table \<Rightarrow> ('k, 'v) table" where
  "tab_del k t = filter (\<lambda>e. fst e \<noteq> k) t"

definition tab_retain :: "('k \<Rightarrow> 'v \<Rightarrow> bool) \<Rightarrow> ('k, 'v) table \<Rightarrow> ('k, 'v) table" where
  "tab_retain p t = filter (\<lambda>(k, v). p k v) t"

definition tab_map :: "('v \<Rightarrow> 'v) \<Rightarrow> ('k, 'v) table \<Rightarrow> ('k, 'v) table" where
  "tab_map f t = map (\<lambda>(k, v). (k, f v)) t"

definition tab_keys :: "('k, 'v) table \<Rightarrow> 'k list" where
  "tab_keys t = map fst t"

definition tab_vals :: "('k, 'v) table \<Rightarrow> 'v list" where
  "tab_vals t = map snd t"

definition tab_ok :: "('k, 'v) table \<Rightarrow> bool" where
  "tab_ok t = distinct (map fst t)"

text \<open>\<^verbatim>\<open>iter().min_by_key(f)\<close>: the first of the minimal elements.\<close>

fun min_by :: "('a \<Rightarrow> 'b::linorder) \<Rightarrow> 'a list \<Rightarrow> 'a option" where
  "min_by f [] = None"
| "min_by f (x # xs) =
     (case min_by f xs of None \<Rightarrow> Some x | Some y \<Rightarrow> if f x \<le> f y then Some x else Some y)"

text \<open>\<open>n\<close> elements of a ring buffer from a start index on, as the source's
  \<^verbatim>\<open>(start + i) % n\<close> loops read them.\<close>

definition ring_take :: "'a list \<Rightarrow> nat \<Rightarrow> nat \<Rightarrow> 'a list" where
  "ring_take xs start n = map (\<lambda>i. xs ! ((start + i) mod length xs)) [0..<n]"

section \<open>Lemmas on bytes\<close>

lemma unat_bound: "unat (w :: 'a::len word) < 2 ^ LENGTH('a)"
  by (rule unsigned_less)

lemma length_le_bytes [simp, wire_simps]: "length (le_bytes k n) = k"
  by (induction k arbitrary: n) auto

lemma length_be_bytes [simp, wire_simps]: "length (be_bytes k n) = k"
  by (simp add: be_bytes_def)

lemma le_nat_less: "le_nat bs < 256 ^ length bs"
proof (induction bs)
  case Nil
  then show ?case by simp
next
  case (Cons b bs)
  have "unat b < 256" using unat_bound [of b] by simp
  with Cons show ?case by simp
qed

lemma be_nat_less: "be_nat bs < 256 ^ length bs"
  using le_nat_less [of "rev bs"] by (simp add: be_nat_def)

lemma le_nat_le_bytes: "le_nat (le_bytes k n) = n mod 256 ^ k"
proof (induction k arbitrary: n)
  case 0
  then show ?case by simp
next
  case (Suc k)
  have "unat (word_of_nat (n mod 256) :: u8) = n mod 256"
    by (simp add: unat_of_nat)
  then show ?case
    using Suc [of "n div 256"] by (simp add: mod_mult2_eq)
qed

lemma le_bytes_le_nat: "le_bytes (length bs) (le_nat bs) = bs"
proof (induction bs)
  case Nil
  then show ?case by simp
next
  case (Cons b bs)
  have b: "unat b < 256" using unat_bound [of b] by simp
  then have "(unat b + 256 * le_nat bs) mod 256 = unat b"
    and "(unat b + 256 * le_nat bs) div 256 = le_nat bs" by auto
  with Cons show ?case by simp
qed

lemma be_nat_be_bytes: "be_nat (be_bytes k n) = n mod 256 ^ k"
  by (simp add: be_nat_def be_bytes_def le_nat_le_bytes)

lemma be_bytes_be_nat: "be_bytes (length bs) (be_nat bs) = bs"
  using le_bytes_le_nat [of "rev bs"] by (simp add: be_bytes_def be_nat_def)

lemma le_bytes_inj: "le_bytes k m = le_bytes k n \<Longrightarrow> m mod 256 ^ k = n mod 256 ^ k"
  by (metis le_nat_le_bytes)

lemmas word_coding_defs =
  u16_to_le_def u32_to_le_def u64_to_le_def u16_to_be_def u32_to_be_def u64_to_be_def
  u16_from_le_def u32_from_le_def u64_from_le_def u16_from_be_def u32_from_be_def u64_from_be_def

lemma word_coding_length [simp, wire_simps]:
  "length (u16_to_le a) = 2" "length (u32_to_le b) = 4" "length (u64_to_le c) = 8"
  "length (u16_to_be a) = 2" "length (u32_to_be b) = 4" "length (u64_to_be c) = 8"
  by (simp_all add: word_coding_defs)

lemma word_coding_roundtrip [simp]:
  "u16_from_le (u16_to_le a) = a" "u32_from_le (u32_to_le b) = b" "u64_from_le (u64_to_le c) = c"
  "u16_from_be (u16_to_be a) = a" "u32_from_be (u32_to_be b) = b" "u64_from_be (u64_to_be c) = c"
  using unat_bound [of a] unat_bound [of b] unat_bound [of c]
  by (simp_all add: word_coding_defs le_nat_le_bytes be_nat_be_bytes)

lemma word_decoding_roundtrip:
  "length bs = 2 \<Longrightarrow> u16_to_le (u16_from_le bs) = bs"
  "length bs = 4 \<Longrightarrow> u32_to_le (u32_from_le bs) = bs"
  "length bs = 8 \<Longrightarrow> u64_to_le (u64_from_le bs) = bs"
  "length bs = 2 \<Longrightarrow> u16_to_be (u16_from_be bs) = bs"
  "length bs = 4 \<Longrightarrow> u32_to_be (u32_from_be bs) = bs"
  "length bs = 8 \<Longrightarrow> u64_to_be (u64_from_be bs) = bs"
  using le_nat_less [of bs] be_nat_less [of bs] le_bytes_le_nat [of bs] be_bytes_be_nat [of bs]
  by (auto simp: word_coding_defs unat_of_nat)

lemma length_ascii [simp, wire_simps]: "length (ascii s) = length s"
  by (simp add: ascii_def)

section \<open>Lemmas on arithmetic\<close>

lemma clamp_bounds: "lo \<le> hi \<Longrightarrow> lo \<le> clamp lo hi x \<and> clamp lo hi x \<le> hi"
  by (auto simp: clamp_def)

lemma clamp_lower [simp]: "lo \<le> hi \<Longrightarrow> lo \<le> clamp lo hi x"
  by (auto simp: clamp_def)

lemma clamp_upper [simp]: "lo \<le> hi \<Longrightarrow> clamp lo hi x \<le> hi"
  by (auto simp: clamp_def)

lemma clamp_id: "lo \<le> x \<Longrightarrow> x \<le> hi \<Longrightarrow> clamp lo hi x = x"
  by (auto simp: clamp_def)

lemma clamp_mono: "lo \<le> hi \<Longrightarrow> x \<le> y \<Longrightarrow> clamp lo hi x \<le> clamp lo hi y"
  by (auto simp: clamp_def)

lemma sat_add_le: "sat_add w a b \<le> a + b"
  by (simp add: sat_add_def)

lemma sat_add_less: "sat_add w a b < 2 ^ w"
  by (simp add: sat_add_def min_less_iff_disj)

lemma sat_add_exact: "a + b < 2 ^ w \<Longrightarrow> sat_add w a b = a + b"
  by (simp add: sat_add_def)

section \<open>Lemmas on tables\<close>

lemma tab_get_empty [simp, table_simps]: "tab_get [] k = None"
  by (simp add: tab_get_def)

lemma tab_get_put [table_simps]: "tab_get (tab_put k v t) j = (if j = k then Some v else tab_get t j)"
  by (simp add: tab_get_def tab_put_def update_conv')

lemma tab_get_del [table_simps]: "tab_get (tab_del k t) j = (if j = k then None else tab_get t j)"
  by (induction t) (auto simp: tab_get_def tab_del_def)

lemma tab_del_put: "tab_del k (tab_put k v t) = tab_del k t"
  by (induction t) (auto simp: tab_put_def tab_del_def)

lemma tab_get_retain [table_simps]:
  "tab_ok t \<Longrightarrow> tab_get (tab_retain p t) k =
     (case tab_get t k of None \<Rightarrow> None | Some v \<Rightarrow> if p k v then Some v else None)"
proof (induction t)
  case Nil
  then show ?case by (simp add: tab_get_def tab_retain_def)
next
  case (Cons e t)
  obtain a b where e: "e = (a, b)" by (cases e)
  from Cons.prems e have "tab_ok t" and "a \<notin> fst ` set t" by (auto simp: tab_ok_def)
  then show ?case
    using Cons.IH e by (auto simp: tab_get_def tab_retain_def map_of_eq_None_iff split: option.splits)
qed

lemma tab_get_map [table_simps]: "tab_get (tab_map f t) k = map_option f (tab_get t k)"
  by (induction t) (auto simp: tab_get_def tab_map_def)

lemma tab_ok_empty [simp, intro]: "tab_ok []"
  by (simp add: tab_ok_def)

lemma tab_ok_put [simp, intro]: "tab_ok t \<Longrightarrow> tab_ok (tab_put k v t)"
  by (simp add: tab_ok_def tab_put_def distinct_update)

lemma tab_ok_filter [simp, intro]: "tab_ok t \<Longrightarrow> tab_ok (filter p t)"
  by (induction t) (auto simp: tab_ok_def)

lemma tab_ok_del [simp, intro]: "tab_ok t \<Longrightarrow> tab_ok (tab_del k t)"
  by (simp add: tab_del_def)

lemma tab_ok_retain [simp, intro]: "tab_ok t \<Longrightarrow> tab_ok (tab_retain p t)"
  by (simp add: tab_retain_def)

lemma tab_keys_map [simp]: "tab_keys (tab_map f t) = tab_keys t"
  by (induction t) (auto simp: tab_keys_def tab_map_def)

lemma tab_ok_keys: "tab_ok t = distinct (tab_keys t)"
  by (simp add: tab_ok_def tab_keys_def)

lemma tab_ok_map [simp, intro]: "tab_ok t \<Longrightarrow> tab_ok (tab_map f t)"
  by (simp add: tab_ok_keys)

lemma tab_get_mem: "tab_get t k = Some v \<Longrightarrow> (k, v) \<in> set t"
  by (simp add: tab_get_def map_of_SomeD)

lemma tab_mem_get: "tab_ok t \<Longrightarrow> (k, v) \<in> set t \<Longrightarrow> tab_get t k = Some v"
  by (simp add: tab_get_def tab_ok_def)

lemma tab_mem_iff: "tab_ok t \<Longrightarrow> (k, v) \<in> set t \<longleftrightarrow> tab_get t k = Some v"
  by (auto intro: tab_mem_get tab_get_mem)

lemma tab_keys_iff: "k \<in> set (tab_keys t) \<longleftrightarrow> tab_get t k \<noteq> None"
  by (force simp: tab_keys_def tab_get_def map_of_eq_None_iff)

lemma length_tab_put: "length (tab_put k v t) = (if tab_get t k = None then Suc (length t) else length t)"
  by (induction t) (auto simp: tab_put_def tab_get_def)

lemma length_tab_del_le: "length (tab_del k t) \<le> length t"
  by (simp add: tab_del_def)

lemma length_tab_del:
  "tab_ok t \<Longrightarrow> tab_get t k = Some v \<Longrightarrow> Suc (length (tab_del k t)) = length t"
proof (induction t)
  case Nil
  then show ?case by simp
next
  case (Cons e t)
  obtain a b where e: "e = (a, b)" by (cases e)
  show ?case
  proof (cases "a = k")
    case True
    with Cons.prems e have "\<forall>x \<in> set t. fst x \<noteq> k" by (auto simp: tab_ok_def)
    then have "filter (\<lambda>x. fst x \<noteq> k) t = t" by simp
    with True e show ?thesis by (simp add: tab_del_def)
  next
    case False
    with Cons.prems e have "tab_ok t" and "tab_get t k = Some v"
      by (auto simp: tab_ok_def tab_get_def)
    from Cons.IH [OF this] False e show ?thesis by (simp add: tab_del_def)
  qed
qed

lemma set_tab_put: "tab_ok t \<Longrightarrow>
    set (tab_put k v t) = insert (k, v) {e \<in> set t. fst e \<noteq> k}"
proof -
  assume ok: "tab_ok t"
  then have ok': "tab_ok (tab_put k v t)" by simp
  show ?thesis
    using ok ok' by (auto simp: tab_mem_iff tab_get_put split: if_splits)
qed

lemma set_tab_del: "set (tab_del k t) = {e \<in> set t. fst e \<noteq> k}"
  by (auto simp: tab_del_def)

lemma set_tab_retain: "set (tab_retain p t) = {e \<in> set t. p (fst e) (snd e)}"
  by (auto simp: tab_retain_def)

section \<open>Lemmas on searches\<close>

lemma min_by_None [simp]: "min_by f xs = None \<longleftrightarrow> xs = []"
  by (cases xs) (auto split: option.splits)

lemma min_by_Some: "min_by f xs = Some m \<Longrightarrow> m \<in> set xs \<and> (\<forall>x \<in> set xs. f m \<le> f x)"
  by (induction xs arbitrary: m) (fastforce split: option.splits if_splits)+

lemma mem_map_filter: "x \<in> set (List.map_filter f xs) \<longleftrightarrow> (\<exists>y \<in> set xs. f y = Some x)"
  by (force simp: List.map_filter_def)

lemma length_ring_take [simp]: "length (ring_take xs start n) = n"
  by (simp add: ring_take_def)

lemma set_ring_take: "xs \<noteq> [] \<Longrightarrow> set (ring_take xs start n) \<subseteq> set xs"
  by (auto simp: ring_take_def)

lemma ring_index_le:
  assumes "i \<le> j" and "j < (n::nat)" and "(s + i) mod n = (s + j) mod n"
  shows "i = j"
proof -
  from assms(1,3) have "n dvd j - i"
    using mod_eq_dvd_iff_nat [of "s + i" "s + j" n] by simp
  with assms(1,2) show ?thesis by (auto dest: dvd_imp_le)
qed

lemma ring_index_inj:
  assumes "i < (n::nat)" and "j < n" and "(s + i) mod n = (s + j) mod n"
  shows "i = j"
  using assms ring_index_le [of i j n s] ring_index_le [of j i n s] by (cases "i \<le> j") auto

lemma distinct_ring_take:
  assumes "distinct xs" and "n \<le> length xs"
  shows "distinct (ring_take xs start n)"
proof (cases "xs = []")
  case True
  with assms(2) show ?thesis by (simp add: ring_take_def)
next
  case False
  have "inj_on (\<lambda>i. xs ! ((start + i) mod length xs)) {0..<n}"
  proof (rule inj_onI)
    fix i j
    assume ij: "i \<in> {0..<n}" "j \<in> {0..<n}"
      and eq: "xs ! ((start + i) mod length xs) = xs ! ((start + j) mod length xs)"
    from eq assms(1) False have "(start + i) mod length xs = (start + j) mod length xs"
      by (simp add: nth_eq_iff_index_eq)
    then show "i = j"
      using ij assms(2) by (auto intro: ring_index_inj [of i "length xs" j start])
  qed
  then show ?thesis by (simp add: ring_take_def distinct_map)
qed

lemma ring_take_all:
  assumes "xs \<noteq> []"
  shows "set (ring_take xs start (length xs)) = set xs"
proof -
  have "(\<lambda>i. (start + i) mod length xs) ` {0..<length xs} = {0..<length xs}"
  proof (rule endo_inj_surj)
    show "(\<lambda>i. (start + i) mod length xs) ` {0..<length xs} \<subseteq> {0..<length xs}"
      using assms by auto
    show "inj_on (\<lambda>i. (start + i) mod length xs) {0..<length xs}"
      by (auto intro!: inj_onI intro: ring_index_inj)
  qed simp
  then have "(!) xs ` (\<lambda>i. (start + i) mod length xs) ` {0..<length xs} = (!) xs ` {0..<length xs}"
    by simp
  then have "set (ring_take xs start (length xs)) = (!) xs ` {0..<length xs}"
    by (simp add: ring_take_def image_image)
  also have "\<dots> = set xs" by (auto simp: set_conv_nth)
  finally show ?thesis .
qed

section \<open>Interfaces\<close>

text \<open>
  A component whose every operation keeps an invariant. \<open>run\<close> plays a sequence of operations;
  the invariant then holds after any sequence of them.
\<close>

locale invariant_machine =
  fixes step :: "'op \<Rightarrow> 's \<Rightarrow> 's"
    and inv :: "'s \<Rightarrow> bool"
  assumes step_inv: "inv s \<Longrightarrow> inv (step op s)"
begin

lemma run_inv: "inv s \<Longrightarrow> inv (fold step ops s)"
  by (induction ops arbitrary: s) (auto intro: step_inv)

lemma run_prefix_inv: "inv s \<Longrightarrow> inv (fold step (take n ops) s)"
  by (rule run_inv)

end

text \<open>
  A wire codec: decoding inverts encoding on the encodable values. It is canonical when
  nothing but an encoding decodes.
\<close>

locale wire_codec =
  fixes valid :: "'a \<Rightarrow> bool"
    and enc :: "'a \<Rightarrow> bytes"
    and dec :: "bytes \<Rightarrow> 'a option"
  assumes dec_enc: "valid x \<Longrightarrow> dec (enc x) = Some x"
begin

lemma enc_inj: "valid x \<Longrightarrow> valid y \<Longrightarrow> enc x = enc y \<Longrightarrow> x = y"
  by (metis dec_enc option.inject)

end

locale canonical_codec = wire_codec +
  assumes dec_sound: "dec bs = Some x \<Longrightarrow> valid x \<and> enc x = bs"
begin

lemma dec_iff: "dec bs = Some x \<longleftrightarrow> valid x \<and> enc x = bs"
  using dec_sound dec_enc by blast

lemma dec_inj: "dec bs = Some x \<Longrightarrow> dec cs = Some x \<Longrightarrow> bs = cs"
  by (simp add: dec_iff)

end

text \<open>
  A table whose entries expire: \<open>live now v\<close> only ever turns from true to false as time passes.
  Dropping the dead entries never changes what a reader sees from then on.
\<close>

locale expiring_table =
  fixes live :: "instant \<Rightarrow> 'v \<Rightarrow> bool"
  assumes live_antimono: "now \<le> later \<Longrightarrow> live later v \<Longrightarrow> live now v"
begin

lemma prune_get:
  "tab_ok t \<Longrightarrow> tab_get (tab_retain (\<lambda>_. live now) t) k =
     (case tab_get t k of None \<Rightarrow> None | Some v \<Rightarrow> if live now v then Some v else None)"
  by (simp add: tab_get_retain)

lemma prune_transparent:
  assumes "tab_ok t" and "now \<le> later"
  shows "(\<exists>v. tab_get (tab_retain (\<lambda>_. live now) t) k = Some v \<and> live later v \<and> P v) \<longleftrightarrow>
         (\<exists>v. tab_get t k = Some v \<and> live later v \<and> P v)"
  using assms live_antimono by (auto simp: prune_get split: option.splits)

lemma prune_idem:
  "now \<le> later \<Longrightarrow>
     tab_retain (\<lambda>_. live later) (tab_retain (\<lambda>_. live now) t) = tab_retain (\<lambda>_. live later) t"
  using live_antimono by (induction t) (auto simp: tab_retain_def)

end

end
