(* ===== verification/Packet.thy ===== *)
theory Packet
  imports Prelude
begin

text \<open>
  \<^verbatim>\<open>src/src/net/packet.rs\<close>: the datagram framing. A datagram is either a control frame, whose
  first byte is \<^verbatim>\<open>'M'\<close> and whose first four bytes are an ASCII tag, or a compact frame with one
  type byte; the compound control body \<^verbatim>\<open>MCTL\<close> carries a flag word and a virtual address.
  Both framings are shown to be canonical codecs: nothing but the frame of a value parses to it.
\<close>

section \<open>Constants\<close>

definition COMPACT_HEADER_LEN :: nat where "COMPACT_HEADER_LEN = 1"
definition CONTROL_TAG_LEN :: nat where "CONTROL_TAG_LEN = 4"
definition FEC_COMPACT_HEADER_LEN :: nat where "FEC_COMPACT_HEADER_LEN = 10"
definition WIRE_COUNTER_LEN :: nat where "WIRE_COUNTER_LEN = 6"
definition DATA_TAG_LEN :: nat where "DATA_TAG_LEN = 16"
definition MDAT_WIRE_OVERHEAD :: nat where "MDAT_WIRE_OVERHEAD = COMPACT_HEADER_LEN"
definition MENC_WIRE_OVERHEAD :: nat where
  "MENC_WIRE_OVERHEAD = COMPACT_HEADER_LEN + WIRE_COUNTER_LEN + DATA_TAG_LEN"
definition UNDERLAY_IPV4_UDP_OVERHEAD :: nat where "UNDERLAY_IPV4_UDP_OVERHEAD = 28"
definition MCTL_FLAG_HB :: u16 where "MCTL_FLAG_HB = 1"
definition MCTL_FLAG_HOL :: u16 where "MCTL_FLAG_HOL = 2"

text \<open>The control tags, in the order of the source.\<close>

definition control_tags :: "bytes list" where
  "control_tags = map ascii
     [''MKPL'', ''MPJN'', ''MPJA'', ''MPRX'', ''MHOL'', ''MHAC'', ''MPMT'', ''MPAR'', ''MCLG'',
      ''MLEA'', ''MSTR'', ''MERR'', ''MBRK'', ''MRDY'', ''MCTS'', ''MCTL'', ''MPHI'', ''MPHR'',
      ''MPHO'', ''MPPA'']"

section \<open>Frames\<close>

text \<open>\<^verbatim>\<open>prxy_forwarded_ttl\<close>: a proxied packet makes one hop.\<close>

definition prxy_forwarded_ttl :: "u64 \<Rightarrow> u64 option" where
  "prxy_forwarded_ttl inbound_ttl = (if min inbound_ttl 1 > 0 then Some 0 else None)"

datatype CompactPacketType =
  Data | Encrypted | Fec | Reliable | Ack | JoinAck | Ping | Pong

fun to_byte :: "CompactPacketType \<Rightarrow> u8" where
  "to_byte Data = 1"
| "to_byte Encrypted = 2"
| "to_byte Fec = 3"
| "to_byte Reliable = 4"
| "to_byte Ack = 5"
| "to_byte JoinAck = 6"
| "to_byte Ping = 7"
| "to_byte Pong = 8"

definition try_from_byte :: "u8 \<Rightarrow> CompactPacketType option" where
  "try_from_byte b =
     (if b = 1 then Some Data
      else if b = 2 then Some Encrypted
      else if b = 3 then Some Fec
      else if b = 4 then Some Reliable
      else if b = 5 then Some Ack
      else if b = 6 then Some JoinAck
      else if b = 7 then Some Ping
      else if b = 8 then Some Pong
      else None)"

datatype DatagramKind = Compact CompactPacketType bytes | Control bytes bytes

text \<open>The byte literal \<^verbatim>\<open>b'M'\<close>.\<close>

definition CONTROL_BYTE :: u8 where "CONTROL_BYTE = 0x4D"

fun parse_datagram :: "bytes \<Rightarrow> DatagramKind option" where
  "parse_datagram [] = None"
| "parse_datagram (b # rest) =
     (if b = CONTROL_BYTE then
        if length (b # rest) < CONTROL_TAG_LEN then None
        else Some (Control (take CONTROL_TAG_LEN (b # rest)) (drop CONTROL_TAG_LEN (b # rest)))
      else case try_from_byte b of
        None \<Rightarrow> None
      | Some ty \<Rightarrow> Some (Compact ty rest))"

definition frame_compact :: "CompactPacketType \<Rightarrow> bytes \<Rightarrow> bytes" where
  "frame_compact ty body = to_byte ty # body"

fun parse_compact :: "bytes \<Rightarrow> (CompactPacketType \<times> bytes) option" where
  "parse_compact [] = None"
| "parse_compact (b # rest) =
     (case try_from_byte b of None \<Rightarrow> None | Some ty \<Rightarrow> Some (ty, rest))"

definition frame_with_tag :: "bytes \<Rightarrow> bytes \<Rightarrow> bytes" where
  "frame_with_tag tag body = tag @ body"

definition parse_tag :: "bytes \<Rightarrow> (bytes \<times> bytes) option" where
  "parse_tag buf = (if length buf < 4 then None else Some (take 4 buf, drop 4 buf))"

section \<open>Compound control bodies\<close>

record MctlParsed =
  mctl_flags :: u16
  mctl_vip :: "bytes option"
  signaling_ok :: bool

definition encode_mctl :: "u16 \<Rightarrow> bytes option \<Rightarrow> bytes option" where
  "encode_mctl flags0 vip =
     (if flags0 = 0 then None
      else let flags = flags0 AND (MCTL_FLAG_HB OR MCTL_FLAG_HOL) in
        if flags = 0 then None
        else let need_vip = (flags AND (MCTL_FLAG_HB OR MCTL_FLAG_HOL) \<noteq> 0) in
          if need_vip then
            (case vip of
               None \<Rightarrow> None
             | Some v \<Rightarrow>
                 if v = [] \<or> length v > 255 then None
                 else Some (u16_to_le flags @ [word_of_nat (length v)] @ v))
          else Some (u16_to_le flags))"

definition parse_mctl :: "bytes \<Rightarrow> MctlParsed option" where
  "parse_mctl body =
     (if length body < 2 then None
      else let raw_flags = u16_from_le [body ! 0, body ! 1] in
        if raw_flags = 0 then None
        else let flags = raw_flags AND (MCTL_FLAG_HB OR MCTL_FLAG_HOL) in
          if flags = 0 then None
          else let need_vip = (flags AND (MCTL_FLAG_HB OR MCTL_FLAG_HOL) \<noteq> 0);
                   bad = \<lparr>mctl_flags = flags, mctl_vip = None, signaling_ok = False\<rparr> in
            if need_vip then
              if 2 \<ge> length body then Some bad
              else let vip_len = unat (body ! 2) in
                if vip_len = 0 \<or> 3 + vip_len > length body then Some bad
                else Some \<lparr>mctl_flags = flags, mctl_vip = Some (take vip_len (drop 3 body)),
                           signaling_ok = True\<rparr>
            else Some \<lparr>mctl_flags = flags, mctl_vip = None, signaling_ok = True\<rparr>)"

section \<open>Framing is a canonical codec\<close>

lemma try_from_byte_to_byte [simp]: "try_from_byte (to_byte ty) = Some ty"
  by (cases ty) (simp_all add: try_from_byte_def)

lemma try_from_byte_Some: "try_from_byte b = Some ty \<longleftrightarrow> b = to_byte ty"
  by (cases ty) (auto simp: try_from_byte_def split: if_splits)

lemma to_byte_not_control [simp]: "to_byte ty \<noteq> CONTROL_BYTE"
  by (cases ty) (simp_all add: CONTROL_BYTE_def)

lemma to_byte_range: "1 \<le> unat (to_byte ty) \<and> unat (to_byte ty) \<le> 8"
  by (cases ty) simp_all

interpretation compact_frame: canonical_codec
  "\<lambda>_. True" "\<lambda>(ty, body). frame_compact ty body" parse_compact
proof unfold_locales
  fix x :: "CompactPacketType \<times> bytes"
  show "parse_compact ((\<lambda>(ty, body). frame_compact ty body) x) = Some x"
    by (cases x) (simp add: frame_compact_def)
next
  fix bs x
  assume "parse_compact bs = Some x"
  then show "True \<and> (\<lambda>(ty, body). frame_compact ty body) x = bs"
    by (cases bs) (auto simp: frame_compact_def try_from_byte_Some split: option.splits)
qed

interpretation tag_frame: canonical_codec
  "\<lambda>(tag, body). length tag = 4" "\<lambda>(tag, body). frame_with_tag tag body" parse_tag
  by unfold_locales (auto simp: frame_with_tag_def parse_tag_def split: if_splits)

text \<open>
  What can be sent as a datagram: any compact frame, and a control frame whose tag is four bytes
  long and starts with \<^verbatim>\<open>'M'\<close>.
\<close>

fun datagram_valid :: "DatagramKind \<Rightarrow> bool" where
  "datagram_valid (Compact ty body) = True"
| "datagram_valid (Control tag body) = (length tag = CONTROL_TAG_LEN \<and> hd tag = CONTROL_BYTE)"

fun datagram_frame :: "DatagramKind \<Rightarrow> bytes" where
  "datagram_frame (Compact ty body) = frame_compact ty body"
| "datagram_frame (Control tag body) = frame_with_tag tag body"

interpretation datagram: canonical_codec datagram_valid datagram_frame parse_datagram
proof unfold_locales
  fix x
  assume v: "datagram_valid x"
  show "parse_datagram (datagram_frame x) = Some x"
  proof (cases x)
    case (Compact ty body)
    then show ?thesis by (simp add: frame_compact_def)
  next
    case (Control tag body)
    with v obtain b t where "tag = b # t" "b = CONTROL_BYTE" "length t = 3"
      by (cases tag) (auto simp: CONTROL_TAG_LEN_def)
    with Control show ?thesis
      by (simp add: frame_with_tag_def CONTROL_TAG_LEN_def numeral_eq_Suc)
  qed
next
  fix bs x
  assume p: "parse_datagram bs = Some x"
  then obtain b rest where bs: "bs = b # rest" by (cases bs) auto
  show "datagram_valid x \<and> datagram_frame x = bs"
  proof (cases "b = CONTROL_BYTE")
    case True
    with p bs show ?thesis
      by (auto simp: frame_with_tag_def CONTROL_TAG_LEN_def hd_take split: if_splits)
  next
    case False
    with p bs show ?thesis
      by (auto simp: frame_compact_def try_from_byte_Some split: option.splits)
  qed
qed

lemma control_tags_distinct: "distinct control_tags"
  by code_simp

lemma control_tags_valid: "t \<in> set control_tags \<Longrightarrow> datagram_valid (Control t body)"
proof -
  have "list_all (\<lambda>t. length t = CONTROL_TAG_LEN \<and> hd t = CONTROL_BYTE) control_tags"
    by code_simp
  then show "t \<in> set control_tags \<Longrightarrow> datagram_valid (Control t body)"
    by (auto simp: list_all_iff)
qed

section \<open>Compound control bodies round-trip\<close>

lemma u16_le_two_bytes: "u16_to_le w = [a, b] \<Longrightarrow> u16_from_le [a, b] = w"
  using word_coding_roundtrip(1) [of w] by simp

lemma u16_to_le_cons: "\<exists>a b. u16_to_le w = [a, b] \<and> u16_from_le [a, b] = w"
proof -
  have "length (u16_to_le w) = 2" by simp
  then obtain a b where "u16_to_le w = [a, b]"
    by (metis (no_types, lifting) Suc_length_conv length_0_conv numeral_2_eq_2)
  then show ?thesis using u16_le_two_bytes by blast
qed

lemma encode_mctl_Some:
  "encode_mctl flags vip = Some body \<longleftrightarrow>
     (\<exists>v. vip = Some v \<and> v \<noteq> [] \<and> length v \<le> 255 \<and> flags AND 3 \<noteq> 0 \<and>
        body = u16_to_le (flags AND 3) @ [word_of_nat (length v)] @ v)"
proof -
  have three: "MCTL_FLAG_HB OR MCTL_FLAG_HOL = 3"
    by (simp add: MCTL_FLAG_HB_def MCTL_FLAG_HOL_def)
  have idem: "(flags AND 3) AND 3 = flags AND 3" by (simp add: and.assoc)
  show ?thesis
    by (auto simp: encode_mctl_def three idem Let_def split: option.splits)
qed

lemma parse_mctl_encoded:
  assumes "flags AND 3 \<noteq> 0" and "v \<noteq> []" and "length v \<le> 255"
  shows "parse_mctl (u16_to_le (flags AND 3) @ [word_of_nat (length v)] @ v @ rest) =
    Some \<lparr>mctl_flags = flags AND 3, mctl_vip = Some v, signaling_ok = True\<rparr>"
proof -
  have three: "MCTL_FLAG_HB OR MCTL_FLAG_HOL = 3"
    by (simp add: MCTL_FLAG_HB_def MCTL_FLAG_HOL_def)
  obtain a b where ab: "u16_to_le (flags AND 3) = [a, b]" "u16_from_le [a, b] = flags AND 3"
    using u16_to_le_cons by blast
  have len: "unat (word_of_nat (length v) :: u8) = length v"
    using assms(3) by (simp add: unat_of_nat)
  show ?thesis
    using assms ab len by (simp add: parse_mctl_def three Let_def and.assoc numeral_3_eq_3)
qed

section \<open>Properties\<close>

text \<open>
  C14. The datagram framing is unambiguous: a buffer parses to a datagram exactly when it is the
  frame of that datagram, for compact frames of every type and for every four-byte tag that starts
  with \<^verbatim>\<open>'M'\<close>. So no two datagrams share a frame, no frame is read as another kind, and every
  control tag of the protocol is recognised.
\<close>

theorem parse_datagram_canonical:
  "(parse_datagram buf = Some k \<longleftrightarrow> datagram_valid k \<and> datagram_frame k = buf)
   \<and> distinct control_tags
   \<and> list_all (\<lambda>t. parse_datagram (frame_with_tag t body) = Some (Control t body)) control_tags"
  using datagram.dec_iff [of buf k] control_tags_distinct
    datagram.dec_enc [of "Control t body" for t] control_tags_valid
  by (auto simp: list_all_iff)

text \<open>
  A compound control body is emitted exactly when a known flag is set and the virtual address
  is 1 to 255 bytes long; it then parses back, whatever follows it, to the known flags and the
  address, with the signalling section marked good. Unknown flag bits are dropped.
\<close>

theorem mctl_roundtrip:
  "(encode_mctl flags vip \<noteq> None \<longleftrightarrow>
      flags AND 3 \<noteq> 0 \<and> (case vip of None \<Rightarrow> False | Some v \<Rightarrow> v \<noteq> [] \<and> length v \<le> 255))
   \<and> (case encode_mctl flags vip of
        None \<Rightarrow> True
      | Some body \<Rightarrow> parse_mctl (body @ rest) =
          Some \<lparr>mctl_flags = flags AND 3, mctl_vip = vip, signaling_ok = True\<rparr>)"
proof (cases "encode_mctl flags vip")
  case None
  then show ?thesis
    using encode_mctl_Some [of flags vip] by (auto split: option.splits)
next
  case (Some body)
  then show ?thesis
    using encode_mctl_Some [of flags vip body] parse_mctl_encoded by auto
qed

end
