(* ===== verification/Net_Addr.thy ===== *)
theory Net_Addr
  imports Prelude
begin

text \<open>
  The parts of \<^verbatim>\<open>std::net\<close> and of integer formatting the program uses: IPv4 addresses as 32-bit
  words, socket addresses with their derived order, and the textual form of an IPv4 address
  (\<^verbatim>\<open>Display\<close> and \<^verbatim>\<open>FromStr\<close>), which are inverse to each other.
\<close>

section \<open>Decimal text\<close>

definition digit_char :: "nat \<Rightarrow> char" where
  "digit_char d = char_of (48 + d)"

fun show_nat :: "nat \<Rightarrow> string" where
  "show_nat n = (if n < 10 then [digit_char n] else show_nat (n div 10) @ [digit_char (n mod 10)])"

declare show_nat.simps [simp del]

definition is_digit :: "char \<Rightarrow> bool" where
  "is_digit c = (48 \<le> (of_char c :: nat) \<and> (of_char c :: nat) \<le> 57)"

definition digit_val :: "char \<Rightarrow> nat" where
  "digit_val c = of_char c - 48"

definition digits_val :: "string \<Rightarrow> nat" where
  "digits_val s = foldl (\<lambda>a c. 10 * a + digit_val c) 0 s"

text \<open>\<^verbatim>\<open>str::split\<close> on one character.\<close>

fun split_on :: "char \<Rightarrow> string \<Rightarrow> string list" where
  "split_on c [] = [[]]"
| "split_on c (x # xs) =
     (if x = c then [] # split_on c xs
      else case split_on c xs of [] \<Rightarrow> [[x]] | p # ps \<Rightarrow> (x # p) # ps)"

section \<open>IPv4 addresses\<close>

definition octets :: "u32 \<Rightarrow> u8 list" where
  "octets a = be_bytes 4 (unat a)"

definition from_octets :: "bytes \<Rightarrow> u32" where
  "from_octets bs = u32_from_be bs"

definition parse_octet :: "string \<Rightarrow> u8 option" where
  "parse_octet s =
     (if s = [] \<or> length s > 3 \<or> \<not> list_all is_digit s \<or> (length s > 1 \<and> hd s = CHR ''0'') then None
      else if digits_val s > 255 then None
      else Some (word_of_nat (digits_val s)))"

definition parse_ipv4 :: "string \<Rightarrow> u32 option" where
  "parse_ipv4 s =
     (case map parse_octet (split_on CHR ''.'' s) of
        [Some a, Some b, Some c, Some d] \<Rightarrow> Some (from_octets [a, b, c, d])
      | _ \<Rightarrow> None)"

definition show_octets :: "u8 list \<Rightarrow> string" where
  "show_octets os = (case map (\<lambda>b. show_nat (unat b)) os of
     [a, b, c, d] \<Rightarrow> a @ ''.'' @ b @ ''.'' @ c @ ''.'' @ d | _ \<Rightarrow> [])"

definition show_ipv4 :: "u32 \<Rightarrow> string" where
  "show_ipv4 a = show_octets (octets a)"

section \<open>Socket addresses\<close>

text \<open>
  \<^verbatim>\<open>SocketAddr\<close>: every IPv4 address is below every IPv6 one, and the fields are compared in
  order, as the derived \<^verbatim>\<open>Ord\<close> does.
\<close>

datatype SocketAddr = V4 (sa_ip4: u32) (sa_port: u16) | V6 (sa_ip6: u128) (sa_port: u16) u32 u32

definition is_ipv4 :: "SocketAddr \<Rightarrow> bool" where
  "is_ipv4 a = (case a of V4 _ _ \<Rightarrow> True | V6 _ _ _ _ \<Rightarrow> False)"

fun sock_key :: "SocketAddr \<Rightarrow> nat \<times> nat \<times> u16 \<times> u32 \<times> u32" where
  "sock_key (V4 ip port) = (0, unat ip, port, 0, 0)"
| "sock_key (V6 ip port flow scope) = (1, unat ip, port, flow, scope)"

lemma sock_key_inj: "sock_key a = sock_key b \<Longrightarrow> a = b"
  by (cases a; cases b) (auto simp: word_unat_eq_iff)

instantiation SocketAddr :: linorder
begin

definition less_eq_SocketAddr :: "SocketAddr \<Rightarrow> SocketAddr \<Rightarrow> bool" where
  "less_eq_SocketAddr a b = (sock_key a \<le> sock_key b)"

definition less_SocketAddr :: "SocketAddr \<Rightarrow> SocketAddr \<Rightarrow> bool" where
  "less_SocketAddr a b = (sock_key a < sock_key b)"

instance
  by standard (auto simp: less_eq_SocketAddr_def less_SocketAddr_def intro: sock_key_inj)

end

section \<open>Text and addresses are inverse\<close>

lemma of_char_digit [simp]: "d < 10 \<Longrightarrow> (of_char (digit_char d) :: nat) = 48 + d"
  by (simp add: digit_char_def)

lemma digit_char_simps [simp]:
  "d < 10 \<Longrightarrow> is_digit (digit_char d)" "d < 10 \<Longrightarrow> digit_val (digit_char d) = d"
  by (simp_all add: is_digit_def digit_val_def)

lemma show_nat_digits: "list_all is_digit (show_nat n)"
proof (induction n rule: show_nat.induct)
  case (1 n)
  then show ?case by (cases "n < 10") (simp_all add: show_nat.simps [of n])
qed

lemma digits_val_snoc: "digits_val (s @ [c]) = 10 * digits_val s + digit_val c"
  by (simp add: digits_val_def)

lemma digits_val_show_nat: "digits_val (show_nat n) = n"
proof (induction n rule: show_nat.induct)
  case (1 n)
  show ?case
  proof (cases "n < 10")
    case True
    then show ?thesis by (simp add: show_nat.simps [of n] digits_val_def)
  next
    case False
    with 1 show ?thesis by (simp add: show_nat.simps [of n] digits_val_snoc)
  qed
qed

lemma show_nat_inj: "show_nat m = show_nat n \<Longrightarrow> m = n"
  by (metis digits_val_show_nat)

lemma show_nat_nonempty [simp]: "show_nat n \<noteq> []"
  by (cases "n < 10") (simp_all add: show_nat.simps [of n])

lemma show_nat_length: "n < 10 ^ Suc k \<Longrightarrow> length (show_nat n) \<le> Suc k"
proof (induction k arbitrary: n)
  case 0
  then show ?case by (simp add: show_nat.simps [of n])
next
  case (Suc k)
  then have "n div 10 < 10 ^ Suc k" by auto
  with Suc.IH show ?case by (simp add: show_nat.simps [of n])
qed

lemma show_nat_hd: "10 \<le> n \<Longrightarrow> hd (show_nat n) \<noteq> CHR ''0''"
proof (induction n rule: show_nat.induct)
  case (1 n)
  show ?case
  proof (cases "n div 10 < 10")
    case True
    have "digit_char (n div 10) \<noteq> CHR ''0''"
    proof
      assume "digit_char (n div 10) = CHR ''0''"
      then have "(of_char (digit_char (n div 10)) :: nat) = of_char CHR ''0''" by simp
      with True 1(2) show False by simp
    qed
    with True 1(2) show ?thesis by (simp add: show_nat.simps [of n] show_nat.simps [of "n div 10"])
  next
    case False
    with 1 show ?thesis by (simp add: show_nat.simps [of n])
  qed
qed

lemma parse_octet_show [simp]: "parse_octet (show_nat (unat b)) = Some b"
proof -
  have b: "unat b < 256" using unat_bound [of b] by simp
  then have "length (show_nat (unat b)) \<le> 3" using show_nat_length [of "unat b" 2] by simp
  moreover have "length (show_nat (unat b)) > 1 \<Longrightarrow> hd (show_nat (unat b)) \<noteq> CHR ''0''"
    using show_nat_hd [of "unat b"] by (cases "unat b < 10") (auto simp: show_nat.simps [of "unat b"])
  ultimately show ?thesis
    using b by (auto simp: parse_octet_def show_nat_digits digits_val_show_nat)
qed

lemma split_on_nonempty [simp]: "split_on c s \<noteq> []"
  by (induction s) (auto split: list.splits)

lemma split_on_none: "c \<notin> set s \<Longrightarrow> split_on c s = [s]"
  by (induction s) auto

lemma split_on_append: "c \<notin> set s \<Longrightarrow> split_on c (s @ c # t) = s # split_on c t"
  by (induction s) (auto split: list.splits)

lemma is_digit_not_dot: "list_all is_digit s \<Longrightarrow> CHR ''.'' \<notin> set s"
  by (auto simp: list_all_iff is_digit_def)

lemma length_octets [simp]: "length (octets a) = 4"
  by (simp add: octets_def)

lemma from_octets_octets [simp]: "from_octets (octets a) = a"
  using word_coding_roundtrip(5) [of a] by (simp add: from_octets_def octets_def u32_to_be_def)

lemma octets_from_octets: "length bs = 4 \<Longrightarrow> octets (from_octets bs) = bs"
  using word_decoding_roundtrip(5) [of bs] by (simp add: from_octets_def octets_def u32_to_be_def)

lemma show_octets_split:
  "split_on CHR ''.'' (show_octets [a, b, c, d]) = map (\<lambda>x. show_nat (unat x)) [a, b, c, d]"
  by (simp add: show_octets_def split_on_append split_on_none is_digit_not_dot show_nat_digits)

lemma parse_show_octets: "parse_ipv4 (show_octets [a, b, c, d]) = Some (from_octets [a, b, c, d])"
  by (simp add: parse_ipv4_def show_octets_split)

lemma list_len4E: "length xs = 4 \<Longrightarrow> \<exists>a b c d. xs = [a, b, c, d]"
  by (auto simp: numeral_eq_Suc length_Suc_conv)

lemma parse_show_ipv4 [simp]: "parse_ipv4 (show_ipv4 a) = Some a"
proof -
  obtain p q r s where o: "octets a = [p, q, r, s]"
    using list_len4E length_octets by blast
  then have "from_octets [p, q, r, s] = a" using from_octets_octets [of a] by simp
  with o show ?thesis by (simp add: show_ipv4_def parse_show_octets)
qed

lemma show_ipv4_inj: "show_ipv4 a = show_ipv4 b \<Longrightarrow> a = b"
  by (metis option.inject parse_show_ipv4)

text \<open>An address has only one text: parsing is injective where it succeeds.\<close>

lemma digit_char_val: "is_digit c \<Longrightarrow> digit_char (digit_val c) = c \<and> digit_val c < 10"
  by (auto simp: is_digit_def digit_char_def digit_val_def)

lemma digits_val_pos: "s \<noteq> [] \<Longrightarrow> list_all is_digit s \<Longrightarrow> hd s \<noteq> CHR ''0'' \<Longrightarrow> 0 < digits_val s"
proof (induction s rule: rev_induct)
  case (snoc c s)
  show ?case
  proof (cases "s = []")
    case True
    have "of_char c \<noteq> (48 :: nat)"
    proof
      assume "of_char c = (48 :: nat)"
      then have "of_char c = (of_char CHR ''0'' :: nat)" by simp
      then have "c = CHR ''0''" by (simp only: of_char_eq_iff)
      with snoc.prems True show False by simp
    qed
    with snoc.prems True show ?thesis by (auto simp: digits_val_def digit_val_def is_digit_def)
  next
    case False
    with snoc show ?thesis by (simp add: digits_val_snoc)
  qed
qed simp

lemma show_nat_digits_val:
  "s \<noteq> [] \<Longrightarrow> list_all is_digit s \<Longrightarrow> length s = 1 \<or> hd s \<noteq> CHR ''0'' \<Longrightarrow> show_nat (digits_val s) = s"
proof (induction s rule: rev_induct)
  case (snoc c s)
  have c: "digit_char (digit_val c) = c" "digit_val c < 10" using snoc.prems digit_char_val by auto
  show ?case
  proof (cases "s = []")
    case True
    with c show ?thesis by (simp add: digits_val_def show_nat.simps)
  next
    case False
    with snoc.prems have s: "list_all is_digit s" "hd s \<noteq> CHR ''0''" by auto
    from digits_val_pos [OF False s] c snoc.IH [OF False s(1)] s(2) show ?thesis
      by (simp add: digits_val_snoc show_nat.simps [of "10 * digits_val s + digit_val c"])
  qed
qed simp

lemma parse_octet_text: "parse_octet s = Some x \<Longrightarrow> s = show_nat (unat x)"
  by (cases s) (auto simp: parse_octet_def unat_of_nat show_nat_digits_val split: if_splits)

fun join_with :: "char \<Rightarrow> string list \<Rightarrow> string" where
  "join_with c [] = []"
| "join_with c [x] = x"
| "join_with c (x # y # xs) = x @ c # join_with c (y # xs)"

lemma join_with_Cons: "xs \<noteq> [] \<Longrightarrow> join_with c ([] # xs) = c # join_with c xs"
  "join_with c ((a # p) # xs) = a # join_with c (p # xs)"
  by (cases xs; simp)+

lemma join_split: "join_with c (split_on c s) = s"
proof (induction s)
  case (Cons x s)
  then show ?case
    using split_on_nonempty [of c s] by (cases "split_on c s") (auto simp: join_with_Cons)
qed simp

lemma split_on_inj: "split_on c s = split_on c t \<Longrightarrow> s = t"
  by (metis join_split)

lemma parse_ipv4_inj:
  assumes "parse_ipv4 s = Some a" and "parse_ipv4 t = Some a"
  shows "s = t"
proof -
  have *: "split_on CHR ''.'' s = map (\<lambda>x. show_nat (unat x)) (octets a)" if s: "parse_ipv4 s = Some a" for s
  proof -
    from s obtain p q r u where m: "map parse_octet (split_on CHR ''.'' s) = [Some p, Some q, Some r, Some u]"
      and a: "a = from_octets [p, q, r, u]"
      by (auto simp: parse_ipv4_def split: list.splits option.splits)
    have "octets a = [p, q, r, u]" by (simp add: a octets_from_octets)
    with m show ?thesis by (auto simp: map_eq_Cons_conv dest: parse_octet_text)
  qed
  from * [OF assms(1)] * [OF assms(2)] show ?thesis by (metis split_on_inj)
qed

end
