(* ===== verification/Crypto.thy ===== *)
theory Crypto
  imports Packet Net_Addr
begin

text \<open>
  \<^verbatim>\<open>src/src/crypto.rs\<close>: the AEAD framing of data and control packets, key derivation, the
  sliding replay window, the bounded table of windows per source, and the invite format.

  The cipher (crate \<^verbatim>\<open>aegis\<close>), HKDF (crate \<^verbatim>\<open>hkdf\<close>) and base64 (crate \<^verbatim>\<open>base64\<close>) are parameters of
  the definitions that call them; what is relied on is stated as a named hypothesis
  (\<open>aead_correct\<close>, \<open>b64_correct\<close>). The replay window is shown to refine the set of the counters
  committed so far, and through the interface \<open>replay_filter\<close> to let no counter pass twice.
\<close>

section \<open>Constants and errors\<close>

definition KEY_LEN :: nat where "KEY_LEN = 32"
definition AEAD_KEY_LEN :: nat where "AEAD_KEY_LEN = 16"
definition DATA_NONCE_LEN :: nat where "DATA_NONCE_LEN = 16"
definition DATA_SALT_LEN :: nat where "DATA_SALT_LEN = 10"
definition DATA_REPLAY_WINDOW_BITS :: nat where "DATA_REPLAY_WINDOW_BITS = 128"
definition CTRL_REPLAY_MAX_SOURCES :: nat where "CTRL_REPLAY_MAX_SOURCES = 4096"
definition CTRL_AAD :: bytes where "CTRL_AAD = ascii ''mcts''"
definition DATA_REPLAY_MAX_COUNTER :: u64 where "DATA_REPLAY_MAX_COUNTER = push_bit 48 1 - 1"
definition HKDF_DOMAIN_SALT :: bytes where "HKDF_DOMAIN_SALT = ascii ''mint-aegis-128l-v1''"
definition HKDF_DOMAIN_INFO :: bytes where "HKDF_DOMAIN_INFO = ascii ''data''"
definition HKDF_DOMAIN_INFO_CTRL :: bytes where "HKDF_DOMAIN_INFO_CTRL = ascii ''ctrl''"
definition FLOATUNIT_SUBNET_INFO :: bytes where "FLOATUNIT_SUBNET_INFO = ascii ''floatunit-subnet-v1''"
definition INVITE_VERSION :: u8 where "INVITE_VERSION = 1"
definition INVITE_WIRE_LEN :: nat where "INVITE_WIRE_LEN = 34"

datatype crypto_error =
  CounterExhausted | PacketTooShort | DecryptFailure | HkdfExpandFailure
| Base64Failure | UnsupportedInvite

text \<open>
  \<^verbatim>\<open>Aegis128L::encrypt_in_place\<close>: key, nonce, plaintext, associated data to ciphertext and tag;
  \<^verbatim>\<open>decrypt_in_place\<close>: key, nonce, ciphertext, tag, associated data to the plaintext, or failure.
  \<^verbatim>\<open>Hkdf::expand\<close>: salt, input key, info, output length.
\<close>

type_synonym aead_enc = "bytes \<Rightarrow> bytes \<Rightarrow> bytes \<Rightarrow> bytes \<Rightarrow> bytes \<times> bytes"
type_synonym aead_dec = "bytes \<Rightarrow> bytes \<Rightarrow> bytes \<Rightarrow> bytes \<Rightarrow> bytes \<Rightarrow> bytes option"
type_synonym hkdf_expand = "bytes option \<Rightarrow> bytes \<Rightarrow> bytes \<Rightarrow> nat \<Rightarrow> bytes option"

section \<open>Counters and nonces\<close>

definition encode_wire_counter :: "u64 \<Rightarrow> crypto_error + bytes" where
  "encode_wire_counter counter =
     (if counter > DATA_REPLAY_MAX_COUNTER then Inl CounterExhausted
      else Inr (take WIRE_COUNTER_LEN (u64_to_le counter)))"

definition decode_wire_counter :: "bytes \<Rightarrow> u64" where
  "decode_wire_counter counter_wire = u64_from_le (counter_wire @ replicate (8 - WIRE_COUNTER_LEN) 0)"

definition nonce_from_counter :: "bytes \<Rightarrow> bytes \<Rightarrow> bytes" where
  "nonce_from_counter salt counter_wire = salt @ counter_wire"

section \<open>Data and control plane AEAD\<close>

record PlaneAead =
  aead_key :: bytes
  aead_salt :: bytes

definition encrypt_framed_packet_into ::
    "aead_enc \<Rightarrow> PlaneAead \<Rightarrow> u64 \<Rightarrow> bytes \<Rightarrow> bytes \<Rightarrow> crypto_error + bytes" where
  "encrypt_framed_packet_into aenc c counter aad plaintext =
     (case encode_wire_counter counter of
        Inl e \<Rightarrow> Inl e
      | Inr counter_wire \<Rightarrow>
          let nonce = nonce_from_counter (aead_salt c) counter_wire;
              (body, tag) = aenc (aead_key c) nonce plaintext aad in
          Inr ([to_byte Encrypted] @ counter_wire @ body @ tag))"

definition decrypt_framed_payload_into ::
    "aead_dec \<Rightarrow> PlaneAead \<Rightarrow> bytes \<Rightarrow> bytes \<Rightarrow> bytes \<Rightarrow> crypto_error + bytes" where
  "decrypt_framed_payload_into adec c counter_wire aad payload =
     (if length payload < DATA_TAG_LEN then Inl PacketTooShort
      else
        let nonce = nonce_from_counter (aead_salt c) counter_wire;
            tag_start = length payload - DATA_TAG_LEN;
            tag = drop tag_start payload in
        case adec (aead_key c) nonce (take tag_start payload) tag aad of
          None \<Rightarrow> Inl DecryptFailure
        | Some plain \<Rightarrow> Inr plain)"

definition seal_into :: "aead_enc \<Rightarrow> PlaneAead \<Rightarrow> u64 \<Rightarrow> bytes \<Rightarrow> crypto_error + bytes" where
  "seal_into aenc c counter plaintext =
     (case encode_wire_counter counter of
        Inl e \<Rightarrow> Inl e
      | Inr counter_wire \<Rightarrow>
          let nonce = nonce_from_counter (aead_salt c) counter_wire;
              (body, tag) = aenc (aead_key c) nonce plaintext CTRL_AAD in
          Inr (counter_wire @ body @ tag))"

definition open_into :: "aead_dec \<Rightarrow> PlaneAead \<Rightarrow> bytes \<Rightarrow> bytes \<Rightarrow> crypto_error + bytes" where
  "open_into adec c counter_wire payload =
     (if length payload < DATA_TAG_LEN then Inl PacketTooShort
      else
        let nonce = nonce_from_counter (aead_salt c) counter_wire;
            tag_start = length payload - DATA_TAG_LEN;
            tag = drop tag_start payload in
        case adec (aead_key c) nonce (take tag_start payload) tag CTRL_AAD of
          None \<Rightarrow> Inl DecryptFailure
        | Some plain \<Rightarrow> Inr plain)"

definition data_plane_info :: "u32 \<Rightarrow> u32 \<Rightarrow> bytes" where
  "data_plane_info sender_vip receiver_vip =
     HKDF_DOMAIN_INFO @ u32_to_be sender_vip @ u32_to_be receiver_vip"

definition derive_data_plane_material ::
    "hkdf_expand \<Rightarrow> bytes \<Rightarrow> u32 \<Rightarrow> u32 \<Rightarrow> crypto_error + PlaneAead" where
  "derive_data_plane_material hkdf network_key sender_vip receiver_vip =
     (case hkdf (Some HKDF_DOMAIN_SALT) network_key (data_plane_info sender_vip receiver_vip)
             (AEAD_KEY_LEN + DATA_SALT_LEN) of
        None \<Rightarrow> Inl HkdfExpandFailure
      | Some okm \<Rightarrow> Inr \<lparr>aead_key = take AEAD_KEY_LEN okm, aead_salt = drop AEAD_KEY_LEN okm\<rparr>)"

definition derive_control_plane_material :: "hkdf_expand \<Rightarrow> bytes \<Rightarrow> crypto_error + PlaneAead" where
  "derive_control_plane_material hkdf network_key =
     (case hkdf (Some HKDF_DOMAIN_SALT) network_key HKDF_DOMAIN_INFO_CTRL
             (AEAD_KEY_LEN + DATA_SALT_LEN) of
        None \<Rightarrow> Inl HkdfExpandFailure
      | Some okm \<Rightarrow> Inr \<lparr>aead_key = take AEAD_KEY_LEN okm, aead_salt = drop AEAD_KEY_LEN okm\<rparr>)"

text \<open>\<^verbatim>\<open>derive_floatunit_subnet24\<close> ignores a failing \<^verbatim>\<open>expand\<close>: the output buffer is then still
  zero.\<close>

definition derive_floatunit_subnet24 :: "hkdf_expand \<Rightarrow> bytes \<Rightarrow> u8 list" where
  "derive_floatunit_subnet24 hkdf key =
     (let okm = (case hkdf None key FLOATUNIT_SUBNET_INFO 2 of None \<Rightarrow> [0, 0] | Some o2 \<Rightarrow> o2) in
      [10, okm ! 0, okm ! 1])"

definition floatunit_subnet_base_vip :: "hkdf_expand \<Rightarrow> bytes \<Rightarrow> string" where
  "floatunit_subnet_base_vip hkdf key =
     (let p = derive_floatunit_subnet24 hkdf key in show_octets [p ! 0, p ! 1, p ! 2, 1])"

definition room_id_20b :: "(bytes \<Rightarrow> bytes) \<Rightarrow> bytes \<Rightarrow> u8 \<Rightarrow> bytes" where
  "room_id_20b sha256 key protocol = take 20 (sha256 (key @ [protocol]))"

section \<open>Replay window\<close>

record DataReplayWindow =
  rw_top :: "u64 option"
  rw_bits :: u128

definition rw_new :: DataReplayWindow where
  "rw_new = \<lparr>rw_top = None, rw_bits = 0\<rparr>"

definition rw_allows :: "DataReplayWindow \<Rightarrow> u64 \<Rightarrow> bool" where
  "rw_allows w counter =
     (case rw_top w of
        None \<Rightarrow> True
      | Some tp \<Rightarrow>
          if counter > tp then True
          else let delta = unat (tp - counter) in
            if delta \<ge> DATA_REPLAY_WINDOW_BITS then False
            else rw_bits w AND push_bit delta 1 = 0)"

definition rw_commit :: "u64 \<Rightarrow> DataReplayWindow \<Rightarrow> DataReplayWindow" where
  "rw_commit counter w =
     (case rw_top w of
        None \<Rightarrow> w\<lparr>rw_top := Some counter, rw_bits := 1\<rparr>
      | Some tp \<Rightarrow>
          if counter > tp then
            let shift = min (unat (counter - tp)) DATA_REPLAY_WINDOW_BITS;
                bits = (if shift \<ge> DATA_REPLAY_WINDOW_BITS then 0 else push_bit shift (rw_bits w)) in
            w\<lparr>rw_top := Some counter, rw_bits := bits OR 1\<rparr>
          else let delta = unat (tp - counter) in
            if delta < DATA_REPLAY_WINDOW_BITS then
              w\<lparr>rw_bits := rw_bits w OR push_bit delta 1\<rparr>
            else w)"

section \<open>Replay windows per control source\<close>

record CtrlReplayTable =
  cr_sources :: "(u64, DataReplayWindow \<times> instant) table"
  cr_max_sources :: nat

definition cr_new :: CtrlReplayTable where
  "cr_new = \<lparr>cr_sources = [], cr_max_sources = CTRL_REPLAY_MAX_SOURCES\<rparr>"

definition cr_clear :: "CtrlReplayTable \<Rightarrow> CtrlReplayTable" where
  "cr_clear t = t\<lparr>cr_sources := []\<rparr>"

definition cr_allows :: "CtrlReplayTable \<Rightarrow> u64 \<Rightarrow> u64 \<Rightarrow> bool" where
  "cr_allows t src_key counter =
     (case tab_get (cr_sources t) src_key of
        Some (window, _) \<Rightarrow> rw_allows window counter
      | None \<Rightarrow> True)"

lemma tab_del_shrinks: "e \<in> set t \<Longrightarrow> length (tab_del (fst e) t) < length t"
  by (auto simp: tab_del_def intro: length_filter_less)

function evict_oldest_until_room ::
    "nat \<Rightarrow> (u64, DataReplayWindow \<times> instant) table \<Rightarrow> (u64, DataReplayWindow \<times> instant) table" where
  "evict_oldest_until_room max_sources sources =
     (if length sources \<ge> max_sources then
        (case min_by (\<lambda>(_, _, last_seen). last_seen) sources of
           None \<Rightarrow> sources
         | Some e \<Rightarrow> evict_oldest_until_room max_sources (tab_del (fst e) sources))
      else sources)"
  by pat_completeness auto
termination
  by (relation "measure (\<lambda>(_, t). length t)") (auto dest: min_by_Some intro: tab_del_shrinks)

definition cr_commit :: "instant \<Rightarrow> u64 \<Rightarrow> u64 \<Rightarrow> CtrlReplayTable \<Rightarrow> CtrlReplayTable" where
  "cr_commit now src_key counter t =
     (case tab_get (cr_sources t) src_key of
        Some (window, _) \<Rightarrow>
          t\<lparr>cr_sources := tab_put src_key (rw_commit counter window, now) (cr_sources t)\<rparr>
      | None \<Rightarrow>
          let s = (if length (cr_sources t) \<ge> cr_max_sources t
                   then evict_oldest_until_room (cr_max_sources t) (cr_sources t)
                   else cr_sources t) in
          if length s \<ge> cr_max_sources t then t\<lparr>cr_sources := s\<rparr>
          else t\<lparr>cr_sources := tab_put src_key (rw_commit counter rw_new, now) s\<rparr>)"

section \<open>Invites\<close>

record InvitePayload =
  inv_version :: u8
  inv_protocol :: u8
  inv_key :: bytes

definition encode_invite :: "(bytes \<Rightarrow> string) \<Rightarrow> InvitePayload \<Rightarrow> string" where
  "encode_invite b64e payload = b64e (inv_version payload # inv_protocol payload # inv_key payload)"

definition decode_invite :: "(string \<Rightarrow> bytes option) \<Rightarrow> string \<Rightarrow> crypto_error + InvitePayload" where
  "decode_invite b64d invite =
     (case b64d invite of
        None \<Rightarrow> Inl Base64Failure
      | Some raw \<Rightarrow>
          if length raw \<noteq> INVITE_WIRE_LEN \<or> raw ! 0 \<noteq> INVITE_VERSION then Inl UnsupportedInvite
          else Inr \<lparr>inv_version = INVITE_VERSION, inv_protocol = raw ! 1,
                    inv_key = take 32 (drop 2 raw)\<rparr>)"

section \<open>Counters round-trip, nonces are unique\<close>

lemma max_counter_nat: "unat DATA_REPLAY_MAX_COUNTER = 2 ^ 48 - 1"
  by (simp add: DATA_REPLAY_MAX_COUNTER_def push_bit_eq_mult)

lemma counter_le_iff: "c \<le> DATA_REPLAY_MAX_COUNTER \<longleftrightarrow> unat c < 2 ^ 48"
proof -
  have "c \<le> DATA_REPLAY_MAX_COUNTER \<longleftrightarrow> unat c \<le> 2 ^ 48 - 1"
    by (simp only: word_le_nat_alt max_counter_nat)
  also have "\<dots> \<longleftrightarrow> unat c < 2 ^ 48" by auto
  finally show ?thesis .
qed

lemma le_bytes_take: "j \<le> k \<Longrightarrow> take j (le_bytes k n) = le_bytes j n"
proof (induction k arbitrary: j n)
  case 0
  then show ?case by simp
next
  case (Suc k)
  then show ?case by (cases j) simp_all
qed

lemma le_nat_append: "le_nat (xs @ ys) = le_nat xs + 256 ^ length xs * le_nat ys"
  by (induction xs) (simp_all add: algebra_simps)

lemma le_nat_zeros [simp]: "le_nat (replicate k 0) = 0"
  by (induction k) simp_all

lemma encode_wire_counter_eq:
  "encode_wire_counter c =
     (if unat c < 2 ^ 48 then Inr (le_bytes 6 (unat c)) else Inl CounterExhausted)"
  by (simp add: encode_wire_counter_def WIRE_COUNTER_LEN_def u64_to_le_def le_bytes_take
      counter_le_iff flip: not_le)

lemma encode_wire_counter_length [simp]:
  "encode_wire_counter c = Inr w \<Longrightarrow> length w = 6"
  by (auto simp: encode_wire_counter_eq split: if_splits)

lemma decode_encode_wire_counter: "encode_wire_counter c = Inr w \<Longrightarrow> decode_wire_counter w = c"
  by (auto simp: encode_wire_counter_eq decode_wire_counter_def u64_from_le_def le_nat_append
      le_nat_le_bytes split: if_splits)

lemma decode_wire_counter_unat: "length w = 6 \<Longrightarrow> unat (decode_wire_counter w) = le_nat w"
  using le_nat_less [of w] by (simp add: decode_wire_counter_def u64_from_le_def le_nat_append unat_of_nat)

lemma encode_decode_wire_counter: "length w = 6 \<Longrightarrow> encode_wire_counter (decode_wire_counter w) = Inr w"
  using le_nat_less [of w] le_bytes_le_nat [of w]
  by (simp add: encode_wire_counter_eq decode_wire_counter_unat)

interpretation wire_counter: canonical_codec
  "\<lambda>c. c \<le> DATA_REPLAY_MAX_COUNTER" "\<lambda>c. le_bytes 6 (unat c)"
  "\<lambda>bs. if length bs = 6 then Some (decode_wire_counter bs) else None"
proof unfold_locales
  fix c
  assume "c \<le> DATA_REPLAY_MAX_COUNTER"
  then have "encode_wire_counter c = Inr (le_bytes 6 (unat c))"
    by (simp add: encode_wire_counter_eq counter_le_iff)
  then show "(if length (le_bytes 6 (unat c)) = 6 then Some (decode_wire_counter (le_bytes 6 (unat c)))
      else None) = Some c"
    by (simp add: decode_encode_wire_counter)
next
  fix bs c
  assume "(if length bs = 6 then Some (decode_wire_counter bs) else None) = Some c"
  then have c: "length bs = 6" "c = decode_wire_counter bs" by (auto split: if_splits)
  then have "encode_wire_counter c = Inr bs" by (simp add: encode_decode_wire_counter)
  then show "c \<le> DATA_REPLAY_MAX_COUNTER \<and> le_bytes 6 (unat c) = bs"
    by (auto simp: encode_wire_counter_eq counter_le_iff split: if_splits)
qed

lemma nonce_inj:
  "length s = length s' \<Longrightarrow> nonce_from_counter s w = nonce_from_counter s' w' \<longleftrightarrow> s = s' \<and> w = w'"
  by (simp add: nonce_from_counter_def)

lemma encode_wire_counter_inj:
  "encode_wire_counter c = Inr w \<Longrightarrow> encode_wire_counter d = Inr w \<Longrightarrow> c = d"
  by (metis decode_encode_wire_counter)

lemma data_plane_info_inj:
  "data_plane_info s r = data_plane_info s' r' \<longleftrightarrow> s = s' \<and> r = r'"
proof -
  have "u32_to_be x = u32_to_be y \<longleftrightarrow> x = y" for x y
    by (metis word_coding_roundtrip(5))
  then show ?thesis by (simp add: data_plane_info_def)
qed

lemma data_plane_info_not_ctrl: "data_plane_info s r \<noteq> HKDF_DOMAIN_INFO_CTRL"
proof
  assume "data_plane_info s r = HKDF_DOMAIN_INFO_CTRL"
  then have "length (data_plane_info s r) = length HKDF_DOMAIN_INFO_CTRL" by simp
  then show False
    by (simp add: data_plane_info_def HKDF_DOMAIN_INFO_def HKDF_DOMAIN_INFO_CTRL_def)
qed

section \<open>The replay window refines the set of committed counters\<close>

text \<open>
  The specification: a counter passes when it is above all committed ones, or when it is less
  than 128 below the highest and was not committed.
\<close>

definition seen_allows :: "nat set \<Rightarrow> nat \<Rightarrow> bool" where
  "seen_allows S c = (S = {} \<or> c > Max S \<or> (Max S - c < DATA_REPLAY_WINDOW_BITS \<and> c \<notin> S))"

definition rw_refines :: "DataReplayWindow \<Rightarrow> nat set \<Rightarrow> bool" where
  "rw_refines w S =
     (finite S \<and>
      (case rw_top w of
         None \<Rightarrow> S = {}
       | Some t \<Rightarrow> S \<noteq> {} \<and> Max S = unat t \<and>
           (\<forall>d < DATA_REPLAY_WINDOW_BITS. bit (rw_bits w) d \<longleftrightarrow> d \<le> unat t \<and> unat t - d \<in> S)))"

lemma unat_sub_le: "(c :: 'a::len word) \<le> t \<Longrightarrow> unat (t - c) = unat t - unat c"
  by (simp add: unat_sub word_le_nat_alt)

lemma rw_refines_new: "rw_refines rw_new {}"
  by (simp add: rw_refines_def rw_new_def)

lemma rw_refines_allows:
  assumes "rw_refines w S"
  shows "rw_allows w c = seen_allows S (unat c)"
proof (cases "rw_top w")
  case None
  with assms show ?thesis by (simp add: rw_refines_def rw_allows_def seen_allows_def)
next
  case (Some t)
  with assms have S: "S \<noteq> {}" "Max S = unat t"
    and b: "\<And>d. d < 128 \<Longrightarrow> bit (rw_bits w) d \<longleftrightarrow> d \<le> unat t \<and> unat t - d \<in> S"
    by (auto simp: rw_refines_def DATA_REPLAY_WINDOW_BITS_def)
  show ?thesis
  proof (cases "c > t")
    case True
    with Some S show ?thesis by (simp add: rw_allows_def seen_allows_def word_less_nat_alt)
  next
    case False
    then have c: "unat (t - c) = unat t - unat c" "unat c \<le> unat t"
      by (simp_all add: unat_sub_le not_less word_le_nat_alt)
    with Some S b [of "unat t - unat c"] False show ?thesis
      by (auto simp: rw_allows_def seen_allows_def DATA_REPLAY_WINDOW_BITS_def and_exp_eq_0_iff_not_bit Let_def
          word_less_nat_alt)
  qed
qed

lemma rw_refines_commit_above:
  assumes r: "rw_refines w S" and t: "rw_top w = Some t" and c: "c > t"
  shows "rw_refines (rw_commit c w) (insert (unat c) S)"
proof -
  from r t have S: "finite S" "S \<noteq> {}" "Max S = unat t"
    and b: "\<And>d. d < 128 \<Longrightarrow> bit (rw_bits w) d \<longleftrightarrow> d \<le> unat t \<and> unat t - d \<in> S"
    by (auto simp: rw_refines_def DATA_REPLAY_WINDOW_BITS_def)
  from c have ct: "unat t < unat c" by (simp add: word_less_nat_alt)
  define k where "k = unat c - unat t"
  have k: "unat (c - t) = k" using c by (simp add: k_def unat_sub_le)
  have below: "x \<in> S \<Longrightarrow> x \<le> unat t" for x using S Max_ge by fastforce
  define nb where "nb = (if k \<ge> 128 then 0 else push_bit k (rw_bits w)) OR (1 :: u128)"
  have bits: "bit nb d \<longleftrightarrow> d \<le> unat c \<and> unat c - d \<in> insert (unat c) S" if d: "d < 128" for d
  proof (cases "d < k")
    case True
    then have "unat c - d > unat t" using ct d by (auto simp: k_def)
    then have "unat c - d \<notin> S" using below leD by blast
    then show ?thesis using True d ct by (auto simp: nb_def bit_simps k_def)
  next
    case False
    then have "bit nb d \<longleftrightarrow> bit (rw_bits w) (d - k)"
      using d ct by (auto simp: nb_def bit_simps k_def)
    moreover have "d - k \<le> unat t \<and> unat t - (d - k) \<in> S \<longleftrightarrow> d \<le> unat c \<and> unat c - d \<in> S"
      using False ct by (auto simp: k_def)
    ultimately show ?thesis using b [of "d - k"] d False ct by (auto simp: k_def)
  qed
  have "rw_commit c w = w\<lparr>rw_top := Some c, rw_bits := nb\<rparr>"
    using t c k by (auto simp: rw_commit_def Let_def nb_def DATA_REPLAY_WINDOW_BITS_def min_def)
  moreover have "Max (insert (unat c) S) = unat c"
    using S ct by (simp add: max_def)
  ultimately show ?thesis
    using S bits by (simp add: rw_refines_def DATA_REPLAY_WINDOW_BITS_def)
qed

lemma rw_refines_commit_below:
  assumes r: "rw_refines w S" and t: "rw_top w = Some t" and c: "\<not> c > t"
  shows "rw_refines (rw_commit c w) (insert (unat c) S)"
proof -
  from r t have S: "finite S" "S \<noteq> {}" "Max S = unat t"
    and b: "\<And>d. d < 128 \<Longrightarrow> bit (rw_bits w) d \<longleftrightarrow> d \<le> unat t \<and> unat t - d \<in> S"
    by (auto simp: rw_refines_def DATA_REPLAY_WINDOW_BITS_def)
  from c have ct: "unat c \<le> unat t" "unat (t - c) = unat t - unat c"
    by (simp_all add: unat_sub_le not_less word_le_nat_alt)
  have mx: "Max (insert (unat c) S) = unat t" using S ct by (simp add: max_def)
  show ?thesis
  proof (cases "unat t - unat c < 128")
    case True
    with t c ct have "rw_commit c w = w\<lparr>rw_bits := rw_bits w OR push_bit (unat t - unat c) 1\<rparr>"
      by (simp add: rw_commit_def Let_def DATA_REPLAY_WINDOW_BITS_def)
    then show ?thesis
      using S t b mx ct True by (auto simp: rw_refines_def DATA_REPLAY_WINDOW_BITS_def bit_simps)
  next
    case False
    with t c ct have "rw_commit c w = w"
      by (simp add: rw_commit_def Let_def DATA_REPLAY_WINDOW_BITS_def)
    then show ?thesis
      using S t b mx ct False by (auto simp: rw_refines_def DATA_REPLAY_WINDOW_BITS_def)
  qed
qed

lemma rw_refines_commit:
  assumes "rw_refines w S"
  shows "rw_refines (rw_commit c w) (insert (unat c) S)"
proof (cases "rw_top w")
  case None
  with assms have "S = {}" by (simp add: rw_refines_def)
  with None show ?thesis
    by (auto simp: rw_refines_def rw_commit_def DATA_REPLAY_WINDOW_BITS_def bit_simps)
next
  case (Some t)
  with assms show ?thesis
    using rw_refines_commit_above rw_refines_commit_below by (cases "c > t") blast+
qed

section \<open>A replay filter lets nothing pass twice\<close>

text \<open>
  The way the engine uses a window: an arriving counter that \<^verbatim>\<open>allows\<close> admits (and whose packet
  authenticates) is committed and delivered; the others are dropped. \<open>deliver\<close> lists what passes.
\<close>

fun deliver :: "('w \<Rightarrow> 'e \<Rightarrow> bool) \<Rightarrow> ('e \<Rightarrow> 'w \<Rightarrow> 'w) \<Rightarrow> 'w \<Rightarrow> 'e list \<Rightarrow> 'e list" where
  "deliver allows commit w [] = []"
| "deliver allows commit w (e # es) =
     (if allows w e then e # deliver allows commit (commit e w) es else deliver allows commit w es)"

locale replay_filter =
  fixes key :: "'e \<Rightarrow> 'c"
    and admissible :: "'e \<Rightarrow> bool"
    and allows :: "'w \<Rightarrow> 'e \<Rightarrow> bool"
    and commit :: "'e \<Rightarrow> 'w \<Rightarrow> 'w"
    and refines :: "'w \<Rightarrow> 'c set \<Rightarrow> bool"
  assumes allows_fresh: "refines w S \<Longrightarrow> allows w e \<Longrightarrow> key e \<notin> S"
    and commit_refines: "refines w S \<Longrightarrow> admissible e \<Longrightarrow> refines (commit e w) (insert (key e) S)"
begin

lemma deliver_fresh:
  "refines w S \<Longrightarrow> list_all admissible es \<Longrightarrow>
     distinct (map key (deliver allows commit w es)) \<and>
     set (map key (deliver allows commit w es)) \<inter> S = {}"
proof (induction es arbitrary: w S)
  case Nil
  then show ?case by simp
next
  case (Cons e es)
  show ?case
  proof (cases "allows w e")
    case True
    from Cons.prems have "refines (commit e w) (insert (key e) S)" by (simp add: commit_refines)
    moreover have "key e \<notin> S" using allows_fresh Cons.prems(1) True by blast
    ultimately show ?thesis
      using Cons.IH [of "commit e w" "insert (key e) S"] Cons.prems True by auto
  next
    case False
    with Cons show ?thesis by simp
  qed
qed

lemma commits_refine:
  "refines w S \<Longrightarrow> list_all admissible es \<Longrightarrow> refines (fold commit es w) (key ` set es \<union> S)"
proof (induction es arbitrary: w S)
  case Nil
  then show ?case by simp
next
  case (Cons e es)
  then have "refines (commit e w) (insert (key e) S)" by (simp add: commit_refines)
  with Cons show ?case by fastforce
qed

end

interpretation data_window: replay_filter unat "\<lambda>_. True" rw_allows rw_commit rw_refines
proof unfold_locales
  fix w S e
  assume "rw_refines w S" "rw_allows w e"
  then show "unat e \<notin> S"
    by (auto simp: rw_refines_allows seen_allows_def rw_refines_def dest: leD Max_ge)
qed (rule rw_refines_commit)

section \<open>The control table\<close>

declare evict_oldest_until_room.simps [simp del]

lemma evict_nil [simp]: "evict_oldest_until_room m [] = []"
  by (simp add: evict_oldest_until_room.simps)

lemma evict_small [simp]: "length t < m \<Longrightarrow> evict_oldest_until_room m t = t"
  by (simp add: evict_oldest_until_room.simps)

lemma evict_subset: "set (evict_oldest_until_room m t) \<subseteq> set t"
proof (induction m t rule: evict_oldest_until_room.induct)
  case (1 m t)
  show ?case
  proof (cases "m \<le> length t \<and> t \<noteq> []")
    case True
    then obtain e where e: "min_by (\<lambda>(_, _, last_seen). last_seen) t = Some e"
      using min_by_None by (metis not_None_eq)
    with 1 True have "set (evict_oldest_until_room m (tab_del (fst e) t)) \<subseteq> set (tab_del (fst e) t)"
      by blast
    with e True show ?thesis by (auto simp: evict_oldest_until_room.simps [of m t] set_tab_del)
  next
    case False
    then show ?thesis by (cases "t = []") auto
  qed
qed

lemma evict_ok: "tab_ok t \<Longrightarrow> tab_ok (evict_oldest_until_room m t)"
proof (induction m t rule: evict_oldest_until_room.induct)
  case (1 m t)
  then show ?case
    by (subst evict_oldest_until_room.simps) (auto split: option.splits)
qed

lemma evict_length: "length (evict_oldest_until_room m t) < m \<or> evict_oldest_until_room m t = []"
proof (induction m t rule: evict_oldest_until_room.induct)
  case (1 m t)
  show ?case
  proof (cases "length t \<ge> m")
    case True
    show ?thesis
    proof (cases "min_by (\<lambda>(_, _, last_seen). last_seen) t")
      case None
      then show ?thesis by simp
    next
      case (Some e)
      with True 1 show ?thesis by (simp add: evict_oldest_until_room.simps [of m t])
    qed
  next
    case False
    then show ?thesis by simp
  qed
qed

text \<open>A full table loses exactly one source, one of those seen least recently.\<close>

lemma evict_full:
  assumes "tab_ok t" and "length t = m" and "0 < m"
  shows "\<exists>k w seen. (k, w, seen) \<in> set t \<and> evict_oldest_until_room m t = tab_del k t \<and>
           (\<forall>(k', w', seen') \<in> set t. seen \<le> seen')"
proof -
  from assms(2,3) have "t \<noteq> []" by auto
  then obtain e where e: "min_by (\<lambda>(_, _, last_seen). last_seen) t = Some e"
    using min_by_None by (metis not_None_eq)
  obtain k w seen where kw: "e = (k, w, seen)" by (cases e)
  from min_by_Some [OF e] kw have mem: "(k, w, seen) \<in> set t"
    and least: "\<forall>(k', w', seen') \<in> set t. seen \<le> seen'" by auto
  have "length (tab_del k t) < m"
    using tab_del_shrinks [OF mem] assms(2) by simp
  then have "evict_oldest_until_room m (tab_del k t) = tab_del k t"
    by simp
  then have "evict_oldest_until_room m t = tab_del k t"
    using e kw assms(2) by (simp add: evict_oldest_until_room.simps [of m t])
  with mem least show ?thesis by blast
qed

definition cr_inv :: "CtrlReplayTable \<Rightarrow> bool" where
  "cr_inv t = (tab_ok (cr_sources t) \<and> length (cr_sources t) \<le> cr_max_sources t)"

lemma cr_inv_new: "cr_inv cr_new"
  by (simp add: cr_inv_def cr_new_def)

lemma cr_max_commit [simp]: "cr_max_sources (cr_commit now k c t) = cr_max_sources t"
  by (simp add: cr_commit_def Let_def split: option.splits)

lemma cr_inv_commit: "cr_inv t \<Longrightarrow> cr_inv (cr_commit now k c t)"
  using evict_length [of "cr_max_sources t" "cr_sources t"] evict_ok [of "cr_sources t" "cr_max_sources t"]
  by (auto simp: cr_inv_def cr_commit_def Let_def length_tab_put split: option.splits)

interpretation ctrl_table: invariant_machine "\<lambda>(now, k, c). cr_commit now k c" cr_inv
  by unfold_locales (auto intro: cr_inv_commit)

text \<open>
  While the sources come from a set \<open>K\<close> that fits the table, nothing is evicted and the table
  refines the set of all committed pairs of source and counter.
\<close>

definition cr_refines :: "u64 set \<Rightarrow> CtrlReplayTable \<Rightarrow> (u64 \<times> nat) set \<Rightarrow> bool" where
  "cr_refines K t S =
     (tab_ok (cr_sources t) \<and> finite K \<and> card K \<le> cr_max_sources t
      \<and> set (tab_keys (cr_sources t)) \<subseteq> K
      \<and> (\<forall>k. case tab_get (cr_sources t) k of
                None \<Rightarrow> \<forall>c. (k, c) \<notin> S
              | Some (w, _) \<Rightarrow> rw_refines w {c. (k, c) \<in> S}))"

lemma cr_room:
  assumes "tab_ok t" and "finite K" and "set (tab_keys t) \<subseteq> K" and "k \<in> K" and "tab_get t k = None"
  shows "length t < card K"
proof -
  have "k \<notin> set (tab_keys t)" using assms(5) by (simp add: tab_keys_iff)
  then have "set (tab_keys t) \<subset> K" using assms(3,4) by blast
  then have "card (set (tab_keys t)) < card K" by (rule psubset_card_mono [OF assms(2)])
  moreover have "card (set (tab_keys t)) = length t"
    using assms(1) by (simp add: tab_ok_keys distinct_card) (simp add: tab_keys_def)
  ultimately show ?thesis by simp
qed

lemma cr_refines_None: "cr_refines K t S \<Longrightarrow> tab_get (cr_sources t) k = None \<Longrightarrow> (k, c) \<notin> S"
  unfolding cr_refines_def by (metis (no_types, lifting) option.simps(4))

lemma cr_refines_Some:
  "cr_refines K t S \<Longrightarrow> tab_get (cr_sources t) k = Some (w, u) \<Longrightarrow> rw_refines w {c. (k, c) \<in> S}"
  unfolding cr_refines_def by (metis (no_types, lifting) case_prod_conv option.simps(5))

lemma cr_refines_put:
  assumes r: "cr_refines K t S" and k: "k \<in> K" and w: "rw_refines w {c. (k, c) \<in> S}"
  shows "cr_refines K (t\<lparr>cr_sources := tab_put k (rw_commit c w, now) (cr_sources t)\<rparr>)
           (insert (k, unat c) S)"
proof -
  let ?s = "tab_put k (rw_commit c w, now) (cr_sources t)"
  have "{x. (k, x) \<in> insert (k, unat c) S} = insert (unat c) {x. (k, x) \<in> S}" by auto
  then have "rw_refines (rw_commit c w) {x. (k, x) \<in> insert (k, unat c) S}"
    using rw_refines_commit [OF w, of c] by simp
  moreover have "{x. (j, x) \<in> insert (k, unat c) S} = {x. (j, x) \<in> S}" if "j \<noteq> k" for j
    using that by auto
  ultimately have "case tab_get ?s j of None \<Rightarrow> \<forall>x. (j, x) \<notin> insert (k, unat c) S
      | Some (v, _) \<Rightarrow> rw_refines v {x. (j, x) \<in> insert (k, unat c) S}" for j
    using cr_refines_None [OF r, of j] cr_refines_Some [OF r, of j]
    by (cases "j = k") (auto simp: tab_get_put split: option.splits)
  moreover have "set (tab_keys ?s) \<subseteq> K"
    using r k by (auto simp: cr_refines_def tab_keys_iff tab_get_put subset_iff split: if_splits)
  ultimately show ?thesis
    using r by (simp add: cr_refines_def)
qed

lemma cr_refines_commit:
  assumes "cr_refines K t S" and "k \<in> K"
  shows "cr_refines K (cr_commit now k c t) (insert (k, unat c) S)"
proof (cases "tab_get (cr_sources t) k")
  case None
  with assms have empty: "{c. (k, c) \<in> S} = {}" by (auto dest: cr_refines_None)
  from None assms have "length (cr_sources t) < cr_max_sources t"
    using cr_room [of "cr_sources t" K k] by (fastforce simp: cr_refines_def)
  with None have "cr_commit now k c t =
      t\<lparr>cr_sources := tab_put k (rw_commit c rw_new, now) (cr_sources t)\<rparr>"
    by (simp add: cr_commit_def Let_def)
  with cr_refines_put [OF assms, of rw_new c now] empty show ?thesis
    by (simp add: rw_refines_new)
next
  case (Some p)
  obtain w u where p: "p = (w, u)" by (cases p)
  with assms Some have "rw_refines w {c. (k, c) \<in> S}" by (auto dest: cr_refines_Some)
  from cr_refines_put [OF assms this, of c now] Some p show ?thesis
    by (simp add: cr_commit_def)
qed

interpretation ctrl_window: replay_filter
  "\<lambda>(now :: instant, k, c). (k, unat c)" "\<lambda>(now, k, c). k \<in> K"
  "\<lambda>t (now, k, c). cr_allows t k c" "\<lambda>(now, k, c). cr_commit now k c" "cr_refines K"
  for K
proof unfold_locales
  fix t S and e :: "instant \<times> u64 \<times> u64"
  obtain now k c where e: "e = (now, k, c)" by (cases e)
  assume r: "cr_refines K t S" and a: "(\<lambda>t (now, k, c). cr_allows t k c) t e"
  show "(\<lambda>(now, k, c). (k, unat c)) e \<notin> S"
  proof (cases "tab_get (cr_sources t) k")
    case None
    with r e show ?thesis by (auto dest: cr_refines_None)
  next
    case (Some p)
    then obtain w u where p: "tab_get (cr_sources t) k = Some (w, u)" by (cases p) auto
    with r have "rw_refines w {c. (k, c) \<in> S}" by (rule cr_refines_Some)
    moreover have "rw_allows w c" using a e p by (simp add: cr_allows_def)
    ultimately show ?thesis using data_window.allows_fresh e by fastforce
  qed
next
  fix t S and e :: "instant \<times> u64 \<times> u64"
  assume "cr_refines K t S" and "(\<lambda>(now, k, c). k \<in> K) e"
  then show "cr_refines K ((\<lambda>(now, k, c). cr_commit now k c) e t)
      (insert ((\<lambda>(now, k, c). (k, unat c)) e) S)"
    by (cases e) (auto intro: cr_refines_commit)
qed

section \<open>Sealed packets open\<close>

text \<open>
  What the program relies on of the cipher: the ciphertext is as long as the plaintext, the tag
  is 16 bytes, and decryption with the same key, nonce and associated data gives the plaintext
  back.
\<close>

definition aead_correct :: "aead_enc \<Rightarrow> aead_dec \<Rightarrow> bool" where
  "aead_correct aenc adec =
     (\<forall>k n p a. length (fst (aenc k n p a)) = length p \<and> length (snd (aenc k n p a)) = DATA_TAG_LEN
        \<and> adec k n (fst (aenc k n p a)) (snd (aenc k n p a)) a = Some p)"

text \<open>What is relied on of base64: decoding inverts encoding.\<close>

definition b64_correct :: "(bytes \<Rightarrow> string) \<Rightarrow> (string \<Rightarrow> bytes option) \<Rightarrow> bool" where
  "b64_correct b64e b64d = (\<forall>raw. b64d (b64e raw) = Some raw)"

lemma aead_open:
  assumes "aead_correct aenc adec" and "aenc k n p a = (body, tag)"
  shows "length body = length p \<and> length tag = DATA_TAG_LEN \<and> adec k n body tag a = Some p"
  using assms unfolding aead_correct_def by (metis fst_conv snd_conv)

lemma encrypt_framed_Inr:
  "encrypt_framed_packet_into aenc c counter aad plain = Inr frame \<longleftrightarrow>
     (\<exists>cw body tag. encode_wire_counter counter = Inr cw
        \<and> aenc (aead_key c) (nonce_from_counter (aead_salt c) cw) plain aad = (body, tag)
        \<and> frame = to_byte Encrypted # cw @ body @ tag)"
  by (auto simp: encrypt_framed_packet_into_def split: sum.splits prod.splits)

lemma decrypt_framed_sealed:
  assumes "aead_correct aenc adec"
    and "aenc (aead_key c) (nonce_from_counter (aead_salt c) cw) plain aad = (body, tag)"
  shows "decrypt_framed_payload_into adec c cw aad (body @ tag) = Inr plain"
  using aead_open [OF assms] by (simp add: decrypt_framed_payload_into_def Let_def)

lemma seal_into_Inr:
  "seal_into aenc c counter plain = Inr sealed \<longleftrightarrow>
     (\<exists>cw body tag. encode_wire_counter counter = Inr cw
        \<and> aenc (aead_key c) (nonce_from_counter (aead_salt c) cw) plain CTRL_AAD = (body, tag)
        \<and> sealed = cw @ body @ tag)"
  by (auto simp: seal_into_def split: sum.splits prod.splits)

lemma open_sealed:
  assumes "aead_correct aenc adec"
    and "aenc (aead_key c) (nonce_from_counter (aead_salt c) cw) plain CTRL_AAD = (body, tag)"
  shows "open_into adec c cw (body @ tag) = Inr plain"
  using aead_open [OF assms] by (simp add: open_into_def Let_def)

lemma decrypt_framed_short:
  "length payload < 16 \<Longrightarrow> decrypt_framed_payload_into adec c cw aad payload = Inl PacketTooShort"
  by (simp add: decrypt_framed_payload_into_def DATA_TAG_LEN_def)

section \<open>Properties\<close>

text \<open>
  C4. The replay window implements its specification: after any sequence of commits a counter is
  allowed exactly when nothing was committed yet, when it is above every committed counter, or
  when it is fewer than 128 below the highest one and was not committed itself.
\<close>

theorem replay_window_refines:
  "rw_allows (fold rw_commit cs rw_new) c = seen_allows (unat ` set cs) (unat c)"
  using data_window.commits_refine [OF rw_refines_new, of cs]
  by (simp add: rw_refines_allows list_all_iff)

text \<open>
  C6. No replay: of any sequence of arriving counters, in any order and with any repetitions, the
  window delivers every counter at most once, and it always delivers a counter that is higher than
  all that came before it.
\<close>

theorem replay_window_at_most_once:
  "distinct (deliver rw_allows rw_commit rw_new cs)
   \<and> (list_all (\<lambda>c. c < h) cs \<longrightarrow>
        deliver rw_allows rw_commit rw_new (cs @ [h]) = deliver rw_allows rw_commit rw_new cs @ [h])"
proof (intro conjI impI)
  show "distinct (deliver rw_allows rw_commit rw_new cs)"
    using data_window.deliver_fresh [OF rw_refines_new, of cs]
    by (simp add: list_all_iff distinct_map)
next
  assume h: "list_all (\<lambda>c. c < h) cs"
  have "deliver rw_allows rw_commit w (cs @ [h]) = deliver rw_allows rw_commit w cs @ [h]"
    if "\<forall>t. rw_top w = Some t \<longrightarrow> t < h" for w
    using that h
  proof (induction cs arbitrary: w)
    case Nil
    then show ?case by (simp add: rw_allows_def split: option.splits)
  next
    case (Cons c cs)
    have "\<forall>t. rw_top (rw_commit c w) = Some t \<longrightarrow> t < h"
      using Cons.prems by (auto simp: rw_commit_def Let_def split: option.splits if_splits)
    with Cons show ?case by simp
  qed
  then show "deliver rw_allows rw_commit rw_new (cs @ [h]) = deliver rw_allows rw_commit rw_new cs @ [h]"
    by (simp add: rw_new_def)
qed

theorem replay_window_at_most_once_witness:
  "deliver rw_allows rw_commit rw_new ([5, 3, 5, 3] @ [9]) =
     deliver rw_allows rw_commit rw_new [5, 3, 5, 3] @ [9]"
  using replay_window_at_most_once [of "[5, 3, 5, 3]" 9] by simp



text \<open>
  C16. An encrypted packet opens: whatever the plane encrypts successfully is a compact
  \<^verbatim>\<open>Encrypted\<close> datagram of the plaintext's length plus the declared overhead, carries its counter in
  the first six bytes of the body, and decrypts under that counter to the plaintext. Encryption
  fails exactly when the counter needs more than 48 bits.
\<close>

theorem encrypted_frame_opens:
  assumes "aead_correct aenc adec"
  shows "case encrypt_framed_packet_into aenc c counter aad plain of
      Inl e \<Rightarrow> e = CounterExhausted \<and> unat counter \<ge> 2 ^ 48
    | Inr frame \<Rightarrow> unat counter < 2 ^ 48
        \<and> length frame = length plain + MENC_WIRE_OVERHEAD
        \<and> (\<exists>body. parse_datagram frame = Some (Compact Encrypted body)
             \<and> decode_wire_counter (take WIRE_COUNTER_LEN body) = counter
             \<and> decrypt_framed_payload_into adec c (take WIRE_COUNTER_LEN body) aad
                 (drop WIRE_COUNTER_LEN body) = Inr plain)"
proof (cases "encrypt_framed_packet_into aenc c counter aad plain")
  case (Inl e)
  then show ?thesis
    by (auto simp: encrypt_framed_packet_into_def encode_wire_counter_eq not_less
        split: if_splits prod.splits)
next
  case (Inr frame)
  then obtain cw body tag where f: "encode_wire_counter counter = Inr cw"
    "aenc (aead_key c) (nonce_from_counter (aead_salt c) cw) plain aad = (body, tag)"
    "frame = to_byte Encrypted # cw @ body @ tag"
    by (auto simp: encrypt_framed_Inr)
  have len: "length cw = 6" "length body = length plain" "length tag = DATA_TAG_LEN"
    using f(1) aead_open [OF assms f(2)] by simp_all
  have "parse_datagram frame = Some (Compact Encrypted (cw @ body @ tag))"
    using datagram.dec_enc [of "Compact Encrypted (cw @ body @ tag)"] f(3)
    by (simp add: frame_compact_def)
  moreover have "length frame = length plain + MENC_WIRE_OVERHEAD"
    using len f(3) by (simp add: MENC_WIRE_OVERHEAD_def COMPACT_HEADER_LEN_def WIRE_COUNTER_LEN_def)
  ultimately show ?thesis
    using Inr f len decrypt_framed_sealed [OF assms f(2)] decode_encode_wire_counter [OF f(1)]
    by (auto simp: WIRE_COUNTER_LEN_def encode_wire_counter_eq split: if_splits)
qed

theorem encrypted_frame_opens_witness:
  "case encrypt_framed_packet_into (\<lambda>k n p a. (p, replicate 16 0)) \<lparr>aead_key = [], aead_salt = []\<rparr> 7 [] [1, 2] of
      Inl e \<Rightarrow> False
    | Inr frame \<Rightarrow> length frame = 25"
proof -
  have "aead_correct (\<lambda>k n p a. (p, replicate 16 0)) (\<lambda>k n c t a. Some c)"
    by (simp add: aead_correct_def DATA_TAG_LEN_def)
  from encrypted_frame_opens [OF this,
      where c = "\<lparr>aead_key = [], aead_salt = []\<rparr>" and counter = 7 and aad = "[]" and plain = "[1, 2]"]
  show ?thesis
    by (simp add: MENC_WIRE_OVERHEAD_def COMPACT_HEADER_LEN_def WIRE_COUNTER_LEN_def DATA_TAG_LEN_def
        split: sum.splits)
qed

text \<open>
  Sealed control messages open under the counter they carry, and the length grows by exactly
  the counter and the tag.
\<close>

theorem sealed_control_opens:
  assumes "aead_correct aenc adec" and "seal_into aenc c counter plain = Inr sealed"
  shows "length sealed = WIRE_COUNTER_LEN + length plain + DATA_TAG_LEN
    \<and> decode_wire_counter (take WIRE_COUNTER_LEN sealed) = counter
    \<and> open_into adec c (take WIRE_COUNTER_LEN sealed) (drop WIRE_COUNTER_LEN sealed) = Inr plain"
proof -
  from assms(2) obtain cw body tag where f: "encode_wire_counter counter = Inr cw"
    "aenc (aead_key c) (nonce_from_counter (aead_salt c) cw) plain CTRL_AAD = (body, tag)"
    "sealed = cw @ body @ tag"
    by (auto simp: seal_into_Inr)
  then show ?thesis
    using aead_open [OF assms(1) f(2)] open_sealed [OF assms(1) f(2)] decode_encode_wire_counter [OF f(1)]
    by (simp add: WIRE_COUNTER_LEN_def)
qed

theorem sealed_control_opens_witness:
  "open_into (\<lambda>k n c t a. Some c) \<lparr>aead_key = [], aead_salt = []\<rparr>
     (take WIRE_COUNTER_LEN (le_bytes 6 3 @ [9] @ replicate 16 0))
     (drop WIRE_COUNTER_LEN (le_bytes 6 3 @ [9] @ replicate 16 0)) = Inr [9]"
proof -
  have "aead_correct (\<lambda>k n p a. (p, replicate 16 0)) (\<lambda>k n c t a. Some c)"
    by (simp add: aead_correct_def DATA_TAG_LEN_def)
  moreover have "seal_into (\<lambda>k n p a. (p, replicate 16 0)) \<lparr>aead_key = [], aead_salt = []\<rparr> 3 [9]
      = Inr (le_bytes 6 3 @ [9] @ replicate 16 0)"
    by (simp add: seal_into_def encode_wire_counter_eq)
  ultimately show ?thesis
    using sealed_control_opens by blast
qed

text \<open>
  Nonces do not repeat: under one key and salt, two packets are given the same nonce only if
  they carry the same counter, so a sender that never reuses a counter never reuses a nonce; and the
  key-derivation labels of different directions, and of the control plane, are different.
\<close>

theorem nonce_unique:
  assumes "encode_wire_counter c1 = Inr w1" and "encode_wire_counter c2 = Inr w2"
  shows "(nonce_from_counter salt w1 = nonce_from_counter salt w2 \<longleftrightarrow> c1 = c2)
    \<and> length (nonce_from_counter salt w1) = length salt + WIRE_COUNTER_LEN
    \<and> (data_plane_info s r = data_plane_info s' r' \<longleftrightarrow> s = s' \<and> r = r')
    \<and> data_plane_info s r \<noteq> HKDF_DOMAIN_INFO_CTRL"
proof -
  have "w1 = w2 \<longleftrightarrow> c1 = c2"
    using assms by (metis decode_encode_wire_counter sum.inject(2))
  moreover have "length (nonce_from_counter salt w1) = length salt + WIRE_COUNTER_LEN"
    using assms(1) by (simp add: nonce_from_counter_def WIRE_COUNTER_LEN_def)
  ultimately show ?thesis
    by (simp add: nonce_inj data_plane_info_inj data_plane_info_not_ctrl)
qed

theorem nonce_unique_witness:
  "nonce_from_counter [1] (le_bytes 6 1) \<noteq> nonce_from_counter [1] (le_bytes 6 2)"
  using nonce_unique [of 1 "le_bytes 6 1" 2 "le_bytes 6 2" "[1]"]
  by (simp add: encode_wire_counter_eq)

text \<open>
  Invites round-trip: an invite of the current version with a 32-byte key decodes to itself,
  and nothing of another version or length decodes.
\<close>

theorem invite_roundtrip:
  assumes "b64_correct b64e b64d"
  shows "decode_invite b64d (encode_invite b64e p) =
    (if inv_version p = INVITE_VERSION \<and> length (inv_key p) = KEY_LEN then Inr p
     else Inl UnsupportedInvite)"
  using assms
  by (auto simp: decode_invite_def encode_invite_def b64_correct_def INVITE_WIRE_LEN_def KEY_LEN_def)

theorem invite_roundtrip_witness:
  "decode_invite (\<lambda>s. Some (ascii s)) (encode_invite (map (\<lambda>b. char_of (unat b)))
     \<lparr>inv_version = 1, inv_protocol = 1, inv_key = replicate 32 5\<rparr>) =
   Inr \<lparr>inv_version = 1, inv_protocol = 1, inv_key = replicate 32 5\<rparr>"
proof -
  have "word_of_nat (of_char (char_of (unat (b :: u8)) :: char)) = b" for b
    using unat_bound [of b] by simp
  then have "b64_correct (map (\<lambda>b. char_of (unat b))) (\<lambda>s. Some (ascii s))"
    by (simp add: b64_correct_def ascii_def comp_def)
  from invite_roundtrip [OF this] show ?thesis
    by (simp add: INVITE_VERSION_def KEY_LEN_def)
qed

end
