(* ===== verification/Float64.thy ===== *)
theory Float64
  imports Complex_Main Prelude
begin

text \<open>
  IEEE 754 binary64 values as the program computes with them (\<^verbatim>\<open>f64\<close>): a finite value is the
  rational number it denotes, and every arithmetic operation rounds its exact result to the
  nearest binary64 value, ties to even, with gradual underflow and overflow to infinity. The two
  zeros are identified: no code that is modelled divides by a negative zero or looks at the sign of a zero.
\<close>

datatype f64 = NaN | Inf bool | Fin rat

section \<open>Rounding\<close>

definition rnd_int_even :: "rat \<Rightarrow> int" where
  "rnd_int_even x =
     (let f = floor x; d = x - of_int f in
      if d < 1 / 2 then f else if d > 1 / 2 then f + 1 else if even f then f else f + 1)"

definition pow2 :: "int \<Rightarrow> rat" where
  "pow2 e = (if e \<ge> 0 then 2 ^ nat e else 1 / 2 ^ nat (- e))"

fun bitlen_nat :: "nat \<Rightarrow> nat" where
  "bitlen_nat n = (if n = 0 then 0 else Suc (bitlen_nat (n div 2)))"

declare bitlen_nat.simps [simp del]

text \<open>The exponent \<open>e\<close> with \<open>2 ^ e \<le> x < 2 ^ (e + 1)\<close>, for positive \<open>x\<close>.\<close>

definition exponent2 :: "rat \<Rightarrow> int" where
  "exponent2 x =
     (case quotient_of x of (n, d) \<Rightarrow>
        let l = int (bitlen_nat (nat n)) - int (bitlen_nat (nat d)) in
        if pow2 l \<le> x then l else l - 1)"

definition rnd64 :: "rat \<Rightarrow> f64" where
  "rnd64 x =
     (if x = 0 then Fin 0
      else let e = max (exponent2 \<bar>x\<bar>) (- 1022) - 52;
               y = of_int (rnd_int_even (\<bar>x\<bar> / pow2 e)) * pow2 e in
        if y \<ge> pow2 1024 then Inf (x < 0)
        else Fin (if x < 0 then - y else y))"

text \<open>Equations for evaluation: the powers of two are computed as integers.\<close>

lemma pow2_code [code]: "pow2 e = (if e \<ge> 0 then of_int (2 ^ nat e) else 1 / of_int (2 ^ nat (- e)))"
  by (simp add: pow2_def)

lemma pow2_1024: "pow2 1024 =
  179769313486231590772930519078902473361797697894230657273430081157732675805500963132708477322407536021120113879871393357658789768814416622492847430639474124377767893424865485276302219601246094119453082952085005768838150682342462881473913110540827237163350510684586298239947245938479716304835356329624224137216"
  by (simp add: pow2_def)

lemmas rnd64_code [code] = rnd64_def [unfolded pow2_1024]

section \<open>Operations\<close>

fun f64_neg :: "f64 \<Rightarrow> f64" where
  "f64_neg NaN = NaN"
| "f64_neg (Inf s) = Inf (\<not> s)"
| "f64_neg (Fin x) = Fin (- x)"

fun f64_add :: "f64 \<Rightarrow> f64 \<Rightarrow> f64" where
  "f64_add (Fin x) (Fin y) = rnd64 (x + y)"
| "f64_add (Inf s) (Fin y) = Inf s"
| "f64_add (Fin x) (Inf s) = Inf s"
| "f64_add (Inf s) (Inf t) = (if s = t then Inf s else NaN)"
| "f64_add _ _ = NaN"

definition f64_sub :: "f64 \<Rightarrow> f64 \<Rightarrow> f64" where
  "f64_sub a b = f64_add a (f64_neg b)"

fun f64_mul :: "f64 \<Rightarrow> f64 \<Rightarrow> f64" where
  "f64_mul (Fin x) (Fin y) = rnd64 (x * y)"
| "f64_mul (Inf s) (Fin y) = (if y = 0 then NaN else Inf (s \<noteq> (y < 0)))"
| "f64_mul (Fin x) (Inf s) = (if x = 0 then NaN else Inf (s \<noteq> (x < 0)))"
| "f64_mul (Inf s) (Inf t) = Inf (s \<noteq> t)"
| "f64_mul _ _ = NaN"

fun f64_div :: "f64 \<Rightarrow> f64 \<Rightarrow> f64" where
  "f64_div (Fin x) (Fin y) = (if y = 0 then (if x = 0 then NaN else Inf (x < 0)) else rnd64 (x / y))"
| "f64_div (Inf s) (Fin y) = Inf (s \<noteq> (y < 0))"
| "f64_div (Fin x) (Inf s) = Fin 0"
| "f64_div _ _ = NaN"

fun f64_abs :: "f64 \<Rightarrow> f64" where
  "f64_abs NaN = NaN"
| "f64_abs (Inf s) = Inf False"
| "f64_abs (Fin x) = Fin \<bar>x\<bar>"

text \<open>A decimal literal, and the conversion of an unsigned integer.\<close>

definition f64_lit :: "rat \<Rightarrow> f64" where
  "f64_lit r = rnd64 r"

definition f64_of_nat :: "nat \<Rightarrow> f64" where
  "f64_of_nat n = rnd64 (of_nat n)"

definition f64_of_int :: "int \<Rightarrow> f64" where
  "f64_of_int n = rnd64 (of_int n)"

text \<open>Comparisons: every comparison with a NaN is false.\<close>

fun f64_lt :: "f64 \<Rightarrow> f64 \<Rightarrow> bool" where
  "f64_lt (Fin x) (Fin y) = (x < y)"
| "f64_lt (Inf s) (Fin y) = s"
| "f64_lt (Fin x) (Inf s) = (\<not> s)"
| "f64_lt (Inf s) (Inf t) = (s \<and> \<not> t)"
| "f64_lt _ _ = False"

fun f64_le :: "f64 \<Rightarrow> f64 \<Rightarrow> bool" where
  "f64_le NaN _ = False"
| "f64_le _ NaN = False"
| "f64_le a b = (\<not> f64_lt b a)"

text \<open>\<^verbatim>\<open>f64::max\<close> and \<^verbatim>\<open>f64::min\<close> return the other argument when one is a NaN.\<close>

definition f64_max :: "f64 \<Rightarrow> f64 \<Rightarrow> f64" where
  "f64_max a b = (if a = NaN then b else if b = NaN then a else if f64_lt a b then b else a)"

definition f64_min :: "f64 \<Rightarrow> f64 \<Rightarrow> f64" where
  "f64_min a b = (if a = NaN then b else if b = NaN then a else if f64_lt b a then b else a)"

text \<open>\<^verbatim>\<open>f64::round\<close>: to the nearest integer, ties away from zero.\<close>

definition round_away :: "rat \<Rightarrow> int" where
  "round_away x = (if x < 0 then - floor (- x + 1 / 2) else floor (x + 1 / 2))"

fun f64_round :: "f64 \<Rightarrow> f64" where
  "f64_round (Fin x) = Fin (of_int (round_away x))"
| "f64_round a = a"

text \<open>\<^verbatim>\<open>as u64\<close>: truncation, saturating at both ends, and zero for a NaN.\<close>

fun f64_as_u64 :: "f64 \<Rightarrow> nat" where
  "f64_as_u64 NaN = 0"
| "f64_as_u64 (Inf s) = (if s then 0 else nat (2 ^ 64 - 1))"
| "f64_as_u64 (Fin x) = (if x < 0 then 0 else nat (min (floor x) (2 ^ 64 - 1)))"

text \<open>\<^verbatim>\<open>as i32\<close>: truncation towards zero, saturating at both ends, and zero for a NaN.\<close>

fun f64_as_i32 :: "f64 \<Rightarrow> int" where
  "f64_as_i32 NaN = 0"
| "f64_as_i32 (Inf s) = (if s then - (2 ^ 31) else 2 ^ 31 - 1)"
| "f64_as_i32 (Fin x) = clamp (- (2 ^ 31)) (2 ^ 31 - 1) (if x < 0 then ceiling x else floor x)"

text \<open>
  \<^verbatim>\<open>f64::clamp\<close>: it panics unless the bounds are ordered, which a NaN never is, and keeps a NaN argument.
  \<open>f64_clip\<close> is the case of ordered bounds.
\<close>

definition f64_clip :: "f64 \<Rightarrow> f64 \<Rightarrow> f64 \<Rightarrow> f64" where
  "f64_clip lo hi x = (if f64_lt x lo then lo else if f64_lt hi x then hi else x)"

definition f64_clamp :: "f64 \<Rightarrow> f64 \<Rightarrow> f64 \<Rightarrow> f64 option" where
  "f64_clamp lo hi x = (if f64_le lo hi then Some (f64_clip lo hi x) else None)"

text \<open>\<^verbatim>\<open>Duration::as_secs_f64\<close>, of a duration in nanoseconds.\<close>

definition as_secs_f64 :: "duration \<Rightarrow> f64" where
  "as_secs_f64 d = f64_add (f64_of_nat (d div 1000000000)) (f64_div (f64_of_nat (d mod 1000000000)) (f64_of_nat 1000000000))"

section \<open>Single precision\<close>

text \<open>
  \<^verbatim>\<open>f32\<close> values are the binary64 values that fit binary32; their operations round to binary32. The
  comparisons, maximum, minimum and clamp are those of \<^verbatim>\<open>f64\<close>.
\<close>

type_synonym f32 = f64

definition rnd32 :: "rat \<Rightarrow> f32" where
  "rnd32 x =
     (if x = 0 then Fin 0
      else let e = max (exponent2 \<bar>x\<bar>) (- 126) - 23;
               y = of_int (rnd_int_even (\<bar>x\<bar> / pow2 e)) * pow2 e in
        if y \<ge> pow2 128 then Inf (x < 0)
        else Fin (if x < 0 then - y else y))"

definition f32_add :: "f32 \<Rightarrow> f32 \<Rightarrow> f32" where
  "f32_add a b = (case (a, b) of (Fin x, Fin y) \<Rightarrow> rnd32 (x + y) | _ \<Rightarrow> f64_add a b)"

definition f32_sub :: "f32 \<Rightarrow> f32 \<Rightarrow> f32" where
  "f32_sub a b = f32_add a (f64_neg b)"

definition f32_mul :: "f32 \<Rightarrow> f32 \<Rightarrow> f32" where
  "f32_mul a b = (case (a, b) of (Fin x, Fin y) \<Rightarrow> rnd32 (x * y) | _ \<Rightarrow> f64_mul a b)"

definition f32_div :: "f32 \<Rightarrow> f32 \<Rightarrow> f32" where
  "f32_div a b = (case (a, b) of (Fin x, Fin y) \<Rightarrow> if y = 0 then f64_div a b else rnd32 (x / y) | _ \<Rightarrow> f64_div a b)"

definition f32_lit :: "rat \<Rightarrow> f32" where
  "f32_lit r = rnd32 r"

definition f32_of_nat :: "nat \<Rightarrow> f32" where
  "f32_of_nat n = rnd32 (of_nat n)"

text \<open>The conversion \<^verbatim>\<open>as f32\<close> of an \<^verbatim>\<open>f64\<close>.\<close>

definition f64_as_f32 :: "f64 \<Rightarrow> f32" where
  "f64_as_f32 a = (case a of Fin x \<Rightarrow> rnd32 x | _ \<Rightarrow> a)"

definition F32_EPSILON :: f32 where "F32_EPSILON = Fin (1 / 8388608)"

definition as_secs_f32 :: "duration \<Rightarrow> f32" where
  "as_secs_f32 d = f32_add (f32_of_nat (d div 1000000000)) (f32_div (f32_of_nat (d mod 1000000000)) (f32_of_nat 1000000000))"

section \<open>Lemmas\<close>

lemma f64_max_cases: "f64_max a b = a \<or> f64_max a b = b"
  by (simp add: f64_max_def)

lemma f64_min_cases: "f64_min a b = a \<or> f64_min a b = b"
  by (simp add: f64_min_def)

lemma f64_as_u64_less: "f64_as_u64 a < 2 ^ 64"
  by (cases a) (auto simp: nat_less_iff min_def)

lemma f64_le_iff: "f64_le a b \<longleftrightarrow> a \<noteq> NaN \<and> b \<noteq> NaN \<and> \<not> f64_lt b a"
  by (cases a; cases b) simp_all

lemma pow2_pos: "0 < pow2 e"
  by (simp add: pow2_def)

lemma rnd_int_even_nonneg: "0 \<le> x \<Longrightarrow> 0 \<le> rnd_int_even x"
  by (auto simp: rnd_int_even_def Let_def)

text \<open>Rounding keeps the sign and never gives a NaN.\<close>

definition nonneg64 :: "f64 \<Rightarrow> bool" where
  "nonneg64 a = (case a of NaN \<Rightarrow> False | Inf s \<Rightarrow> \<not> s | Fin x \<Rightarrow> 0 \<le> x)"

lemma rnd64_not_NaN [simp]: "rnd64 x \<noteq> NaN"
  by (simp add: rnd64_def Let_def)

lemma rnd64_nonneg: "0 \<le> x \<Longrightarrow> nonneg64 (rnd64 x)"
  using rnd_int_even_nonneg [of "\<bar>x\<bar> / pow2 (max (exponent2 \<bar>x\<bar>) (- 1022) - 52)"] pow2_pos
  by (auto simp: rnd64_def nonneg64_def Let_def less_imp_le)

lemma f64_mul_Fin: "f64_mul (Fin x) (Fin y) \<noteq> NaN" "f64_add (Fin x) (Fin y) \<noteq> NaN"
  by simp_all

text \<open>A finite value in an interval.\<close>

fun fin_in :: "rat \<Rightarrow> rat \<Rightarrow> f64 \<Rightarrow> bool" where
  "fin_in lo hi (Fin r) = (lo \<le> r \<and> r \<le> hi)"
| "fin_in lo hi _ = False"

lemma fin_inE: "fin_in lo hi x \<Longrightarrow> (\<And>r. x = Fin r \<Longrightarrow> lo \<le> r \<Longrightarrow> r \<le> hi \<Longrightarrow> P) \<Longrightarrow> P"
  by (cases x) auto

lemma f64_clip_in: "x \<noteq> NaN \<Longrightarrow> a \<le> b \<Longrightarrow> fin_in a b (f64_clip (Fin a) (Fin b) x)"
  by (cases x) (auto simp: f64_clip_def)

lemma bitlen_le: "n < 2 ^ k \<Longrightarrow> bitlen_nat n \<le> k"
proof (induction k arbitrary: n)
  case 0 then show ?case by (simp add: bitlen_nat.simps)
next
  case (Suc k)
  then have "n div 2 < 2 ^ k" by simp
  with Suc.IH show ?case by (subst bitlen_nat.simps) simp
qed

lemma rnd_int_even_int [simp]: "rnd_int_even (of_int k) = k"
  by (simp add: rnd_int_even_def Let_def)

lemma rnd64_nat:
  assumes "n < 2 ^ 53" shows "rnd64 (of_nat n) = Fin (of_nat n)"
proof (cases "n = 0")
  case False
  define e where "e = max (exponent2 (of_nat n)) (- 1022) - 52"
  have q: "quotient_of (of_nat n) = (int n, 1)"
    using quotient_of_rat_of_int [of "int n"] by simp
  have "bitlen_nat 1 = 1" by (simp add: bitlen_nat.simps)
  then have "exponent2 (of_nat n) \<le> 52"
    using bitlen_le [OF assms] by (simp add: exponent2_def q Let_def)
  then have e: "e \<le> 0" by (simp add: e_def)
  have "of_nat n / pow2 e = of_int (int n * 2 ^ nat (- e))"
    using e by (auto simp: pow2_def)
  then have "rnd_int_even (of_nat n / pow2 e) = int n * 2 ^ nat (- e)"
    by (metis rnd_int_even_int)
  then have y: "of_int (rnd_int_even (of_nat n / pow2 e)) * pow2 e = of_nat n"
    using e by (auto simp: pow2_def)
  have "(of_nat n :: rat) < 2 ^ 53" using assms by (metis of_nat_less_iff of_nat_numeral of_nat_power)
  moreover have "(2 :: rat) ^ 53 \<le> pow2 1024" by (simp add: pow2_def)
  ultimately have "\<not> pow2 1024 \<le> (of_nat n :: rat)" by linarith
  with False y show ?thesis by (simp add: rnd64_def Let_def e_def)
qed (simp add: rnd64_def)

lemma f64_of_nat_exact: "n < 2 ^ 53 \<Longrightarrow> f64_of_nat n = Fin (of_nat n)"
  by (simp add: f64_of_nat_def rnd64_nat)

lemma clip_within:
  "x \<noteq> NaN \<Longrightarrow> fin_in a b lo \<Longrightarrow> fin_in a b hi \<Longrightarrow> fin_in a b (f64_clip lo hi x)"
  by (cases x) (auto simp: f64_clip_def elim!: fin_inE)

text \<open>Rounding is accurate from above.\<close>

lemma bitlen_bounds: "0 < n \<Longrightarrow> 2 ^ (bitlen_nat n - 1) \<le> n \<and> n < 2 ^ bitlen_nat n \<and> 0 < bitlen_nat n"
proof (induction n rule: bitlen_nat.induct)
  case (1 n)
  show ?case
  proof (cases "n = 1")
    case True
    then show ?thesis by (simp add: bitlen_nat.simps)
  next
    case False
    with 1 have d: "0 < n div 2" by simp
    with 1 have ih: "2 ^ (bitlen_nat (n div 2) - 1) \<le> n div 2" "n div 2 < 2 ^ bitlen_nat (n div 2)" "0 < bitlen_nat (n div 2)" by auto
    have b: "bitlen_nat n = Suc (bitlen_nat (n div 2))" using 1(2) by (subst bitlen_nat.simps) simp
    obtain k where k: "bitlen_nat (n div 2) = Suc k" using ih(3) by (cases "bitlen_nat (n div 2)") auto
    show ?thesis using ih k b by auto
  qed
qed

lemma pow2_nat: "pow2 (int n) = 2 ^ n"
  by (simp add: pow2_def)

lemma pow2_powi: "pow2 e = 2 powi e"
  by (simp add: pow2_def power_int_def inverse_eq_divide power_one_over)

lemma pow2_add: "pow2 (a + b) = pow2 a * pow2 b"
  by (simp add: pow2_powi power_int_add)

lemma exponent2_lower:
  assumes "0 < x"
  shows "pow2 (exponent2 x) \<le> x"
proof -
  obtain n d where q: "quotient_of x = (n, d)" by fastforce
  have x: "x = of_int n / of_int d" and d: "0 < d" using quotient_of_div [OF q] quotient_of_denom_pos [OF q] by auto
  with assms have n: "0 < n" by (simp add: zero_less_divide_iff)
  let ?a = "bitlen_nat (nat n)" and ?b = "bitlen_nat (nat d)"
  have a: "2 ^ (?a - 1) \<le> nat n" "0 < ?a" and b: "nat d < 2 ^ ?b" using bitlen_bounds [of "nat n"] bitlen_bounds [of "nat d"] n d by auto
  have n': "(2 :: rat) ^ (?a - 1) \<le> of_int n"
  proof -
    have "int (2 ^ (?a - 1)) \<le> n" using a(1) n by linarith
    then have "rat_of_int (int (2 ^ (?a - 1))) \<le> of_int n" by (simp only: of_int_le_iff)
    then show ?thesis by simp
  qed
  have d': "of_int d \<le> (2 :: rat) ^ ?b"
  proof -
    have "d \<le> int (2 ^ ?b)" using b d by linarith
    then have "rat_of_int d \<le> of_int (int (2 ^ ?b))" by (simp only: of_int_le_iff)
    then show ?thesis by simp
  qed
  have "pow2 (int ?a - int ?b - 1) = 2 ^ (?a - 1) / 2 ^ ?b"
  proof -
    have "int ?a - int ?b - 1 = int (?a - 1) - int ?b" using a(2) by simp
    moreover have "pow2 (int (?a - 1) - int ?b) = 2 ^ (?a - 1) / 2 ^ ?b" by (simp add: pow2_powi power_int_diff)
    ultimately show ?thesis by (simp only:)
  qed
  also have "\<dots> \<le> of_int n / of_int d"
    using n' d' d n by (intro frac_le) auto
  finally have "pow2 (int ?a - int ?b - 1) \<le> x" using x by simp
  then show ?thesis by (simp add: exponent2_def q Let_def)
qed

lemma rnd_int_even_le: "of_int (rnd_int_even x) \<le> x + 1 / 2"
  using of_int_floor_le [of x] unfolding rnd_int_even_def Let_def by (auto simp: field_simps) linarith+

text \<open>Rounding up changes a value by at most one part in \<open>2\<^sup>5\<^sup>3\<close>, or by next to nothing.\<close>

lemma rnd64_upper:
  assumes "0 \<le> x" and "x \<le> 2 ^ 1000"
  shows "fin_in 0 (x * (1 + 1 / 2 ^ 53) + 1 / 2 ^ 53) (rnd64 x)"
proof (cases "x = 0")
  case False
  with assms(1) have pos: "0 < x" by simp
  define e where "e = max (exponent2 x) (- 1022) - 52"
  define y where "y = of_int (rnd_int_even (x / pow2 e)) * pow2 e"
  have pe: "0 < pow2 e" by (rule pow2_pos)
  have "y \<le> (x / pow2 e + 1 / 2) * pow2 e"
    unfolding y_def by (rule mult_right_mono [OF rnd_int_even_le]) (use pe in simp)
  also have "\<dots> = x + pow2 e / 2" using pe by (simp add: field_simps)
  finally have y1: "y \<le> x + pow2 e / 2" .
  have half: "pow2 e / 2 \<le> x / 2 ^ 53 + 1 / 2 ^ 53"
  proof (cases "exponent2 x \<ge> - 1022")
    case True
    then have "pow2 e = pow2 (exponent2 x) * pow2 (- 52)" using pow2_add [of "exponent2 x" "- 52"] by (simp add: e_def)
    also have "\<dots> \<le> x * pow2 (- 52)" using exponent2_lower [OF pos] pow2_pos [of "- 52"] by (intro mult_right_mono) auto
    finally have "pow2 e / 2 \<le> x / 2 ^ 53" by (simp add: pow2_def)
    then show ?thesis by (simp add: add_increasing2)
  next
    case False
    then have "pow2 e = pow2 (- 1074)" by (simp add: e_def max_def)
    moreover have "pow2 (- 1074) \<le> pow2 (- 52)" by (simp add: pow2_powi power_int_increasing)
    ultimately have "pow2 e / 2 \<le> 1 / 2 ^ 53" by (simp add: pow2_def)
    then show ?thesis using pos by (simp add: add_increasing)
  qed
  have y2: "y \<le> x * (1 + 1 / 2 ^ 53) + 1 / 2 ^ 53" using y1 half by (simp add: algebra_simps)
  have y0: "0 \<le> y" unfolding y_def using pe pos rnd_int_even_nonneg [of "x / pow2 e"] by (intro mult_nonneg_nonneg) auto
  have "x * (1 + 1 / 2 ^ 53) + 1 / 2 ^ 53 \<le> 2 ^ 1000 * (1 + 1 / 2 ^ 53) + 1 / 2 ^ 53"
    using assms(2) by simp
  also have "\<dots> < pow2 1024" by (simp add: pow2_def)
  finally have "\<not> pow2 1024 \<le> y" using y2 by linarith
  then have "rnd64 x = Fin y" using pos by (simp add: rnd64_def e_def y_def Let_def)
  with y0 y2 show ?thesis by simp
qed (simp add: rnd64_def)

end
