(* ===== verification/Pmtud.thy ===== *)
theory Pmtud
  imports Packet Net_Addr Float64
begin

text \<open>
  \<^verbatim>\<open>src/src/pmtud.rs\<close>: path-MTU discovery. Every peer has a search window
  \<open>last_good < first_bad\<close>, a \<^verbatim>\<open>stable\<close> size and one of seven phases; probes are issued by
  \<^verbatim>\<open>on_tick\<close>, answered by \<^verbatim>\<open>on_ack\<close>, and lost ones confirmed as failures by timeouts. This theory
  holds the model of every operation, \<open>Pmtud_Inv\<close> the invariants and properties.

  \<^verbatim>\<open>Instant::now()\<close> read inside a loop over the peers is a function \<open>clk\<close> from the peer's address to
  the reading taken for it.
\<close>

section \<open>Constants, phases, state\<close>

definition DEFAULT_MTU :: nat where "DEFAULT_MTU = 1220"
definition MIN_MTU :: nat where "MIN_MTU = 576"
definition MAX_MTU :: nat where "MAX_MTU = 1500"
definition FIRST_BAD_SENTINEL :: nat where "FIRST_BAD_SENTINEL = MAX_MTU + 1"
definition MIN_ADAPTER_PAYLOAD_MTU :: nat where "MIN_ADAPTER_PAYLOAD_MTU = 280"
definition REVALIDATE_HINT_COOLDOWN :: duration where "REVALIDATE_HINT_COOLDOWN = from_secs 5"
definition EARLY_WAKE_COOLDOWN :: duration where "EARLY_WAKE_COOLDOWN = from_secs 10"
definition ANOMALY_REARM_CAP :: duration where "ANOMALY_REARM_CAP = from_secs 5"
definition ADAPTIVE_TIMEOUT_CAP :: duration where "ADAPTIVE_TIMEOUT_CAP = from_secs 5"

definition is_private_v4 :: "u32 \<Rightarrow> bool" where
  "is_private_v4 a =
     (let os = octets a in
      os ! 0 = 10 \<or> (os ! 0 = 172 \<and> 16 \<le> os ! 1 \<and> os ! 1 \<le> 31) \<or> (os ! 0 = 192 \<and> os ! 1 = 168))"

definition is_rfc1918_private_ip :: "SocketAddr \<Rightarrow> bool" where
  "is_rfc1918_private_ip ep = (case ep of V4 ip _ \<Rightarrow> is_private_v4 ip | V6 _ _ _ _ \<Rightarrow> False)"

definition same_ip :: "SocketAddr \<Rightarrow> SocketAddr \<Rightarrow> bool" where
  "same_ip a b = (case (a, b) of
     (V4 x _, V4 y _) \<Rightarrow> x = y | (V6 x _ _ _, V6 y _ _ _) \<Rightarrow> x = y | _ \<Rightarrow> False)"

datatype Phase = Plateau | Raise | Binary | Revalidate | Recheck | DownSearch | Frozen

definition is_searching :: "Phase \<Rightarrow> bool" where
  "is_searching ph = (ph \<in> {Raise, Binary, Revalidate, Recheck, DownSearch})"

record Inflight =
  if_probe_id :: u32
  if_size :: nat
  if_deadline :: instant
  if_confirms_left :: nat

record GraceProbe =
  gp_probe_id :: u32
  gp_size :: nat
  gp_search_gen :: u32
  gp_deadline :: instant

record PeerState =
  p_last_good :: nat
  p_first_bad :: nat
  p_stable :: nat
  p_phase :: Phase
  p_step :: nat
  p_inflight :: "Inflight option"
  p_search_gen :: u32
  p_probes_used :: nat
  p_lower_campaigns :: nat
  p_next_raise_at :: instant
  p_down_from_stable :: "nat option"
  p_last_revalidate_hint_at :: "instant option"
  p_last_early_wake_at :: "instant option"
  p_grace :: "GraceProbe option"
  p_downsearch_got_ack :: bool
  p_rtt_ms :: f64
  p_large_alive :: bool
  p_ever_acked :: bool

definition PeerState_new :: "instant \<Rightarrow> duration \<Rightarrow> nat \<Rightarrow> PeerState" where
  "PeerState_new now raise_period raise_step =
     \<lparr>p_last_good = DEFAULT_MTU, p_first_bad = FIRST_BAD_SENTINEL, p_stable = DEFAULT_MTU,
      p_phase = Plateau, p_step = raise_step, p_inflight = None, p_search_gen = 1,
      p_probes_used = 0, p_lower_campaigns = 0, p_next_raise_at = now + raise_period,
      p_down_from_stable = None, p_last_revalidate_hint_at = None, p_last_early_wake_at = None,
      p_grace = None, p_downsearch_got_ack = False, p_rtt_ms = Fin (- 1), p_large_alive = False,
      p_ever_acked = False\<rparr>"

definition window_closed :: "nat \<Rightarrow> PeerState \<Rightarrow> bool" where
  "window_closed epsilon p = (p_first_bad p - p_last_good p \<le> epsilon)"

definition abort_inflight :: "PeerState \<Rightarrow> PeerState" where
  "abort_inflight p = p\<lparr>p_inflight := None, p_grace := None, p_search_gen := p_search_gen p + 1\<rparr>"

record ProbeIntent =
  pi_peer :: SocketAddr
  pi_size :: nat
  pi_probe_id :: u32
  pi_search_gen :: u32

record SizeHealth =
  sh_warm :: bool
  sh_large_alive :: bool
  sh_large_collapsed :: bool

record PmtudEventCounts =
  ev_probe_timeouts :: nat
  ev_revalidate_fail :: nat
  ev_recheck_recovered :: nat
  ev_softdown :: nat
  ev_probe_anomaly :: nat
  ev_late_ack :: nat
  ev_early_wake :: nat

definition no_events :: PmtudEventCounts where
  "no_events = \<lparr>ev_probe_timeouts = 0, ev_revalidate_fail = 0, ev_recheck_recovered = 0,
     ev_softdown = 0, ev_probe_anomaly = 0, ev_late_ack = 0, ev_early_wake = 0\<rparr>"

record PeerTickInput =
  ti_addr :: SocketAddr
  ti_health :: SizeHealth
  ti_rtt_ms :: f64

record PmtudTuning =
  pt_probe_timeout_ms :: nat
  pt_confirm_count :: nat
  pt_resolve_epsilon :: nat
  pt_raise_step :: nat
  pt_max_probes_per_search :: nat
  pt_max_concurrent_peers :: nat
  pt_stable_downgrade_batches :: nat

definition PmtudTuning_default :: PmtudTuning where
  "PmtudTuning_default =
     \<lparr>pt_probe_timeout_ms = 500, pt_confirm_count = 3, pt_resolve_epsilon = 4, pt_raise_step = 32,
      pt_max_probes_per_search = 64, pt_max_concurrent_peers = 4, pt_stable_downgrade_batches = 4\<rparr>"

record PathMtuDiscovery =
  pd_peers :: "(SocketAddr, PeerState) table"
  pd_min_path_mtu :: nat
  pd_pinned :: "nat option"
  pd_probe_id_counter :: u32
  pd_rr_cursor :: nat
  pd_probe_timeout :: duration
  pd_confirm_count :: nat
  pd_resolve_epsilon :: nat
  pd_raise_step :: nat
  pd_max_probes_per_search :: nat
  pd_max_concurrent_peers :: nat
  pd_stable_downgrade_batches :: nat
  pd_raise_period :: duration

text \<open>\<^verbatim>\<open>PathMtuDiscovery::new\<close>; the raise period defaults to 60 s
  (\<^verbatim>\<open>TimerTuning::default\<close>).\<close>

definition PathMtuDiscovery_new :: PathMtuDiscovery where
  "PathMtuDiscovery_new =
     (let t = PmtudTuning_default in
     \<lparr>pd_peers = [], pd_min_path_mtu = DEFAULT_MTU, pd_pinned = None, pd_probe_id_counter = 0,
      pd_rr_cursor = 0, pd_probe_timeout = from_millis (pt_probe_timeout_ms t),
      pd_confirm_count = pt_confirm_count t, pd_resolve_epsilon = pt_resolve_epsilon t,
      pd_raise_step = pt_raise_step t, pd_max_probes_per_search = pt_max_probes_per_search t,
      pd_max_concurrent_peers = pt_max_concurrent_peers t,
      pd_stable_downgrade_batches = pt_stable_downgrade_batches t,
      pd_raise_period = from_secs 60\<rparr>)"

text \<open>\<^verbatim>\<open>if let Some(peer) = self.peers.get_mut(&ep)\<close> around an update of the peer.\<close>

definition upd_peer :: "SocketAddr \<Rightarrow> (PeerState \<Rightarrow> PeerState) \<Rightarrow> PathMtuDiscovery \<Rightarrow> PathMtuDiscovery" where
  "upd_peer ep f d =
     (case tab_get (pd_peers d) ep of
        None \<Rightarrow> d
      | Some p \<Rightarrow> d\<lparr>pd_peers := tab_put ep (f p) (pd_peers d)\<rparr>)"

text \<open>\<^verbatim>\<open>for peer in self.peers.values_mut()\<close>, with the address for the clock readings.\<close>

definition map_peers :: "(SocketAddr \<Rightarrow> PeerState \<Rightarrow> PeerState) \<Rightarrow> PathMtuDiscovery \<Rightarrow> PathMtuDiscovery" where
  "map_peers f d = d\<lparr>pd_peers := map (\<lambda>(ep, p). (ep, f ep p)) (pd_peers d)\<rparr>"

section \<open>Small operations\<close>

definition clamp_size :: "nat \<Rightarrow> nat" where
  "clamp_size sz = clamp MIN_MTU MAX_MTU sz"

definition recalc_min :: "PathMtuDiscovery \<Rightarrow> PathMtuDiscovery" where
  "recalc_min d =
     (case pd_pinned d of
        Some m \<Rightarrow> d\<lparr>pd_min_path_mtu := m\<rparr>
      | None \<Rightarrow> d\<lparr>pd_min_path_mtu :=
          (case map (p_last_good \<circ> snd) (pd_peers d) of [] \<Rightarrow> DEFAULT_MTU | x # xs \<Rightarrow> Min (set (x # xs)))\<rparr>)"

definition apply_tuning :: "(SocketAddr \<Rightarrow> instant) \<Rightarrow> PmtudTuning \<Rightarrow> PathMtuDiscovery \<Rightarrow> PathMtuDiscovery" where
  "apply_tuning clk t d0 =
     (let d = d0\<lparr>pd_probe_timeout := from_millis (pt_probe_timeout_ms t),
                 pd_confirm_count := pt_confirm_count t,
                 pd_resolve_epsilon := pt_resolve_epsilon t,
                 pd_raise_step := pt_raise_step t,
                 pd_max_probes_per_search := pt_max_probes_per_search t,
                 pd_max_concurrent_peers := pt_max_concurrent_peers t,
                 pd_stable_downgrade_batches := pt_stable_downgrade_batches t\<rparr> in
      if pd_pinned d \<noteq> None then d
      else map_peers (\<lambda>ep p0.
        let p = (abort_inflight p0)\<lparr>p_step := pd_raise_step d, p_probes_used := 0\<rparr> in
        if is_searching (p_phase p)
        then p\<lparr>p_phase := Plateau, p_next_raise_at := clk ep + pd_raise_period d\<rparr>
        else p) d)"

definition set_raise_period :: "nat \<Rightarrow> PathMtuDiscovery \<Rightarrow> PathMtuDiscovery" where
  "set_raise_period s d = d\<lparr>pd_raise_period := from_secs (max s 1)\<rparr>"

definition is_pinned :: "PathMtuDiscovery \<Rightarrow> bool" where
  "is_pinned d = (pd_pinned d \<noteq> None)"

definition set_pinned :: "(SocketAddr \<Rightarrow> instant) \<Rightarrow> instant \<Rightarrow> nat option \<Rightarrow> PathMtuDiscovery \<Rightarrow> PathMtuDiscovery" where
  "set_pinned clk now path_mtu d =
     (case path_mtu of
        Some m0 \<Rightarrow>
          let m = clamp_size m0; d = d\<lparr>pd_pinned := Some m, pd_min_path_mtu := m\<rparr> in
          map_peers (\<lambda>ep p. (abort_inflight p)
            \<lparr>p_last_good := m, p_stable := m, p_first_bad := min (m + 1) FIRST_BAD_SENTINEL,
             p_phase := Frozen, p_probes_used := 0, p_next_raise_at := clk ep + pd_raise_period d,
             p_down_from_stable := None, p_downsearch_got_ack := False\<rparr>) d
      | None \<Rightarrow>
          let d = d\<lparr>pd_pinned := None, pd_min_path_mtu := DEFAULT_MTU\<rparr> in
          map_peers (\<lambda>_ _. PeerState_new now (pd_raise_period d) (pd_raise_step d)) d)"

definition path_mtu_from_adapter :: "nat \<Rightarrow> nat \<Rightarrow> nat" where
  "path_mtu_from_adapter adapter_mtu enc_overhead =
     (let adapter = clamp MIN_MTU MAX_MTU adapter_mtu in
      clamp MIN_MTU MAX_MTU (sat_add 64 (sat_add 64 adapter UNDERLAY_IPV4_UDP_OVERHEAD) enc_overhead))"

definition remove_peer :: "SocketAddr \<Rightarrow> PathMtuDiscovery \<Rightarrow> PathMtuDiscovery" where
  "remove_peer ep d =
     (if tab_get (pd_peers d) ep \<noteq> None
      then recalc_min (d\<lparr>pd_peers := tab_del ep (pd_peers d)\<rparr>) else d)"

definition peer_last_good :: "SocketAddr \<Rightarrow> PathMtuDiscovery \<Rightarrow> nat option" where
  "peer_last_good ep d = map_option p_last_good (tab_get (pd_peers d) ep)"

definition udp_payload_budget :: "SocketAddr \<Rightarrow> PathMtuDiscovery \<Rightarrow> nat" where
  "udp_payload_budget ep d =
     (let ip_mtu = (case tab_get (pd_peers d) ep of Some p \<Rightarrow> p_last_good p | None \<Rightarrow> pd_min_path_mtu d) in
      ip_mtu - UNDERLAY_IPV4_UDP_OVERHEAD)"

definition suggested_adapter_mtu :: "nat \<Rightarrow> PathMtuDiscovery \<Rightarrow> nat" where
  "suggested_adapter_mtu enc_overhead d =
     clamp MIN_ADAPTER_PAYLOAD_MTU MAX_MTU
       (pd_min_path_mtu d - (UNDERLAY_IPV4_UDP_OVERHEAD + enc_overhead))"

definition seed_plateau_at :: "SocketAddr \<Rightarrow> nat \<Rightarrow> instant \<Rightarrow> PathMtuDiscovery \<Rightarrow> PathMtuDiscovery" where
  "seed_plateau_at ep mtu now d =
     (let st = (case tab_get (pd_peers d) ep of
                  Some p \<Rightarrow> p
                | None \<Rightarrow> PeerState_new now (pd_raise_period d) (pd_raise_step d));
          m = clamp_size mtu in
      recalc_min (d\<lparr>pd_peers := tab_put ep
        (st\<lparr>p_last_good := m, p_stable := m, p_first_bad := min (m + 1) FIRST_BAD_SENTINEL,
            p_phase := Plateau, p_next_raise_at := now, p_inflight := None, p_grace := None,
            p_probes_used := 0\<rparr>) (pd_peers d)\<rparr>))"

definition request_revalidate :: "SocketAddr \<Rightarrow> instant \<Rightarrow> PathMtuDiscovery \<Rightarrow> bool \<times> PathMtuDiscovery" where
  "request_revalidate ep now d =
     (if pd_pinned d \<noteq> None then (False, d)
      else case tab_get (pd_peers d) ep of
        None \<Rightarrow> (False, d)
      | Some st \<Rightarrow>
          if (case p_last_revalidate_hint_at st of
                Some prev \<Rightarrow> duration_since now prev < REVALIDATE_HINT_COOLDOWN | None \<Rightarrow> False)
          then (False, d)
          else if p_phase st = Plateau \<or> p_phase st = Frozen
          then (True, upd_peer ep (\<lambda>p. p\<lparr>p_next_raise_at := now, p_last_revalidate_hint_at := Some now\<rparr>) d)
          else (False, d))"

definition request_early_wake :: "SocketAddr \<Rightarrow> instant \<Rightarrow> PathMtuDiscovery \<Rightarrow> bool \<times> PathMtuDiscovery" where
  "request_early_wake ep now d =
     (if pd_pinned d \<noteq> None then (False, d)
      else case tab_get (pd_peers d) ep of
        None \<Rightarrow> (False, d)
      | Some st \<Rightarrow>
          if (case p_last_early_wake_at st of
                Some prev \<Rightarrow> duration_since now prev < EARLY_WAKE_COOLDOWN | None \<Rightarrow> False)
          then (False, d)
          else if p_phase st = Plateau \<or> p_phase st = Frozen
          then (True, upd_peer ep (\<lambda>p. p\<lparr>p_next_raise_at := now, p_last_early_wake_at := Some now\<rparr>) d)
          else (False, d))"

text \<open>\<^verbatim>\<open>next_deadline\<close>: both arms of the final conditional return the minimum collected, except
  that without peers nothing was collected and the start value is returned.\<close>

definition peer_wake :: "instant \<Rightarrow> PeerState \<Rightarrow> instant list" where
  "peer_wake now p =
     (case p_inflight p of Some i \<Rightarrow> [if_deadline i] | None \<Rightarrow> []) @
     (case p_grace p of Some g \<Rightarrow> [gp_deadline g] | None \<Rightarrow> []) @
     (if is_searching (p_phase p) then [now] else [p_next_raise_at p])"

definition next_deadline :: "instant \<Rightarrow> PathMtuDiscovery \<Rightarrow> instant" where
  "next_deadline now d =
     foldl min (now + pd_raise_period d) (concat (map (peer_wake now \<circ> snd) (pd_peers d)))"

definition needs_fast_tick :: "PathMtuDiscovery \<Rightarrow> bool" where
  "needs_fast_tick d =
     list_ex (\<lambda>(_, p). p_inflight p \<noteq> None \<or> p_grace p \<noteq> None \<or> is_searching (p_phase p)
        \<or> (p_phase p = Frozen \<and> p_inflight p = None)) (pd_peers d)"

definition next_probe_id :: "PathMtuDiscovery \<Rightarrow> u32 \<times> PathMtuDiscovery" where
  "next_probe_id d = (let c = pd_probe_id_counter d + 1 in (c, d\<lparr>pd_probe_id_counter := c\<rparr>))"

definition ensure_peer :: "SocketAddr \<Rightarrow> instant \<Rightarrow> PathMtuDiscovery \<Rightarrow> PathMtuDiscovery" where
  "ensure_peer ep now d =
     (case tab_get (pd_peers d) ep of
        Some _ \<Rightarrow> d
      | None \<Rightarrow>
          let st = PeerState_new now (pd_raise_period d) (pd_raise_step d);
              st = (case pd_pinned d of
                      None \<Rightarrow> st
                    | Some m \<Rightarrow> st\<lparr>p_last_good := m, p_stable := m,
                                  p_first_bad := min (m + 1) FIRST_BAD_SENTINEL, p_phase := Frozen\<rparr>) in
          d\<lparr>pd_peers := tab_put ep st (pd_peers d)\<rparr>)"

definition timeout_for_peer :: "PathMtuDiscovery \<Rightarrow> PeerState \<Rightarrow> duration" where
  "timeout_for_peer d p =
     (let floor = pd_probe_timeout d in
      if f64_lt (p_rtt_ms p) (Fin 0) then floor
      else let adaptive_ms = f64_as_u64 (f64_max (f64_round (f64_mul (Fin 4) (p_rtt_ms p))) (Fin 0));
               floor_ms = as_millis floor;
               cap_ms = as_millis ADAPTIVE_TIMEOUT_CAP in
        from_millis (min (max adaptive_ms floor_ms) cap_ms))"

section \<open>Phase transitions of one peer\<close>

definition raise_target :: "PeerState \<Rightarrow> nat option" where
  "raise_target p =
     (if p_last_good p \<ge> MAX_MTU then None
      else let hi = min (p_first_bad p - 1) MAX_MTU in
        if hi \<le> p_last_good p then None
        else let t = min (p_last_good p + p_step p) hi in
          if t > p_last_good p then Some t else None)"

definition binary_target :: "PeerState \<Rightarrow> nat option" where
  "binary_target p =
     (let lo = p_last_good p; hi = p_first_bad p in
      if hi \<le> lo + 1 then None
      else let mid = lo + (hi - lo) div 2 in
        if mid > lo \<and> mid < hi then Some (clamp_size mid) else None)"

definition enter_frozen :: "instant \<Rightarrow> duration \<Rightarrow> PeerState \<Rightarrow> PeerState" where
  "enter_frozen now raise_period p =
     p\<lparr>p_inflight := None, p_grace := None, p_phase := Frozen,
       p_next_raise_at := now + raise_period, p_probes_used := 0\<rparr>"

definition enter_plateau :: "instant \<Rightarrow> duration \<Rightarrow> nat \<Rightarrow> nat \<Rightarrow> PeerState \<Rightarrow> PeerState" where
  "enter_plateau now raise_period raise_step downgrade_batches p0 =
     (let p = p0\<lparr>p_inflight := None, p_grace := None, p_phase := Plateau,
                 p_next_raise_at := now + raise_period, p_probes_used := 0, p_step := raise_step,
                 p_down_from_stable := None\<rparr> in
      case p_down_from_stable p0 of
        None \<Rightarrow> p
      | Some from \<Rightarrow>
          if p_last_good p < from then
            let n = sat_add 8 (p_lower_campaigns p) 1 in
            if n \<ge> downgrade_batches
            then p\<lparr>p_stable := p_last_good p, p_lower_campaigns := 0\<rparr>
            else p\<lparr>p_lower_campaigns := n\<rparr>
          else p\<lparr>p_lower_campaigns := 0\<rparr>)"

definition finish_downsearch_plateau :: "instant \<Rightarrow> duration \<Rightarrow> nat \<Rightarrow> nat \<Rightarrow> PeerState \<Rightarrow> PeerState" where
  "finish_downsearch_plateau now raise_period raise_step downgrade_batches p =
     enter_plateau now raise_period raise_step downgrade_batches
       (if \<not> p_downsearch_got_ack p then p\<lparr>p_first_bad := FIRST_BAD_SENTINEL\<rparr> else p)"

definition maybe_budget_freeze :: "instant \<Rightarrow> duration \<Rightarrow> nat \<Rightarrow> PeerState \<Rightarrow> bool \<times> PeerState" where
  "maybe_budget_freeze now raise_period max_probes p =
     (if p_phase p = Recheck then (False, p)
      else if p_probes_used p \<ge> max_probes then (True, enter_frozen now raise_period p)
      else (False, p))"

definition begin_probe :: "u32 \<Rightarrow> nat \<Rightarrow> instant \<Rightarrow> nat \<Rightarrow> PeerState \<Rightarrow> PeerState" where
  "begin_probe probe_id sz deadline confirms p =
     p\<lparr>p_grace := None,
       p_inflight := Some \<lparr>if_probe_id = probe_id, if_size = clamp_size sz,
                           if_deadline = deadline, if_confirms_left = confirms\<rparr>,
       p_probes_used := sat_add 32 (p_probes_used p) 1\<rparr>"

definition soft_down_last_good :: "PeerState \<Rightarrow> nat" where
  "soft_down_last_good p =
     (if p_last_good p < p_stable p then max MIN_MTU (p_last_good p div 2)
      else max MIN_MTU (p_stable p div 2))"

text \<open>The change \<^verbatim>\<open>apply_soft_down\<close> makes to the peer.\<close>

definition soft_down_peer :: "SocketAddr \<Rightarrow> instant \<Rightarrow> PathMtuDiscovery \<Rightarrow> PeerState \<Rightarrow> PeerState" where
  "soft_down_peer ep now d p0 =
     (let lg0 = soft_down_last_good p0;
          new_lg = (if is_rfc1918_private_ip ep \<and> \<not> p_ever_acked p0 then max lg0 DEFAULT_MTU else lg0);
          p = p0\<lparr>p_first_bad := max (p_stable p0) (new_lg + 1), p_last_good := new_lg,
                 p_down_from_stable := Some (p_stable p0), p_downsearch_got_ack := False,
                 p_phase := DownSearch, p_probes_used := 0, p_step := pd_raise_step d,
                 p_search_gen := p_search_gen p0 + 1, p_inflight := None, p_grace := None\<rparr> in
      if window_closed (pd_resolve_epsilon d) p
      then finish_downsearch_plateau now (pd_raise_period d) (pd_raise_step d)
             (pd_stable_downgrade_batches d) p
      else p)"

definition apply_soft_down ::
    "SocketAddr \<Rightarrow> instant \<Rightarrow> PathMtuDiscovery \<times> PmtudEventCounts \<Rightarrow> PathMtuDiscovery \<times> PmtudEventCounts" where
  "apply_soft_down ep now = (\<lambda>(d, ev).
     case tab_get (pd_peers d) ep of
       None \<Rightarrow> (d, ev)
     | Some _ \<Rightarrow> (recalc_min (upd_peer ep (soft_down_peer ep now d) d),
                  ev\<lparr>ev_softdown := sat_add 64 (ev_softdown ev) 1\<rparr>))"

definition needs_heal :: "SocketAddr \<Rightarrow> PeerState \<Rightarrow> bool" where
  "needs_heal ep p = (\<not> (\<not> is_rfc1918_private_ip ep \<or> p_ever_acked p \<or> p_last_good p \<ge> DEFAULT_MTU))"

definition heal_peer :: "instant \<Rightarrow> nat \<Rightarrow> PeerState \<Rightarrow> PeerState" where
  "heal_peer now raise_step p =
     p\<lparr>p_last_good := DEFAULT_MTU, p_stable := DEFAULT_MTU, p_first_bad := FIRST_BAD_SENTINEL,
       p_inflight := None, p_grace := None, p_search_gen := p_search_gen p + 1, p_phase := Plateau,
       p_next_raise_at := now, p_probes_used := 0, p_step := raise_step, p_down_from_stable := None,
       p_downsearch_got_ack := False, p_lower_campaigns := 0\<rparr>"

definition heal_unacked_private_floor :: "instant \<Rightarrow> PathMtuDiscovery \<Rightarrow> PathMtuDiscovery" where
  "heal_unacked_private_floor now d =
     (let healed = list_ex (\<lambda>(ep, p). needs_heal ep p) (pd_peers d);
          d' = map_peers (\<lambda>ep p. if needs_heal ep p then heal_peer now (pd_raise_step d) p else p) d in
      if healed then recalc_min d' else d')"

definition anomaly_peer :: "instant \<Rightarrow> PathMtuDiscovery \<Rightarrow> PeerState \<Rightarrow> PeerState" where
  "anomaly_peer now d p =
     p\<lparr>p_inflight := None, p_grace := None, p_phase := Plateau, p_probes_used := 0,
       p_step := pd_raise_step d,
       p_next_raise_at := now + min (pd_raise_period d) ANOMALY_REARM_CAP\<rparr>"

definition apply_anomaly ::
    "SocketAddr \<Rightarrow> instant \<Rightarrow> PathMtuDiscovery \<times> PmtudEventCounts \<Rightarrow> PathMtuDiscovery \<times> PmtudEventCounts" where
  "apply_anomaly ep now = (\<lambda>(d, ev).
     case tab_get (pd_peers d) ep of
       None \<Rightarrow> (d, ev)
     | Some _ \<Rightarrow> (upd_peer ep (anomaly_peer now d) d,
                  ev\<lparr>ev_probe_anomaly := sat_add 64 (ev_probe_anomaly ev) 1\<rparr>))"

definition recheck_peer :: "PeerState \<Rightarrow> PeerState" where
  "recheck_peer p = p\<lparr>p_inflight := None, p_grace := None, p_phase := Recheck, p_probes_used := 0,
                      p_search_gen := p_search_gen p + 1\<rparr>"

definition enter_recheck ::
    "SocketAddr \<Rightarrow> PathMtuDiscovery \<times> PmtudEventCounts \<Rightarrow> PathMtuDiscovery \<times> PmtudEventCounts" where
  "enter_recheck ep = (\<lambda>(d, ev).
     case tab_get (pd_peers d) ep of
       None \<Rightarrow> (d, ev)
     | Some _ \<Rightarrow> (upd_peer ep recheck_peer d,
                  ev\<lparr>ev_revalidate_fail := sat_add 64 (ev_revalidate_fail ev) 1\<rparr>))"

section \<open>Timeouts\<close>

text \<open>The arms of \<^verbatim>\<open>apply_timeout_confirmed_fail\<close> that change the peer in place.\<close>

definition raise_fail_peer :: "nat \<Rightarrow> instant \<Rightarrow> PathMtuDiscovery \<Rightarrow> PeerState \<Rightarrow> PeerState" where
  "raise_fail_peer sz now d p0 =
     (let p = p0\<lparr>p_inflight := None, p_first_bad := clamp_size sz, p_step := pd_raise_step d,
                 p_phase := Binary\<rparr> in
      if window_closed (pd_resolve_epsilon d) p
      then enter_plateau now (pd_raise_period d) (pd_raise_step d) (pd_stable_downgrade_batches d) p
      else snd (maybe_budget_freeze now (pd_raise_period d) (pd_max_probes_per_search d) p))"

definition binary_fail_peer :: "nat \<Rightarrow> instant \<Rightarrow> PathMtuDiscovery \<Rightarrow> PeerState \<Rightarrow> PeerState" where
  "binary_fail_peer sz now d p0 =
     (let p = p0\<lparr>p_inflight := None, p_first_bad := min (clamp_size sz) (p_first_bad p0)\<rparr> in
      if window_closed (pd_resolve_epsilon d) p
      then enter_plateau now (pd_raise_period d) (pd_raise_step d) (pd_stable_downgrade_batches d) p
      else snd (maybe_budget_freeze now (pd_raise_period d) (pd_max_probes_per_search d) p))"

definition down_fail_peer :: "nat \<Rightarrow> instant \<Rightarrow> PathMtuDiscovery \<Rightarrow> PeerState \<Rightarrow> PeerState" where
  "down_fail_peer sz now d p0 =
     (let p = p0\<lparr>p_inflight := None, p_first_bad := min (clamp_size sz) (p_first_bad p0)\<rparr> in
      if window_closed (pd_resolve_epsilon d) p
      then finish_downsearch_plateau now (pd_raise_period d) (pd_raise_step d)
             (pd_stable_downgrade_batches d) p
      else snd (maybe_budget_freeze now (pd_raise_period d) (pd_max_probes_per_search d) p))"

definition apply_timeout_confirmed_fail ::
    "SocketAddr \<Rightarrow> nat \<Rightarrow> instant \<Rightarrow> PathMtuDiscovery \<times> PmtudEventCounts
       \<Rightarrow> PathMtuDiscovery \<times> PmtudEventCounts" where
  "apply_timeout_confirmed_fail ep sz now = (\<lambda>(d, ev).
     case tab_get (pd_peers d) ep of
       None \<Rightarrow> (d, ev)
     | Some p \<Rightarrow>
         (case p_phase p of
            Raise \<Rightarrow> (upd_peer ep (raise_fail_peer sz now d) d, ev)
          | Binary \<Rightarrow> (upd_peer ep (binary_fail_peer sz now d) d, ev)
          | Revalidate \<Rightarrow> if p_large_alive p then apply_anomaly ep now (d, ev) else enter_recheck ep (d, ev)
          | Recheck \<Rightarrow> apply_soft_down ep now (d, ev)
          | DownSearch \<Rightarrow> (upd_peer ep (down_fail_peer sz now d) d, ev)
          | Plateau \<Rightarrow> (d, ev)
          | Frozen \<Rightarrow> (d, ev)))"

definition on_timeout ::
    "SocketAddr \<Rightarrow> instant \<Rightarrow> PathMtuDiscovery \<times> PmtudEventCounts
       \<Rightarrow> ProbeIntent option \<times> PathMtuDiscovery \<times> PmtudEventCounts" where
  "on_timeout ep now = (\<lambda>(d, ev).
     case tab_get (pd_peers d) ep of
       None \<Rightarrow> (None, d, ev)
     | Some p \<Rightarrow>
         let timeout = timeout_for_peer d p in
         case p_inflight p of
           None \<Rightarrow> (None, d, ev)
         | Some i \<Rightarrow>
             let p = p\<lparr>p_inflight := None\<rparr>;
                 ev = ev\<lparr>ev_probe_timeouts := sat_add 64 (ev_probe_timeouts ev) 1\<rparr> in
             if if_confirms_left i > 1 then
               let p = (if p_phase p \<noteq> Recheck
                        then p\<lparr>p_probes_used := sat_add 32 (p_probes_used p) 1\<rparr> else p) in
               if p_phase p \<noteq> Recheck \<and> p_probes_used p \<ge> pd_max_probes_per_search d
               then (None, upd_peer ep (\<lambda>_. enter_frozen now (pd_raise_period d) p) d, ev)
               else
                 let (probe_id, d) = next_probe_id d in
                 (Some \<lparr>pi_peer = ep, pi_size = if_size i, pi_probe_id = probe_id,
                        pi_search_gen = p_search_gen p\<rparr>,
                  upd_peer ep (\<lambda>_. p\<lparr>p_inflight := Some \<lparr>if_probe_id = probe_id, if_size = if_size i,
                    if_deadline = now + timeout, if_confirms_left = if_confirms_left i - 1\<rparr>\<rparr>) d, ev)
             else if p_phase p = Revalidate \<or> p_phase p = Recheck then
               (None, upd_peer ep (\<lambda>_. p\<lparr>p_grace := Some \<lparr>gp_probe_id = if_probe_id i,
                  gp_size = if_size i, gp_search_gen = p_search_gen p, gp_deadline = now + timeout\<rparr>\<rparr>) d, ev)
             else (None, apply_timeout_confirmed_fail ep (if_size i) now (upd_peer ep (\<lambda>_. p) d, ev)))"

section \<open>Issuing probes\<close>

definition issue_probe ::
    "SocketAddr \<Rightarrow> instant \<Rightarrow> PathMtuDiscovery \<Rightarrow> ProbeIntent option \<times> PathMtuDiscovery" where
  "issue_probe ep now d =
     (case tab_get (pd_peers d) ep of
        None \<Rightarrow> (None, d)
      | Some p \<Rightarrow>
          let timeout = timeout_for_peer d p in
          if p_inflight p \<noteq> None \<or> p_grace p \<noteq> None then (None, d)
          else
            let (frozen, p') = maybe_budget_freeze now (pd_raise_period d) (pd_max_probes_per_search d) p in
            if frozen then (None, upd_peer ep (\<lambda>_. p') d)
            else
              let go = (\<lambda>sz.
                let (probe_id, d) = next_probe_id d in
                (Some \<lparr>pi_peer = ep, pi_size = sz, pi_probe_id = probe_id,
                       pi_search_gen = p_search_gen p\<rparr>,
                 upd_peer ep (begin_probe probe_id sz (now + timeout) (pd_confirm_count d)) d)) in
              case p_phase p of
                Raise \<Rightarrow> (case raise_target p of None \<Rightarrow> (None, d) | Some sz \<Rightarrow> go sz)
              | Binary \<Rightarrow>
                  if window_closed (pd_resolve_epsilon d) p then
                    (None, upd_peer ep (enter_plateau now (pd_raise_period d) (pd_raise_step d)
                             (pd_stable_downgrade_batches d)) d)
                  else (case binary_target p of None \<Rightarrow> (None, d) | Some sz \<Rightarrow> go sz)
              | DownSearch \<Rightarrow>
                  if window_closed (pd_resolve_epsilon d) p then
                    (None, upd_peer ep (finish_downsearch_plateau now (pd_raise_period d)
                             (pd_raise_step d) (pd_stable_downgrade_batches d)) d)
                  else (case binary_target p of None \<Rightarrow> (None, d) | Some sz \<Rightarrow> go sz)
              | Revalidate \<Rightarrow> go (clamp_size (p_stable p))
              | Recheck \<Rightarrow> go (clamp_size (p_stable p))
              | Plateau \<Rightarrow> (None, d)
              | Frozen \<Rightarrow> (None, d))"

section \<open>The tick\<close>

definition drop_stale :: "PeerTickInput list \<Rightarrow> PathMtuDiscovery \<Rightarrow> PathMtuDiscovery" where
  "drop_stale inputs d =
     (let active = set (map ti_addr inputs);
          stale = filter (\<lambda>a. a \<notin> active) (tab_keys (pd_peers d));
          d' = d\<lparr>pd_peers := fold tab_del stale (pd_peers d)\<rparr> in
      if stale \<noteq> [] then recalc_min d' else d')"

definition admit_input :: "instant \<Rightarrow> PeerTickInput \<Rightarrow> PathMtuDiscovery \<Rightarrow> PathMtuDiscovery" where
  "admit_input now inp d =
     upd_peer (ti_addr inp)
       (\<lambda>p. p\<lparr>p_rtt_ms := ti_rtt_ms inp,
              p_large_alive := (sh_warm (ti_health inp) \<and> sh_large_alive (ti_health inp))\<rparr>)
       (ensure_peer (ti_addr inp) now d)"

definition grace_expired :: "instant \<Rightarrow> PathMtuDiscovery \<Rightarrow> SocketAddr list" where
  "grace_expired now d =
     map fst (filter (\<lambda>(_, p). case p_grace p of Some g \<Rightarrow> now \<ge> gp_deadline g | None \<Rightarrow> False) (pd_peers d))"

definition expire_grace ::
    "instant \<Rightarrow> SocketAddr \<Rightarrow> PathMtuDiscovery \<times> PmtudEventCounts \<Rightarrow> PathMtuDiscovery \<times> PmtudEventCounts" where
  "expire_grace now ep = (\<lambda>(d, ev).
     let sz = (case tab_get (pd_peers d) ep of
                   Some p \<Rightarrow> (case p_grace p of Some g \<Rightarrow> gp_size g | None \<Rightarrow> MIN_MTU)
                 | None \<Rightarrow> MIN_MTU) in
     apply_timeout_confirmed_fail ep sz now
       (upd_peer ep (\<lambda>p. p\<lparr>p_grace := None\<rparr>) d,
        ev\<lparr>ev_probe_timeouts := sat_add 64 (ev_probe_timeouts ev) 1\<rparr>))"

definition timed_out :: "instant \<Rightarrow> PathMtuDiscovery \<Rightarrow> SocketAddr list" where
  "timed_out now d =
     map fst (filter (\<lambda>(_, p). case p_inflight p of
        Some i \<Rightarrow> now \<ge> if_deadline i \<and> if_probe_id i \<noteq> 0 | None \<Rightarrow> False) (pd_peers d))"

definition tick_timeout ::
    "instant \<Rightarrow> SocketAddr \<Rightarrow> ProbeIntent list \<times> PathMtuDiscovery \<times> PmtudEventCounts
       \<Rightarrow> ProbeIntent list \<times> PathMtuDiscovery \<times> PmtudEventCounts" where
  "tick_timeout now ep = (\<lambda>(intents, dev).
     case on_timeout ep now dev of
       (Some i, dev') \<Rightarrow> (intents @ [i], dev')
     | (None, dev') \<Rightarrow> (intents, dev'))"

definition start_phase_peer :: "instant \<Rightarrow> nat \<Rightarrow> PeerState \<Rightarrow> PeerState" where
  "start_phase_peer now raise_step p0 =
     (if p_inflight p0 \<noteq> None \<or> p_grace p0 \<noteq> None then p0
      else if p_phase p0 = Plateau \<and> now \<ge> p_next_raise_at p0 then
        let p = p0\<lparr>p_probes_used := 0, p_step := raise_step, p_search_gen := p_search_gen p0 + 1\<rparr> in
        if raise_target p \<noteq> None then p\<lparr>p_phase := Raise\<rparr> else p\<lparr>p_phase := Revalidate\<rparr>
      else if p_phase p0 = Frozen \<and> now \<ge> p_next_raise_at p0 then
        let p = p0\<lparr>p_phase := Plateau, p_step := raise_step, p_probes_used := 0,
                   p_search_gen := p_search_gen p0 + 1, p_next_raise_at := now\<rparr> in
        if raise_target p \<noteq> None then p\<lparr>p_phase := Raise\<rparr> else p\<lparr>p_phase := Revalidate\<rparr>
      else p0)"

definition start_phase :: "instant \<Rightarrow> SocketAddr \<Rightarrow> PathMtuDiscovery \<Rightarrow> PathMtuDiscovery" where
  "start_phase now ep d = upd_peer ep (start_phase_peer now (pd_raise_step d)) d"

definition wants_probe :: "PathMtuDiscovery \<Rightarrow> SocketAddr \<Rightarrow> bool" where
  "wants_probe d ep =
     (case tab_get (pd_peers d) ep of
        None \<Rightarrow> False
      | Some p \<Rightarrow>
          if p_inflight p \<noteq> None \<or> p_grace p \<noteq> None then False
          else case p_phase p of
            Raise \<Rightarrow> raise_target p \<noteq> None
          | Binary \<Rightarrow> binary_target p \<noteq> None
          | DownSearch \<Rightarrow> binary_target p \<noteq> None
          | Revalidate \<Rightarrow> True
          | Recheck \<Rightarrow> True
          | Plateau \<Rightarrow> False
          | Frozen \<Rightarrow> False)"

text \<open>The round-robin loop: \<open>i\<close> counts up from the cursor, at most \<open>cap\<close> probes are issued.\<close>

fun issue_loop ::
    "nat \<Rightarrow> instant \<Rightarrow> SocketAddr list \<Rightarrow> nat \<Rightarrow> ProbeIntent list \<times> PathMtuDiscovery
       \<Rightarrow> nat \<times> ProbeIntent list \<times> PathMtuDiscovery" where
  "issue_loop cap now [] issued (intents, d) = (issued, intents, d)"
| "issue_loop cap now (ep # eps) issued (intents, d) =
     (if issued \<ge> cap then (issued, intents, d)
      else case issue_probe ep now d of
        (Some i, d') \<Rightarrow> issue_loop cap now eps (issued + 1) (intents @ [i], d')
      | (None, d') \<Rightarrow> issue_loop cap now eps issued (intents, d'))"

definition issue_round ::
    "instant \<Rightarrow> SocketAddr list \<Rightarrow> ProbeIntent list \<Rightarrow> PathMtuDiscovery
       \<Rightarrow> ProbeIntent list \<times> PathMtuDiscovery" where
  "issue_round now want intents d0 =
     (if want = [] then (intents, d0)
      else
        let cap = min (pd_max_concurrent_peers d0 - length intents) (length want);
            d = (if pd_rr_cursor d0 \<ge> length want then d0\<lparr>pd_rr_cursor := 0\<rparr> else d0);
            (issued, intents, d) =
              issue_loop cap now (ring_take want (pd_rr_cursor d) (length want)) 0 (intents, d) in
        (intents, d\<lparr>pd_rr_cursor := (pd_rr_cursor d + max issued 1) mod 2 ^ 64\<rparr>))"

definition on_tick ::
    "instant \<Rightarrow> PeerTickInput list \<Rightarrow> PathMtuDiscovery
       \<Rightarrow> ProbeIntent list \<times> PmtudEventCounts \<times> PathMtuDiscovery" where
  "on_tick now inputs d =
     (if pd_pinned d \<noteq> None then ([], no_events, d)
      else
        let d = heal_unacked_private_floor now d;
            d = drop_stale inputs d;
            d = fold (admit_input now) inputs d;
            (d, ev) = fold (expire_grace now) (grace_expired now d) (d, no_events);
            (intents, d, ev) = fold (tick_timeout now) (timed_out now d) ([], d, ev);
            eps = map ti_addr inputs;
            d = fold (start_phase now) eps d;
            want = filter (wants_probe d) eps;
            (intents, d) = issue_round now want intents d in
        (intents, ev, d))"

section \<open>Acknowledgements and send failures\<close>

definition inflight_match :: "nat \<Rightarrow> u32 \<Rightarrow> u32 \<Rightarrow> PeerState \<Rightarrow> bool" where
  "inflight_match sz probe_id search_gen p =
     (case p_inflight p of
        Some i \<Rightarrow> p_search_gen p = search_gen \<and> if_probe_id i \<noteq> 0 \<and> if_probe_id i = probe_id \<and> if_size i = sz
      | None \<Rightarrow> False)"

definition grace_match :: "nat \<Rightarrow> u32 \<Rightarrow> u32 \<Rightarrow> instant \<Rightarrow> PeerState \<Rightarrow> bool" where
  "grace_match sz probe_id search_gen now p =
     (if p_inflight p = None then
        (case p_grace p of
           Some g \<Rightarrow> gp_probe_id g = probe_id \<and> gp_search_gen g = search_gen \<and> gp_size g = sz
                      \<and> now \<le> gp_deadline g
         | None \<Rightarrow> False)
      else False)"

text \<open>An ACK from an unknown port is credited to the only peer of that IP it matches; when two
  match it is refused.\<close>

definition resolve_ack :: "SocketAddr \<Rightarrow> nat \<Rightarrow> u32 \<Rightarrow> u32 \<Rightarrow> instant \<Rightarrow> PathMtuDiscovery \<Rightarrow> SocketAddr option" where
  "resolve_ack peer_addr sz probe_id search_gen now d =
     (if tab_get (pd_peers d) peer_addr \<noteq> None then Some peer_addr
      else case filter (\<lambda>(a, p). same_ip a peer_addr \<and>
               (inflight_match sz probe_id search_gen p \<or> grace_match sz probe_id search_gen now p))
             (pd_peers d) of
        [] \<Rightarrow> None
      | [(a, _)] \<Rightarrow> Some a
      | _ \<Rightarrow> None)"

definition ack_peer :: "nat \<Rightarrow> instant \<Rightarrow> PathMtuDiscovery \<Rightarrow> PeerState \<Rightarrow> PeerState" where
  "ack_peer sz now d p0 =
     (let p = p0\<lparr>p_inflight := None, p_grace := None, p_ever_acked := True\<rparr>;
          plateau = enter_plateau now (pd_raise_period d) (pd_raise_step d) (pd_stable_downgrade_batches d) in
      case p_phase p of
        Raise \<Rightarrow>
          let p = p\<lparr>p_last_good := sz\<rparr>;
              p = (if p_last_good p > p_stable p
                   then p\<lparr>p_stable := p_last_good p, p_lower_campaigns := 0\<rparr> else p);
              p = p\<lparr>p_step := max (min (p_step p * 2) (2 ^ 64 - 1)) (pd_raise_step d)\<rparr> in
          if raise_target p = None
          then plateau (if p_last_good p \<ge> MAX_MTU then p\<lparr>p_first_bad := FIRST_BAD_SENTINEL\<rparr> else p)
          else p
      | Binary \<Rightarrow>
          let p = p\<lparr>p_last_good := max sz (p_last_good p)\<rparr>;
              p = (if p_last_good p > p_stable p
                   then p\<lparr>p_stable := p_last_good p, p_lower_campaigns := 0\<rparr> else p) in
          if window_closed (pd_resolve_epsilon d) p then plateau p else p
      | Revalidate \<Rightarrow> plateau p
      | Recheck \<Rightarrow> plateau p
      | DownSearch \<Rightarrow>
          let p = p\<lparr>p_last_good := max sz (p_last_good p), p_downsearch_got_ack := True\<rparr> in
          if window_closed (pd_resolve_epsilon d) p
          then finish_downsearch_plateau now (pd_raise_period d) (pd_raise_step d)
                 (pd_stable_downgrade_batches d) p
          else p
      | Plateau \<Rightarrow> p
      | Frozen \<Rightarrow> p)"

definition on_ack ::
    "SocketAddr \<Rightarrow> nat \<Rightarrow> u32 \<Rightarrow> u32 \<Rightarrow> instant \<Rightarrow> PathMtuDiscovery
       \<Rightarrow> bool \<times> bool \<times> PmtudEventCounts \<times> PathMtuDiscovery" where
  "on_ack peer_addr ack_size probe_id search_gen now d =
     (if pd_pinned d \<noteq> None then (False, False, no_events, d)
      else
        let sz = clamp_size ack_size in
        case resolve_ack peer_addr sz probe_id search_gen now d of
          None \<Rightarrow> (False, False, no_events, d)
        | Some ep \<Rightarrow>
            (case tab_get (pd_peers d) ep of
               None \<Rightarrow> (False, False, no_events, d)
             | Some p \<Rightarrow>
                 (case p_inflight p of
                    None \<Rightarrow>
                      if grace_match sz probe_id search_gen now p then
                        let ev = no_events\<lparr>ev_late_ack := 1\<rparr>;
                            ev = (if p_phase p = Recheck then ev\<lparr>ev_recheck_recovered := 1\<rparr> else ev) in
                        (True, False, ev,
                         recalc_min (upd_peer ep (\<lambda>p.
                           enter_plateau now (pd_raise_period d) (pd_raise_step d)
                             (pd_stable_downgrade_batches d)
                             (p\<lparr>p_grace := None, p_ever_acked := True\<rparr>)) d))
                      else (False, False, no_events, d)
                  | Some i \<Rightarrow>
                      if search_gen \<noteq> p_search_gen p then (False, False, no_events, d)
                      else if if_probe_id i = 0 \<or> if_probe_id i \<noteq> probe_id then (False, False, no_events, d)
                      else if sz \<noteq> if_size i then (False, False, no_events, d)
                      else
                        let ev = (if p_phase p = Recheck
                                  then no_events\<lparr>ev_recheck_recovered := 1\<rparr> else no_events);
                            d' = recalc_min (upd_peer ep (ack_peer sz now d) d) in
                        (True, pd_min_path_mtu d' \<noteq> pd_min_path_mtu d, ev, d'))))"

definition on_send_hard_fail ::
    "SocketAddr \<Rightarrow> u32 \<Rightarrow> instant \<Rightarrow> PathMtuDiscovery \<Rightarrow> PmtudEventCounts \<times> PathMtuDiscovery" where
  "on_send_hard_fail ep probe_id now d =
     (if pd_pinned d \<noteq> None then (no_events, d)
      else case tab_get (pd_peers d) ep of
        None \<Rightarrow> (no_events, d)
      | Some p \<Rightarrow>
          (case p_inflight p of
             None \<Rightarrow> (no_events, d)
           | Some i \<Rightarrow>
               if if_probe_id i \<noteq> probe_id \<or> if_probe_id i = 0 then (no_events, d)
               else if p_phase p = Revalidate \<or> p_phase p = Recheck then
                 let d1 = upd_peer ep (\<lambda>p. p\<lparr>p_inflight := None, p_grace := None\<rparr>) d;
                     ev = (if p_phase p = Revalidate then no_events\<lparr>ev_revalidate_fail := 1\<rparr> else no_events);
                     (d2, ev2) = apply_soft_down ep now (d1, ev) in
                 (ev2, d2)
               else
                 let (d2, ev2) = apply_timeout_confirmed_fail ep (if_size i) now (d, no_events) in
                 (ev2, d2)))"

end
