(* ===== verification/Pmtud_Inv.thy ===== *)
theory Pmtud_Inv
  imports Pmtud
begin

text \<open>
  Invariants and properties of path-MTU discovery. \<open>peer_inv\<close> is the search-window invariant of
  one peer; every transition keeps it, so the whole table keeps \<open>disc_inv\<close> through any sequence
  of ticks, acknowledgements, send failures, pins and tuning changes (\<open>pmtud_step\<close>).
\<close>

section \<open>The invariant\<close>

definition window_inv :: "PeerState \<Rightarrow> bool" where
  "window_inv p =
     (MIN_MTU \<le> p_last_good p \<and> p_last_good p \<le> MAX_MTU
      \<and> p_last_good p < p_first_bad p \<and> p_first_bad p \<le> FIRST_BAD_SENTINEL
      \<and> MIN_MTU \<le> p_stable p \<and> p_stable p \<le> MAX_MTU)"

definition probe_fits :: "PeerState \<Rightarrow> nat \<Rightarrow> bool" where
  "probe_fits p sz =
     (case p_phase p of
        Raise \<Rightarrow> p_last_good p < sz \<and> sz < p_first_bad p
      | Binary \<Rightarrow> p_last_good p < sz \<and> sz < p_first_bad p
          \<and> sz = p_last_good p + (p_first_bad p - p_last_good p) div 2
      | DownSearch \<Rightarrow> p_last_good p < sz \<and> sz < p_first_bad p
          \<and> sz = p_last_good p + (p_first_bad p - p_last_good p) div 2
      | Revalidate \<Rightarrow> sz = p_stable p
      | Recheck \<Rightarrow> sz = p_stable p
      | Plateau \<Rightarrow> False
      | Frozen \<Rightarrow> False)"

definition probe_inv :: "PeerState \<Rightarrow> bool" where
  "probe_inv p =
     ((case p_inflight p of None \<Rightarrow> True | Some i \<Rightarrow> probe_fits p (if_size i) \<and> p_grace p = None)
      \<and> (case p_grace p of None \<Rightarrow> True | Some g \<Rightarrow> p_phase p = Revalidate \<or> p_phase p = Recheck))"

definition peer_inv :: "PeerState \<Rightarrow> bool" where
  "peer_inv p = (window_inv p \<and> probe_inv p)"

definition disc_inv :: "PathMtuDiscovery \<Rightarrow> bool" where
  "disc_inv d =
     (tab_ok (pd_peers d) \<and> (\<forall>(ep, p) \<in> set (pd_peers d). peer_inv p)
      \<and> MIN_MTU \<le> pd_min_path_mtu d \<and> pd_min_path_mtu d \<le> MAX_MTU
      \<and> (\<forall>m. pd_pinned d = Some m \<longrightarrow> pd_min_path_mtu d = m))"

lemmas mtu_consts = DEFAULT_MTU_def MIN_MTU_def MAX_MTU_def FIRST_BAD_SENTINEL_def
lemmas inv_defs = peer_inv_def window_inv_def probe_inv_def probe_fits_def

section \<open>Transitions of one peer\<close>

lemma clamp_size_range [simp]: "MIN_MTU \<le> clamp_size n" "clamp_size n \<le> MAX_MTU"
  by (simp_all add: clamp_size_def mtu_consts)

lemma clamp_size_id: "MIN_MTU \<le> n \<Longrightarrow> n \<le> MAX_MTU \<Longrightarrow> clamp_size n = n"
  by (simp add: clamp_size_def clamp_id)

lemma probe_inv_idle [simp]: "p_inflight p = None \<Longrightarrow> p_grace p = None \<Longrightarrow> probe_inv p"
  by (simp add: probe_inv_def)

lemma peer_inv_window: "peer_inv p \<Longrightarrow> window_inv p"
  by (simp add: peer_inv_def)

lemma peer_inv_new: "peer_inv (PeerState_new now rp rs)"
  by (simp add: PeerState_new_def inv_defs mtu_consts)

lemma raise_target_Some:
  assumes "raise_target p = Some t"
  shows "p_last_good p < t \<and> t < p_first_bad p \<and> t \<le> MAX_MTU \<and> t \<le> p_last_good p + p_step p"
  using assms by (auto simp: raise_target_def Let_def split: if_splits)

lemma binary_target_Some:
  assumes "binary_target p = Some t" and "window_inv p"
  shows "p_last_good p < t \<and> t < p_first_bad p \<and> t = p_last_good p + (p_first_bad p - p_last_good p) div 2"
proof -
  let ?mid = "p_last_good p + (p_first_bad p - p_last_good p) div 2"
  from assms(1) have m: "?mid > p_last_good p" "?mid < p_first_bad p" "t = clamp_size ?mid"
    by (auto simp: binary_target_def Let_def split: if_splits)
  with assms(2) have "MIN_MTU \<le> ?mid" "?mid \<le> MAX_MTU"
    by (auto simp: window_inv_def mtu_consts)
  with m show ?thesis by (simp add: clamp_size_id)
qed

lemma enter_frozen_inv: "window_inv p \<Longrightarrow> peer_inv (enter_frozen now rp p)"
  by (simp add: enter_frozen_def inv_defs)

lemma enter_plateau_inv: "window_inv p \<Longrightarrow> peer_inv (enter_plateau now rp rs db p)"
  by (simp add: enter_plateau_def inv_defs Let_def split: option.splits)

lemma finish_downsearch_inv: "window_inv p \<Longrightarrow> peer_inv (finish_downsearch_plateau now rp rs db p)"
  unfolding finish_downsearch_plateau_def
  by (rule enter_plateau_inv) (simp add: window_inv_def mtu_consts)

lemma maybe_budget_freeze_inv: "peer_inv p \<Longrightarrow> peer_inv (snd (maybe_budget_freeze now rp mp p))"
  by (simp add: maybe_budget_freeze_def enter_frozen_inv peer_inv_window)

lemma abort_inflight_inv: "window_inv p \<Longrightarrow> peer_inv (abort_inflight p)"
  by (simp add: abort_inflight_def inv_defs)

lemma begin_probe_inv:
  "window_inv p \<Longrightarrow> probe_fits p (clamp_size sz) \<Longrightarrow> peer_inv (begin_probe pid sz dl c p)"
  by (cases "p_phase p") (simp_all add: begin_probe_def inv_defs)

lemma soft_down_peer_inv:
  assumes "window_inv p"
  shows "peer_inv (soft_down_peer ep now d p)"
proof -
  define lg where "lg = (if is_rfc1918_private_ip ep \<and> \<not> p_ever_acked p
    then max (soft_down_last_good p) DEFAULT_MTU else soft_down_last_good p)"
  define q where "q = p\<lparr>p_first_bad := max (p_stable p) (lg + 1), p_last_good := lg,
                 p_down_from_stable := Some (p_stable p), p_downsearch_got_ack := False,
                 p_phase := DownSearch, p_probes_used := 0, p_step := pd_raise_step d,
                 p_search_gen := p_search_gen p + 1, p_inflight := None, p_grace := None\<rparr>"
  have "MIN_MTU \<le> lg" "lg \<le> MAX_MTU"
    using assms by (auto simp: lg_def soft_down_last_good_def window_inv_def mtu_consts)
  then have "window_inv q"
    using assms by (auto simp: q_def window_inv_def FIRST_BAD_SENTINEL_def)
  moreover from this have "peer_inv q" by (simp add: peer_inv_def q_def)
  moreover have "soft_down_peer ep now d p =
      (if window_closed (pd_resolve_epsilon d) q
       then finish_downsearch_plateau now (pd_raise_period d) (pd_raise_step d) (pd_stable_downgrade_batches d) q
       else q)"
    by (simp add: soft_down_peer_def Let_def lg_def q_def)
  ultimately show ?thesis by (simp add: finish_downsearch_inv)
qed

lemma heal_peer_inv: "peer_inv (heal_peer now rs p)"
  by (simp add: heal_peer_def inv_defs mtu_consts)

lemma anomaly_peer_inv: "window_inv p \<Longrightarrow> peer_inv (anomaly_peer now d p)"
  by (simp add: anomaly_peer_def inv_defs)

lemma recheck_peer_inv: "window_inv p \<Longrightarrow> peer_inv (recheck_peer p)"
  by (simp add: recheck_peer_def inv_defs)

text \<open>A failed size inside the window moves the upper edge down.\<close>

lemma window_shrink_upper:
  "window_inv p \<Longrightarrow> p_last_good p < sz \<Longrightarrow> sz < p_first_bad p \<Longrightarrow>
     window_inv (p\<lparr>p_first_bad := sz\<rparr>)"
  by (auto simp: window_inv_def)

lemma raise_fail_peer_inv:
  assumes w: "window_inv p" and l: "p_last_good p < sz" and u: "sz < p_first_bad p" and g: "p_grace p = None"
  shows "peer_inv (raise_fail_peer sz now d p)"
proof -
  have sz: "clamp_size sz = sz" using w l u by (auto simp: clamp_size_def clamp_id window_inv_def mtu_consts clamp_def)
  let ?q = "p\<lparr>p_inflight := None, p_first_bad := clamp_size sz, p_step := pd_raise_step d, p_phase := Binary\<rparr>"
  have "window_inv ?q" using w l u sz by (auto simp: window_inv_def)
  moreover from this have "peer_inv ?q" using g by (simp add: peer_inv_def)
  ultimately show ?thesis
    by (simp add: raise_fail_peer_def Let_def enter_plateau_inv maybe_budget_freeze_inv)
qed

lemma search_fail_peer_inv:
  assumes w: "window_inv p" and l: "p_last_good p < sz" and u: "sz < p_first_bad p" and g: "p_grace p = None"
  shows "peer_inv (binary_fail_peer sz now d p)" "peer_inv (down_fail_peer sz now d p)"
proof -
  have sz: "clamp_size sz = sz" using w l u by (auto simp: clamp_size_def window_inv_def mtu_consts clamp_def)
  let ?q = "p\<lparr>p_inflight := None, p_first_bad := min (clamp_size sz) (p_first_bad p)\<rparr>"
  have "window_inv ?q" using w l u sz by (auto simp: window_inv_def)
  moreover from this have "peer_inv ?q" using g by (simp add: peer_inv_def)
  ultimately show "peer_inv (binary_fail_peer sz now d p)" "peer_inv (down_fail_peer sz now d p)"
    by (simp_all add: binary_fail_peer_def down_fail_peer_def Let_def enter_plateau_inv
        finish_downsearch_inv maybe_budget_freeze_inv)
qed

lemma ack_peer_inv:
  assumes w: "window_inv p" and f: "probe_fits p sz"
  shows "peer_inv (ack_peer sz now d p)"
proof (cases "p_phase p")
  case Raise
  with f w show ?thesis
    by (auto simp: ack_peer_def Let_def probe_fits_def intro!: enter_plateau_inv)
      (auto simp: inv_defs mtu_consts)
next
  case Binary
  with f w show ?thesis
    by (auto simp: ack_peer_def Let_def probe_fits_def intro!: enter_plateau_inv)
      (auto simp: inv_defs mtu_consts)
next
  case DownSearch
  with f w show ?thesis
    by (auto simp: ack_peer_def Let_def probe_fits_def intro!: finish_downsearch_inv)
      (auto simp: inv_defs mtu_consts)
qed (use w f in \<open>simp_all add: ack_peer_def Let_def probe_fits_def enter_plateau_inv window_inv_def\<close>)

lemma start_phase_peer_inv: "peer_inv p \<Longrightarrow> peer_inv (start_phase_peer now rs p)"
  by (auto simp: start_phase_peer_def Let_def inv_defs)

section \<open>The whole table\<close>

lemma disc_inv_peer: "disc_inv d \<Longrightarrow> tab_get (pd_peers d) ep = Some p \<Longrightarrow> peer_inv p"
  by (auto simp: disc_inv_def dest: tab_get_mem)

lemma tab_get_upd_peer:
  "tab_get (pd_peers (upd_peer ep f d)) x =
     (if x = ep then map_option f (tab_get (pd_peers d) ep) else tab_get (pd_peers d) x)"
  by (auto simp: upd_peer_def tab_get_put split: option.splits)

lemma upd_peer_fields [simp]:
  "pd_min_path_mtu (upd_peer ep f d) = pd_min_path_mtu d" "pd_pinned (upd_peer ep f d) = pd_pinned d"
  "pd_raise_step (upd_peer ep f d) = pd_raise_step d" "pd_raise_period (upd_peer ep f d) = pd_raise_period d"
  "pd_probe_id_counter (upd_peer ep f d) = pd_probe_id_counter d"
  "pd_max_concurrent_peers (upd_peer ep f d) = pd_max_concurrent_peers d"
  by (simp_all add: upd_peer_def split: option.splits)

lemma upd_peer_inv:
  assumes "disc_inv d" and "\<And>p. tab_get (pd_peers d) ep = Some p \<Longrightarrow> peer_inv p \<Longrightarrow> peer_inv (f p)"
  shows "disc_inv (upd_peer ep f d)"
proof (cases "tab_get (pd_peers d) ep")
  case None
  with assms(1) show ?thesis by (simp add: upd_peer_def)
next
  case (Some p)
  then have "peer_inv (f p)" using assms by (auto dest: disc_inv_peer)
  with Some assms(1) show ?thesis
    by (auto simp: upd_peer_def disc_inv_def set_tab_put)
qed

lemma put_peer_inv:
  "disc_inv d \<Longrightarrow> peer_inv p \<Longrightarrow> disc_inv (d\<lparr>pd_peers := tab_put ep p (pd_peers d)\<rparr>)"
  by (auto simp: disc_inv_def set_tab_put)

lemma tab_ok_mapi: "tab_ok (map (\<lambda>(k, v). (k, f k v)) t) = tab_ok t"
proof -
  have "map fst (map (\<lambda>(k, v). (k, f k v)) t) = map fst t" by (induction t) auto
  then show ?thesis by (simp only: tab_ok_def)
qed

lemma map_peers_inv:
  assumes "disc_inv d" and "\<And>ep p. peer_inv p \<Longrightarrow> peer_inv (f ep p)"
  shows "disc_inv (map_peers f d)"
  using assms by (auto simp: disc_inv_def map_peers_def tab_ok_mapi)

lemma recalc_min_eq:
  "pd_pinned d = None \<Longrightarrow> pd_peers d \<noteq> [] \<Longrightarrow>
     pd_min_path_mtu (recalc_min d) = Min (p_last_good ` snd ` set (pd_peers d))"
  by (cases "pd_peers d") (simp_all add: recalc_min_def image_image comp_def)

lemma recalc_min_peers [simp]: "pd_peers (recalc_min d) = pd_peers d" "pd_pinned (recalc_min d) = pd_pinned d"
  by (simp_all add: recalc_min_def split: option.splits)

lemma recalc_min_inv:
  assumes "disc_inv d"
  shows "disc_inv (recalc_min d)"
proof (cases "pd_pinned d")
  case (Some m)
  with assms show ?thesis by (simp add: disc_inv_def recalc_min_def)
next
  case None
  show ?thesis
  proof (cases "pd_peers d = []")
    case True
    with None show ?thesis by (simp add: disc_inv_def recalc_min_def mtu_consts)
  next
    case False
    let ?S = "p_last_good ` snd ` set (pd_peers d)"
    have "Min ?S \<in> ?S" using False by (intro Min_in) auto
    then have "MIN_MTU \<le> Min ?S \<and> Min ?S \<le> MAX_MTU"
      using assms by (fastforce simp: disc_inv_def peer_inv_def window_inv_def)
    with None False assms show ?thesis by (simp add: disc_inv_def recalc_min_eq)
  qed
qed

lemma drop_peers_inv:
  "disc_inv d \<Longrightarrow> tab_ok t \<Longrightarrow> set t \<subseteq> set (pd_peers d) \<Longrightarrow> disc_inv (d\<lparr>pd_peers := t\<rparr>)"
  by (auto simp: disc_inv_def)

lemma tuning_inv:
  "disc_inv d \<Longrightarrow> disc_inv (d\<lparr>pd_probe_timeout := a, pd_confirm_count := b, pd_resolve_epsilon := c,
     pd_raise_step := e, pd_max_probes_per_search := f, pd_max_concurrent_peers := g,
     pd_stable_downgrade_batches := h\<rparr>)"
  by (simp add: disc_inv_def)

lemma counter_inv:
  "disc_inv d \<Longrightarrow> disc_inv (d\<lparr>pd_probe_id_counter := c\<rparr>)"
  "disc_inv d \<Longrightarrow> disc_inv (d\<lparr>pd_rr_cursor := n\<rparr>)"
  "disc_inv d \<Longrightarrow> disc_inv (d\<lparr>pd_raise_period := r\<rparr>)"
  by (simp_all add: disc_inv_def)

lemma disc_inv_new: "disc_inv PathMtuDiscovery_new"
  by (simp add: disc_inv_def PathMtuDiscovery_new_def Let_def mtu_consts)

section \<open>Configuration and hints\<close>

lemma apply_tuning_inv:
  assumes "disc_inv d"
  shows "disc_inv (apply_tuning clk t d)"
proof -
  have "peer_inv p \<Longrightarrow> peer_inv (let p = (abort_inflight p)\<lparr>p_step := r, p_probes_used := 0\<rparr> in
        if is_searching (p_phase p) then p\<lparr>p_phase := Plateau, p_next_raise_at := n\<rparr> else p)" for p r n
    by (simp add: abort_inflight_def inv_defs Let_def)
  then show ?thesis
    unfolding apply_tuning_def Let_def using assms
    by (auto intro!: map_peers_inv tuning_inv)
qed

lemma set_pinned_inv:
  assumes "disc_inv d"
  shows "disc_inv (set_pinned clk now m d)"
proof (cases m)
  case None
  have "disc_inv (d\<lparr>pd_pinned := None, pd_min_path_mtu := DEFAULT_MTU\<rparr>)"
    using assms by (simp add: disc_inv_def mtu_consts)
  with None show ?thesis
    by (simp add: set_pinned_def Let_def map_peers_inv peer_inv_new)
next
  case (Some x)
  have "disc_inv (d\<lparr>pd_pinned := Some (clamp_size x), pd_min_path_mtu := clamp_size x\<rparr>)"
    using assms by (simp add: disc_inv_def)
  moreover have "clamp_size x < min (Suc (clamp_size x)) FIRST_BAD_SENTINEL"
    using clamp_size_range(2) [of x] by (simp add: FIRST_BAD_SENTINEL_def)
  ultimately show ?thesis
    using Some by (simp add: set_pinned_def Let_def map_peers_inv abort_inflight_def inv_defs)
qed

lemma remove_peer_inv: "disc_inv d \<Longrightarrow> disc_inv (remove_peer ep d)"
  unfolding remove_peer_def
  by (auto intro!: recalc_min_inv drop_peers_inv simp: set_tab_del) (simp add: disc_inv_def)

lemma seed_plateau_at_inv: "disc_inv d \<Longrightarrow> disc_inv (seed_plateau_at ep m now d)"
proof -
  have "clamp_size m < min (Suc (clamp_size m)) FIRST_BAD_SENTINEL"
    using clamp_size_range(2) [of m] by (simp add: FIRST_BAD_SENTINEL_def)
  then show "disc_inv d \<Longrightarrow> disc_inv (seed_plateau_at ep m now d)"
    unfolding seed_plateau_at_def Let_def
    by (intro recalc_min_inv put_peer_inv) (simp_all add: inv_defs)
qed

lemma hint_inv:
  "peer_inv p \<Longrightarrow> peer_inv (p\<lparr>p_next_raise_at := a, p_last_revalidate_hint_at := b\<rparr>)"
  "peer_inv p \<Longrightarrow> peer_inv (p\<lparr>p_next_raise_at := a, p_last_early_wake_at := b\<rparr>)"
  "peer_inv p \<Longrightarrow> peer_inv (p\<lparr>p_rtt_ms := r, p_large_alive := l\<rparr>)"
  by (simp_all add: inv_defs split: option.splits Phase.splits)

lemma request_revalidate_inv: "disc_inv d \<Longrightarrow> disc_inv (snd (request_revalidate ep now d))"
  by (auto simp: request_revalidate_def intro!: upd_peer_inv hint_inv split: option.splits)

lemma request_early_wake_inv: "disc_inv d \<Longrightarrow> disc_inv (snd (request_early_wake ep now d))"
  by (auto simp: request_early_wake_def intro!: upd_peer_inv hint_inv split: option.splits)

lemma ensure_peer_inv:
  assumes "disc_inv d"
  shows "disc_inv (ensure_peer ep now d)"
proof -
  let ?n = "PeerState_new now (pd_raise_period d) (pd_raise_step d)"
  have "peer_inv (?n\<lparr>p_last_good := m, p_stable := m, p_first_bad := min (m + 1) FIRST_BAD_SENTINEL,
      p_phase := Frozen\<rparr>)" if "pd_pinned d = Some m" for m
    using assms that by (simp add: disc_inv_def inv_defs PeerState_new_def FIRST_BAD_SENTINEL_def)
  then show ?thesis
    using assms by (auto simp: ensure_peer_def Let_def intro!: put_peer_inv peer_inv_new split: option.splits)
qed

section \<open>Timeouts\<close>

text \<open>What a confirmed failure of size \<open>sz\<close> needs to know of the peer.\<close>

definition fail_ready :: "nat \<Rightarrow> PeerState \<Rightarrow> bool" where
  "fail_ready sz p =
     (p_grace p = None \<and> (p_phase p \<in> {Raise, Binary, DownSearch} \<longrightarrow> p_last_good p < sz \<and> sz < p_first_bad p))"

lemma apply_soft_down_inv: "disc_inv (fst x) \<Longrightarrow> disc_inv (fst (apply_soft_down ep now x))"
  by (cases x) (auto simp: apply_soft_down_def split: option.splits
      intro!: recalc_min_inv upd_peer_inv soft_down_peer_inv peer_inv_window)

lemma apply_anomaly_inv: "disc_inv (fst x) \<Longrightarrow> disc_inv (fst (apply_anomaly ep now x))"
  by (cases x) (auto simp: apply_anomaly_def split: option.splits
      intro!: upd_peer_inv anomaly_peer_inv peer_inv_window)

lemma enter_recheck_inv: "disc_inv (fst x) \<Longrightarrow> disc_inv (fst (enter_recheck ep x))"
  by (cases x) (auto simp: enter_recheck_def split: option.splits
      intro!: upd_peer_inv recheck_peer_inv peer_inv_window)

lemma confirmed_fail_inv:
  assumes "disc_inv d" and "\<And>p. tab_get (pd_peers d) ep = Some p \<Longrightarrow> fail_ready sz p"
  shows "disc_inv (fst (apply_timeout_confirmed_fail ep sz now (d, ev)))"
proof (cases "tab_get (pd_peers d) ep")
  case None
  with assms(1) show ?thesis by (simp add: apply_timeout_confirmed_fail_def)
next
  case (Some p)
  with assms have r: "fail_ready sz p" by simp
  have inv: "disc_inv (fst (d, ev))" using assms(1) by simp
  show ?thesis
    using Some r assms(1) apply_soft_down_inv [OF inv] apply_anomaly_inv [OF inv] enter_recheck_inv [OF inv]
    by (cases "p_phase p")
      (auto simp: apply_timeout_confirmed_fail_def fail_ready_def
        intro!: upd_peer_inv raise_fail_peer_inv search_fail_peer_inv peer_inv_window)
qed

lemma confirmed_fail_other:
  "x \<noteq> ep \<Longrightarrow> tab_get (pd_peers (fst (apply_timeout_confirmed_fail ep sz now (d, ev)))) x = tab_get (pd_peers d) x"
  by (auto simp: apply_timeout_confirmed_fail_def apply_soft_down_def apply_anomaly_def enter_recheck_def
      tab_get_upd_peer split: option.splits Phase.splits)

lemma on_timeout_inv:
  assumes "disc_inv d"
  shows "disc_inv (fst (snd (on_timeout ep now (d, ev))))"
proof (cases "\<exists>p i. tab_get (pd_peers d) ep = Some p \<and> p_inflight p = Some i")
  case False
  with assms show ?thesis
    by (auto simp: on_timeout_def Let_def split: option.splits)
next
  case True
  then obtain p i where p: "tab_get (pd_peers d) ep = Some p" and i: "p_inflight p = Some i" by blast
  have inv: "peer_inv p" using assms p by (rule disc_inv_peer)
  let ?q = "p\<lparr>p_inflight := None\<rparr>"
  have q: "window_inv ?q" "peer_inv ?q" "fail_ready (if_size i) ?q"
    using inv i by (auto simp: inv_defs fail_ready_def split: Phase.splits)
  have fz: "disc_inv (upd_peer ep (\<lambda>_. enter_frozen now r (?q\<lparr>p_probes_used := n\<rparr>)) d)" for r n
    using assms q(1) by (intro upd_peer_inv enter_frozen_inv) (simp_all add: window_inv_def)
  have re: "peer_inv (?q\<lparr>p_probes_used := n, p_inflight := Some \<lparr>if_probe_id = c,
      if_size = if_size i, if_deadline = t, if_confirms_left = l\<rparr>\<rparr>)" for n c t l
    using inv i by (auto simp: inv_defs split: Phase.splits)
  have re2: "peer_inv (?q\<lparr>p_inflight := Some \<lparr>if_probe_id = c,
      if_size = if_size i, if_deadline = t, if_confirms_left = l\<rparr>\<rparr>)" for c t l
    using inv i by (auto simp: inv_defs split: Phase.splits)
  have gr: "p_phase p = Revalidate \<or> p_phase p = Recheck \<Longrightarrow> peer_inv (?q\<lparr>p_grace := Some g\<rparr>)" for g
    using inv by (auto simp: inv_defs split: Phase.splits)
  have cf: "disc_inv (fst (apply_timeout_confirmed_fail ep (if_size i) now (upd_peer ep (\<lambda>_. ?q) d, ev')))" for ev'
    using assms q by (intro confirmed_fail_inv upd_peer_inv) (auto simp: tab_get_upd_peer)
  show ?thesis
    using p i assms fz re re2 gr cf
    by (auto simp: on_timeout_def Let_def next_probe_id_def
        intro!: upd_peer_inv counter_inv re re2 fz)
qed

section \<open>Probes\<close>

text \<open>A probe handed to the socket is the one in flight for its peer.\<close>

definition intent_live :: "PathMtuDiscovery \<Rightarrow> ProbeIntent \<Rightarrow> bool" where
  "intent_live d i =
     (case tab_get (pd_peers d) (pi_peer i) of
        None \<Rightarrow> False
      | Some p \<Rightarrow> (case p_inflight p of
          None \<Rightarrow> False
        | Some f \<Rightarrow> if_probe_id f = pi_probe_id i \<and> if_size f = pi_size i \<and> p_search_gen p = pi_search_gen i))"

definition in_flight :: "PathMtuDiscovery \<Rightarrow> SocketAddr \<Rightarrow> bool" where
  "in_flight d ep = (case tab_get (pd_peers d) ep of None \<Rightarrow> False | Some p \<Rightarrow> p_inflight p \<noteq> None)"

lemma intent_live_in_flight: "intent_live d i \<Longrightarrow> in_flight d (pi_peer i)"
  by (auto simp: intent_live_def in_flight_def split: option.splits)

lemma intent_live_cong:
  "tab_get (pd_peers d') (pi_peer i) = tab_get (pd_peers d) (pi_peer i) \<Longrightarrow> intent_live d' i = intent_live d i"
  by (simp add: intent_live_def)

text \<open>The outcomes of \<^verbatim>\<open>issue_probe\<close>: nothing changes when a probe or a grace period is pending;
  otherwise the peer is frozen or returns to the plateau, or a probe of a fitting size starts.\<close>

definition probe_size :: "PeerState \<Rightarrow> nat option" where
  "probe_size p =
     (case p_phase p of
        Raise \<Rightarrow> raise_target p
      | Binary \<Rightarrow> binary_target p
      | DownSearch \<Rightarrow> binary_target p
      | Revalidate \<Rightarrow> Some (clamp_size (p_stable p))
      | Recheck \<Rightarrow> Some (clamp_size (p_stable p))
      | Plateau \<Rightarrow> None
      | Frozen \<Rightarrow> None)"

lemma probe_size_fits:
  assumes "window_inv p" and "probe_size p = Some sz"
  shows "probe_fits p sz \<and> clamp_size sz = sz"
proof -
  have "probe_fits p sz"
    using assms binary_target_Some [of p sz]
    by (auto simp: probe_size_def probe_fits_def raise_target_Some clamp_size_id window_inv_def
        split: Phase.splits)
  moreover from this have "MIN_MTU \<le> sz \<and> sz \<le> MAX_MTU"
    using assms(1) by (auto simp: probe_fits_def window_inv_def mtu_consts split: Phase.splits)
  ultimately show ?thesis by (simp add: clamp_size_id)
qed

lemma issue_probe_Some:
  assumes "issue_probe ep now d = (Some i, d')"
  shows "\<exists>p sz c. tab_get (pd_peers d) ep = Some p \<and> p_inflight p = None \<and> p_grace p = None
     \<and> probe_size p = Some sz \<and> c = pd_probe_id_counter d + 1
     \<and> i = \<lparr>pi_peer = ep, pi_size = sz, pi_probe_id = c, pi_search_gen = p_search_gen p\<rparr>
     \<and> d' = upd_peer ep (begin_probe c sz (now + timeout_for_peer d p) (pd_confirm_count d))
              (d\<lparr>pd_probe_id_counter := c\<rparr>)"
  using assms
  by (auto simp: issue_probe_def Let_def next_probe_id_def probe_size_def maybe_budget_freeze_def
      split: option.splits if_splits Phase.splits)

lemma issue_probe_None:
  assumes "issue_probe ep now d = (None, d')"
  shows "d' = d \<or> (\<exists>p f. tab_get (pd_peers d) ep = Some p \<and> p_inflight p = None \<and> d' = upd_peer ep f d
     \<and> f \<in> {\<lambda>_. enter_frozen now (pd_raise_period d) p,
            enter_plateau now (pd_raise_period d) (pd_raise_step d) (pd_stable_downgrade_batches d),
            finish_downsearch_plateau now (pd_raise_period d) (pd_raise_step d) (pd_stable_downgrade_batches d)})"
  using assms
  by (auto simp: issue_probe_def Let_def next_probe_id_def maybe_budget_freeze_def
      split: option.splits if_splits Phase.splits)

lemma issue_probe_inv:
  assumes "disc_inv d"
  shows "disc_inv (snd (issue_probe ep now d))"
proof (cases "issue_probe ep now d")
  case (Pair r d')
  show ?thesis
  proof (cases r)
    case None
    with Pair have "issue_probe ep now d = (None, d')" by simp
    from issue_probe_None [OF this] show ?thesis
      using Pair assms
      by (auto intro!: upd_peer_inv enter_frozen_inv enter_plateau_inv finish_downsearch_inv
          dest: disc_inv_peer peer_inv_window)
  next
    case (Some i)
    with Pair have "issue_probe ep now d = (Some i, d')" by simp
    then obtain p sz c where p: "tab_get (pd_peers d) ep = Some p" "probe_size p = Some sz"
      and d': "d' = upd_peer ep (begin_probe c sz (now + timeout_for_peer d p) (pd_confirm_count d))
              (d\<lparr>pd_probe_id_counter := c\<rparr>)"
      using issue_probe_Some by blast
    have w: "window_inv p" using assms p(1) by (rule peer_inv_window [OF disc_inv_peer])
    have "disc_inv d'"
      unfolding d' using p w probe_size_fits [OF w p(2)]
      by (intro upd_peer_inv counter_inv assms begin_probe_inv) simp_all
    with Pair show ?thesis by simp
  qed
qed

lemma issue_probe_keeps_live:
  assumes "intent_live d i"
  shows "intent_live (snd (issue_probe ep now d)) i"
proof (cases "pi_peer i = ep")
  case True
  with assms have "snd (issue_probe ep now d) = d"
    by (auto simp: intent_live_def issue_probe_def Let_def split: option.splits)
  with assms show ?thesis by simp
next
  case False
  obtain r d' where rd: "issue_probe ep now d = (r, d')" by (cases "issue_probe ep now d")
  have "tab_get (pd_peers d') (pi_peer i) = tab_get (pd_peers d) (pi_peer i)"
  proof (cases r)
    case None
    with rd have "issue_probe ep now d = (None, d')" by simp
    from issue_probe_None [OF this] False show ?thesis by (elim disjE exE conjE) (simp_all add: tab_get_upd_peer)
  next
    case (Some j)
    with rd have "issue_probe ep now d = (Some j, d')" by simp
    from issue_probe_Some [OF this] False show ?thesis by (elim exE conjE) (simp add: tab_get_upd_peer)
  qed
  with assms rd intent_live_cong [of d' i d] show ?thesis by simp
qed

lemma issue_probe_live:
  assumes "disc_inv d" and "issue_probe ep now d = (Some i, d')"
  shows "intent_live d' i"
proof -
  from issue_probe_Some [OF assms(2)] obtain p sz c where p: "tab_get (pd_peers d) ep = Some p" "probe_size p = Some sz"
    and i: "i = \<lparr>pi_peer = ep, pi_size = sz, pi_probe_id = c, pi_search_gen = p_search_gen p\<rparr>"
    and d': "d' = upd_peer ep (begin_probe c sz (now + timeout_for_peer d p) (pd_confirm_count d))
              (d\<lparr>pd_probe_id_counter := c\<rparr>)"
    by blast
  have "window_inv p" using assms(1) p(1) by (rule peer_inv_window [OF disc_inv_peer])
  from probe_size_fits [OF this p(2)] show ?thesis
    using p(1) by (simp add: i d' intent_live_def tab_get_upd_peer begin_probe_def)
qed

lemma issue_loop_inv:
  assumes "disc_inv d" and "list_all (intent_live d) is"
    and "issue_loop cap now eps n (is, d) = (n', is', d')"
  shows "disc_inv d' \<and> list_all (intent_live d') is' \<and> n \<le> n' \<and> n' \<le> max n cap
    \<and> length is' = length is + (n' - n)"
  using assms
proof (induction eps arbitrary: n "is" d)
  case Nil
  then show ?case by simp
next
  case (Cons ep eps)
  obtain r e where re: "issue_probe ep now d = (r, e)" by (cases "issue_probe ep now d")
  have e: "disc_inv e" using issue_probe_inv [OF Cons.prems(1), of ep now] re by simp
  have live: "list_all (intent_live e) is"
    using Cons.prems(2) issue_probe_keeps_live [of d _ ep now] re by (auto simp: list_all_iff)
  show ?case
  proof (cases "n \<ge> cap")
    case True
    with Cons.prems show ?thesis by simp
  next
    case False
    show ?thesis
    proof (cases r)
      case None
      with Cons.prems(3) re False have "issue_loop cap now eps n (is, e) = (n', is', d')" by simp
      from Cons.IH [OF e live this] show ?thesis .
    next
      case (Some i)
      with issue_probe_live [OF Cons.prems(1)] re live have "list_all (intent_live e) (is @ [i])" by simp
      moreover have "issue_loop cap now eps (n + 1) (is @ [i], e) = (n', is', d')"
        using Cons.prems(3) re False Some by simp
      ultimately have "disc_inv d' \<and> list_all (intent_live d') is' \<and> n + 1 \<le> n' \<and> n' \<le> max (n + 1) cap
          \<and> length is' = length (is @ [i]) + (n' - (n + 1))"
        by (rule Cons.IH [OF e])
      with False show ?thesis by auto
    qed
  qed
qed

lemma issue_round_inv:
  assumes "disc_inv d" and "list_all (intent_live d) is"
    and "issue_round now want is d = (is', d')"
  shows "disc_inv d' \<and> list_all (intent_live d') is'
    \<and> length is' \<le> max (length is) (pd_max_concurrent_peers d)"
proof (cases "want = []")
  case True
  with assms show ?thesis by (simp add: issue_round_def)
next
  case False
  define e where "e = (if pd_rr_cursor d \<ge> length want then d\<lparr>pd_rr_cursor := 0\<rparr> else d)"
  have e: "disc_inv e" "list_all (intent_live e) is"
    using assms(1,2) by (auto simp: e_def counter_inv intent_live_def list_all_iff)
  define cap where "cap = min (pd_max_concurrent_peers d - length is) (length want)"
  obtain n js f where l: "issue_loop cap now (ring_take want (pd_rr_cursor e) (length want)) 0 (is, e) = (n, js, f)"
    by (cases "issue_loop cap now (ring_take want (pd_rr_cursor e) (length want)) 0 (is, e)")
  have r: "is' = js" "d' = f\<lparr>pd_rr_cursor := (pd_rr_cursor f + max n 1) mod 2 ^ 64\<rparr>"
    using assms(3) False l by (simp_all add: issue_round_def Let_def e_def cap_def split: if_splits)
  from issue_loop_inv [OF e l] have "disc_inv f" "list_all (intent_live f) js" "n \<le> cap"
    "length js = length is + n" by auto
  then show ?thesis
    using r by (auto simp: counter_inv intent_live_def list_all_iff cap_def)
qed

section \<open>The tick\<close>

lemma heal_inv: "disc_inv d \<Longrightarrow> disc_inv (heal_unacked_private_floor now d)"
  unfolding heal_unacked_private_floor_def Let_def
  by (auto intro!: recalc_min_inv map_peers_inv heal_peer_inv)

lemma fold_tab_del: "tab_ok t \<Longrightarrow> tab_ok (fold tab_del ks t) \<and> set (fold tab_del ks t) \<subseteq> set t"
proof (induction ks arbitrary: t)
  case Nil
  then show ?case by simp
next
  case (Cons k ks)
  from Cons.IH [of "tab_del k t"] Cons.prems show ?case by (auto simp: set_tab_del)
qed

lemma drop_stale_inv: "disc_inv d \<Longrightarrow> disc_inv (drop_stale inputs d)"
proof -
  assume inv: "disc_inv d"
  then have "tab_ok (pd_peers d)" by (simp add: disc_inv_def)
  from fold_tab_del [OF this] have "disc_inv (d\<lparr>pd_peers := fold tab_del ks (pd_peers d)\<rparr>)" for ks
    using inv by (intro drop_peers_inv) simp_all
  with inv show ?thesis by (simp add: drop_stale_def Let_def recalc_min_inv)
qed

lemma admit_input_inv: "disc_inv d \<Longrightarrow> disc_inv (admit_input now inp d)"
  unfolding admit_input_def by (intro upd_peer_inv ensure_peer_inv hint_inv)

lemma admit_inputs_inv: "disc_inv d \<Longrightarrow> disc_inv (fold (admit_input now) inputs d)"
  by (induction inputs arbitrary: d) (simp_all add: admit_input_inv)

definition in_grace :: "PathMtuDiscovery \<Rightarrow> SocketAddr \<Rightarrow> bool" where
  "in_grace d ep = (\<exists>p. tab_get (pd_peers d) ep = Some p \<and> p_grace p \<noteq> None)"

lemma expire_grace_inv:
  assumes "disc_inv d" and "in_grace d ep"
  shows "disc_inv (fst (expire_grace now ep (d, ev)))"
proof -
  from assms(2) obtain p where p: "tab_get (pd_peers d) ep = Some p" "p_grace p \<noteq> None"
    by (auto simp: in_grace_def)
  have inv: "peer_inv p" using assms(1) p(1) by (rule disc_inv_peer)
  let ?q = "p\<lparr>p_grace := None\<rparr>"
  have q: "peer_inv ?q" "fail_ready sz ?q" for sz
    using inv p(2) by (auto simp: inv_defs fail_ready_def split: option.splits Phase.splits)
  show ?thesis
    unfolding expire_grace_def Let_def prod.case
    using assms(1) p(1) q
    by (intro confirmed_fail_inv upd_peer_inv) (auto simp: tab_get_upd_peer)
qed

lemma expire_grace_other:
  "x \<noteq> ep \<Longrightarrow> tab_get (pd_peers (fst (expire_grace now ep (d, ev)))) x = tab_get (pd_peers d) x"
  by (simp add: expire_grace_def confirmed_fail_other tab_get_upd_peer)

lemma expire_fold_inv:
  "disc_inv d \<Longrightarrow> distinct eps \<Longrightarrow> list_all (in_grace d) eps \<Longrightarrow>
     disc_inv (fst (fold (expire_grace now) eps (d, ev)))"
proof (induction eps arbitrary: d ev)
  case Nil
  then show ?case by simp
next
  case (Cons ep eps)
  obtain e ev' where e: "expire_grace now ep (d, ev) = (e, ev')" by (cases "expire_grace now ep (d, ev)")
  have "disc_inv e" using expire_grace_inv [of d ep now ev] Cons.prems e by simp
  moreover have "list_all (in_grace e) eps"
    unfolding list_all_iff
  proof
    fix x
    assume x: "x \<in> set eps"
    with Cons.prems(2) have "x \<noteq> ep" by auto
    with expire_grace_other [of x ep now d ev] e have "tab_get (pd_peers e) x = tab_get (pd_peers d) x" by simp
    with x Cons.prems(3) show "in_grace e x" by (simp add: list_all_iff in_grace_def)
  qed
  ultimately show ?case using Cons e by simp
qed

lemma distinct_filter_keys: "tab_ok t \<Longrightarrow> distinct (map fst (filter P t))"
  using tab_ok_filter [of t P] by (simp add: tab_ok_def)

lemma grace_expired_ok:
  assumes "disc_inv d"
  shows "distinct (grace_expired now d) \<and> list_all (in_grace d) (grace_expired now d)"
proof
  show "distinct (grace_expired now d)"
    using assms unfolding grace_expired_def by (intro distinct_filter_keys) (simp add: disc_inv_def)
  show "list_all (in_grace d) (grace_expired now d)"
    using assms
    by (fastforce simp: grace_expired_def list_all_iff in_grace_def disc_inv_def tab_mem_iff split: option.splits)
qed

lemma on_timeout_other:
  "x \<noteq> ep \<Longrightarrow> tab_get (pd_peers (fst (snd (on_timeout ep now (d, ev))))) x = tab_get (pd_peers d) x"
  by (auto simp: on_timeout_def Let_def next_probe_id_def tab_get_upd_peer confirmed_fail_other
      split: option.splits)

lemma on_timeout_live:
  "on_timeout ep now (d, ev) = (Some i, d', ev') \<Longrightarrow> pi_peer i = ep \<and> intent_live d' i"
  by (auto simp: on_timeout_def Let_def next_probe_id_def intent_live_def tab_get_upd_peer
      split: option.splits if_splits)

lemma tick_timeout_fold:
  "disc_inv d \<Longrightarrow> list_all (intent_live d) is \<Longrightarrow> distinct eps \<Longrightarrow> pi_peer ` set is \<inter> set eps = {} \<Longrightarrow>
     fold (tick_timeout now) eps (is, d, ev) = (is', d', ev') \<Longrightarrow>
     disc_inv d' \<and> list_all (intent_live d') is' \<and> length is' \<le> length is + length eps"
proof (induction eps arbitrary: "is" d ev)
  case Nil
  then show ?case by simp
next
  case (Cons ep eps)
  obtain r e ev2 where r: "on_timeout ep now (d, ev) = (r, e, ev2)" by (cases "on_timeout ep now (d, ev)")
  have e: "disc_inv e" using on_timeout_inv [OF Cons.prems(1), of ep now ev] r by simp
  have same: "tab_get (pd_peers e) x = tab_get (pd_peers d) x" if "x \<noteq> ep" for x
    using on_timeout_other [OF that, of now d ev] r by simp
  have live: "list_all (intent_live e) is"
    unfolding list_all_iff
  proof
    fix i
    assume i: "i \<in> set is"
    then have "pi_peer i \<noteq> ep" using Cons.prems(4) by auto
    then show "intent_live e i"
      using i Cons.prems(2) same intent_live_cong [of e i d] by (auto simp: list_all_iff)
  qed
  show ?case
  proof (cases r)
    case None
    with Cons.prems(5) r have "fold (tick_timeout now) eps (is, e, ev2) = (is', d', ev')"
      by (simp add: tick_timeout_def [of now ep])
    from Cons.IH [OF e live _ _ this] Cons.prems(3,4) show ?thesis by auto
  next
    case (Some i)
    with r on_timeout_live have i: "pi_peer i = ep" "intent_live e i" by blast+
    from Some Cons.prems(5) r have "fold (tick_timeout now) eps (is @ [i], e, ev2) = (is', d', ev')"
      by (simp add: tick_timeout_def [of now ep])
    moreover have "list_all (intent_live e) (is @ [i])" using live i by simp
    ultimately show ?thesis
      using Cons.IH [OF e, of "is @ [i]" ev2] Cons.prems(3,4) i(1) by auto
  qed
qed

lemma timed_out_distinct: "disc_inv d \<Longrightarrow> distinct (timed_out now d)"
  unfolding timed_out_def by (intro distinct_filter_keys) (simp add: disc_inv_def)

lemma start_phase_keeps:
  assumes "disc_inv d" and "list_all (intent_live d) is"
  shows "disc_inv (start_phase now ep d) \<and> list_all (intent_live (start_phase now ep d)) is"
proof
  show "disc_inv (start_phase now ep d)"
    using assms(1) unfolding start_phase_def by (intro upd_peer_inv start_phase_peer_inv)
  have "intent_live d i \<Longrightarrow> intent_live (start_phase now ep d) i" for i
    by (auto simp: intent_live_def start_phase_def tab_get_upd_peer start_phase_peer_def split: option.splits)
  with assms(2) show "list_all (intent_live (start_phase now ep d)) is" by (auto simp: list_all_iff)
qed

lemma start_phases_keep:
  "disc_inv d \<Longrightarrow> list_all (intent_live d) is \<Longrightarrow>
     disc_inv (fold (start_phase now) eps d) \<and> list_all (intent_live (fold (start_phase now) eps d)) is"
  by (induction eps arbitrary: d) (simp_all add: start_phase_keeps)

lemma start_phases_cap [simp]:
  "pd_max_concurrent_peers (fold (start_phase now) eps d) = pd_max_concurrent_peers d"
  by (induction eps arbitrary: d) (simp_all add: start_phase_def)

lemma on_tick_inv:
  assumes inv: "disc_inv d" and t: "on_tick now inputs d = (is, ev, d')"
  shows "disc_inv d' \<and> list_all (intent_live d') is"
proof (cases "pd_pinned d")
  case (Some m)
  with assms show ?thesis by (simp add: on_tick_def)
next
  case None
  define d1 where "d1 = fold (admit_input now) inputs (drop_stale inputs (heal_unacked_private_floor now d))"
  have d1: "disc_inv d1" unfolding d1_def by (intro admit_inputs_inv drop_stale_inv heal_inv inv)
  obtain d2 ev2 where e2: "fold (expire_grace now) (grace_expired now d1) (d1, no_events) = (d2, ev2)"
    by (cases "fold (expire_grace now) (grace_expired now d1) (d1, no_events)")
  have d2: "disc_inv d2"
    using expire_fold_inv [OF d1, of "grace_expired now d1" now no_events] grace_expired_ok [OF d1, of now] e2 by simp
  obtain is3 d3 ev3 where e3: "fold (tick_timeout now) (timed_out now d2) ([], d2, ev2) = (is3, d3, ev3)"
    by (cases "fold (tick_timeout now) (timed_out now d2) ([], d2, ev2)")
  have "disc_inv d3 \<and> list_all (intent_live d3) is3 \<and> length is3 \<le> length ([] :: ProbeIntent list) + length (timed_out now d2)"
    by (rule tick_timeout_fold [OF d2 _ timed_out_distinct [OF d2] _ e3]) simp_all
  then have d3: "disc_inv d3" "list_all (intent_live d3) is3" by auto
  define d4 where "d4 = fold (start_phase now) (map ti_addr inputs) d3"
  have d4: "disc_inv d4" "list_all (intent_live d4) is3"
    using start_phases_keep [OF d3] by (simp_all add: d4_def)
  have "issue_round now (filter (wants_probe d4) (map ti_addr inputs)) is3 d4 = (is, d')"
    using t None e2 e3 by (simp add: on_tick_def Let_def d1_def d4_def split: prod.splits)
  from issue_round_inv [OF d4 this] show ?thesis by simp
qed

section \<open>Acknowledgements and send failures\<close>

lemma on_ack_inv:
  assumes "disc_inv d"
  shows "disc_inv (snd (snd (snd (on_ack pa s pid gen now d))))"
proof (cases "pd_pinned d = None \<and> (\<exists>ep p. resolve_ack pa (clamp_size s) pid gen now d = Some ep
    \<and> tab_get (pd_peers d) ep = Some p)")
  case False
  with assms show ?thesis by (auto simp: on_ack_def Let_def split: option.splits)
next
  case True
  then obtain ep p where r: "pd_pinned d = None" "resolve_ack pa (clamp_size s) pid gen now d = Some ep"
    and p: "tab_get (pd_peers d) ep = Some p" by blast
  have inv: "peer_inv p" using assms p by (rule disc_inv_peer)
  have pl: "peer_inv q \<Longrightarrow> peer_inv (enter_plateau a b c e (q\<lparr>p_grace := None, p_ever_acked := True\<rparr>))" for q a b c e
    by (intro enter_plateau_inv) (simp add: peer_inv_def window_inv_def)
  show ?thesis
  proof (cases "p_inflight p")
    case None
    with r p assms show ?thesis
      by (auto simp: on_ack_def Let_def intro!: recalc_min_inv upd_peer_inv pl)
  next
    case (Some i)
    have "disc_inv (recalc_min (upd_peer ep (ack_peer (if_size i) now d) d))"
      using inv p Some by (intro recalc_min_inv upd_peer_inv assms ack_peer_inv) (auto simp: inv_defs)
    with Some r p assms show ?thesis by (auto simp: on_ack_def Let_def)
  qed
qed

lemma on_send_hard_fail_inv:
  assumes "disc_inv d"
  shows "disc_inv (snd (on_send_hard_fail ep pid now d))"
proof (cases "\<exists>p i. tab_get (pd_peers d) ep = Some p \<and> p_inflight p = Some i")
  case False
  with assms show ?thesis by (auto simp: on_send_hard_fail_def split: option.splits)
next
  case True
  then obtain p i where p: "tab_get (pd_peers d) ep = Some p" and i: "p_inflight p = Some i" by blast
  have inv: "peer_inv p" using assms p by (rule disc_inv_peer)
  have "disc_inv (upd_peer ep (\<lambda>p. p\<lparr>p_inflight := None, p_grace := None\<rparr>) d)"
    using assms by (intro upd_peer_inv) (simp_all add: inv_defs)
  then have sd: "disc_inv (fst (apply_soft_down ep now
      (upd_peer ep (\<lambda>p. p\<lparr>p_inflight := None, p_grace := None\<rparr>) d, ev)))" for ev
    by (simp add: apply_soft_down_inv)
  have "fail_ready (if_size i) p"
    using inv i by (auto simp: inv_defs fail_ready_def split: Phase.splits)
  with p have cf: "disc_inv (fst (apply_timeout_confirmed_fail ep (if_size i) now (d, ev)))" for ev
    using assms by (intro confirmed_fail_inv) auto
  show ?thesis
    using p i assms sd cf by (auto simp: on_send_hard_fail_def Let_def case_prod_beta)
qed

section \<open>Any sequence of operations\<close>

datatype pmtud_op =
  OpTick instant "PeerTickInput list"
| OpAck SocketAddr nat u32 u32 instant
| OpHardFail SocketAddr u32 instant
| OpPin "SocketAddr \<Rightarrow> instant" instant "nat option"
| OpTune "SocketAddr \<Rightarrow> instant" PmtudTuning
| OpRaisePeriod nat
| OpRemove SocketAddr
| OpSeed SocketAddr nat instant
| OpHint SocketAddr instant
| OpWake SocketAddr instant

fun pmtud_step :: "pmtud_op \<Rightarrow> PathMtuDiscovery \<Rightarrow> PathMtuDiscovery" where
  "pmtud_step (OpTick now inputs) d = snd (snd (on_tick now inputs d))"
| "pmtud_step (OpAck ep sz pid gen now) d = snd (snd (snd (on_ack ep sz pid gen now d)))"
| "pmtud_step (OpHardFail ep pid now) d = snd (on_send_hard_fail ep pid now d)"
| "pmtud_step (OpPin clk now m) d = set_pinned clk now m d"
| "pmtud_step (OpTune clk t) d = apply_tuning clk t d"
| "pmtud_step (OpRaisePeriod s) d = set_raise_period s d"
| "pmtud_step (OpRemove ep) d = remove_peer ep d"
| "pmtud_step (OpSeed ep m now) d = seed_plateau_at ep m now d"
| "pmtud_step (OpHint ep now) d = snd (request_revalidate ep now d)"
| "pmtud_step (OpWake ep now) d = snd (request_early_wake ep now d)"

lemma pmtud_step_inv: "disc_inv d \<Longrightarrow> disc_inv (pmtud_step op d)"
proof (cases op)
  case (OpTick now inputs)
  then show "disc_inv d \<Longrightarrow> disc_inv (pmtud_step op d)"
    using on_tick_inv [of d now inputs] by (cases "on_tick now inputs d") auto
qed (simp_all add: on_ack_inv on_send_hard_fail_inv set_pinned_inv apply_tuning_inv counter_inv
    set_raise_period_def remove_peer_inv seed_plateau_at_inv request_revalidate_inv request_early_wake_inv)

interpretation pmtud: invariant_machine pmtud_step disc_inv
  by unfold_locales (rule pmtud_step_inv)

lemma pmtud_reachable: "disc_inv (fold pmtud_step ops PathMtuDiscovery_new)"
  by (rule pmtud.run_inv [OF disc_inv_new])

section \<open>Properties\<close>


lemma intent_live_size:
  assumes "disc_inv d" and "intent_live d i"
  shows "576 \<le> pi_size i \<and> pi_size i \<le> 1500"
proof -
  from assms(2) obtain p f where p: "tab_get (pd_peers d) (pi_peer i) = Some p" "p_inflight p = Some f"
    "if_size f = pi_size i" by (auto simp: intent_live_def split: option.splits)
  with assms(1) have "peer_inv p" by (auto dest: disc_inv_peer)
  with p show ?thesis by (auto simp: inv_defs mtu_consts split: Phase.splits)
qed

lemma intent_live_ack:
  assumes "intent_live d i" and "disc_inv d" and "pd_pinned d = None" and "pi_probe_id i \<noteq> 0"
  shows "fst (on_ack (pi_peer i) (pi_size i) (pi_probe_id i) (pi_search_gen i) now d)"
proof -
  have "clamp_size (pi_size i) = pi_size i"
    using intent_live_size [OF assms(2,1)] by (simp add: clamp_size_id mtu_consts)
  with assms show ?thesis
    by (auto simp: on_ack_def resolve_ack_def intent_live_def Let_def split: option.splits)
qed

lemma on_tick_pinned: "on_tick now inputs d = (is, ev, d') \<Longrightarrow> pd_pinned d \<noteq> None \<Longrightarrow> is = []"
  by (auto simp: on_tick_def)

text \<open>
  C28. Every probe a tick hands to the socket is between 576 and 1500 bytes and is the probe in
  flight for its peer in the state the tick returns; unless the wrapping probe counter gave it the
  number 0, its acknowledgement is accepted in that state.
\<close>

theorem pmtud_probes_live:
  "case on_tick now inputs (fold pmtud_step ops PathMtuDiscovery_new) of (is, ev, d') \<Rightarrow>
     list_all (\<lambda>i. 576 \<le> pi_size i \<and> pi_size i \<le> 1500 \<and> intent_live d' i
       \<and> (pi_probe_id i = 0 \<or> is_pinned d' \<or>
           fst (on_ack (pi_peer i) (pi_size i) (pi_probe_id i) (pi_search_gen i) now' d'))) is"
proof (cases "on_tick now inputs (fold pmtud_step ops PathMtuDiscovery_new)")
  case (fields "is" ev d')
  from on_tick_inv [OF pmtud_reachable fields] have inv: "disc_inv d'" "list_all (intent_live d') is"
    by simp_all
  have "pi_probe_id i = 0 \<or> is_pinned d' \<or>
      fst (on_ack (pi_peer i) (pi_size i) (pi_probe_id i) (pi_search_gen i) now' d')" if "intent_live d' i" for i
    using intent_live_ack [OF that inv(1)] by (auto simp: is_pinned_def)
  with inv fields intent_live_size [OF inv(1)] show ?thesis by (simp add: list_all_iff)
qed



text \<open>
  Pinning freezes discovery: after a pin every peer stands at the clamped pin, ticks emit no
  probes and acknowledgements, send failures and hints change nothing; releasing the pin puts every
  peer back to a fresh search from 1220.
\<close>

theorem pmtud_pin_freezes:
  "let d = set_pinned clk now (Some m) d0; e = set_pinned clk now None d in
     pd_min_path_mtu d = clamp 576 1500 m
     \<and> list_all (\<lambda>(ep, p). p_last_good p = clamp 576 1500 m \<and> p_phase p = Frozen \<and> p_inflight p = None) (pd_peers d)
     \<and> on_tick t inputs d = ([], no_events, d)
     \<and> on_ack ep sz pid gen t d = (False, False, no_events, d)
     \<and> on_send_hard_fail ep pid t d = (no_events, d)
     \<and> request_revalidate ep t d = (False, d) \<and> request_early_wake ep t d = (False, d)
     \<and> pd_min_path_mtu e = 1220 \<and> pd_pinned e = None
     \<and> list_all (\<lambda>(ep, p). p_last_good p = 1220 \<and> p_first_bad p = 1501 \<and> p_phase p = Plateau) (pd_peers e)"
  by (auto simp: Let_def set_pinned_def map_peers_def list_all_iff abort_inflight_def clamp_size_def
      PeerState_new_def mtu_consts on_tick_def on_ack_def on_send_hard_fail_def request_revalidate_def
      request_early_wake_def)

text \<open>
  The probe timeout with a measured round-trip time is never above 5 s, and is at least the
  configured floor whenever the floor itself is not above 5 s. A configured floor above 5 s is
  undercut as soon as a round-trip time is known.
\<close>

theorem pmtud_timeout_bounds:
  assumes "\<not> f64_lt (p_rtt_ms p) (Fin 0)"
  shows "timeout_for_peer d p \<le> from_secs 5
    \<and> from_millis (min (as_millis (pd_probe_timeout d)) 5000) \<le> timeout_for_peer d p
    \<and> (from_secs 5 < from_millis (as_millis (pd_probe_timeout d)) \<longrightarrow> timeout_for_peer d p < pd_probe_timeout d)"
proof -
  have cap: "as_millis ADAPTIVE_TIMEOUT_CAP = 5000"
    by (simp add: as_millis_def ADAPTIVE_TIMEOUT_CAP_def from_secs_def)
  obtain a where t: "timeout_for_peer d p = from_millis (min (max a (as_millis (pd_probe_timeout d))) 5000)"
    using assms by (simp add: timeout_for_peer_def Let_def cap)
  have "from_millis (as_millis (pd_probe_timeout d)) \<le> pd_probe_timeout d"
    by (simp add: from_millis_def as_millis_def)
  then show ?thesis
    unfolding t by (auto simp: from_millis_def from_secs_def min_def max_def)
qed

theorem pmtud_timeout_bounds_witness:
  "timeout_for_peer (PathMtuDiscovery_new\<lparr>pd_probe_timeout := from_millis 10000\<rparr>)
     ((PeerState_new 0 0 32)\<lparr>p_rtt_ms := Fin 20\<rparr>) < from_millis 10000"
  using pmtud_timeout_bounds [of "(PeerState_new 0 0 32)\<lparr>p_rtt_ms := Fin 20\<rparr>"
      "PathMtuDiscovery_new\<lparr>pd_probe_timeout := from_millis 10000\<rparr>"]
  by (simp add: as_millis_def from_millis_def from_secs_def)

text \<open>
  A peer that first appears in a tick starts at 1220 without the global path MTU being
  recomputed: with one peer proven at 1500, the tick that admits a second peer still reports 1500
  while that peer's own proven size is 1220.
\<close>

theorem pmtud_new_peer_not_in_min:
  "let a = V4 1 1; b = V4 2 2;
       inp = (\<lambda>x. \<lparr>ti_addr = x, ti_health = \<lparr>sh_warm = False, sh_large_alive = False, sh_large_collapsed = False\<rparr>,
                   ti_rtt_ms = Fin (- 1)\<rparr>);
       d = seed_plateau_at a 1500 0 PathMtuDiscovery_new;
       d' = snd (snd (on_tick 0 [inp a, inp b] d)) in
   pd_min_path_mtu d' = 1500 \<and> peer_last_good b d' = Some 1220"
  by code_simp

end
