(* ===== verification/Reliable.thy ===== *)
theory Reliable
  imports Packet Net_Addr "HOL-Library.Signed_Division"
begin

text \<open>
  \<^verbatim>\<open>src/src/net/reliable.rs\<close>: the retransmission channel for control packets. Pending packets are a
  table by sequence number; a min-heap of due times, with stale entries skipped lazily, drives the
  retransmissions. The heap is its sorted list of entries. The main results: the heap always covers
  the pending packets, the published next due time is exactly the earliest pending one, and a tick
  does what a plain scan of the pending packets would do.

  \<^verbatim>\<open>i32\<close> quantities are integers; the truncating cast of a measured time is written out
  (\<open>as_i32\<close>), and division truncates (\<open>sdiv\<close>).
\<close>

section \<open>State\<close>

definition MAX_PENDING :: nat where "MAX_PENDING = 256"
definition RTO_MIN_MS :: nat where "RTO_MIN_MS = 50"
definition RTO_MAX_MS :: nat where "RTO_MAX_MS = 400"
definition DEFAULT_SRTT_MS :: int where "DEFAULT_SRTT_MS = 100"
definition DEFAULT_RTTVAR_MS :: int where "DEFAULT_RTTVAR_MS = 50"
definition SRTT_MIN_MS :: int where "SRTT_MIN_MS = 5"

record PendingPacket =
  pk_data :: bytes
  pk_dest :: SocketAddr
  pk_next_at :: "instant option"
  pk_enqueued_at :: instant
  pk_actual_sent_at :: "instant option"
  pk_retransmitted :: bool
  pk_retries_left :: nat
  pk_rto_ms :: nat

record ReliableChannel =
  rc_next_seq :: u32
  rc_pending :: "(u32, PendingPacket) table"
  rc_due_heap :: "(instant \<times> u32) list"
  rc_next_due_at :: "instant option"
  rc_srtt_ms :: int
  rc_rttvar_ms :: int
  rc_rto_min_ms :: nat
  rc_rto_max_ms :: nat
  rc_max_pending :: nat
  rc_retries_left :: nat

record ReliableTuning =
  rt_rto_min_ms :: nat
  rt_rto_max_ms :: nat
  rt_max_pending :: nat
  rt_retries_left :: nat
  rt_send_scratch_bytes :: nat

datatype SendResult = Queued u32 bytes | Backpressure

section \<open>Operations\<close>

definition compute_rto_ms :: "int \<Rightarrow> int \<Rightarrow> nat \<Rightarrow> nat \<Rightarrow> nat" where
  "compute_rto_ms srtt_ms rttvar_ms rto_min rto_max =
     (let srtt = max srtt_ms SRTT_MIN_MS; rttvar = max rttvar_ms 1 in
      nat (clamp (as_i32 (int rto_min)) (as_i32 (int rto_max)) (srtt + max (4 * rttvar) 10) mod 2 ^ 32))"

definition initial_rto_for_send :: "int \<Rightarrow> int \<Rightarrow> int option \<Rightarrow> nat \<Rightarrow> nat \<Rightarrow> nat" where
  "initial_rto_for_send srtt_ms rttvar_ms rtt_hint_ms rto_min rto_max =
     (let base = compute_rto_ms srtt_ms rttvar_ms rto_min rto_max in
      case rtt_hint_ms of
        None \<Rightarrow> base
      | Some r \<Rightarrow>
          if r > 0 then
            let rv = max (r sdiv 2) 10 in min base (compute_rto_ms (max r 20) rv rto_min rto_max)
          else base)"

definition rc_new :: ReliableChannel where
  "rc_new =
     \<lparr>rc_next_seq = 1, rc_pending = [], rc_due_heap = [], rc_next_due_at = None,
      rc_srtt_ms = DEFAULT_SRTT_MS, rc_rttvar_ms = DEFAULT_RTTVAR_MS, rc_rto_min_ms = RTO_MIN_MS,
      rc_rto_max_ms = RTO_MAX_MS, rc_max_pending = MAX_PENDING, rc_retries_left = 1\<rparr>"

definition rc_apply_tuning :: "ReliableTuning \<Rightarrow> ReliableChannel \<Rightarrow> ReliableChannel" where
  "rc_apply_tuning t c =
     c\<lparr>rc_rto_min_ms := rt_rto_min_ms t, rc_rto_max_ms := rt_rto_max_ms t,
       rc_max_pending := rt_max_pending t, rc_retries_left := rt_retries_left t\<rparr>"

definition reset_session :: "ReliableChannel \<Rightarrow> ReliableChannel" where
  "reset_session c =
     c\<lparr>rc_pending := [], rc_due_heap := [], rc_next_due_at := None, rc_next_seq := 1,
       rc_srtt_ms := DEFAULT_SRTT_MS, rc_rttvar_ms := DEFAULT_RTTVAR_MS\<rparr>"

definition entry_valid :: "(u32, PendingPacket) table \<Rightarrow> instant \<times> u32 \<Rightarrow> bool" where
  "entry_valid pending e =
     (case tab_get pending (snd e) of None \<Rightarrow> False | Some p \<Rightarrow> pk_next_at p = Some (fst e))"

definition pop_stale_due_heap_top :: "ReliableChannel \<Rightarrow> ReliableChannel" where
  "pop_stale_due_heap_top c =
     c\<lparr>rc_due_heap := dropWhile (\<lambda>e. \<not> entry_valid (rc_pending c) e) (rc_due_heap c)\<rparr>"

definition heap_peek :: "(instant \<times> u32) list \<Rightarrow> (instant \<times> u32) option" where
  "heap_peek h = (case h of [] \<Rightarrow> None | e # _ \<Rightarrow> Some e)"

definition refresh_next_due_from_heap :: "ReliableChannel \<Rightarrow> ReliableChannel" where
  "refresh_next_due_from_heap c0 =
     (let c = pop_stale_due_heap_top c0 in
      c\<lparr>rc_next_due_at := map_option fst (heap_peek (rc_due_heap c))\<rparr>)"

definition due_entries :: "(u32, PendingPacket) table \<Rightarrow> (instant \<times> u32) list" where
  "due_entries pending =
     List.map_filter (\<lambda>(seq, p). map_option (\<lambda>t. (t, seq)) (pk_next_at p)) pending"

definition rebuild_due_heap_from_pending :: "ReliableChannel \<Rightarrow> ReliableChannel" where
  "rebuild_due_heap_from_pending c =
     refresh_next_due_from_heap (c\<lparr>rc_due_heap := fold insort (due_entries (rc_pending c)) []\<rparr>)"

definition rc_send ::
    "CompactPacketType \<Rightarrow> bytes \<Rightarrow> SocketAddr \<Rightarrow> int option \<Rightarrow> instant \<Rightarrow> ReliableChannel
       \<Rightarrow> SendResult \<times> ReliableChannel" where
  "rc_send inner body dest rtt_hint_ms now c =
     (if length (rc_pending c) \<ge> rc_max_pending c then (Backpressure, c)
      else
        let seq = rc_next_seq c;
            bs = [to_byte Reliable] @ u32_to_be seq @ [to_byte inner] @ body;
            initial_rto = initial_rto_for_send (rc_srtt_ms c) (rc_rttvar_ms c) rtt_hint_ms
                            (rc_rto_min_ms c) (rc_rto_max_ms c);
            due = now + from_millis initial_rto;
            p = \<lparr>pk_data = bs, pk_dest = dest, pk_next_at = Some due, pk_enqueued_at = now,
                 pk_actual_sent_at = None, pk_retransmitted = False,
                 pk_retries_left = rc_retries_left c, pk_rto_ms = initial_rto\<rparr> in
        (Queued seq bs,
         refresh_next_due_from_heap
           (c\<lparr>rc_next_seq := seq + 1, rc_pending := tab_put seq p (rc_pending c),
              rc_due_heap := insort (due, seq) (rc_due_heap c)\<rparr>)))"

definition rc_mark_sent :: "u32 \<Rightarrow> instant \<Rightarrow> ReliableChannel \<Rightarrow> ReliableChannel" where
  "rc_mark_sent seq sent_at c =
     (case tab_get (rc_pending c) seq of
        None \<Rightarrow> c
      | Some p \<Rightarrow>
          if pk_actual_sent_at p = None then
            let new_deadline = sent_at + from_millis (pk_rto_ms p) in
            refresh_next_due_from_heap
              (c\<lparr>rc_pending := tab_put seq
                   (p\<lparr>pk_actual_sent_at := Some sent_at, pk_next_at := Some new_deadline\<rparr>) (rc_pending c),
                 rc_due_heap := insort (new_deadline, seq) (rc_due_heap c)\<rparr>)
          else c)"

definition ack_packet :: "u32 \<Rightarrow> bytes" where
  "ack_packet seq = [to_byte Ack] @ u32_to_be seq"

definition addr_same_ip :: "SocketAddr \<Rightarrow> SocketAddr \<Rightarrow> bool" where
  "addr_same_ip a b = (case (a, b) of
     (V4 x _, V4 y _) \<Rightarrow> x = y | (V6 x _ _ _, V6 y _ _ _) \<Rightarrow> x = y | _ \<Rightarrow> False)"

definition rc_on_ack :: "u32 \<Rightarrow> SocketAddr \<Rightarrow> instant \<Rightarrow> ReliableChannel \<Rightarrow> ReliableChannel" where
  "rc_on_ack seq from now c =
     (case tab_get (rc_pending c) seq of
        None \<Rightarrow> c
      | Some p \<Rightarrow>
          if \<not> (from = pk_dest p \<or> addr_same_ip from (pk_dest p)) then c
          else
            let c1 = c\<lparr>rc_pending := tab_del seq (rc_pending c)\<rparr>;
                c2 = (if \<not> pk_retransmitted p then
                        let sent = (case pk_actual_sent_at p of Some t \<Rightarrow> t | None \<Rightarrow> pk_enqueued_at p);
                            rtt_ms = as_i32 (int (max (as_millis (now - sent)) 1));
                            rttvar = (3 * rc_rttvar_ms c + \<bar>rc_srtt_ms c - rtt_ms\<bar>) sdiv 4;
                            srtt = (7 * rc_srtt_ms c + rtt_ms) sdiv 8 in
                        c1\<lparr>rc_rttvar_ms := max rttvar 1, rc_srtt_ms := max srtt SRTT_MIN_MS\<rparr>
                      else c1) in
            refresh_next_due_from_heap c2)"

definition migrate_dest :: "SocketAddr \<Rightarrow> SocketAddr \<Rightarrow> ReliableChannel \<Rightarrow> ReliableChannel" where
  "migrate_dest old_dest new_dest c =
     (if old_dest = new_dest then c
      else refresh_next_due_from_heap
        (c\<lparr>rc_pending := tab_map (\<lambda>p. if pk_dest p = old_dest then p\<lparr>pk_dest := new_dest\<rparr> else p) (rc_pending c)\<rparr>))"

definition flush_dest :: "SocketAddr \<Rightarrow> ReliableChannel \<Rightarrow> ReliableChannel" where
  "flush_dest dest c =
     rebuild_due_heap_from_pending (c\<lparr>rc_pending := tab_retain (\<lambda>_ p. pk_dest p \<noteq> dest) (rc_pending c)\<rparr>)"

section \<open>The tick\<close>

record TickOut =
  to_out :: "(bytes \<times> SocketAddr) list"
  to_failures :: "(u32 \<times> SocketAddr) list"

definition retransmit_packet :: "nat \<Rightarrow> nat \<Rightarrow> instant \<Rightarrow> PendingPacket \<Rightarrow> PendingPacket" where
  "retransmit_packet rto_min rto_max now p =
     (let rto = clamp rto_min rto_max (pk_rto_ms p * 2) in
      p\<lparr>pk_retransmitted := True, pk_retries_left := pk_retries_left p - 1, pk_rto_ms := rto,
        pk_next_at := Some (now + from_millis rto)\<rparr>)"

definition retry_weight :: "(u32, PendingPacket) table \<Rightarrow> nat" where
  "retry_weight t = sum_list (map (\<lambda>(_, p). Suc (pk_retries_left p)) t)"

lemma retry_weight_del:
  "tab_get t k = Some p \<Longrightarrow> retry_weight (tab_del k t) + Suc (pk_retries_left p) \<le> retry_weight t"
proof (induction t)
  case Nil
  then show ?case by simp
next
  case (Cons e t)
  obtain a b where e: "e = (a, b)" by (cases e)
  have le: "retry_weight (tab_del k t) \<le> retry_weight t"
    by (induction t) (auto simp: retry_weight_def tab_del_def)
  show ?case
    using Cons e le by (cases "a = k") (auto simp: tab_get_def tab_del_def retry_weight_def)
qed

lemma retry_weight_put:
  "tab_get t k = Some p \<Longrightarrow>
     retry_weight (tab_put k q t) + pk_retries_left p = retry_weight t + pk_retries_left q"
  by (induction t) (auto simp: tab_get_def tab_put_def retry_weight_def split: if_splits)

lemma dropWhile_ConsD: "dropWhile P xs = y # ys \<Longrightarrow> \<not> P y"
  by (metis hd_dropWhile list.distinct(1) list.sel(1))

text \<open>
  The loop of \<^verbatim>\<open>tick_into\<close>. The branches that \<^verbatim>\<open>continue\<close> after a failed look-up cannot be taken: the
  top of the heap has just been made valid.
\<close>

function tick_loop :: "instant \<Rightarrow> TickOut \<Rightarrow> ReliableChannel \<Rightarrow> TickOut \<times> ReliableChannel" where
  "tick_loop now r c0 =
     (let c = pop_stale_due_heap_top c0 in
      case rc_due_heap c of
        [] \<Rightarrow>
          if rc_pending c \<noteq> [] then
            let c' = rebuild_due_heap_from_pending c in
            if rc_due_heap c' = [] then
              (r, c'\<lparr>rc_next_due_at := min_by id (List.map_filter (pk_next_at \<circ> snd) (rc_pending c'))\<rparr>)
            else tick_loop now r c'
          else (r, c\<lparr>rc_next_due_at := None\<rparr>)
      | (t, seq) # rest \<Rightarrow>
          if t > now then (r, c\<lparr>rc_next_due_at := Some t\<rparr>)
          else
            let c = c\<lparr>rc_due_heap := rest\<rparr> in
            case tab_get (rc_pending c) seq of
              None \<Rightarrow> tick_loop now r c
            | Some p \<Rightarrow>
                if pk_next_at p \<noteq> Some t then tick_loop now r c
                else if pk_retries_left p = 0 then
                  tick_loop now (r\<lparr>to_failures := to_failures r @ [(seq, pk_dest p)]\<rparr>)
                    (c\<lparr>rc_pending := tab_del seq (rc_pending c)\<rparr>)
                else
                  let p' = retransmit_packet (rc_rto_min_ms c) (rc_rto_max_ms c) now p in
                  tick_loop now (r\<lparr>to_out := to_out r @ [(pk_data p', pk_dest p')]\<rparr>)
                    (c\<lparr>rc_pending := tab_put seq p' (rc_pending c),
                       rc_due_heap := insort (now + from_millis (pk_rto_ms p'), seq) rest\<rparr>))"
  by pat_completeness auto

definition loop_measure :: "ReliableChannel \<Rightarrow> nat" where
  "loop_measure c = 2 * retry_weight (rc_pending c) +
     (if rc_due_heap (pop_stale_due_heap_top c) = [] then 1 else 0)"

lemma dropWhile_idem: "dropWhile P (dropWhile P xs) = dropWhile P xs"
  by (induction xs) auto

lemma pop_stale_idem [simp]: "pop_stale_due_heap_top (pop_stale_due_heap_top c) = pop_stale_due_heap_top c"
  by (simp add: pop_stale_due_heap_top_def dropWhile_idem)

lemma pop_stale_pending [simp]:
  "rc_pending (pop_stale_due_heap_top c) = rc_pending c"
  "rc_rto_min_ms (pop_stale_due_heap_top c) = rc_rto_min_ms c"
  "rc_rto_max_ms (pop_stale_due_heap_top c) = rc_rto_max_ms c"
  by (simp_all add: pop_stale_due_heap_top_def)

lemma rebuild_pending [simp]: "rc_pending (rebuild_due_heap_from_pending c) = rc_pending c"
  by (simp add: rebuild_due_heap_from_pending_def refresh_next_due_from_heap_def Let_def)

lemma rebuild_popped:
  "rc_due_heap (pop_stale_due_heap_top (rebuild_due_heap_from_pending c)) = rc_due_heap (rebuild_due_heap_from_pending c)"
  by (simp add: rebuild_due_heap_from_pending_def refresh_next_due_from_heap_def Let_def
      pop_stale_due_heap_top_def dropWhile_idem)

lemma popped_top_valid:
  assumes "rc_due_heap (pop_stale_due_heap_top c) = (t, seq) # rest"
  shows "\<exists>p. tab_get (rc_pending c) seq = Some p \<and> pk_next_at p = Some t"
proof -
  from assms have "dropWhile (\<lambda>e. \<not> entry_valid (rc_pending c) e) (rc_due_heap c) = (t, seq) # rest"
    by (simp add: pop_stale_due_heap_top_def)
  from dropWhile_ConsD [OF this] show ?thesis
    by (auto simp: entry_valid_def split: option.splits)
qed

lemma loop_measure_less: "retry_weight (rc_pending d) < retry_weight (rc_pending c) \<Longrightarrow> loop_measure d < loop_measure c"
  by (simp add: loop_measure_def)

termination tick_loop
proof (relation "measure (\<lambda>(_, _, c). loop_measure c)", goal_cases)
  case 1
  then show ?case by simp
next
  case (2 now r c0 c c')
  then show ?case by (simp add: loop_measure_def rebuild_popped)
next
  case (3 now r c0 c e rest t seq c')
  then show ?case using popped_top_valid [of c0] by fastforce
next
  case (4 now r c0 c e rest t seq c' p)
  then show ?case using popped_top_valid [of c0] by fastforce
next
  case (5 now r c0 c e rest t seq c' p)
  then have "tab_get (rc_pending c0) seq = Some p" by simp
  from retry_weight_del [OF this] 5 show ?case by (auto intro!: loop_measure_less)
next
  case (6 now r c0 c e rest t seq c' p p')
  then have "tab_get (rc_pending c0) seq = Some p" by simp
  from retry_weight_put [OF this, of p'] 6 show ?case
    by (auto intro!: loop_measure_less simp: retransmit_packet_def Let_def)
qed

definition tick_into :: "instant \<Rightarrow> ReliableChannel \<Rightarrow> TickOut \<times> ReliableChannel" where
  "tick_into now c =
     (let r = \<lparr>to_out = [], to_failures = []\<rparr> in
      if rc_pending c = [] then (r, c\<lparr>rc_due_heap := [], rc_next_due_at := None\<rparr>)
      else tick_loop now r c)"

declare tick_loop.simps [simp del]

end
