(* ===== verification/Reliable_Inv.thy ===== *)
theory Reliable_Inv
  imports Reliable
begin

text \<open>
  Invariants and properties of the retransmission channel: the lazy heap covers the pending
  packets, the published due time is the earliest pending one, and a tick retransmits and expires
  exactly the packets that are due, in order of their due times.
\<close>

section \<open>The heap covers the pending packets\<close>

definition covered :: "ReliableChannel \<Rightarrow> bool" where
  "covered c =
     (tab_ok (rc_pending c) \<and> sorted (rc_due_heap c)
      \<and> (\<forall>(seq, p) \<in> set (rc_pending c). \<exists>t. pk_next_at p = Some t \<and> (t, seq) \<in> set (rc_due_heap c)))"

definition earliest :: "(u32, PendingPacket) table \<Rightarrow> instant option" where
  "earliest pending = min_by id (List.map_filter (pk_next_at \<circ> snd) pending)"

definition rc_inv :: "ReliableChannel \<Rightarrow> bool" where
  "rc_inv c = (covered c \<and> rc_next_due_at c = earliest (rc_pending c))"

lemma coveredD:
  "covered c \<Longrightarrow> tab_get (rc_pending c) seq = Some p \<Longrightarrow> \<exists>t. pk_next_at p = Some t \<and> (t, seq) \<in> set (rc_due_heap c)"
  by (auto simp: covered_def dest!: tab_get_mem)

lemma min_by_id_eqI: "m \<in> set xs \<Longrightarrow> (\<And>x. x \<in> set xs \<Longrightarrow> m \<le> x) \<Longrightarrow> min_by id xs = Some (m :: 'a::linorder)"
proof -
  assume m: "m \<in> set xs" and le: "\<And>x. x \<in> set xs \<Longrightarrow> m \<le> x"
  then obtain k where k: "min_by id xs = Some k" by (cases "min_by id xs") auto
  from min_by_Some [OF this] m le [of k] have "k = m" by auto
  with k show ?thesis by simp
qed

lemma dropWhile_keeps: "x \<in> set xs \<Longrightarrow> \<not> P x \<Longrightarrow> x \<in> set (dropWhile P xs)"
  by (induction xs) auto

lemma sorted_dropWhile_hd: "sorted xs \<Longrightarrow> dropWhile P xs = y # ys \<Longrightarrow> z \<in> set (dropWhile P xs) \<Longrightarrow> y \<le> z"
  by (metis (no_types, lifting) list.sel(1) set_ConsD sorted_dropWhile sorted_simps(2) order_refl)

lemma valid_iff: "entry_valid pending (t, seq) \<longleftrightarrow> (\<exists>p. tab_get pending seq = Some p \<and> pk_next_at p = Some t)"
  by (auto simp: entry_valid_def split: option.splits)

text \<open>After stale entries are dropped, the top of the heap is the least pending \<open>(due, seq)\<close>.\<close>

lemma popped_top_least:
  assumes "covered c" and "rc_due_heap (pop_stale_due_heap_top c) = (t, seq) # rest"
    and "tab_get (rc_pending c) s = Some p" and "pk_next_at p = Some u"
  shows "(t, seq) \<le> (u, s)"
proof -
  have "(u, s) \<in> set (rc_due_heap c)" using coveredD [OF assms(1,3)] assms(4) by auto
  moreover have "entry_valid (rc_pending c) (u, s)" using assms(3,4) by (simp add: valid_iff)
  ultimately have m: "(u, s) \<in> set (dropWhile (\<lambda>e. \<not> entry_valid (rc_pending c) e) (rc_due_heap c))"
    by (intro dropWhile_keeps) simp_all
  have "sorted (rc_due_heap c)" using assms(1) by (simp add: covered_def)
  moreover have "dropWhile (\<lambda>e. \<not> entry_valid (rc_pending c) e) (rc_due_heap c) = (t, seq) # rest"
    using assms(2) by (simp add: pop_stale_due_heap_top_def)
  ultimately show ?thesis using m by (rule sorted_dropWhile_hd)
qed

lemma popped_empty_iff:
  assumes "covered c"
  shows "rc_due_heap (pop_stale_due_heap_top c) = [] \<longleftrightarrow> rc_pending c = []"
proof
  assume "rc_due_heap (pop_stale_due_heap_top c) = []"
  then have none: "\<not> entry_valid (rc_pending c) e" if "e \<in> set (rc_due_heap c)" for e
    using that by (simp add: pop_stale_due_heap_top_def dropWhile_eq_Nil_conv)
  show "rc_pending c = []"
  proof (rule ccontr)
    assume "rc_pending c \<noteq> []"
    then obtain seq p where m: "(seq, p) \<in> set (rc_pending c)" by (cases "rc_pending c") auto
    then have g: "tab_get (rc_pending c) seq = Some p"
      using assms by (auto simp: covered_def intro: tab_mem_get)
    from coveredD [OF assms g] obtain t where t: "pk_next_at p = Some t" "(t, seq) \<in> set (rc_due_heap c)" by auto
    with none [OF t(2)] g show False by (auto simp: valid_iff)
  qed
next
  assume "rc_pending c = []"
  then show "rc_due_heap (pop_stale_due_heap_top c) = []"
    by (simp add: pop_stale_due_heap_top_def entry_valid_def)
qed

lemma popped_top_earliest:
  assumes "covered c" and "rc_due_heap (pop_stale_due_heap_top c) = (t, seq) # rest"
  shows "earliest (rc_pending c) = Some t"
  unfolding earliest_def
proof (rule min_by_id_eqI)
  from popped_top_valid [OF assms(2)] obtain p where p: "tab_get (rc_pending c) seq = Some p" "pk_next_at p = Some t"
    by blast
  then have "(seq, p) \<in> set (rc_pending c)" by (simp add: tab_get_mem)
  with p(2) show "t \<in> set (List.map_filter (pk_next_at \<circ> snd) (rc_pending c))"
    by (force simp: mem_map_filter)
next
  fix u
  assume "u \<in> set (List.map_filter (pk_next_at \<circ> snd) (rc_pending c))"
  then obtain s q where q: "(s, q) \<in> set (rc_pending c)" "pk_next_at q = Some u"
    by (force simp: mem_map_filter)
  then have "tab_get (rc_pending c) s = Some q" using assms(1) by (auto simp: covered_def intro: tab_mem_get)
  from popped_top_least [OF assms this q(2)] show "t \<le> u" by auto
qed

lemma pop_stale_covered: "covered c \<Longrightarrow> covered (pop_stale_due_heap_top c)"
proof -
  assume c: "covered c"
  have "sorted (dropWhile P (rc_due_heap c))" for P
    using c by (simp add: covered_def sorted_dropWhile)
  moreover have "(t, seq) \<in> set (dropWhile (\<lambda>e. \<not> entry_valid (rc_pending c) e) (rc_due_heap c))"
    if "(seq, p) \<in> set (rc_pending c)" "pk_next_at p = Some t" "(t, seq) \<in> set (rc_due_heap c)" for seq p t
    using that c by (intro dropWhile_keeps) (auto simp: valid_iff covered_def tab_mem_iff)
  ultimately show ?thesis
    using c by (fastforce simp: covered_def pop_stale_due_heap_top_def)
qed

lemma refresh_inv:
  assumes "covered c"
  shows "rc_inv (refresh_next_due_from_heap c)"
proof -
  let ?c = "pop_stale_due_heap_top c"
  have "covered ?c" using assms by (rule pop_stale_covered)
  moreover have "map_option fst (heap_peek (rc_due_heap ?c)) = earliest (rc_pending c)"
  proof (cases "rc_due_heap ?c")
    case Nil
    then have "rc_pending c = []" using assms by (simp add: popped_empty_iff)
    with Nil show ?thesis by (simp add: heap_peek_def earliest_def List.map_filter_def)
  next
    case (Cons e rest)
    obtain t seq where e: "e = (t, seq)" by (cases e)
    from popped_top_earliest [OF assms] Cons e show ?thesis by (simp add: heap_peek_def)
  qed
  ultimately show ?thesis
    by (simp add: rc_inv_def refresh_next_due_from_heap_def Let_def covered_def)
qed

section \<open>Operations keep the invariant\<close>

lemma rc_inv_new: "rc_inv rc_new"
  by (simp add: rc_inv_def covered_def rc_new_def earliest_def List.map_filter_def)

lemma covered_put:
  assumes "covered c" and "pk_next_at p = Some t"
  shows "covered (c\<lparr>rc_pending := tab_put seq p (rc_pending c), rc_due_heap := insort (t, seq) (rc_due_heap c)\<rparr>)"
  using assms by (fastforce simp: covered_def set_tab_put sorted_insort set_insort_key)

lemma covered_subset:
  "covered c \<Longrightarrow> tab_ok t \<Longrightarrow> set t \<subseteq> set (rc_pending c) \<Longrightarrow> covered (c\<lparr>rc_pending := t\<rparr>)"
  by (fastforce simp: covered_def)

lemma covered_fields:
  "covered (c\<lparr>rc_next_seq := s\<rparr>) = covered c" "covered (c\<lparr>rc_rttvar_ms := a, rc_srtt_ms := b\<rparr>) = covered c"
  by (simp_all add: covered_def)

lemma rc_inv_covered: "rc_inv c \<Longrightarrow> covered c"
  by (simp add: rc_inv_def)

lemma rc_send_inv: "rc_inv c \<Longrightarrow> rc_inv (snd (rc_send inner body dest hint now c))"
proof -
  assume "rc_inv c"
  then have "covered (c\<lparr>rc_next_seq := s\<rparr>)" for s by (simp add: covered_fields rc_inv_covered)
  from covered_put [OF this] \<open>rc_inv c\<close> show ?thesis
    by (simp add: rc_send_def Let_def refresh_inv)
qed

lemma rc_mark_sent_inv: "rc_inv c \<Longrightarrow> rc_inv (rc_mark_sent seq at c)"
  by (simp add: rc_mark_sent_def Let_def refresh_inv covered_put rc_inv_covered split: option.splits)

lemma rc_on_ack_inv:
  assumes "rc_inv c"
  shows "rc_inv (rc_on_ack seq from now c)"
proof -
  have "covered (c\<lparr>rc_pending := tab_del seq (rc_pending c)\<rparr>)"
    using rc_inv_covered [OF assms] by (intro covered_subset) (auto simp: set_tab_del covered_def)
  then show ?thesis
    using assms by (auto simp: rc_on_ack_def Let_def covered_fields intro!: refresh_inv split: option.splits)
qed

lemma migrate_dest_inv:
  assumes "rc_inv c"
  shows "rc_inv (migrate_dest a b c)"
proof -
  let ?f = "\<lambda>p. if pk_dest p = a then p\<lparr>pk_dest := b\<rparr> else p"
  have "pk_next_at (?f p) = pk_next_at p" for p by simp
  then have "covered (c\<lparr>rc_pending := tab_map ?f (rc_pending c)\<rparr>)"
    using rc_inv_covered [OF assms] by (auto simp: covered_def tab_map_def)
      (fastforce simp: tab_ok_def comp_def case_prod_beta)+
  then show ?thesis using assms by (simp add: migrate_dest_def refresh_inv)
qed

lemma set_fold_insort: "set (fold insort xs ys) = set xs \<union> set ys"
  by (induction xs arbitrary: ys) (auto simp: set_insort_key)

lemma sorted_fold_insort: "sorted ys \<Longrightarrow> sorted (fold insort xs ys)"
  by (induction xs arbitrary: ys) (auto simp: sorted_insort)

lemma mem_due_entries: "(t, seq) \<in> set (due_entries pending) \<longleftrightarrow> (\<exists>p. (seq, p) \<in> set pending \<and> pk_next_at p = Some t)"
  by (force simp: due_entries_def mem_map_filter)

lemma rebuild_inv:
  assumes "tab_ok (rc_pending c)" and "\<forall>(seq, p) \<in> set (rc_pending c). pk_next_at p \<noteq> None"
  shows "rc_inv (rebuild_due_heap_from_pending c)"
  unfolding rebuild_due_heap_from_pending_def
  using assms
  by (intro refresh_inv) (fastforce simp: covered_def sorted_fold_insort set_fold_insort mem_due_entries)

lemma flush_dest_inv: "rc_inv c \<Longrightarrow> rc_inv (flush_dest dest c)"
  unfolding flush_dest_def
  by (rule rebuild_inv) (fastforce simp: rc_inv_def covered_def set_tab_retain)+

lemma reset_session_inv: "rc_inv (reset_session c)"
  by (simp add: rc_inv_def covered_def reset_session_def earliest_def List.map_filter_def)

lemma rc_apply_tuning_inv: "rc_inv c \<Longrightarrow> rc_inv (rc_apply_tuning t c)"
  by (simp add: rc_inv_def covered_def rc_apply_tuning_def)

section \<open>A tick is a scan of the due packets\<close>

text \<open>The packets due at \<open>now\<close>, in order of due time and sequence number.\<close>

definition due_list :: "instant \<Rightarrow> (u32, PendingPacket) table \<Rightarrow> (instant \<times> u32) list" where
  "due_list now pending = sort (filter (\<lambda>(t, _). t \<le> now) (due_entries pending))"

text \<open>What becomes of a pending packet.\<close>

definition after_tick :: "nat \<Rightarrow> nat \<Rightarrow> instant \<Rightarrow> PendingPacket \<Rightarrow> PendingPacket option" where
  "after_tick rto_min rto_max now p =
     (case pk_next_at p of
        None \<Rightarrow> Some p
      | Some t \<Rightarrow>
          if t > now then Some p
          else if pk_retries_left p = 0 then None
          else Some (retransmit_packet rto_min rto_max now p))"

definition spec_out :: "(u32, PendingPacket) table \<Rightarrow> (instant \<times> u32) list \<Rightarrow> (bytes \<times> SocketAddr) list" where
  "spec_out pending es =
     List.map_filter (\<lambda>(_, seq). case tab_get pending seq of
        Some p \<Rightarrow> if pk_retries_left p = 0 then None else Some (pk_data p, pk_dest p) | None \<Rightarrow> None) es"

definition spec_failures :: "(u32, PendingPacket) table \<Rightarrow> (instant \<times> u32) list \<Rightarrow> (u32 \<times> SocketAddr) list" where
  "spec_failures pending es =
     List.map_filter (\<lambda>(_, seq). case tab_get pending seq of
        Some p \<Rightarrow> if pk_retries_left p = 0 then Some (seq, pk_dest p) else None | None \<Rightarrow> None) es"

lemma due_entries_simps:
  "due_entries [] = []"
  "due_entries ((k, p) # t) = (case pk_next_at p of None \<Rightarrow> [] | Some u \<Rightarrow> [(u, k)]) @ due_entries t"
  by (simp_all add: due_entries_def List.map_filter_def split: option.splits)

lemma due_entries_keys: "map snd (due_entries t) = map fst (filter (\<lambda>(_, p). pk_next_at p \<noteq> None) t)"
  by (induction t) (auto simp: due_entries_simps split: option.splits)

lemma due_entries_distinct: "tab_ok t \<Longrightarrow> distinct (due_entries t)"
proof -
  assume "tab_ok t"
  then have "distinct (map snd (due_entries t))"
    using tab_ok_filter [of t] by (simp add: due_entries_keys tab_ok_def)
  then show ?thesis by (simp add: distinct_map)
qed

lemma due_entries_key_notin: "k \<notin> fst ` set t \<Longrightarrow> filter (\<lambda>e. snd e \<noteq> k) (due_entries t) = due_entries t"
  by (induction t) (auto simp: due_entries_simps split: option.splits)

lemma due_entries_del: "due_entries (tab_del k t) = filter (\<lambda>e. snd e \<noteq> k) (due_entries t)"
  by (induction t) (auto simp: due_entries_simps tab_del_def split: option.splits)

lemma due_filter_put:
  assumes "tab_ok t" and "tab_get t k = Some p" and "pk_next_at q = Some u" and "now < u"
  shows "filter (\<lambda>(t, _). t \<le> now) (due_entries (tab_put k q t)) =
         filter (\<lambda>(t, _). t \<le> now) (filter (\<lambda>e. snd e \<noteq> k) (due_entries t))"
  using assms
proof (induction t)
  case Nil
  then show ?case by simp
next
  case (Cons e t)
  obtain a b where e: "e = (a, b)" by (cases e)
  show ?case
  proof (cases "a = k")
    case True
    with Cons.prems e have "k \<notin> fst ` set t" by (auto simp: tab_ok_def)
    with True Cons.prems e show ?thesis
      by (auto simp: due_entries_simps tab_put_def due_entries_key_notin split: option.splits)
  next
    case False
    with Cons.prems e have "tab_ok t" "tab_get t k = Some p" by (auto simp: tab_ok_def tab_get_def)
    with Cons.IH Cons.prems(3,4) False e show ?thesis
      by (auto simp: due_entries_simps tab_put_def split: option.splits)
  qed
qed

lemma due_list_remove:
  assumes ok: "tab_ok pending" and g: "tab_get pending seq = Some p" and n: "pk_next_at p = Some t"
    and f: "filter (\<lambda>(t, _). t \<le> now) (due_entries pending') =
            filter (\<lambda>(t, _). t \<le> now) (filter (\<lambda>e. snd e \<noteq> seq) (due_entries pending))"
    and least: "\<And>s q u. tab_get pending s = Some q \<Longrightarrow> pk_next_at q = Some u \<Longrightarrow> (t, seq) \<le> (u, s)"
    and due: "t \<le> now"
  shows "due_list now pending = (t, seq) # due_list now pending'"
proof -
  let ?D = "filter (\<lambda>(t, _). t \<le> now) (due_entries pending)"
  have mem: "(t, seq) \<in> set ?D"
    using g n due by (auto simp: mem_due_entries dest: tab_get_mem)
  have d: "distinct (sort ?D)" using due_entries_distinct [OF ok] by simp
  have min: "(t, seq) \<le> e" if "e \<in> set ?D" for e
  proof -
    obtain u s where e: "e = (u, s)" by (cases e)
    with that ok obtain q where "tab_get pending s = Some q" "pk_next_at q = Some u"
      by (auto simp: mem_due_entries tab_mem_iff)
    with least e show ?thesis by blast
  qed
  have "sort ?D \<noteq> []" using mem by (metis empty_iff empty_set set_sort)
  then obtain x xs where s: "sort ?D = x # xs" by (cases "sort ?D") simp_all
  have "x \<in> set ?D" using s by (metis list.set_intros(1) set_sort)
  moreover have "x \<le> (t, seq)"
    using s mem sorted_sort [of ?D] by (metis (no_types, lifting) order_refl set_ConsD set_sort sorted_simps(2))
  ultimately have x: "x = (t, seq)" using min by fastforce
  have "filter (\<lambda>(t, _). t \<le> now) (filter (\<lambda>e. snd e \<noteq> seq) (due_entries pending)) = filter (\<lambda>e. e \<noteq> (t, seq)) ?D"
  proof -
    have "e \<in> set (due_entries pending) \<Longrightarrow> snd e \<noteq> seq \<longleftrightarrow> e \<noteq> (t, seq)" for e
      using g n ok by (cases e) (auto simp: mem_due_entries tab_mem_iff)
    then show ?thesis by (auto simp: filter_filter intro!: filter_cong)
  qed
  then have "due_list now pending' = filter (\<lambda>e. e \<noteq> (t, seq)) (sort ?D)"
    using f by (simp add: due_list_def filter_sort)
  also have "\<dots> = xs" using s x d by (auto simp: filter_id_conv)
  finally show ?thesis using s x by (simp add: due_list_def)
qed

lemma due_list_nil:
  assumes "tab_ok pending" and "\<And>s q u. tab_get pending s = Some q \<Longrightarrow> pk_next_at q = Some u \<Longrightarrow> now < u"
  shows "due_list now pending = []"
proof -
  have "filter (\<lambda>(t, _). t \<le> now) (due_entries pending) = []"
    using assms by (fastforce simp: filter_empty_conv mem_due_entries tab_mem_iff)
  then show ?thesis by (simp add: due_list_def)
qed

lemma spec_cong:
  assumes "\<And>s. s \<in> snd ` set es \<Longrightarrow> tab_get a s = tab_get b s"
  shows "spec_out a es = spec_out b es" "spec_failures a es = spec_failures b es"
  using assms by (induction es) (force simp: spec_out_def spec_failures_def List.map_filter_def)+

lemma due_list_keys: "(u, s) \<in> set (due_list now pending) \<Longrightarrow> \<exists>p. (s, p) \<in> set pending \<and> pk_next_at p = Some u"
  by (auto simp: due_list_def mem_due_entries)

definition tick_result :: "instant \<Rightarrow> TickOut \<Rightarrow> ReliableChannel \<Rightarrow> TickOut \<times> ReliableChannel \<Rightarrow> bool" where
  "tick_result now r c = (\<lambda>(r', c').
     rc_inv c' \<and> rc_rto_min_ms c' = rc_rto_min_ms c \<and> rc_rto_max_ms c' = rc_rto_max_ms c
     \<and> (\<forall>s. tab_get (rc_pending c') s =
           Option.bind (tab_get (rc_pending c) s) (after_tick (rc_rto_min_ms c) (rc_rto_max_ms c) now))
     \<and> to_out r' = to_out r @ spec_out (rc_pending c) (due_list now (rc_pending c))
     \<and> to_failures r' = to_failures r @ spec_failures (rc_pending c) (due_list now (rc_pending c)))"

lemma covered_rest:
  assumes c: "covered c" and h: "rc_due_heap (pop_stale_due_heap_top c) = (t, seq) # rest"
  shows "sorted rest"
    and "(s, p) \<in> set (rc_pending c) \<Longrightarrow> s \<noteq> seq \<Longrightarrow> \<exists>u. pk_next_at p = Some u \<and> (u, s) \<in> set rest"
proof -
  have pc: "covered (pop_stale_due_heap_top c)" using c by (rule pop_stale_covered)
  then show "sorted rest" using h by (simp add: covered_def)
  show "(s, p) \<in> set (rc_pending c) \<Longrightarrow> s \<noteq> seq \<Longrightarrow> \<exists>u. pk_next_at p = Some u \<and> (u, s) \<in> set rest"
    using pc h by (fastforce simp: covered_def)
qed

lemma tick_result_wait:
  assumes c: "covered c" and h: "rc_due_heap (pop_stale_due_heap_top c) = (t, seq) # rest" and t: "now < t"
  shows "tick_result now r c (r, (pop_stale_due_heap_top c)\<lparr>rc_next_due_at := Some t\<rparr>)"
proof -
  have later: "now < u" if "tab_get (rc_pending c) s = Some q" "pk_next_at q = Some u" for s q u
    using popped_top_least [OF c h that] t by auto
  have ok: "tab_ok (rc_pending c)" using c by (simp add: covered_def)
  have "due_list now (rc_pending c) = []" using ok later by (rule due_list_nil)
  moreover have "tab_get (rc_pending c) s =
      Option.bind (tab_get (rc_pending c) s) (after_tick a b now)" for s a b
    using later by (cases "tab_get (rc_pending c) s") (auto simp: after_tick_def split: option.splits)
  moreover have "rc_inv ((pop_stale_due_heap_top c)\<lparr>rc_next_due_at := Some t\<rparr>)"
    using pop_stale_covered [OF c] popped_top_earliest [OF c h] by (simp add: rc_inv_def covered_def)
  ultimately show ?thesis
    by (simp add: tick_result_def spec_out_def spec_failures_def List.map_filter_def)
qed

lemma tick_result_fail:
  assumes c: "covered c" and h: "rc_due_heap (pop_stale_due_heap_top c) = (t, seq) # rest" and t: "t \<le> now"
    and p: "tab_get (rc_pending c) seq = Some p" "pk_next_at p = Some t" "pk_retries_left p = 0"
    and d: "d = (pop_stale_due_heap_top c)\<lparr>rc_due_heap := rest, rc_pending := tab_del seq (rc_pending c)\<rparr>"
    and res: "tick_result now (r\<lparr>to_failures := to_failures r @ [(seq, pk_dest p)]\<rparr>) d x"
  shows "tick_result now r c x"
proof -
  have ok: "tab_ok (rc_pending c)" using c by (simp add: covered_def)
  have dl: "due_list now (rc_pending c) = (t, seq) # due_list now (tab_del seq (rc_pending c))"
    using popped_top_least [OF c h] t
    by (intro due_list_remove [OF ok p(1,2)]) (simp_all add: due_entries_del)
  have "s \<noteq> seq" if "s \<in> snd ` set (due_list now (tab_del seq (rc_pending c)))" for s
    using that by (auto simp: set_tab_del dest!: due_list_keys)
  then have same: "spec_out (tab_del seq (rc_pending c)) (due_list now (tab_del seq (rc_pending c))) =
        spec_out (rc_pending c) (due_list now (tab_del seq (rc_pending c)))"
      "spec_failures (tab_del seq (rc_pending c)) (due_list now (tab_del seq (rc_pending c))) =
        spec_failures (rc_pending c) (due_list now (tab_del seq (rc_pending c)))"
    by (intro spec_cong; simp add: tab_get_del)+
  have bind: "Option.bind (tab_get (tab_del seq (rc_pending c)) s) (after_tick a b now) =
      Option.bind (tab_get (rc_pending c) s) (after_tick a b now)" for s a b
    using p t by (simp add: tab_get_del after_tick_def)
  have "spec_out (rc_pending c) (due_list now (rc_pending c)) =
        spec_out (rc_pending c) (due_list now (tab_del seq (rc_pending c)))"
    "spec_failures (rc_pending c) (due_list now (rc_pending c)) =
        (seq, pk_dest p) # spec_failures (rc_pending c) (due_list now (tab_del seq (rc_pending c)))"
    unfolding dl using p by (simp_all add: spec_out_def spec_failures_def List.map_filter_def)
  with res same bind show ?thesis
    by (cases x) (simp add: tick_result_def d)
qed

lemma tick_result_resend:
  assumes c: "covered c" and h: "rc_due_heap (pop_stale_due_heap_top c) = (t, seq) # rest" and t: "t \<le> now"
    and p: "tab_get (rc_pending c) seq = Some p" "pk_next_at p = Some t" "pk_retries_left p \<noteq> 0"
    and rto: "0 < rc_rto_min_ms c" "rc_rto_min_ms c \<le> rc_rto_max_ms c"
    and q: "q = retransmit_packet (rc_rto_min_ms c) (rc_rto_max_ms c) now p"
    and d: "d = (pop_stale_due_heap_top c)\<lparr>rc_pending := tab_put seq q (rc_pending c),
                  rc_due_heap := insort (now + from_millis (pk_rto_ms q), seq) rest\<rparr>"
    and res: "tick_result now (r\<lparr>to_out := to_out r @ [(pk_data q, pk_dest q)]\<rparr>) d x"
  shows "tick_result now r c x"
proof -
  have ok: "tab_ok (rc_pending c)" using c by (simp add: covered_def)
  have "rc_rto_min_ms c \<le> clamp (rc_rto_min_ms c) (rc_rto_max_ms c) (pk_rto_ms p * 2)"
    using rto(2) by simp
  with rto(1) have u: "pk_next_at q = Some (now + from_millis (pk_rto_ms q))" "now < now + from_millis (pk_rto_ms q)"
    by (simp_all add: q retransmit_packet_def Let_def from_millis_def)
  let ?P = "tab_put seq q (rc_pending c)"
  have dl: "due_list now (rc_pending c) = (t, seq) # due_list now ?P"
    using popped_top_least [OF c h] t due_filter_put [OF ok p(1) u]
    by (intro due_list_remove [OF ok p(1,2)]) simp_all
  have ne: "s \<noteq> seq" if "s \<in> snd ` set (due_list now ?P)" for s
  proof
    assume "s = seq"
    with that obtain v where v: "(v, seq) \<in> set (due_list now ?P)" by force
    then have "v \<le> now" by (simp add: due_list_def)
    moreover have "tab_get ?P seq = Some q" by (simp add: tab_get_put)
    ultimately show False
      using due_list_keys [OF v] u ok by (auto simp: tab_mem_iff)
  qed
  then have same: "spec_out ?P (due_list now ?P) = spec_out (rc_pending c) (due_list now ?P)"
      "spec_failures ?P (due_list now ?P) = spec_failures (rc_pending c) (due_list now ?P)"
    by (intro spec_cong; simp add: tab_get_put)+
  have bind: "Option.bind (tab_get ?P s) (after_tick (rc_rto_min_ms c) (rc_rto_max_ms c) now) =
      Option.bind (tab_get (rc_pending c) s) (after_tick (rc_rto_min_ms c) (rc_rto_max_ms c) now)" for s
    using p t u by (simp add: tab_get_put after_tick_def q)
  have dd: "pk_data q = pk_data p" "pk_dest q = pk_dest p"
    by (simp_all add: q retransmit_packet_def Let_def)
  have "spec_out (rc_pending c) (due_list now (rc_pending c)) =
        (pk_data q, pk_dest q) # spec_out (rc_pending c) (due_list now ?P)"
    "spec_failures (rc_pending c) (due_list now (rc_pending c)) =
        spec_failures (rc_pending c) (due_list now ?P)"
    unfolding dl using p dd by (simp_all add: spec_out_def spec_failures_def List.map_filter_def)
  with res same bind show ?thesis
    by (cases x) (simp add: tick_result_def d)
qed

lemma tick_loop_spec:
  assumes "covered c" and "0 < rc_rto_min_ms c" and "rc_rto_min_ms c \<le> rc_rto_max_ms c"
  shows "tick_result now r c (tick_loop now r c)"
  using assms
proof (induction c arbitrary: r rule: measure_induct_rule [of loop_measure])
  case (less c)
  let ?c = "pop_stale_due_heap_top c"
  show ?case
  proof (cases "rc_due_heap ?c")
    case Nil
    then have pe: "rc_pending c = []" using less.prems(1) by (simp add: popped_empty_iff)
    with Nil have "tick_loop now r c = (r, ?c\<lparr>rc_next_due_at := None\<rparr>)"
      by (simp add: tick_loop.simps [of now r c])
    with pe Nil show ?thesis
      by (simp add: tick_result_def rc_inv_def covered_def earliest_def due_list_def due_entries_simps
          spec_out_def spec_failures_def List.map_filter_def)
  next
    case (Cons e rest)
    obtain t seq where e: "e = (t, seq)" by (cases e)
    with Cons have h: "rc_due_heap ?c = (t, seq) # rest" by simp
    from popped_top_valid [OF h] obtain p where p: "tab_get (rc_pending c) seq = Some p" "pk_next_at p = Some t"
      by blast
    show ?thesis
    proof (cases "now < t")
      case True
      then show ?thesis
        using tick_result_wait [OF less.prems(1) h True] h by (simp add: tick_loop.simps [of now r c])
    next
      case False
      show ?thesis
      proof (cases "pk_retries_left p = 0")
        case True
        define d where "d = ?c\<lparr>rc_due_heap := rest, rc_pending := tab_del seq (rc_pending c)\<rparr>"
        have "covered d"
          using covered_rest [OF less.prems(1) h] less.prems(1)
          by (auto simp: d_def covered_def set_tab_del)
        moreover have "loop_measure d < loop_measure c"
          using retry_weight_del [OF p(1)] by (intro loop_measure_less) (simp add: d_def)
        ultimately have "tick_result now (r\<lparr>to_failures := to_failures r @ [(seq, pk_dest p)]\<rparr>) d
            (tick_loop now (r\<lparr>to_failures := to_failures r @ [(seq, pk_dest p)]\<rparr>) d)"
          using less.IH less.prems(2,3) by (simp add: d_def)
        from tick_result_fail [OF less.prems(1) h _ p True d_def this] False
        show ?thesis using h p True by (simp add: tick_loop.simps [of now r c] d_def Let_def)
      next
        case nz: False
        define q where "q = retransmit_packet (rc_rto_min_ms c) (rc_rto_max_ms c) now p"
        define d where "d = ?c\<lparr>rc_pending := tab_put seq q (rc_pending c),
            rc_due_heap := insort (now + from_millis (pk_rto_ms q), seq) rest\<rparr>"
        have "covered d"
          using covered_rest [OF less.prems(1) h] less.prems(1)
          by (auto simp: d_def covered_def set_tab_put sorted_insort set_insort_key q_def
              retransmit_packet_def Let_def)
        moreover have "loop_measure d < loop_measure c"
          using retry_weight_put [OF p(1), of q] nz
          by (intro loop_measure_less) (simp add: d_def q_def retransmit_packet_def Let_def)
        ultimately have "tick_result now (r\<lparr>to_out := to_out r @ [(pk_data q, pk_dest q)]\<rparr>) d
            (tick_loop now (r\<lparr>to_out := to_out r @ [(pk_data q, pk_dest q)]\<rparr>) d)"
          using less.IH less.prems(2,3) by (simp add: d_def)
        from tick_result_resend [OF less.prems(1) h _ p nz less.prems(2,3) q_def d_def this] False
        show ?thesis using h p nz by (simp add: tick_loop.simps [of now r c] d_def q_def Let_def)
      qed
    qed
  qed
qed

section \<open>Any sequence of operations\<close>

text \<open>\<^verbatim>\<open>AdvancedTuning::clamp\<close> is applied to every tuning before it reaches the channel; this is its
  part for the channel.\<close>

definition clamp_reliable :: "ReliableTuning \<Rightarrow> ReliableTuning" where
  "clamp_reliable t =
     (let lo = max (rt_rto_min_ms t) 5 in
      t\<lparr>rt_rto_min_ms := lo, rt_rto_max_ms := max (rt_rto_max_ms t) lo,
        rt_max_pending := max (rt_max_pending t) 16, rt_retries_left := min (rt_retries_left t) 8,
        rt_send_scratch_bytes := clamp 64 1048576 (rt_send_scratch_bytes t)\<rparr>)"

datatype rc_op =
  OpSend CompactPacketType bytes SocketAddr "int option" instant
| OpMarkSent u32 instant
| OpAckRecv u32 SocketAddr instant
| OpMigrate SocketAddr SocketAddr
| OpFlush SocketAddr
| OpTickRc instant
| OpReset
| OpTuneRc ReliableTuning

fun rc_step :: "rc_op \<Rightarrow> ReliableChannel \<Rightarrow> ReliableChannel" where
  "rc_step (OpSend inner body dest hint now) c = snd (rc_send inner body dest hint now c)"
| "rc_step (OpMarkSent seq t) c = rc_mark_sent seq t c"
| "rc_step (OpAckRecv seq from now) c = rc_on_ack seq from now c"
| "rc_step (OpMigrate a b) c = migrate_dest a b c"
| "rc_step (OpFlush a) c = flush_dest a c"
| "rc_step (OpTickRc now) c = snd (tick_into now c)"
| "rc_step OpReset c = reset_session c"
| "rc_step (OpTuneRc t) c = rc_apply_tuning (clamp_reliable t) c"

definition rc_good :: "ReliableChannel \<Rightarrow> bool" where
  "rc_good c = (rc_inv c \<and> 0 < rc_rto_min_ms c \<and> rc_rto_min_ms c \<le> rc_rto_max_ms c)"

lemma refresh_rto [simp]:
  "rc_rto_min_ms (refresh_next_due_from_heap c) = rc_rto_min_ms c"
  "rc_rto_max_ms (refresh_next_due_from_heap c) = rc_rto_max_ms c"
  "rc_pending (refresh_next_due_from_heap c) = rc_pending c"
  by (simp_all add: refresh_next_due_from_heap_def Let_def)

lemma rebuild_rto [simp]:
  "rc_rto_min_ms (rebuild_due_heap_from_pending c) = rc_rto_min_ms c"
  "rc_rto_max_ms (rebuild_due_heap_from_pending c) = rc_rto_max_ms c"
  by (simp_all add: rebuild_due_heap_from_pending_def)

lemma tick_into_result:
  assumes "rc_good c"
  shows "tick_result now \<lparr>to_out = [], to_failures = []\<rparr> c (tick_into now c)"
proof (cases "rc_pending c = []")
  case True
  then show ?thesis
    by (simp add: tick_into_def Let_def tick_result_def rc_inv_def covered_def earliest_def due_list_def
        due_entries_simps spec_out_def spec_failures_def List.map_filter_def)
next
  case False
  with assms show ?thesis by (simp add: tick_into_def Let_def tick_loop_spec rc_good_def rc_inv_covered)
qed

lemma rc_step_good:
  assumes "rc_good c"
  shows "rc_good (rc_step op c)"
proof (cases op)
  case (OpTickRc now)
  with assms tick_into_result [OF assms, of now] show ?thesis
    by (cases "tick_into now c") (simp add: tick_result_def rc_good_def)
next
  case (OpSend inner body dest hint now)
  with assms rc_send_inv [of c inner body dest hint now] show ?thesis by (simp add: rc_good_def rc_send_def Let_def)
next
  case (OpMarkSent seq t)
  with assms rc_mark_sent_inv [of c seq t] show ?thesis by (simp add: rc_good_def rc_mark_sent_def Let_def split: option.splits)
next
  case (OpAckRecv seq src now)
  with assms rc_on_ack_inv [of c seq src now] show ?thesis by (simp add: rc_good_def rc_on_ack_def Let_def split: option.splits)
next
  case (OpMigrate a b)
  with assms migrate_dest_inv [of c a b] show ?thesis by (simp add: rc_good_def migrate_dest_def)
next
  case (OpFlush a)
  with assms flush_dest_inv [of c a] show ?thesis by (simp add: rc_good_def flush_dest_def)
next
  case OpReset
  with assms reset_session_inv [of c] show ?thesis by (simp add: rc_good_def reset_session_def)
next
  case (OpTuneRc t)
  with assms rc_apply_tuning_inv [of c "clamp_reliable t"] show ?thesis
    by (simp add: rc_good_def rc_apply_tuning_def clamp_reliable_def Let_def)
qed

lemma rc_good_new: "rc_good rc_new"
  using rc_inv_new by (simp add: rc_good_def) (simp add: rc_new_def RTO_MIN_MS_def RTO_MAX_MS_def)

interpretation reliable: invariant_machine rc_step rc_good
  by unfold_locales (rule rc_step_good)

lemma rc_reachable: "rc_good (fold rc_step ops rc_new)"
  by (rule reliable.run_inv [OF rc_good_new])

section \<open>Properties\<close>

text \<open>
  C12. The retransmission tick does exactly what a plain scan would: in any reachable channel, the
  packets whose due time has come are taken in order of due time; those with retries left are sent
  again and rescheduled into the future with one retry less, those without are reported and
  dropped; no other packet is touched; the next wake-up time is then the earliest due time left.
\<close>

theorem reliable_tick_spec:
  "let c = fold rc_step ops rc_new in
   case tick_into now c of (r, c') \<Rightarrow>
     to_out r = spec_out (rc_pending c) (due_list now (rc_pending c))
     \<and> to_failures r = spec_failures (rc_pending c) (due_list now (rc_pending c))
     \<and> tab_get (rc_pending c') s =
         Option.bind (tab_get (rc_pending c) s) (after_tick (rc_rto_min_ms c) (rc_rto_max_ms c) now)
     \<and> rc_next_due_at c' = earliest (rc_pending c')"
  using tick_into_result [OF rc_reachable, of now ops]
  by (cases "tick_into now (fold rc_step ops rc_new)") (simp add: Let_def tick_result_def rc_inv_def)

text \<open>
  C13. The wake-up time never lags: after any sequence of operations it is exactly the earliest due
  time of a pending packet, and is absent exactly when nothing is pending.
\<close>

theorem reliable_next_due_exact:
  "let c = fold rc_step ops rc_new in
     rc_next_due_at c = min_by id (List.map_filter (pk_next_at \<circ> snd) (rc_pending c))
     \<and> (rc_next_due_at c = None \<longleftrightarrow> rc_pending c = [])"
proof -
  define c where "c = fold rc_step ops rc_new"
  have inv: "rc_inv c" using rc_reachable [of ops] by (simp add: c_def rc_good_def)
  then have e: "rc_next_due_at c = min_by id (List.map_filter (pk_next_at \<circ> snd) (rc_pending c))"
    by (simp add: rc_inv_def earliest_def)
  moreover have "List.map_filter (pk_next_at \<circ> snd) (rc_pending c) = [] \<longleftrightarrow> rc_pending c = []"
    using inv by (cases "rc_pending c") (force simp: rc_inv_def covered_def List.map_filter_def)+
  ultimately show ?thesis by (simp add: c_def Let_def)
qed


lemma sdiv_nonneg: "0 \<le> a \<Longrightarrow> 0 < b \<Longrightarrow> a sdiv b = a div (b :: int)"
  by (cases "a = 0") (simp_all add: signed_divide_int_def)

lemma as_i32_id: "- (2 ^ 31) \<le> x \<Longrightarrow> x < 2 ^ 31 \<Longrightarrow> as_i32 x = x"
  by (simp add: as_i32_def)

lemma compute_rto_bounds:
  assumes "a \<le> b" and "b < 2 ^ 31"
  shows "a \<le> compute_rto_ms s v a b \<and> compute_rto_ms s v a b \<le> b"
proof -
  define x where "x = clamp (int a) (int b) (max s SRTT_MIN_MS + max (4 * max v 1) 10)"
  have x: "int a \<le> x" "x \<le> int b" using assms(1) by (simp_all add: x_def)
  moreover have "as_i32 (int a) = int a" "as_i32 (int b) = int b"
    using assms by (simp_all add: as_i32_id)
  moreover have "x mod 2 ^ 32 = x" using x assms(2) by (simp add: mod_pos_pos_trivial)
  ultimately have "compute_rto_ms s v a b = nat x"
    by (simp add: compute_rto_ms_def Let_def x_def)
  with x show ?thesis by auto
qed

text \<open>
  Every retransmission timeout lies between the configured bounds: the initial one whatever the
  estimates and the hint, and each doubled one.
\<close>

theorem reliable_rto_bounds:
  assumes "rto_min \<le> rto_max" and "rto_max < 2 ^ 31"
  shows "rto_min \<le> initial_rto_for_send srtt rttvar hint rto_min rto_max
    \<and> initial_rto_for_send srtt rttvar hint rto_min rto_max \<le> rto_max
    \<and> rto_min \<le> pk_rto_ms (retransmit_packet rto_min rto_max now p)
    \<and> pk_rto_ms (retransmit_packet rto_min rto_max now p) \<le> rto_max"
  using compute_rto_bounds [OF assms] assms(1)
  by (auto simp: initial_rto_for_send_def Let_def retransmit_packet_def min_def split: option.splits)

theorem reliable_rto_bounds_witness:
  "(75 :: nat) \<le> initial_rto_for_send 2000 900 (Some 3) 75 400 \<and> initial_rto_for_send 2000 900 (Some 3) 75 400 \<le> 400"
  using reliable_rto_bounds [of 75 400 2000 900 "Some 3"] by simp

text \<open>
  The round-trip estimator stays in range: with estimates and a sample below \<open>2 ^ 28\<close> ms no
  intermediate sum of the update leaves the 32-bit range, and the new smoothed time is between 5 ms
  and the larger of the old one and the sample, the new variance at least 1 ms.
\<close>

theorem reliable_rtt_estimator_bounds:
  assumes p: "tab_get (rc_pending c) seq = Some p" "\<not> pk_retransmitted p" "pk_dest p = src"
    and s: "5 \<le> rc_srtt_ms c" "rc_srtt_ms c < 2 ^ 28" "1 \<le> rc_rttvar_ms c" "rc_rttvar_ms c < 2 ^ 28"
    and m: "sent = (case pk_actual_sent_at p of Some t \<Rightarrow> t | None \<Rightarrow> pk_enqueued_at p)"
      "rtt = max (as_millis (now - sent)) 1" "rtt < 2 ^ 28"
  shows "5 \<le> rc_srtt_ms (rc_on_ack seq src now c)
    \<and> rc_srtt_ms (rc_on_ack seq src now c) \<le> max (rc_srtt_ms c) (max (int rtt) 5)
    \<and> 1 \<le> rc_rttvar_ms (rc_on_ack seq src now c) \<and> rc_rttvar_ms (rc_on_ack seq src now c) < 2 ^ 28
    \<and> 3 * rc_rttvar_ms c + \<bar>rc_srtt_ms c - int rtt\<bar> < 2 ^ 31 \<and> 7 * rc_srtt_ms c + int rtt < 2 ^ 31"
proof -
  have cast: "as_i32 (int rtt) = int rtt" using m(3) by (simp add: as_i32_id)
  have pos: "(0 :: int) \<le> 3 * rc_rttvar_ms c + \<bar>rc_srtt_ms c - int rtt\<bar>" "(0 :: int) \<le> 7 * rc_srtt_ms c + int rtt"
    using s by auto
  have v: "rc_rttvar_ms (rc_on_ack seq src now c) = max ((3 * rc_rttvar_ms c + \<bar>rc_srtt_ms c - int rtt\<bar>) div 4) 1"
    "rc_srtt_ms (rc_on_ack seq src now c) = max ((7 * rc_srtt_ms c + int rtt) div 8) 5"
    using p pos cast
    by (simp_all add: rc_on_ack_def Let_def refresh_next_due_from_heap_def pop_stale_due_heap_top_def
        m(1) [symmetric] m(2) [unfolded One_nat_def, symmetric] sdiv_nonneg SRTT_MIN_MS_def)
  have "int rtt < 2 ^ 28" using m(3) by simp
  then show ?thesis
    unfolding v using s by (auto simp: max_def)
qed

theorem reliable_rtt_estimator_bounds_witness:
  "5 \<le> rc_srtt_ms (rc_on_ack 1 (V4 1 1) (from_millis 80)
     (rc_new\<lparr>rc_pending := [(1, \<lparr>pk_data = [], pk_dest = V4 1 1, pk_next_at = None, pk_enqueued_at = 0,
        pk_actual_sent_at = None, pk_retransmitted = False, pk_retries_left = 1, pk_rto_ms = 75\<rparr>)]\<rparr>))"
  using reliable_rtt_estimator_bounds [of "rc_new\<lparr>rc_pending := [(1, \<lparr>pk_data = [], pk_dest = V4 1 1,
        pk_next_at = None, pk_enqueued_at = 0, pk_actual_sent_at = None, pk_retransmitted = False,
        pk_retries_left = 1, pk_rto_ms = 75\<rparr>)]\<rparr>" 1 _ "V4 1 1" 0 80 "from_millis 80"]
  by (simp add: tab_get_def rc_new_def DEFAULT_SRTT_MS_def DEFAULT_RTTVAR_MS_def as_millis_def from_millis_def)

end
