(* ===== verification/Claim.thy ===== *)
theory Claim
  imports Net_Addr Crypto
begin

text \<open>
  \<^verbatim>\<open>src/src/net/claim.rs\<close>: self-claimed virtual addresses. A unit's key determines a \<^verbatim>\<open>/24\<close>; members
  pick a host in it, and the lexicographically smaller node id wins a conflict. The random draws of
  \<^verbatim>\<open>random_member_vip_in_unit\<close> are an argument: the list of the numbers drawn.
\<close>

section \<open>Conflicts\<close>

definition node_id_wins :: "string \<Rightarrow> string \<Rightarrow> bool" where
  "node_id_wins local_id remote_id = (local_id < remote_id)"

definition local_loses_vip_conflict :: "string \<Rightarrow> string \<Rightarrow> bool" where
  "local_loses_vip_conflict local_id remote_id = (\<not> node_id_wins local_id remote_id \<and> local_id \<noteq> remote_id)"

section \<open>Choosing an address\<close>

text \<open>\<^verbatim>\<open>str::parse::<u8>\<close>: an optional plus sign and decimal digits, at most 255.\<close>

definition parse_u8 :: "string \<Rightarrow> u8 option" where
  "parse_u8 s0 =
     (let s = (case s0 of c # r \<Rightarrow> if c = CHR ''+'' then r else s0 | [] \<Rightarrow> s0) in
      if s = [] \<or> \<not> list_all is_digit s then None
      else if digits_val s > 255 then None
      else Some (word_of_nat (digits_val s)))"

definition vip_octets :: "string \<Rightarrow> u8 list" where
  "vip_octets base_vip = List.map_filter parse_u8 (split_on CHR ''.'' base_vip)"

definition host_at :: "u8 \<Rightarrow> nat \<Rightarrow> u8" where
  "host_at last_octet i =
     (let start = ((unat last_octet * 37) mod 2 ^ 16 + 17) mod 2 ^ 16 mod 254 in
      word_of_nat ((start + i) mod 254 + 1))"

definition pick_free_vip :: "string \<Rightarrow> (string \<Rightarrow> bool) \<Rightarrow> string option" where
  "pick_free_vip base_vip occupied =
     (case vip_octets base_vip of
        [a, b, c, d] \<Rightarrow>
          find (\<lambda>cand. \<not> occupied cand) (map (\<lambda>i. show_octets [a, b, c, host_at d i]) [0..<254])
      | _ \<Rightarrow> None)"

definition is_multicast :: "u8 list \<Rightarrow> bool" where
  "is_multicast os = (224 \<le> os ! 0 \<and> os ! 0 \<le> 239)"

definition claim_vip_valid :: "string \<Rightarrow> bool" where
  "claim_vip_valid vip =
     (case parse_ipv4 vip of
        None \<Rightarrow> False
      | Some ip \<Rightarrow>
          let os = octets ip in
          os \<noteq> [0, 0, 0, 0] \<and> os \<noteq> [255, 255, 255, 255] \<and> \<not> is_multicast os \<and> os ! 0 \<noteq> 127
          \<and> os ! 3 \<noteq> 0 \<and> os ! 3 \<noteq> 255)"

definition vip_in_floatunit_subnet :: "hkdf_expand \<Rightarrow> bytes \<Rightarrow> string \<Rightarrow> bool" where
  "vip_in_floatunit_subnet hkdf key vip =
     (if \<not> claim_vip_valid vip then False
      else case parse_ipv4 vip of
        None \<Rightarrow> False
      | Some ip \<Rightarrow>
          let os = octets ip; p = derive_floatunit_subnet24 hkdf key in
          os ! 0 = p ! 0 \<and> os ! 1 = p ! 1 \<and> os ! 2 = p ! 2)"

definition random_member_vip_in_unit :: "hkdf_expand \<Rightarrow> bytes \<Rightarrow> u8 list \<Rightarrow> string" where
  "random_member_vip_in_unit hkdf key draws =
     (let base = floatunit_subnet_base_vip hkdf key;
          p = derive_floatunit_subnet24 hkdf key;
          cands = map (\<lambda>h. show_octets [p ! 0, p ! 1, p ! 2, h]) (take 32 draws) in
      case find claim_vip_valid cands of
        Some cand \<Rightarrow> cand
      | None \<Rightarrow>
          (case pick_free_vip base (\<lambda>_. False) of
             Some v \<Rightarrow> v
           | None \<Rightarrow> show_octets [p ! 0, p ! 1, p ! 2, 2]))"

definition is_ws :: "char \<Rightarrow> bool" where
  "is_ws c = ((of_char c :: nat) = 32 \<or> (9 \<le> (of_char c :: nat) \<and> (of_char c :: nat) \<le> 13))"

definition trim_ws :: "string \<Rightarrow> string" where
  "trim_ws s = rev (dropWhile is_ws (rev (dropWhile is_ws s)))"

definition resolve_member_vip :: "hkdf_expand \<Rightarrow> bytes \<Rightarrow> u8 list \<Rightarrow> string \<Rightarrow> string \<times> bool" where
  "resolve_member_vip hkdf key draws existing0 =
     (let existing = trim_ws existing0 in
      if existing \<noteq> [] \<and> vip_in_floatunit_subnet hkdf key existing then (existing, False)
      else (random_member_vip_in_unit hkdf key draws, True))"

definition accept_wire_claim_vip :: "hkdf_expand \<Rightarrow> bytes option \<Rightarrow> string \<Rightarrow> bool" where
  "accept_wire_claim_vip hkdf unit_key vip =
     (case unit_key of
        Some k \<Rightarrow> vip_in_floatunit_subnet hkdf k vip
      | None \<Rightarrow> claim_vip_valid vip)"

definition member_host_vip :: "hkdf_expand \<Rightarrow> bytes \<Rightarrow> u8 \<Rightarrow> string" where
  "member_host_vip hkdf key host =
     (let p = derive_floatunit_subnet24 hkdf key; h = (if host = 0 \<or> host = 255 then 1 else host) in
      show_octets [p ! 0, p ! 1, p ! 2, h])"

definition member_host_ipv4 :: "hkdf_expand \<Rightarrow> bytes \<Rightarrow> u8 \<Rightarrow> u32" where
  "member_host_ipv4 hkdf key host =
     (case parse_ipv4 (member_host_vip hkdf key host) of
        Some ip \<Rightarrow> ip | None \<Rightarrow> from_octets [10, 0, 0, 1])"

section \<open>Lemmas\<close>

lemma conflict_one_loser:
  "a \<noteq> b \<Longrightarrow> local_loses_vip_conflict a b \<longleftrightarrow> \<not> local_loses_vip_conflict b a"
  by (auto simp: local_loses_vip_conflict_def node_id_wins_def)

lemma find_Some_iff': "find P xs = Some x \<Longrightarrow> x \<in> set xs \<and> P x"
  by (metis find_Some_iff nth_mem)

lemma find_None_iff': "find P xs = None \<longleftrightarrow> (\<forall>x \<in> set xs. \<not> P x)"
  by (auto simp: find_None_iff)

lemma unat_u8_small: "n < 256 \<Longrightarrow> unat (word_of_nat n :: u8) = n"
  by (simp add: unat_of_nat)

lemma hosts_all:
  "(\<lambda>i. host_at d i) ` {0..<254} = {h. 1 \<le> unat h \<and> unat h \<le> 254}"
proof -
  define s where "s = ((unat d * 37) mod 2 ^ 16 + 17) mod 2 ^ 16 mod (254 :: nat)"
  have img: "(\<lambda>i. (s + i) mod 254) ` {0..<254} = {0..<254}"
    by (rule endo_inj_surj) (auto intro!: inj_onI intro: ring_index_inj)
  have "(\<lambda>i. host_at d i) ` {0..<254} = (\<lambda>n. word_of_nat (n + 1)) ` (\<lambda>i. (s + i) mod 254) ` {0..<254}"
    by (simp add: image_image host_at_def s_def Let_def)
  also have "\<dots> = (\<lambda>n. word_of_nat (n + 1) :: u8) ` {0..<254}" by (simp only: img)
  also have "\<dots> = {h. 1 \<le> unat h \<and> unat h \<le> 254}"
  proof (intro set_eqI iffI)
    fix h :: u8
    assume "h \<in> (\<lambda>n. word_of_nat (n + 1)) ` {0..<254}"
    then obtain n where n: "n < 254" "h = word_of_nat (n + 1)" by auto
    then have "unat h = n + 1" using unat_u8_small [of "n + 1"] by simp
    with n(1) show "h \<in> {h. 1 \<le> unat h \<and> unat h \<le> 254}" by simp
  next
    fix h :: u8
    assume "h \<in> {h. 1 \<le> unat h \<and> unat h \<le> 254}"
    then have "unat h - 1 \<in> {0..<254}" "h = word_of_nat (unat h - 1 + 1)" by auto
    then show "h \<in> (\<lambda>n. word_of_nat (n + 1)) ` {0..<254}" by blast
  qed
  finally show ?thesis .
qed

lemma vip_octets_show: "vip_octets (show_octets [a, b, c, d]) = [a, b, c, d]"
proof -
  have "parse_u8 (show_nat (unat x)) = Some x" for x
  proof -
    obtain a l where al: "show_nat (unat x) = a # l"
      using show_nat_nonempty [of "unat x"] by (cases "show_nat (unat x)") simp_all
    have "unat x < 256" using unat_bound [of x] by simp
    moreover have "list_all is_digit (a # l)" "digits_val (a # l) = unat x"
      using show_nat_digits [of "unat x"] digits_val_show_nat [of "unat x"] al by simp_all
    moreover from this have "a \<noteq> CHR ''+''" by (auto simp: is_digit_def)
    ultimately show ?thesis by (simp add: parse_u8_def al)
  qed
  then show ?thesis
    by (simp add: vip_octets_def show_octets_split List.map_filter_def)
qed

lemma claim_vip_valid_octets:
  "claim_vip_valid (show_octets [a, b, c, d]) \<longleftrightarrow>
     [a, b, c, d] \<noteq> [0, 0, 0, 0] \<and> [a, b, c, d] \<noteq> [255, 255, 255, 255] \<and> \<not> (224 \<le> a \<and> a \<le> 239) \<and> a \<noteq> 127
     \<and> d \<noteq> 0 \<and> d \<noteq> 255"
  by (simp add: claim_vip_valid_def parse_show_octets octets_from_octets is_multicast_def)

lemma unit_host_valid:
  "1 \<le> unat h \<Longrightarrow> unat h \<le> 254 \<Longrightarrow> claim_vip_valid (show_octets [10, b, c, h])"
  by (auto simp: claim_vip_valid_octets)

section \<open>Properties\<close>

text \<open>
  C32. \<^verbatim>\<open>pick_free_vip\<close> is sound and complete: for a well-formed base it returns a free address with
  the base's first three octets and a host between 1 and 254, and fails only when all 254 of them
  are taken.
\<close>

theorem pick_free_vip_complete:
  "case pick_free_vip (show_octets [a, b, c, d]) occupied of
     Some v \<Rightarrow> (\<exists>h. v = show_octets [a, b, c, h] \<and> 1 \<le> unat h \<and> unat h \<le> 254) \<and> \<not> occupied v
   | None \<Rightarrow> {h. \<not> occupied (show_octets [a, b, c, h])} \<inter> {h. 1 \<le> unat h \<and> unat h \<le> 254} = {}"
proof (cases "pick_free_vip (show_octets [a, b, c, d]) occupied")
  case None
  then have "\<forall>i \<in> {0..<254}. occupied (show_octets [a, b, c, host_at d i])"
    by (auto simp: pick_free_vip_def vip_octets_show find_None_iff')
  then have "\<forall>h \<in> (\<lambda>i. host_at d i) ` {0..<254}. occupied (show_octets [a, b, c, h])" by blast
  then show ?thesis unfolding hosts_all using None by auto
next
  case (Some v)
  then obtain i where "i \<in> {0..<254}" "v = show_octets [a, b, c, host_at d i]" "\<not> occupied v"
    by (auto simp: pick_free_vip_def vip_octets_show dest!: find_Some_iff')
  moreover from this have "host_at d i \<in> {h. 1 \<le> unat h \<and> unat h \<le> 254}"
    unfolding hosts_all [of d, symmetric] by blast
  ultimately show ?thesis using Some by auto
qed

lemma subnet24_shape: "\<exists>b c. derive_floatunit_subnet24 hkdf key = [10, b, c]"
  by (simp add: derive_floatunit_subnet24_def Let_def)

lemma unit_member:
  assumes "derive_floatunit_subnet24 hkdf key = [10, b, c]" and "1 \<le> unat h" and "unat h \<le> 254"
  shows "vip_in_floatunit_subnet hkdf key (show_octets [10, b, c, h])"
  using assms unit_host_valid [OF assms(2,3)]
  by (simp add: vip_in_floatunit_subnet_def parse_show_octets octets_from_octets)

lemma random_member_in_unit: "vip_in_floatunit_subnet hkdf key (random_member_vip_in_unit hkdf key draws)"
proof -
  obtain b c where p: "derive_floatunit_subnet24 hkdf key = [10, b, c]" using subnet24_shape by blast
  have base: "floatunit_subnet_base_vip hkdf key = show_octets [10, b, c, 1]"
    by (simp add: floatunit_subnet_base_vip_def p)
  let ?cands = "map (\<lambda>h. show_octets [10, b, c, h]) (take 32 draws)"
  show ?thesis
  proof (cases "find claim_vip_valid ?cands")
    case (Some v)
    then obtain h where v: "v = show_octets [10, b, c, h]" "claim_vip_valid v"
      by (auto dest!: find_Some_iff')
    then have "vip_in_floatunit_subnet hkdf key v"
      using p by (simp add: vip_in_floatunit_subnet_def parse_show_octets octets_from_octets)
    with Some show ?thesis by (simp add: random_member_vip_in_unit_def p)
  next
    case None
    have pick: "case pick_free_vip (show_octets [10, b, c, 1]) (\<lambda>_. False) of
        Some v \<Rightarrow> \<exists>h. v = show_octets [10, b, c, h] \<and> 1 \<le> unat h \<and> unat h \<le> 254 | None \<Rightarrow> False"
    proof (cases "pick_free_vip (show_octets [10, b, c, 1]) (\<lambda>_. False)")
      case None
      then have "[0..<254] = ([] :: nat list)"
        by (simp add: pick_free_vip_def vip_octets_show find_None_iff')
      then show ?thesis by simp
    next
      case (Some v)
      then obtain i where "i \<in> {0..<254}" "v = show_octets [10, b, c, host_at 1 i]"
        by (auto simp: pick_free_vip_def vip_octets_show dest!: find_Some_iff')
      moreover from this have "host_at 1 i \<in> {h. 1 \<le> unat h \<and> unat h \<le> 254}"
        unfolding hosts_all [of 1, symmetric] by blast
      ultimately show ?thesis using Some by auto
    qed
    with None base show ?thesis
      by (auto simp: random_member_vip_in_unit_def p unit_member [OF p] split: option.splits)
  qed
qed

text \<open>
  Every address a member ends up with lies in the unit's key-derived subnet: the resolved one,
  whatever was saved and drawn, is a valid claim of the unit and is the saved one exactly when that
  already was; and so is every host address computed for a member.
\<close>

theorem member_vip_in_unit:
  "vip_in_floatunit_subnet hkdf key (fst (resolve_member_vip hkdf key draws existing))
   \<and> (snd (resolve_member_vip hkdf key draws existing) \<longleftrightarrow>
        \<not> vip_in_floatunit_subnet hkdf key (trim_ws existing))
   \<and> accept_wire_claim_vip hkdf (Some key) (member_host_vip hkdf key host)
   \<and> parse_ipv4 (member_host_vip hkdf key host) = Some (member_host_ipv4 hkdf key host)"
proof -
  obtain b c where p: "derive_floatunit_subnet24 hkdf key = [10, b, c]" using subnet24_shape by blast
  let ?h = "if host = 0 \<or> host = 255 then 1 else host"
  have host: "1 \<le> unat ?h \<and> unat ?h \<le> 254"
  proof (cases "host = 0 \<or> host = 255")
    case False
    then have "unat host \<noteq> 0" "unat host \<noteq> 255"
      using word_unat_eq_iff [of host 0] word_unat_eq_iff [of host 255] by auto
    with False unat_bound [of host] show ?thesis by auto
  qed auto
  have empty: "\<not> vip_in_floatunit_subnet hkdf key []"
    by (simp add: vip_in_floatunit_subnet_def claim_vip_valid_def parse_ipv4_def parse_octet_def)
  have "member_host_vip hkdf key host = show_octets [10, b, c, ?h]"
    by (simp add: member_host_vip_def p Let_def)
  moreover have "vip_in_floatunit_subnet hkdf key (show_octets [10, b, c, ?h])"
    using unit_member [OF p] host by blast
  ultimately show ?thesis
    using random_member_in_unit empty
    by (auto simp: resolve_member_vip_def Let_def accept_wire_claim_vip_def member_host_ipv4_def parse_show_octets)
qed

end
