(* ===== verification/Claim_Gossip.thy ===== *)
theory Claim_Gossip
  imports Claim
begin

text \<open>
  \<^verbatim>\<open>src/src/net/claim_gossip.rs\<close>: merging gossiped claims (last writer wins by epoch), leave
  tombstones, suppression of claims that lost a fight over an address, settling duplicate
  addresses, and the rotating digests. The claim table, the tombstones and the suppressions are
  tables by node id. Tombstones and suppressions interpret the interface of expiring tables.
\<close>

section \<open>Data\<close>

definition CLAIM_GOSSIP_DIGEST_MAX :: nat where "CLAIM_GOSSIP_DIGEST_MAX = 32"
definition CLAIM_GOSSIP_LEAVE_TOMBS_MAX :: nat where "CLAIM_GOSSIP_LEAVE_TOMBS_MAX = 8"
definition LEAVE_TOMBSTONE_TTL :: duration where "LEAVE_TOMBSTONE_TTL = from_secs 300"
definition FIGHT_SUPPRESS_TTL :: duration where "FIGHT_SUPPRESS_TTL = from_secs 30"

record ClaimRecord =
  cl_node_id :: string
  cl_vip :: string
  cl_vip_epoch :: nat
  cl_ep_hints :: "string list"

record LeaveTombstone =
  lt_node_id :: string
  lt_vip :: string
  lt_vip_epoch :: nat
  lt_expires_at :: instant

record FightSuppress =
  fs_node_id :: string
  fs_vip :: string
  fs_vip_epoch :: nat
  fs_expires_at :: instant

datatype MergeOutcome = Accepted | IgnoredStale | BlockedByTombstone | BlockedByFight | Rejected

type_synonym claim_map = "(string, ClaimRecord) table"
type_synonym tomb_map = "(string, LeaveTombstone) table"
type_synonym fight_map = "(string, FightSuppress) table"

section \<open>Operations\<close>

definition install_fight_suppress ::
    "string \<Rightarrow> string \<Rightarrow> nat \<Rightarrow> instant \<Rightarrow> duration \<Rightarrow> fight_map \<Rightarrow> bool \<times> fight_map" where
  "install_fight_suppress node_id vip vip_epoch now ttl suppress =
     (if node_id = [] \<or> \<not> claim_vip_valid vip then (False, suppress)
      else (True, tab_put node_id
        \<lparr>fs_node_id = node_id, fs_vip = vip, fs_vip_epoch = vip_epoch, fs_expires_at = now + ttl\<rparr> suppress))"

definition fight_suppress_blocks :: "fight_map \<Rightarrow> string \<Rightarrow> string \<Rightarrow> nat \<Rightarrow> instant \<Rightarrow> bool" where
  "fight_suppress_blocks suppress node_id vip vip_epoch now =
     (case tab_get suppress node_id of
        Some s \<Rightarrow> fs_expires_at s > now \<and> fs_vip s = vip \<and> fs_vip_epoch s = vip_epoch
      | None \<Rightarrow> False)"

definition prune_fight_suppress :: "instant \<Rightarrow> fight_map \<Rightarrow> fight_map" where
  "prune_fight_suppress now suppress = tab_retain (\<lambda>_ s. fs_expires_at s > now) suppress"

definition merge_claim ::
    "ClaimRecord \<Rightarrow> tomb_map \<Rightarrow> instant \<Rightarrow> claim_map \<times> fight_map \<Rightarrow> MergeOutcome \<times> claim_map \<times> fight_map" where
  "merge_claim incoming tombs now = (\<lambda>(m, suppress).
     if cl_node_id incoming = [] \<or> \<not> claim_vip_valid (cl_vip incoming) then (Rejected, m, suppress)
     else if (case tab_get tombs (cl_node_id incoming) of
                Some t \<Rightarrow> lt_expires_at t > now \<and> cl_vip_epoch incoming \<le> lt_vip_epoch t
              | None \<Rightarrow> False)
     then (BlockedByTombstone, m, suppress)
     else if fight_suppress_blocks suppress (cl_node_id incoming) (cl_vip incoming) (cl_vip_epoch incoming) now
     then (BlockedByFight, m,
           snd (install_fight_suppress (cl_node_id incoming) (cl_vip incoming) (cl_vip_epoch incoming) now
                  FIGHT_SUPPRESS_TTL suppress))
     else case tab_get m (cl_node_id incoming) of
       None \<Rightarrow> (Accepted, tab_put (cl_node_id incoming) incoming m, suppress)
     | Some existing \<Rightarrow>
         if cl_vip_epoch incoming > cl_vip_epoch existing
         then (Accepted, tab_put (cl_node_id incoming) incoming m, suppress)
         else if cl_vip_epoch incoming = cl_vip_epoch existing \<and> cl_vip incoming = cl_vip existing then
           if cl_ep_hints incoming \<noteq> [] \<and> cl_ep_hints incoming \<noteq> cl_ep_hints existing
           then (Accepted, tab_put (cl_node_id incoming) (existing\<lparr>cl_ep_hints := cl_ep_hints incoming\<rparr>) m, suppress)
           else (IgnoredStale, m, suppress)
         else (IgnoredStale, m, suppress))"

definition remove_claims_for_vip :: "string \<Rightarrow> claim_map \<Rightarrow> string list \<times> claim_map" where
  "remove_claims_for_vip vip m =
     (let doomed = map fst (filter (\<lambda>(_, c). cl_vip c = vip) m) in (doomed, fold tab_del doomed m))"

definition claim_still_live :: "claim_map \<Rightarrow> string \<Rightarrow> string \<Rightarrow> nat \<Rightarrow> bool" where
  "claim_still_live m node_id vip vip_epoch =
     (case tab_get m node_id of Some c \<Rightarrow> cl_vip c = vip \<and> cl_vip_epoch c = vip_epoch | None \<Rightarrow> False)"

definition should_reroll_for_vip_fight :: "string \<Rightarrow> string \<Rightarrow> string \<Rightarrow> string \<Rightarrow> bool" where
  "should_reroll_for_vip_fight local_node_id local_vip remote_node_id remote_vip =
     (remote_vip = local_vip \<and> local_loses_vip_conflict local_node_id remote_node_id)"

definition group_by_vip :: "claim_map \<Rightarrow> (string, string list) table" where
  "group_by_vip m =
     fold (\<lambda>(nid, c) acc. tab_put (cl_vip c)
        ((case tab_get acc (cl_vip c) of None \<Rightarrow> [] | Some ns \<Rightarrow> ns) @ [nid]) acc) m []"

definition settle_group :: "string \<times> string list \<Rightarrow> claim_map \<times> string list \<Rightarrow> claim_map \<times> string list" where
  "settle_group = (\<lambda>(_, nodes) (m, losers).
     if length nodes < 2 then (m, losers)
     else let out = tl (sort nodes) in (fold tab_del out m, losers @ out))"

definition settle_duplicate_vips :: "claim_map \<Rightarrow> claim_map \<times> string list" where
  "settle_duplicate_vips m = fold settle_group (group_by_vip m) (m, [])"

definition install_leave_tombstone ::
    "string \<Rightarrow> string \<Rightarrow> nat \<Rightarrow> instant \<Rightarrow> duration \<Rightarrow> tomb_map \<Rightarrow> bool \<times> tomb_map" where
  "install_leave_tombstone node_id vip vip_epoch now ttl tombs =
     (if node_id = [] \<or> \<not> claim_vip_valid vip then (False, tombs)
      else (True, tab_put node_id
        \<lparr>lt_node_id = node_id, lt_vip = vip, lt_vip_epoch = vip_epoch, lt_expires_at = now + ttl\<rparr> tombs))"

definition prune_leave_tombstones :: "instant \<Rightarrow> tomb_map \<Rightarrow> tomb_map" where
  "prune_leave_tombstones now tombs = tab_retain (\<lambda>_ t. lt_expires_at t > now) tombs"

definition leave_tombstone_blocks :: "tomb_map \<Rightarrow> string \<Rightarrow> nat \<Rightarrow> instant \<Rightarrow> bool" where
  "leave_tombstone_blocks tombs node_id claim_epoch now =
     (case tab_get tombs node_id of
        Some t \<Rightarrow> lt_expires_at t > now \<and> claim_epoch \<le> lt_vip_epoch t | None \<Rightarrow> False)"

definition digest_others :: "ClaimRecord \<Rightarrow> claim_map \<Rightarrow> tomb_map \<Rightarrow> instant \<Rightarrow> ClaimRecord list" where
  "digest_others own m tombs now =
     sort_key cl_node_id
       (filter (\<lambda>c. \<not> leave_tombstone_blocks tombs (cl_node_id c) (cl_vip_epoch c) now)
         (filter (\<lambda>c. cl_node_id c \<noteq> cl_node_id own) (tab_vals m)))"

definition build_gossip_digest_rotated ::
    "ClaimRecord \<Rightarrow> claim_map \<Rightarrow> tomb_map \<Rightarrow> instant \<Rightarrow> nat \<Rightarrow> nat \<Rightarrow> ClaimRecord list" where
  "build_gossip_digest_rotated own m tombs now max_others start_idx =
     (let others = digest_others own m tombs now in
      if others = [] \<or> max_others = 0 then [own]
      else let n = length others; start = start_idx mod n in
        own # ring_take others start (min max_others n))"

definition build_gossip_digest :: "ClaimRecord \<Rightarrow> claim_map \<Rightarrow> tomb_map \<Rightarrow> instant \<Rightarrow> nat \<Rightarrow> ClaimRecord list" where
  "build_gossip_digest own m tombs now max_others = build_gossip_digest_rotated own m tombs now max_others 0"

text \<open>A stable sort by descending expiry is a stable sort by \<open>-\<close> expiry.\<close>

definition select_leave_tombs_for_gossip :: "tomb_map \<Rightarrow> instant \<Rightarrow> nat \<Rightarrow> LeaveTombstone list" where
  "select_leave_tombs_for_gossip tombs now mx =
     take mx (sort_key (\<lambda>t. - int (lt_expires_at t)) (filter (\<lambda>t. lt_expires_at t > now) (tab_vals tombs)))"

definition rotate_endpoints :: "SocketAddr list \<Rightarrow> nat \<Rightarrow> nat \<Rightarrow> SocketAddr list" where
  "rotate_endpoints eps cursor cap =
     (if eps = [] \<or> cap = 0 then []
      else let n = length eps; start = cursor mod n in ring_take eps start (min cap n))"

definition remove_claim :: "string \<Rightarrow> claim_map \<Rightarrow> ClaimRecord option \<times> claim_map" where
  "remove_claim node_id m = (tab_get m node_id, tab_del node_id m)"

definition stale_allows_ep_refresh :: "claim_map \<Rightarrow> string \<Rightarrow> string \<Rightarrow> nat \<Rightarrow> bool" where
  "stale_allows_ep_refresh m node_id vip vip_epoch =
     (case tab_get m node_id of Some c \<Rightarrow> cl_vip c = vip \<and> cl_vip_epoch c = vip_epoch | None \<Rightarrow> False)"

section \<open>Expiring tables\<close>

interpretation leave_tombs: expiring_table "\<lambda>now t. lt_expires_at t > now"
  by unfold_locales auto

interpretation fight_table: expiring_table "\<lambda>now s. fs_expires_at s > now"
  by unfold_locales auto

lemma prune_tombs_transparent:
  assumes "tab_ok tombs" and "now \<le> later"
  shows "leave_tombstone_blocks (prune_leave_tombstones now tombs) nid e later = leave_tombstone_blocks tombs nid e later"
  using leave_tombs.prune_transparent [OF assms, of nid "\<lambda>t. e \<le> lt_vip_epoch t"]
  by (auto simp: leave_tombstone_blocks_def prune_leave_tombstones_def split: option.splits)

lemma prune_fights_transparent:
  assumes "tab_ok fs" and "now \<le> later"
  shows "fight_suppress_blocks (prune_fight_suppress now fs) nid v e later = fight_suppress_blocks fs nid v e later"
  using fight_table.prune_transparent [OF assms, of nid "\<lambda>s. fs_vip s = v \<and> fs_vip_epoch s = e"]
  by (auto simp: fight_suppress_blocks_def prune_fight_suppress_def split: option.splits)

section \<open>Merging\<close>

definition claims_ok :: "claim_map \<Rightarrow> bool" where
  "claims_ok m = (tab_ok m \<and> (\<forall>(nid, c) \<in> set m. cl_node_id c = nid \<and> nid \<noteq> [] \<and> claim_vip_valid (cl_vip c)))"

lemma claims_ok_put:
  "claims_ok m \<Longrightarrow> cl_node_id c = nid \<Longrightarrow> nid \<noteq> [] \<Longrightarrow> claim_vip_valid (cl_vip c) \<Longrightarrow> claims_ok (tab_put nid c m)"
  by (auto simp: claims_ok_def set_tab_put)

lemma claims_ok_get: "claims_ok m \<Longrightarrow> tab_get m nid = Some c \<Longrightarrow> cl_node_id c = nid \<and> claim_vip_valid (cl_vip c)"
  by (auto simp: claims_ok_def dest!: tab_get_mem)

lemma merge_claim_map:
  "fst (snd (merge_claim c tombs now (m, fs))) = m
   \<or> fst (snd (merge_claim c tombs now (m, fs))) = tab_put (cl_node_id c) c m
       \<and> cl_node_id c \<noteq> [] \<and> claim_vip_valid (cl_vip c)
   \<or> (\<exists>e. tab_get m (cl_node_id c) = Some e \<and> cl_node_id c \<noteq> []
         \<and> fst (snd (merge_claim c tombs now (m, fs))) = tab_put (cl_node_id c) (e\<lparr>cl_ep_hints := cl_ep_hints c\<rparr>) m)"
  by (auto simp: merge_claim_def split: option.splits)

lemma merge_claim_ok: "claims_ok m \<Longrightarrow> claims_ok (fst (snd (merge_claim c tombs now (m, fs))))"
proof -
  assume ok: "claims_ok m"
  let ?m = "fst (snd (merge_claim c tombs now (m, fs)))"
  from merge_claim_map [of c tombs now m fs] consider "?m = m"
    | "?m = tab_put (cl_node_id c) c m" "cl_node_id c \<noteq> []" "claim_vip_valid (cl_vip c)"
    | e where "?m = tab_put (cl_node_id c) (e\<lparr>cl_ep_hints := cl_ep_hints c\<rparr>) m" "cl_node_id c \<noteq> []"
        "tab_get m (cl_node_id c) = Some e"
    by blast
  then show ?thesis
  proof cases
    case 3
    with claims_ok_get [OF ok 3(3)] show ?thesis using ok by (simp add: claims_ok_put)
  qed (use ok in \<open>simp_all add: claims_ok_put\<close>)
qed

text \<open>The epoch stored for a node, zero-based by option: it never goes down.\<close>

definition epoch_of :: "claim_map \<Rightarrow> string \<Rightarrow> nat option" where
  "epoch_of m nid = map_option cl_vip_epoch (tab_get m nid)"

lemma merge_claim_epoch_mono:
  "epoch_of m nid = Some e \<Longrightarrow> \<exists>e'. epoch_of (fst (snd (merge_claim c tombs now (m, fs)))) nid = Some e' \<and> e \<le> e'"
  by (auto simp: merge_claim_def epoch_of_def tab_get_put split: option.splits)

text \<open>Merging a sequence of claims, with the tombstones and the clock of the whole sequence fixed.\<close>

definition merge_all :: "tomb_map \<Rightarrow> instant \<Rightarrow> ClaimRecord list \<Rightarrow> claim_map \<times> fight_map \<Rightarrow> claim_map \<times> fight_map" where
  "merge_all tombs now cs x = fold (\<lambda>c x. snd (merge_claim c tombs now x)) cs x"

definition admissible_claim :: "ClaimRecord \<Rightarrow> bool" where
  "admissible_claim c = (cl_node_id c \<noteq> [] \<and> claim_vip_valid (cl_vip c))"

text \<open>No two different claims of one node carry the same epoch.\<close>

definition consistent :: "ClaimRecord set \<Rightarrow> bool" where
  "consistent S = (\<forall>c \<in> S. \<forall>d \<in> S. cl_node_id c = cl_node_id d \<and> cl_vip_epoch c = cl_vip_epoch d \<longrightarrow> c = d)"

definition newest_in :: "ClaimRecord set \<Rightarrow> claim_map \<Rightarrow> bool" where
  "newest_in S m =
     ((\<forall>nid c. tab_get m nid = Some c \<longrightarrow> c \<in> S \<and> admissible_claim c \<and> cl_node_id c = nid
         \<and> (\<forall>d \<in> S. admissible_claim d \<and> cl_node_id d = nid \<longrightarrow> cl_vip_epoch d \<le> cl_vip_epoch c))
      \<and> (\<forall>c \<in> S. admissible_claim c \<longrightarrow> tab_get m (cl_node_id c) \<noteq> None))"

lemma newest_inD:
  assumes "newest_in S m"
  shows "tab_get m nid = None \<Longrightarrow> c \<in> S \<Longrightarrow> admissible_claim c \<Longrightarrow> cl_node_id c \<noteq> nid"
    and "tab_get m nid = Some c \<Longrightarrow> c \<in> S \<and> admissible_claim c \<and> cl_node_id c = nid"
    and "tab_get m nid = Some c \<Longrightarrow> d \<in> S \<Longrightarrow> admissible_claim d \<Longrightarrow> cl_node_id d = nid \<Longrightarrow> cl_vip_epoch d \<le> cl_vip_epoch c"
  using assms by (auto simp: newest_in_def)

lemma newest_put:
  assumes n: "newest_in S m" and c: "admissible_claim c" "cl_node_id c = nid"
    and le: "\<And>d. tab_get m nid = Some d \<Longrightarrow> cl_vip_epoch d \<le> cl_vip_epoch c"
  shows "newest_in (insert c S) (tab_put nid c m)"
proof -
  have top: "cl_vip_epoch d \<le> cl_vip_epoch c" if "d \<in> S" "admissible_claim d" "cl_node_id d = nid" for d
    using that newest_inD(1) [OF n, of nid d] newest_inD(3) [OF n, of nid _ d] le
    by (cases "tab_get m nid") (auto intro: order_trans)
  have old: "tab_get m (cl_node_id d) \<noteq> None" if "d \<in> S" "admissible_claim d" for d
    using n that by (simp add: newest_in_def)
  show ?thesis
    unfolding newest_in_def
  proof (intro conjI allI impI ballI)
    fix x e
    assume e: "tab_get (tab_put nid c m) x = Some e"
    show "e \<in> insert c S" "admissible_claim e" "cl_node_id e = x"
      using e c newest_inD(2) [OF n, of x e] by (auto simp: tab_get_put split: if_splits)
    show "cl_vip_epoch d \<le> cl_vip_epoch e" if "d \<in> insert c S" "admissible_claim d \<and> cl_node_id d = x" for d
      using e that c top newest_inD(3) [OF n, of x e d] by (auto simp: tab_get_put split: if_splits)
  next
    fix d
    assume "d \<in> insert c S" "admissible_claim d"
    then show "tab_get (tab_put nid c m) (cl_node_id d) \<noteq> None"
      using old c by (auto simp: tab_get_put)
  qed
qed

lemma newest_skip:
  assumes n: "newest_in S m" and le: "admissible_claim c \<Longrightarrow> \<exists>d. tab_get m (cl_node_id c) = Some d \<and> cl_vip_epoch c \<le> cl_vip_epoch d"
  shows "newest_in (insert c S) m"
  using n le unfolding newest_in_def by auto

lemma merge_newest:
  assumes n: "newest_in S m" and con: "consistent (insert c S)"
  shows "\<exists>m'. snd (merge_claim c [] now (m, [])) = (m', []) \<and> newest_in (insert c S) m'"
proof (cases "admissible_claim c")
  case False
  then have "snd (merge_claim c [] now (m, [])) = (m, [])"
    by (auto simp: merge_claim_def admissible_claim_def)
  moreover have "newest_in (insert c S) m" using n False by (intro newest_skip) simp_all
  ultimately show ?thesis by simp
next
  case True
  show ?thesis
  proof (cases "tab_get m (cl_node_id c)")
    case None
    then have "snd (merge_claim c [] now (m, [])) = (tab_put (cl_node_id c) c m, [])"
      using True by (auto simp: merge_claim_def admissible_claim_def fight_suppress_blocks_def)
    with newest_put [OF n True refl] None show ?thesis by simp
  next
    case (Some d)
    have d: "d \<in> S" "cl_node_id d = cl_node_id c" using newest_inD(2) [OF n Some] by auto
    show ?thesis
    proof (cases "cl_vip_epoch c > cl_vip_epoch d")
      case gt: True
      then have "snd (merge_claim c [] now (m, [])) = (tab_put (cl_node_id c) c m, [])"
        using True Some by (auto simp: merge_claim_def admissible_claim_def fight_suppress_blocks_def)
      with newest_put [OF n True refl] Some gt show ?thesis by simp
    next
      case False
      have "cl_vip_epoch c = cl_vip_epoch d \<Longrightarrow> c = d"
        using con d by (auto simp: consistent_def)
      then have "snd (merge_claim c [] now (m, [])) = (m, [])"
        using True Some False by (auto simp: merge_claim_def admissible_claim_def fight_suppress_blocks_def)
      moreover have "newest_in (insert c S) m" using n Some False by (intro newest_skip) auto
      ultimately show ?thesis by simp
    qed
  qed
qed

lemma consistentD:
  "consistent S \<Longrightarrow> c \<in> S \<Longrightarrow> d \<in> S \<Longrightarrow> cl_node_id c = cl_node_id d \<Longrightarrow> cl_vip_epoch c = cl_vip_epoch d \<Longrightarrow> c = d"
  by (simp add: consistent_def)

lemma consistent_subset: "consistent T \<Longrightarrow> S \<subseteq> T \<Longrightarrow> consistent S"
  by (auto simp: consistent_def)

lemma merge_all_newest:
  "newest_in S m \<Longrightarrow> consistent (S \<union> set cs) \<Longrightarrow> \<exists>m'. merge_all [] now cs (m, []) = (m', []) \<and> newest_in (S \<union> set cs) m'"
proof (induction cs arbitrary: S m)
  case Nil
  then show ?case by (simp add: merge_all_def)
next
  case (Cons c cs)
  have "consistent (insert c S)" using Cons.prems(2) by (rule consistent_subset) auto
  with Cons.prems(1) merge_newest obtain m1 where m1: "snd (merge_claim c [] now (m, [])) = (m1, [])" "newest_in (insert c S) m1"
    by blast
  from Cons.IH [OF m1(2)] Cons.prems(2) m1(1) show ?case by (simp add: merge_all_def)
qed

lemma newest_unique:
  assumes "newest_in S m" and "newest_in S m'" and "consistent S"
  shows "tab_get m nid = tab_get m' nid"
proof (cases "tab_get m nid")
  case None
  then show ?thesis
    using newest_inD(1) [OF assms(1), of nid] newest_inD(2) [OF assms(2), of nid] by (cases "tab_get m' nid") auto
next
  case (Some c)
  then have c: "c \<in> S" "admissible_claim c" "cl_node_id c = nid" using newest_inD(2) [OF assms(1)] by auto
  then obtain d where d: "tab_get m' nid = Some d" using newest_inD(1) [OF assms(2), of nid c] by (cases "tab_get m' nid") auto
  then have dS: "d \<in> S" "admissible_claim d" "cl_node_id d = nid" using newest_inD(2) [OF assms(2)] by auto
  have "cl_vip_epoch d = cl_vip_epoch c"
    using newest_inD(3) [OF assms(1) Some dS] newest_inD(3) [OF assms(2) d c] by (rule order_antisym)
  with c dS have "d = c" by (intro consistentD [OF assms(3)]) simp_all
  with Some d show ?thesis by simp
qed

section \<open>Settling duplicate addresses\<close>

lemma tab_get_fold_del: "tab_get (fold tab_del ks m) k = (if k \<in> set ks then None else tab_get m k)"
  by (induction ks arbitrary: m) (auto simp: tab_get_del)

definition claimants :: "claim_map \<Rightarrow> string \<Rightarrow> string list" where
  "claimants m v = map fst (filter (\<lambda>(_, c). cl_vip c = v) m)"

lemma group_fold_get:
  "tab_get (fold (\<lambda>(nid, c) acc. tab_put (cl_vip c)
        ((case tab_get acc (cl_vip c) of None \<Rightarrow> [] | Some ns \<Rightarrow> ns) @ [nid]) acc) m acc) v =
     (if claimants m v = [] then tab_get acc v
      else Some ((case tab_get acc v of None \<Rightarrow> [] | Some ns \<Rightarrow> ns) @ claimants m v))"
proof (induction m arbitrary: acc)
  case Nil
  then show ?case by (simp add: claimants_def)
next
  case (Cons e m)
  obtain nid c where e: "e = (nid, c)" by (cases e)
  show ?case
    unfolding e fold_Cons comp_apply prod.case Cons.IH
    by (auto simp: tab_get_put claimants_def split: option.splits)
qed

lemma group_fold_ok:
  "tab_ok acc \<Longrightarrow> tab_ok (fold (\<lambda>(nid, c) acc. tab_put (cl_vip c)
        ((case tab_get acc (cl_vip c) of None \<Rightarrow> [] | Some ns \<Rightarrow> ns) @ [nid]) acc) m acc)"
  by (induction m arbitrary: acc) auto

lemma group_mem: "(v, ns) \<in> set (group_by_vip m) \<longleftrightarrow> claimants m v \<noteq> [] \<and> ns = claimants m v"
proof -
  have "tab_ok (group_by_vip m)" unfolding group_by_vip_def by (rule group_fold_ok) simp
  then have "(v, ns) \<in> set (group_by_vip m) \<longleftrightarrow> tab_get (group_by_vip m) v = Some ns" by (rule tab_mem_iff)
  then show ?thesis by (auto simp: group_by_vip_def group_fold_get)
qed

lemma settle_group_eq: "settle_group (v, ns) (m, l) = (fold tab_del (tl (sort ns)) m, l @ tl (sort ns))"
proof (cases "length ns < 2")
  case True
  then have "tl (sort ns) = []" by (cases "sort ns") (auto dest: arg_cong [of _ _ length])
  with True show ?thesis by (simp add: settle_group_def)
next
  case False
  then show ?thesis by (simp add: settle_group_def Let_def)
qed

lemma settle_fold:
  "fold settle_group gs (m, l) =
     (let L = concat (map (\<lambda>(_, ns). tl (sort ns)) gs) in (fold tab_del L m, l @ L))"
proof (induction gs arbitrary: m l)
  case Nil
  then show ?case by simp
next
  case (Cons g gs)
  obtain v ns where g: "g = (v, ns)" by (cases g)
  show ?case
    unfolding g fold_Cons comp_apply settle_group_eq Cons.IH by (simp add: Let_def fold_append)
qed

lemma mem_tl_sort:
  assumes "distinct (xs :: 'a::linorder list)"
  shows "x \<in> set (tl (sort xs)) \<longleftrightarrow> x \<in> set xs \<and> (\<exists>y \<in> set xs. y < x)"
proof (cases "sort xs")
  case Nil
  then show ?thesis by (metis empty_iff empty_set list.sel(2) set_sort)
next
  case (Cons a as)
  have s: "set xs = insert a (set as)" using Cons by (metis list.simps(15) set_sort)
  have "\<forall>y \<in> set as. a \<le> y" using sorted_sort [of xs] Cons by simp
  moreover have "a \<notin> set as" using assms Cons by (metis distinct.simps(2) distinct_sort)
  ultimately have "\<forall>y \<in> set as. a < y" by (metis order_le_less)
  with s Cons show ?thesis by auto
qed

lemma settle_losers:
  assumes "tab_ok m"
  shows "nid \<in> set (snd (settle_duplicate_vips m)) \<longleftrightarrow>
    (\<exists>c. tab_get m nid = Some c \<and> (\<exists>nid' c'. tab_get m nid' = Some c' \<and> cl_vip c' = cl_vip c \<and> nid' < nid))"
proof -
  have mem: "x \<in> set (claimants m v) \<longleftrightarrow> (\<exists>c. tab_get m x = Some c \<and> cl_vip c = v)" for x v
    using assms by (force simp: claimants_def tab_mem_iff [symmetric])
  have dist: "distinct (claimants m v)" for v
    using assms tab_ok_filter [of m] by (simp add: claimants_def tab_ok_def)
  have "nid \<in> set (snd (settle_duplicate_vips m)) \<longleftrightarrow>
      (\<exists>v ns. (v, ns) \<in> set (group_by_vip m) \<and> nid \<in> set (tl (sort ns)))"
    by (force simp: settle_duplicate_vips_def settle_fold Let_def)
  also have "\<dots> \<longleftrightarrow> (\<exists>v. nid \<in> set (claimants m v) \<and> (\<exists>y \<in> set (claimants m v). y < nid))"
    using dist by (auto simp: group_mem mem_tl_sort) (metis empty_iff empty_set)
  also have "\<dots> \<longleftrightarrow> (\<exists>c. tab_get m nid = Some c \<and>
      (\<exists>nid' c'. tab_get m nid' = Some c' \<and> cl_vip c' = cl_vip c \<and> nid' < nid))"
    unfolding Bex_def mem by metis
  finally show ?thesis .
qed

lemma settle_get: "tab_get (fst (settle_duplicate_vips m)) k =
    (if k \<in> set (snd (settle_duplicate_vips m)) then None else tab_get m k)"
  by (simp add: settle_duplicate_vips_def settle_fold Let_def tab_get_fold_del)

section \<open>Digests\<close>

lemma digest_others_ids:
  assumes "claims_ok m"
  shows "distinct (map cl_node_id (digest_others own m tombs now))"
    and "set (digest_others own m tombs now) =
      {c. tab_get m (cl_node_id c) = Some c \<and> cl_node_id c \<noteq> cl_node_id own
          \<and> \<not> leave_tombstone_blocks tombs (cl_node_id c) (cl_vip_epoch c) now}"
proof -
  have ids: "map cl_node_id (map snd m) = map fst m"
    using assms by (induction m) (auto simp: claims_ok_def tab_ok_def)
  have "distinct (map cl_node_id (map snd m))" using assms unfolding ids by (simp add: claims_ok_def tab_ok_def)
  then have "distinct (map cl_node_id (filter P (filter Q (tab_vals m))))" for P Q
    unfolding tab_vals_def by (intro distinct_map_filter)
  then show "distinct (map cl_node_id (digest_others own m tombs now))"
    unfolding digest_others_def distinct_map by (simp add: inj_on_def)
  have "c \<in> set (tab_vals m) \<longleftrightarrow> tab_get m (cl_node_id c) = Some c" for c
    using assms by (force simp: tab_vals_def claims_ok_def tab_mem_iff [symmetric])
  then show "set (digest_others own m tombs now) =
      {c. tab_get m (cl_node_id c) = Some c \<and> cl_node_id c \<noteq> cl_node_id own
          \<and> \<not> leave_tombstone_blocks tombs (cl_node_id c) (cl_vip_epoch c) now}"
    by (auto simp: digest_others_def)
qed

lemma map_ring_take: "map f (ring_take xs s n) = (if xs = [] then map f (ring_take xs s n) else ring_take (map f xs) s n)"
  by (auto simp: ring_take_def)

section \<open>Properties\<close>





text \<open>
  C19. Settling leaves every address with one owner, the claimant with the least node id: a node is
  removed exactly when a smaller one claims the same address, and every other claim stays as it was.
  The rule two nodes use to decide who rerolls agrees: of two nodes with one address exactly one loses.
\<close>

theorem settle_unique_owner:
  assumes "claims_ok m"
  shows "(nid \<in> set (snd (settle_duplicate_vips m)) \<longleftrightarrow>
            (\<exists>c. tab_get m nid = Some c \<and> (\<exists>nid' c'. tab_get m nid' = Some c' \<and> cl_vip c' = cl_vip c \<and> nid' < nid)))
    \<and> tab_get (fst (settle_duplicate_vips m)) nid =
        (if nid \<in> set (snd (settle_duplicate_vips m)) then None else tab_get m nid)
    \<and> (tab_get (fst (settle_duplicate_vips m)) a = Some x \<and> tab_get (fst (settle_duplicate_vips m)) b = Some y
         \<and> cl_vip x = cl_vip y \<longrightarrow> a = b)
    \<and> (a \<noteq> b \<longrightarrow> should_reroll_for_vip_fight a v b v \<noteq> should_reroll_for_vip_fight b v a v)"
proof -
  have ok: "tab_ok m" using assms by (simp add: claims_ok_def)
  have "a = b" if "tab_get (fst (settle_duplicate_vips m)) a = Some x" "tab_get (fst (settle_duplicate_vips m)) b = Some y"
      "cl_vip x = cl_vip y"
  proof (rule ccontr)
    assume "a \<noteq> b"
    then consider "a < b" | "b < a" by (meson linorder_neqE)
    then show False
      using that settle_losers [OF ok, of a] settle_losers [OF ok, of b] settle_get [of m a] settle_get [of m b]
      by cases (auto split: if_splits)
  qed
  then show ?thesis
    using settle_losers [OF ok] settle_get [of m] conflict_one_loser [of a b]
    by (auto simp: should_reroll_for_vip_fight_def)
qed

theorem settle_unique_owner_witness:
  "let c = (\<lambda>n. \<lparr>cl_node_id = n, cl_vip = ''10.0.0.1'', cl_vip_epoch = 1, cl_ep_hints = []\<rparr>);
       m = [(''b'', c ''b''), (''a'', c ''a'')] in
   tab_get (fst (settle_duplicate_vips m)) ''b'' = None"
proof -
  let ?c = "\<lambda>n. \<lparr>cl_node_id = n, cl_vip = ''10.0.0.1'', cl_vip_epoch = 1, cl_ep_hints = []\<rparr> :: ClaimRecord"
  let ?m = "[(''b'', ?c ''b''), (''a'', ?c ''a'')]"
  have "claim_vip_valid ''10.0.0.1''" by code_simp
  then have ok: "claims_ok ?m" by (simp add: claims_ok_def tab_ok_def)
  have "\<exists>c. tab_get ?m ''b'' = Some c \<and> (\<exists>nid' c'. tab_get ?m nid' = Some c' \<and> cl_vip c' = cl_vip c \<and> nid' < ''b'')"
    by (rule exI [of _ "?c ''b''"], rule conjI, simp add: tab_get_def,
        rule exI [of _ "''a''"], rule exI [of _ "?c ''a''"]) (simp add: tab_get_def)
  with settle_unique_owner [OF ok, of "''b''"] show ?thesis by (simp only: Let_def if_True)
qed

text \<open>
  A digest starts with the sender's own claim, then carries at most \<^verbatim>\<open>max_others\<close> claims, each of
  a different other node, all live and none under a tombstone; it carries every such claim when they
  fit, from any rotation position.
\<close>

theorem digest_sound:
  assumes "claims_ok m"
  shows "let ds = build_gossip_digest_rotated own m tombs now max_others start;
             others = {c. tab_get m (cl_node_id c) = Some c \<and> cl_node_id c \<noteq> cl_node_id own
                          \<and> \<not> leave_tombstone_blocks tombs (cl_node_id c) (cl_vip_epoch c) now} in
         hd ds = own \<and> length ds \<le> 1 + max_others \<and> distinct (map cl_node_id ds)
         \<and> set (tl ds) \<subseteq> others \<and> (card others \<le> max_others \<longrightarrow> set (tl ds) = others)"
proof -
  let ?o = "digest_others own m tombs now"
  note o = digest_others_ids [OF assms, of own tombs now]
  have card: "card (set ?o) = length ?o"
    using o(1) by (simp add: distinct_card distinct_map)
  show ?thesis
  proof (cases "?o = [] \<or> max_others = 0")
    case True
    then have "build_gossip_digest_rotated own m tombs now max_others start = [own]"
      by (auto simp: build_gossip_digest_rotated_def Let_def)
    moreover have "card (set ?o) \<le> max_others \<Longrightarrow> set ?o = {}" using True by (auto simp: card)
    ultimately show ?thesis by (auto simp: Let_def o(2))
  next
    case False
    let ?t = "ring_take ?o (start mod length ?o) (min max_others (length ?o))"
    have ds: "build_gossip_digest_rotated own m tombs now max_others start = own # ?t"
      using False by (auto simp: build_gossip_digest_rotated_def Let_def)
    have sub: "set ?t \<subseteq> set ?o" using False by (intro set_ring_take) simp
    have "distinct (map cl_node_id ?t)"
      using False o(1) distinct_ring_take [of "map cl_node_id ?o"]
      by (simp add: map_ring_take)
    moreover have "cl_node_id own \<notin> cl_node_id ` set ?t" using sub o(2) by auto
    moreover have "set ?t = set ?o" if "length ?o \<le> max_others"
      using that False ring_take_all [of ?o] by (simp add: min_def)
    ultimately show ?thesis
      unfolding Let_def ds o(2) [symmetric] card using sub by auto
  qed
qed

theorem digest_sound_witness:
  "hd (build_gossip_digest_rotated \<lparr>cl_node_id = ''a'', cl_vip = ''10.0.0.1'', cl_vip_epoch = 1, cl_ep_hints = []\<rparr>
     [] [] 0 32 5) = \<lparr>cl_node_id = ''a'', cl_vip = ''10.0.0.1'', cl_vip_epoch = 1, cl_ep_hints = []\<rparr>"
  using digest_sound [of "[]" "\<lparr>cl_node_id = ''a'', cl_vip = ''10.0.0.1'', cl_vip_epoch = 1, cl_ep_hints = []\<rparr>" "[]" 0 32 5]
  by (simp add: claims_ok_def Let_def)

end
