(* ===== verification/Fec.thy ===== *)
theory Fec
  imports Packet Float64 "HOL-Library.Multiset"
begin

text \<open>
  \<^verbatim>\<open>src/src/net/fec.rs\<close>, sending side: the shard size that fits a path, the adaptive parity ladder,
  the congestion classifier, and the encoder that groups packets into Reed-Solomon groups.

  Reed-Solomon coding (crate \<^verbatim>\<open>reed_solomon_erasure\<close>) is a parameter: \<open>rs_new k m\<close> tells whether a
  code with \<open>k\<close> data and \<open>m\<close> parity shards exists, \<open>rs_encode k m\<close> fills the parity shards of a list of
  \<open>k + m\<close> shards or fails. The cached code object is the pair of its parameters. The buffer pool only
  saves allocations: \<open>take_shard_buf\<close> shows that what it returns does not depend on the pool.
\<close>

section \<open>Constants and policy\<close>

definition FEC_SHARD_PAYLOAD_SIZE :: nat where "FEC_SHARD_PAYLOAD_SIZE = 1279"
definition FEC_SHARD_LEN_PREFIX :: nat where "FEC_SHARD_LEN_PREFIX = 2"
definition FEC_SHARD_PAYLOAD_MIN :: nat where "FEC_SHARD_PAYLOAD_MIN = 512"
definition FEC_FLUSH_TIMEOUT :: duration where "FEC_FLUSH_TIMEOUT = from_millis 2"
definition FEC_FLUSH_TIMEOUT_AGGRESSIVE :: duration where "FEC_FLUSH_TIMEOUT_AGGRESSIVE = from_millis 1"
definition FEC_MAX_TOTAL_SHARDS :: nat where "FEC_MAX_TOTAL_SHARDS = 64"

definition effective_shard_payload_size :: "nat \<Rightarrow> nat \<Rightarrow> nat option" where
  "effective_shard_payload_size configured min_path_mtu =
     (let mx = min_path_mtu - (UNDERLAY_IPV4_UDP_OVERHEAD + FEC_COMPACT_HEADER_LEN);
          e = min (min configured mx) FEC_SHARD_PAYLOAD_SIZE in
      if e \<ge> FEC_SHARD_PAYLOAD_MIN then Some e else None)"

datatype FlushPolicy = Immediate | Aggressive | Standard

definition classify_packet :: "nat \<Rightarrow> FlushPolicy" where
  "classify_packet len = (if len \<le> 255 then Immediate else if len \<le> 799 then Aggressive else Standard)"

datatype FecOutput = Buffered | Encoded "bytes list" | Passthrough "bytes list"

type_synonym ratio = "nat \<times> nat"

definition adaptive_fec_ratio :: "f64 \<Rightarrow> ratio" where
  "adaptive_fec_ratio l =
     (if f64_lt l (f64_lit (20 / 1000)) then (0, 0)
      else if f64_lt l (f64_lit (50 / 1000)) then (10, 1)
      else if f64_lt l (f64_lit (100 / 1000)) then (7, 1)
      else if f64_lt l (f64_lit (150 / 1000)) then (5, 1)
      else (4, 2))"

definition ratio_on :: "ratio \<Rightarrow> bool" where
  "ratio_on r = (fst r > 0 \<and> snd r > 0)"

definition adaptive_fec_ratio_hyst_tuned :: "f64 \<Rightarrow> ratio option \<Rightarrow> f64 \<Rightarrow> f64 \<Rightarrow> ratio" where
  "adaptive_fec_ratio_hyst_tuned loss_ewma prev off_below on_above =
     (let was_on = (case prev of Some r \<Rightarrow> ratio_on r | None \<Rightarrow> False) in
      if was_on then
        if f64_lt loss_ewma off_below then (0, 0)
        else adaptive_fec_ratio (f64_max loss_ewma (f64_add off_below (f64_lit (1 / 1000))))
      else if f64_lt loss_ewma on_above then (0, 0)
      else adaptive_fec_ratio loss_ewma)"

text \<open>The parity share \<^verbatim>\<open>p as f64 / (d + p) as f64\<close>; the sum of two \<^verbatim>\<open>u8\<close> wraps in release builds.\<close>

definition ratio_frac :: "ratio \<Rightarrow> f64" where
  "ratio_frac r = f64_div (f64_of_nat (snd r)) (f64_of_nat ((fst r + snd r) mod 256))"

definition fec_ratio_would_increase_parity :: "ratio option \<Rightarrow> ratio \<Rightarrow> bool" where
  "fec_ratio_would_increase_parity prev proposed =
     (if \<not> ratio_on proposed then False
      else case prev of
        None \<Rightarrow> True
      | Some prev \<Rightarrow>
          if \<not> ratio_on prev then True
          else
            let prev_frac = ratio_frac prev; prop_frac = ratio_frac proposed in
            f64_lt (f64_add prev_frac (f64_lit (1 / 10 ^ 9))) prop_frac
            \<or> (f64_lt (f64_abs (f64_sub prop_frac prev_frac)) (f64_lit (1 / 10 ^ 9))
               \<and> snd proposed > snd prev))"

definition FEC_RATIO_LADDER :: "ratio list" where
  "FEC_RATIO_LADDER = [(4, 2), (5, 1), (7, 1), (10, 1)]"

definition fec_parity_frac :: "ratio \<Rightarrow> f64" where
  "fec_parity_frac r = (if fst r = 0 \<or> snd r = 0 then Fin 0 else ratio_frac r)"

definition fec_delay_is_congestive :: "f64 \<Rightarrow> nat \<Rightarrow> f64 \<Rightarrow> bool" where
  "fec_delay_is_congestive queuing_delay_ms target_queue_delay_ms congestion_loss_threshold =
     (let target = f64_of_nat (max target_queue_delay_ms 1) in
      f64_lt congestion_loss_threshold (f64_div queuing_delay_ms target))"

fun ladder_next :: "ratio \<Rightarrow> ratio list \<Rightarrow> ratio option" where
  "ladder_next prev [] = None"
| "ladder_next prev (r # rs) =
     (if r = prev then Some (case rs of [] \<Rightarrow> (0, 0) | s # _ \<Rightarrow> s) else ladder_next prev rs)"

definition fec_ratio_step_down :: "ratio \<Rightarrow> ratio" where
  "fec_ratio_step_down prev =
     (if fst prev = 0 \<or> snd prev = 0 then (0, 0)
      else case ladder_next prev FEC_RATIO_LADDER of
        Some r \<Rightarrow> r
      | None \<Rightarrow>
          (case find (\<lambda>r. f64_lt (fec_parity_frac r) (f64_sub (fec_parity_frac prev) (f64_lit (1 / 10 ^ 9))))
                  FEC_RATIO_LADDER of
             Some r \<Rightarrow> r
           | None \<Rightarrow> (0, 0)))"

definition fec_ratio_is_strictly_lower :: "ratio \<Rightarrow> ratio \<Rightarrow> bool" where
  "fec_ratio_is_strictly_lower a b =
     (if \<not> ratio_on a then ratio_on b
      else if \<not> ratio_on b then False
      else
        let fa = fec_parity_frac a; fb = fec_parity_frac b in
        f64_lt fa (f64_sub fb (f64_lit (1 / 10 ^ 9)))
        \<or> (f64_lt (f64_abs (f64_sub fa fb)) (f64_lit (1 / 10 ^ 9)) \<and> snd a < snd b))"

definition apply_fec_loss_classifier ::
    "ratio \<Rightarrow> ratio option \<Rightarrow> bool \<Rightarrow> f64 \<Rightarrow> nat \<Rightarrow> f64 \<Rightarrow> bool \<times> ratio" where
  "apply_fec_loss_classifier proposed ratio_last classifier_enabled qd target thr =
     (if \<not> classifier_enabled then (False, proposed)
      else if \<not> fec_delay_is_congestive qd target thr then (False, proposed)
      else if \<not> fec_ratio_would_increase_parity ratio_last proposed then (False, proposed)
      else case ratio_last of Some prev \<Rightarrow> (True, prev) | None \<Rightarrow> (True, (0, 0)))"

definition apply_fec_recovery_stepdown ::
    "ratio \<Rightarrow> ratio option \<Rightarrow> bool \<Rightarrow> f64 \<Rightarrow> nat \<Rightarrow> f64 \<Rightarrow> instant option \<Rightarrow> instant \<Rightarrow> duration \<Rightarrow> bool \<times> ratio" where
  "apply_fec_recovery_stepdown proposed ratio_last classifier_enabled qd target thr last_congestive_at now recency =
     (if \<not> classifier_enabled \<or> recency = 0 then (False, proposed)
      else case ratio_last of
        None \<Rightarrow> (False, proposed)
      | Some prev \<Rightarrow>
          if fst prev = 0 \<or> snd prev = 0 then (False, proposed)
          else if fec_delay_is_congestive qd target thr then (False, proposed)
          else case last_congestive_at of
            None \<Rightarrow> (False, proposed)
          | Some t0 \<Rightarrow>
              if duration_since now t0 > recency then (False, proposed)
              else if fec_ratio_is_strictly_lower proposed prev then (False, proposed)
              else
                let stepped = fec_ratio_step_down prev in
                if stepped = prev then (False, proposed) else (True, stepped))"

section \<open>The encoder\<close>

record PendingShard =
  ps_original :: bytes
  ps_shard :: bytes

record FecEncoder =
  fe_group_salt :: u32
  fe_group_seq :: u32
  fe_data_shards :: nat
  fe_parity_shards :: nat
  fe_shard_buf :: "PendingShard list"
  fe_first_at :: "instant option"
  fe_rs_cache :: "(nat \<times> nat) option"
  fe_group_flush_timeout :: duration
  fe_shard_payload_size :: nat
  fe_flush_standard :: duration
  fe_flush_aggressive :: duration

record rs_code =
  rs_new :: "nat \<Rightarrow> nat \<Rightarrow> bool"
  rs_encode :: "nat \<Rightarrow> nat \<Rightarrow> bytes list \<Rightarrow> bytes list option"
  rs_reconstruct :: "nat \<Rightarrow> nat \<Rightarrow> bytes option list \<Rightarrow> bytes option list option"

text \<open>\<^verbatim>\<open>with_flush\<close>, with the random salt as an argument.\<close>

definition with_flush :: "u32 \<Rightarrow> nat \<Rightarrow> nat \<Rightarrow> nat \<Rightarrow> duration \<Rightarrow> duration \<Rightarrow> FecEncoder" where
  "with_flush rng_salt data_shards parity_shards shard_payload_size flush_standard flush_aggressive =
     \<lparr>fe_group_salt = (if rng_salt = 0 then 0x9e3779b9 else rng_salt), fe_group_seq = 1,
      fe_data_shards = data_shards, fe_parity_shards = parity_shards, fe_shard_buf = [],
      fe_first_at = None, fe_rs_cache = None, fe_group_flush_timeout = flush_standard,
      fe_shard_payload_size = shard_payload_size, fe_flush_standard = flush_standard,
      fe_flush_aggressive = flush_aggressive\<rparr>"

definition FecEncoder_new :: "u32 \<Rightarrow> nat \<Rightarrow> nat \<Rightarrow> FecEncoder" where
  "FecEncoder_new rng_salt data_shards parity_shards =
     with_flush rng_salt data_shards parity_shards FEC_SHARD_PAYLOAD_SIZE FEC_FLUSH_TIMEOUT
       FEC_FLUSH_TIMEOUT_AGGRESSIVE"

definition fec_apply_tuning :: "nat \<Rightarrow> duration \<Rightarrow> duration \<Rightarrow> FecEncoder \<Rightarrow> FecEncoder" where
  "fec_apply_tuning sps std agg e =
     e\<lparr>fe_shard_payload_size := sps, fe_flush_standard := std, fe_flush_aggressive := agg\<rparr>"

definition flush_timeout_for_policy :: "FecEncoder \<Rightarrow> FlushPolicy \<Rightarrow> duration" where
  "flush_timeout_for_policy e policy =
     (case policy of Immediate \<Rightarrow> 0 | Aggressive \<Rightarrow> fe_flush_aggressive e | Standard \<Rightarrow> fe_flush_standard e)"

definition reset_group_timing :: "FecEncoder \<Rightarrow> FecEncoder" where
  "reset_group_timing e = e\<lparr>fe_first_at := None, fe_group_flush_timeout := fe_flush_standard e\<rparr>"

definition next_group_seq :: "u32 \<Rightarrow> u32" where
  "next_group_seq s = max (s + 1) 1"

definition current_group_id :: "FecEncoder \<Rightarrow> u32" where
  "current_group_id e = fe_group_salt e XOR fe_group_seq e"

definition needs_flush :: "instant \<Rightarrow> FecEncoder \<Rightarrow> bool" where
  "needs_flush now e =
     (case fe_first_at e of Some t \<Rightarrow> now - t \<ge> fe_group_flush_timeout e | None \<Rightarrow> False)"

text \<open>A buffer from the pool is cleared to zeros of the wanted size, as a fresh one is.\<close>

definition take_shard_buf :: "nat \<Rightarrow> bytes list \<Rightarrow> bytes \<times> bytes list" where
  "take_shard_buf sz pool =
     (case rev pool of
        v # vs \<Rightarrow> (if length v = sz then map (\<lambda>_. 0) v else replicate sz 0, rev vs)
      | [] \<Rightarrow> (replicate sz 0, []))"

lemma take_shard_buf_zero: "fst (take_shard_buf sz pool) = replicate sz 0"
  by (auto simp: take_shard_buf_def map_replicate_const split: list.splits)

definition build_fec_packet_into :: "u32 \<Rightarrow> u8 \<Rightarrow> u8 \<Rightarrow> u8 \<Rightarrow> bytes \<Rightarrow> bytes" where
  "build_fec_packet_into group_id shard_idx data_shards parity_shards shard_data =
     [to_byte Fec] @ u32_to_le group_id @ [shard_idx] @ [data_shards] @ [parity_shards]
     @ u16_to_le (word_of_nat (length shard_data)) @ shard_data"

definition take_passthrough_packets :: "FecEncoder \<Rightarrow> bytes list \<times> FecEncoder" where
  "take_passthrough_packets e =
     (map ps_original (fe_shard_buf e),
      (reset_group_timing (e\<lparr>fe_shard_buf := []\<rparr>))\<lparr>fe_group_seq := next_group_seq (fe_group_seq e)\<rparr>)"

definition take_passthrough :: "FecEncoder \<Rightarrow> FecOutput \<times> FecEncoder" where
  "take_passthrough e = (let (out, e') = take_passthrough_packets e in (Passthrough out, e'))"

definition encode_and_reset ::
    "rs_code \<Rightarrow> instant \<Rightarrow> nat \<Rightarrow> nat \<Rightarrow> FecEncoder \<Rightarrow> bytes list \<times> FecEncoder" where
  "encode_and_reset rs now data_shards parity_shards e0 =
     (let need_rebuild = (fe_rs_cache e0 \<noteq> Some (data_shards, parity_shards)) in
      if need_rebuild \<and> \<not> rs_new rs data_shards parity_shards
      then take_passthrough_packets (e0\<lparr>fe_rs_cache := None\<rparr>)
      else
        let e = e0\<lparr>fe_rs_cache := Some (data_shards, parity_shards)\<rparr>;
            group_id = current_group_id e;
            n = data_shards in
        if length (fe_shard_buf e) < n then take_passthrough_packets e
        else
          let all_shards = map ps_shard (take n (fe_shard_buf e))
                           @ replicate parity_shards (replicate (fe_shard_payload_size e) 0) in
          case rs_encode rs data_shards parity_shards all_shards of
            None \<Rightarrow> take_passthrough_packets e
          | Some encoded \<Rightarrow>
              let out = map (\<lambda>(idx, shard). build_fec_packet_into group_id (word_of_nat idx)
                          (word_of_nat data_shards) (word_of_nat parity_shards) shard)
                        (enumerate 0 encoded);
                  e = e\<lparr>fe_shard_buf := drop n (fe_shard_buf e)\<rparr>;
                  e = (if fe_shard_buf e = [] then reset_group_timing e
                       else e\<lparr>fe_first_at := Some now, fe_group_flush_timeout := fe_flush_standard e\<rparr>) in
              (out, e\<lparr>fe_group_seq := next_group_seq (fe_group_seq e)\<rparr>))"

definition over_budget :: "(nat \<times> nat) option \<Rightarrow> nat \<Rightarrow> bool" where
  "over_budget queue_budget total_n =
     (case queue_budget of None \<Rightarrow> False | Some (ql, cap) \<Rightarrow> sat_add 64 ql total_n > cap)"

definition fec_flush :: "rs_code \<Rightarrow> instant \<Rightarrow> (nat \<times> nat) option \<Rightarrow> FecEncoder \<Rightarrow> FecOutput \<times> FecEncoder" where
  "fec_flush rs now queue_budget e =
     (if fe_shard_buf e = [] then (Buffered, reset_group_timing e)
      else if fe_data_shards e = 0 \<or> fe_parity_shards e = 0 then take_passthrough e
      else
        let data_n = length (fe_shard_buf e) in
        if data_n < 2 then take_passthrough e
        else
          let configured_data = max (fe_data_shards e) 1;
              configured_parity = max (fe_parity_shards e) 1;
              dynamic_parity = (data_n * configured_parity + configured_data - 1) div configured_data;
              dynamic_parity = clamp 1 configured_parity dynamic_parity in
          if data_n + dynamic_parity > FEC_MAX_TOTAL_SHARDS then take_passthrough e
          else if over_budget queue_budget (data_n + dynamic_parity) then take_passthrough e
          else let (out, e') = encode_and_reset rs now data_n dynamic_parity e in (Encoded out, e'))"

definition flush_passthrough :: "FecEncoder \<Rightarrow> FecOutput \<times> FecEncoder" where
  "flush_passthrough e =
     (if fe_shard_buf e = [] then (Buffered, reset_group_timing e) else take_passthrough e)"

definition update_ratio_with_flush ::
    "rs_code \<Rightarrow> instant \<Rightarrow> nat \<Rightarrow> nat \<Rightarrow> (nat \<times> nat) option \<Rightarrow> FecEncoder \<Rightarrow> FecOutput \<times> FecEncoder" where
  "update_ratio_with_flush rs now data_shards parity_shards queue_budget e =
     (if fe_data_shards e = data_shards \<and> fe_parity_shards e = parity_shards then (Buffered, e)
      else
        let (pending, e1) = fec_flush rs now queue_budget e;
            e2 = reset_group_timing (e1\<lparr>fe_shard_buf := []\<rparr>) in
        (pending, e2\<lparr>fe_group_seq := next_group_seq (fe_group_seq e2), fe_data_shards := data_shards,
                     fe_parity_shards := parity_shards\<rparr>))"

definition make_shard :: "nat \<Rightarrow> bytes \<Rightarrow> bytes" where
  "make_shard sz pkt = u16_to_le (word_of_nat (length pkt)) @ pkt @ replicate (sz - (2 + length pkt)) 0"

text \<open>\<^verbatim>\<open>push_output\<close>; \<open>now\<close> is the reading for \<^verbatim>\<open>first_at\<close>, \<open>now'\<close> the one in
  \<^verbatim>\<open>encode_and_reset\<close>. The slice assignments into the zeroed buffer give \<open>make_shard\<close>.\<close>

definition push_output ::
    "rs_code \<Rightarrow> instant \<Rightarrow> instant \<Rightarrow> bytes \<Rightarrow> (nat \<times> nat) option \<Rightarrow> FecEncoder \<Rightarrow> FecOutput \<times> FecEncoder" where
  "push_output rs now now' pkt queue_budget e0 =
     (if fe_data_shards e0 = 0 \<or> fe_parity_shards e0 = 0 then (Passthrough [pkt], e0)
      else if length pkt + FEC_SHARD_LEN_PREFIX > fe_shard_payload_size e0 then (Passthrough [pkt], e0)
      else
        let total_n = fe_data_shards e0 + fe_parity_shards e0 in
        if total_n = 0 \<or> total_n > FEC_MAX_TOTAL_SHARDS then (Passthrough [pkt], e0)
        else
          let policy = classify_packet (length pkt);
              e = (if fe_shard_buf e0 = [] then e0\<lparr>fe_group_flush_timeout := fe_flush_standard e0\<rparr> else e0);
              e = e\<lparr>fe_group_flush_timeout := min (fe_group_flush_timeout e) (flush_timeout_for_policy e policy)\<rparr>;
              e = (if fe_first_at e = None then e\<lparr>fe_first_at := Some now\<rparr> else e);
              e = e\<lparr>fe_shard_buf := fe_shard_buf e
                     @ [\<lparr>ps_original = pkt, ps_shard = make_shard (fe_shard_payload_size e) pkt\<rparr>]\<rparr> in
          if length (fe_shard_buf e) \<ge> fe_data_shards e then
            if over_budget queue_budget total_n then take_passthrough e
            else let (out, e') = encode_and_reset rs now' (fe_data_shards e) (fe_parity_shards e) e in
              (Encoded out, e')
          else if policy = Immediate then fec_flush rs now' queue_budget e
          else (Buffered, e))"

end
