(* ===== verification/Fec_Inv.thy ===== *)
theory Fec_Inv
  imports Fec
begin

text \<open>
  Properties of the encoder: no packet is lost or duplicated, every emitted shard fits the path,
  and the parity ladder descends to off.
\<close>

section \<open>Wire format\<close>

definition fec_idx :: "bytes \<Rightarrow> nat" where "fec_idx p = unat (p ! 5)"
definition fec_data :: "bytes \<Rightarrow> nat" where "fec_data p = unat (p ! 6)"

text \<open>The packet inside a data shard: the two-byte length prefix tells how much of it.\<close>

definition shard_payload :: "bytes \<Rightarrow> bytes" where
  "shard_payload s = take (unat (u16_from_le (take 2 s))) (drop 2 s)"

definition contents :: "FecOutput \<Rightarrow> bytes list" where
  "contents out = (case out of
     Buffered \<Rightarrow> []
   | Passthrough ps \<Rightarrow> ps
   | Encoded ps \<Rightarrow> map (\<lambda>p. shard_payload (drop FEC_COMPACT_HEADER_LEN p)) (filter (\<lambda>p. fec_idx p < fec_data p) ps))"

lemma list_of_four: "length xs = 4 \<Longrightarrow> \<exists>a b c d. xs = [a, b, c, d]"
  by (auto simp: length_Suc_conv eval_nat_numeral)

lemma list_of_two: "length xs = 2 \<Longrightarrow> \<exists>a b. xs = [a, b]"
  by (auto simp: length_Suc_conv eval_nat_numeral)

lemma build_fields:
  "build_fec_packet_into g i d p s ! 5 = i" "build_fec_packet_into g i d p s ! 6 = d"
  "build_fec_packet_into g i d p s ! 7 = p"
  "drop FEC_COMPACT_HEADER_LEN (build_fec_packet_into g i d p s) = s"
  "length (build_fec_packet_into g i d p s) = FEC_COMPACT_HEADER_LEN + length s"
proof -
  obtain a b c e where g: "u32_to_le g = [a, b, c, e]" using list_of_four [of "u32_to_le g"] by auto
  obtain x y where l: "u16_to_le (word_of_nat (length s)) = [x, y]" using list_of_two [of "u16_to_le (word_of_nat (length s))"] by auto
  show "build_fec_packet_into g i d p s ! 5 = i" "build_fec_packet_into g i d p s ! 6 = d"
    "build_fec_packet_into g i d p s ! 7 = p"
    "drop FEC_COMPACT_HEADER_LEN (build_fec_packet_into g i d p s) = s"
    "length (build_fec_packet_into g i d p s) = FEC_COMPACT_HEADER_LEN + length s"
    by (simp_all add: build_fec_packet_into_def g l FEC_COMPACT_HEADER_LEN_def)
qed

lemma shard_payload_make:
  assumes "length pkt < 2 ^ 16"
  shows "shard_payload (make_shard sz pkt) = pkt"
  using assms by (simp add: shard_payload_def make_shard_def unat_of_nat)

lemma length_make_shard: "length pkt + 2 \<le> sz \<Longrightarrow> length (make_shard sz pkt) = sz"
  by (simp add: make_shard_def)

section \<open>Encoding keeps every packet\<close>

text \<open>
  What the encoder relies on: codes with at least one data and one parity shard and at most 64 in
  all exist, and encoding shards of one positive length keeps the data shards and the lengths.
\<close>

definition rs_systematic :: "rs_code \<Rightarrow> bool" where
  "rs_systematic rs =
     (\<forall>k m shards len. 0 < k \<and> 0 < m \<and> k + m \<le> FEC_MAX_TOTAL_SHARDS \<longrightarrow> rs_new rs k m \<and>
        (length shards = k + m \<and> 0 < len \<and> (\<forall>s \<in> set shards. length s = len) \<longrightarrow>
           (\<exists>out. rs_encode rs k m shards = Some out \<and> length out = k + m \<and> take k out = take k shards
              \<and> (\<forall>s \<in> set out. length s = len))))"

definition buf_ok :: "FecEncoder \<Rightarrow> bool" where
  "buf_ok e =
     (fe_shard_payload_size e < 2 ^ 16 \<and>
      (\<forall>s \<in> set (fe_shard_buf e). ps_shard s = make_shard (fe_shard_payload_size e) (ps_original s)
         \<and> length (ps_original s) + 2 \<le> fe_shard_payload_size e))"

definition buffered :: "FecEncoder \<Rightarrow> bytes list" where
  "buffered e = map ps_original (fe_shard_buf e)"

lemma enumerate_conv: "enumerate 0 xs = map (\<lambda>i. (i, xs ! i)) [0..<length xs]"
  by (rule nth_equalityI) (simp_all add: nth_enumerate_eq)

lemma filter_upt_less: "n \<le> k \<Longrightarrow> filter (\<lambda>i. i < n) [0..<k] = [0..<n]"
proof -
  assume "n \<le> k"
  then have "[0..<k] = [0..<n] @ [n..<k]" using upt_add_eq_append [of 0 n "k - n"] by simp
  moreover have "filter (\<lambda>i. i < n) [0..<n] = [0..<n]" "filter (\<lambda>i. i < n) [n..<k] = []"
    by (auto simp: filter_id_conv filter_empty_conv)
  ultimately show ?thesis by simp
qed

lemma encoded_contents:
  assumes "0 < n" and "n + m \<le> 64" and "length enc = n + m"
  shows "contents (Encoded (map (\<lambda>(i, s). build_fec_packet_into g (word_of_nat i) (word_of_nat n) (word_of_nat m) s)
             (enumerate 0 enc))) = map shard_payload (take n enc)"
proof -
  let ?B = "\<lambda>i. build_fec_packet_into g (word_of_nat i) (word_of_nat n) (word_of_nat m) (enc ! i)"
  have out: "map (\<lambda>(i, s). build_fec_packet_into g (word_of_nat i) (word_of_nat n) (word_of_nat m) s)
      (enumerate 0 enc) = map ?B [0..<n + m]"
    using assms(3) by (simp add: enumerate_conv)
  have "filter (\<lambda>p. fec_idx p < fec_data p) (map ?B [0..<n + m]) = map ?B (filter (\<lambda>i. i < n) [0..<n + m])"
  proof -
    have "fec_idx (?B i) < fec_data (?B i) \<longleftrightarrow> i < n" if "i < n + m" for i
      using that assms(2) by (simp add: fec_idx_def fec_data_def build_fields unat_of_nat)
    then show ?thesis by (auto simp: filter_map intro!: arg_cong [of _ _ "map ?B"] filter_cong)
  qed
  then have "contents (Encoded (map ?B [0..<n + m])) = map (\<lambda>i. shard_payload (enc ! i)) [0..<n]"
    by (simp add: contents_def filter_upt_less build_fields comp_def)
  also have "\<dots> = map shard_payload (take n enc)"
    using assms by (simp add: list_eq_iff_nth_eq)
  finally show ?thesis unfolding out .
qed

lemma passthrough_packets:
  "fst (take_passthrough_packets e) = buffered e" "fe_shard_buf (snd (take_passthrough_packets e)) = []"
  "fe_shard_payload_size (snd (take_passthrough_packets e)) = fe_shard_payload_size e"
  by (simp_all add: take_passthrough_packets_def buffered_def reset_group_timing_def)

lemma passthrough_keeps:
  "contents (fst (take_passthrough e)) = buffered e" "fe_shard_buf (snd (take_passthrough e)) = []"
  "fe_shard_payload_size (snd (take_passthrough e)) = fe_shard_payload_size e"
  using passthrough_packets [of e] by (auto simp: take_passthrough_def contents_def case_prod_beta)

lemma rs_systematicD:
  assumes "rs_systematic rs" and "0 < k" and "0 < m" and "k + m \<le> FEC_MAX_TOTAL_SHARDS"
    and "length shards = k + m" and "0 < len" and "\<forall>s \<in> set shards. length s = len"
  obtains out where "rs_new rs k m" "rs_encode rs k m shards = Some out" "length out = k + m"
    "take k out = take k shards" "\<forall>s \<in> set out. length s = len"
  using assms unfolding rs_systematic_def by blast

text \<open>What \<open>encode_and_reset\<close> emits and leaves, in terms of the coded shards \<open>enc\<close>.\<close>

lemma encode_frames:
  assumes rs: "rs_systematic rs" and ok: "buf_ok e" and n: "0 < n" "0 < m" "n + m \<le> 64" "n \<le> length (fe_shard_buf e)"
    and run: "encode_and_reset rs now n m e = (out, e')"
  obtains enc where "rs_encode rs n m (map ps_shard (take n (fe_shard_buf e)) @ replicate m (replicate (fe_shard_payload_size e) 0)) = Some enc"
    "length enc = n + m" "take n enc = map ps_shard (take n (fe_shard_buf e))"
    "\<forall>s \<in> set enc. length s = fe_shard_payload_size e"
    "\<forall>s \<in> set (map ps_shard (take n (fe_shard_buf e)) @ replicate m (replicate (fe_shard_payload_size e) 0)).
       length s = fe_shard_payload_size e"
    "out = map (\<lambda>(i, s). build_fec_packet_into (current_group_id e) (word_of_nat i) (word_of_nat n) (word_of_nat m) s)
       (enumerate 0 enc)"
    "fe_shard_buf e' = drop n (fe_shard_buf e)" "fe_shard_payload_size e' = fe_shard_payload_size e" "2 \<le> fe_shard_payload_size e"
proof -
  let ?sz = "fe_shard_payload_size e"
  let ?all = "map ps_shard (take n (fe_shard_buf e)) @ replicate m (replicate ?sz 0)"
  have sh: "ps_shard s = make_shard ?sz (ps_original s) \<and> length (ps_original s) + 2 \<le> ?sz"
    if "s \<in> set (fe_shard_buf e)" for s using ok that by (simp add: buf_ok_def)
  have "fe_shard_buf e \<noteq> []" using n(1,4) by auto
  then have two: "2 \<le> ?sz" using sh [of "hd (fe_shard_buf e)"] by simp
  then have pos: "0 < ?sz" by simp
  have all: "length ?all = n + m" "\<forall>s \<in> set ?all. length s = ?sz"
    using n(4) sh by (auto simp: length_make_shard dest!: in_set_takeD)
  have lim: "n + m \<le> FEC_MAX_TOTAL_SHARDS" using n(3) by (simp add: FEC_MAX_TOTAL_SHARDS_def)
  obtain enc where new: "rs_new rs n m" and enc: "rs_encode rs n m ?all = Some enc" "length enc = n + m"
      "take n enc = take n ?all" "\<forall>s \<in> set enc. length s = ?sz"
    by (rule rs_systematicD [OF rs n(1,2) lim all(1) pos all(2)])
  have t: "take n ?all = map ps_shard (take n (fe_shard_buf e))" using n(4) by simp
  have eqs: "out = fst (encode_and_reset rs now n m e)" "e' = snd (encode_and_reset rs now n m e)"
    using run by simp_all
  have "out = map (\<lambda>(i, s). build_fec_packet_into (current_group_id e) (word_of_nat i)
      (word_of_nat n) (word_of_nat m) s) (enumerate 0 enc)"
    "fe_shard_buf e' = drop n (fe_shard_buf e)" "fe_shard_payload_size e' = ?sz"
    unfolding eqs using new n(4) enc(1)
    by (simp_all add: encode_and_reset_def reset_group_timing_def current_group_id_def Let_def)
  from enc(1,2) enc(3) [unfolded t] enc(4) all(2) this two show thesis by (rule that)
qed

lemma shard_payloads:
  assumes "buf_ok e"
  shows "map shard_payload (map ps_shard (take n (fe_shard_buf e))) = map ps_original (take n (fe_shard_buf e))"
proof -
  have "shard_payload (ps_shard s) = ps_original s" if "s \<in> set (fe_shard_buf e)" for s
    using that assms by (auto simp: buf_ok_def shard_payload_make)
  then show ?thesis by (auto dest: in_set_takeD)
qed

lemma encode_keeps:
  assumes rs: "rs_systematic rs" and ok: "buf_ok e" and n: "0 < n" "0 < m" "n + m \<le> 64" "n \<le> length (fe_shard_buf e)"
    and run: "encode_and_reset rs now n m e = (out, e')"
  shows "contents (Encoded out) @ buffered e' = buffered e \<and> fe_shard_buf e' = drop n (fe_shard_buf e)
    \<and> fe_shard_payload_size e' = fe_shard_payload_size e \<and> length out = n + m
    \<and> (\<forall>p \<in> set out. length p = FEC_COMPACT_HEADER_LEN + fe_shard_payload_size e)"
proof -
  from encode_frames [OF assms] obtain enc where enc: "length enc = n + m" "take n enc = map ps_shard (take n (fe_shard_buf e))"
      "\<forall>s \<in> set enc. length s = fe_shard_payload_size e"
    and out: "out = map (\<lambda>(i, s). build_fec_packet_into (current_group_id e) (word_of_nat i) (word_of_nat n) (word_of_nat m) s)
       (enumerate 0 enc)" "fe_shard_buf e' = drop n (fe_shard_buf e)" "fe_shard_payload_size e' = fe_shard_payload_size e"
    by metis
  have "contents (Encoded out) = map shard_payload (take n enc)"
    unfolding out(1) by (rule encoded_contents [OF n(1,3) enc(1)])
  then have c: "contents (Encoded out) = map ps_original (take n (fe_shard_buf e))"
    unfolding enc(2) shard_payloads [OF ok] .
  have "contents (Encoded out) @ buffered e' = buffered e"
    unfolding c buffered_def out(2) by (metis append_take_drop_id map_append)
  moreover have "\<forall>p \<in> set out. length p = FEC_COMPACT_HEADER_LEN + fe_shard_payload_size e"
    using enc(3) by (auto simp: out(1) build_fields in_set_enumerate_eq)
  moreover have "length out = n + m" using enc(1) by (simp add: out(1))
  ultimately show ?thesis using out by simp
qed

lemma buf_ok_drop:
  "buf_ok e \<Longrightarrow> fe_shard_buf e' = drop n (fe_shard_buf e) \<Longrightarrow> fe_shard_payload_size e' = fe_shard_payload_size e \<Longrightarrow> buf_ok e'"
  by (auto simp: buf_ok_def dest: in_set_dropD)

lemma buf_ok_nil:
  "buf_ok e \<Longrightarrow> fe_shard_buf e' = [] \<Longrightarrow> fe_shard_payload_size e' = fe_shard_payload_size e \<Longrightarrow> buf_ok e'"
  by (simp add: buf_ok_def)

text \<open>One step of the encoder: what it puts out and keeps is what it had and was given.\<close>

definition step_keeps :: "bytes list \<Rightarrow> FecEncoder \<Rightarrow> FecOutput \<times> FecEncoder \<Rightarrow> bool" where
  "step_keeps given e = (\<lambda>(out, e').
     mset (contents out) + mset (buffered e') = mset (buffered e) + mset given \<and> buf_ok e'
     \<and> fe_shard_payload_size e' = fe_shard_payload_size e
     \<and> (\<forall>ps. out = Encoded ps \<longrightarrow> (\<forall>p \<in> set ps. length p = FEC_COMPACT_HEADER_LEN + fe_shard_payload_size e)))"

lemma keeps_passthrough: "buf_ok e \<Longrightarrow> step_keeps [] e (take_passthrough e)"
  using passthrough_keeps [of e] buf_ok_nil [of e "snd (take_passthrough e)"]
  by (cases "take_passthrough e") (auto simp: step_keeps_def buffered_def take_passthrough_def Let_def case_prod_beta)

lemma keeps_encode:
  assumes "rs_systematic rs" and "buf_ok e" and "0 < n" and "0 < m" and "n + m \<le> 64" and "n \<le> length (fe_shard_buf e)"
  shows "step_keeps [] e (let (out, e') = encode_and_reset rs now n m e in (Encoded out, e'))"
proof (cases "encode_and_reset rs now n m e")
  case (Pair out e')
  from encode_keeps [OF assms Pair] have k: "contents (Encoded out) @ buffered e' = buffered e"
    "fe_shard_buf e' = drop n (fe_shard_buf e)" "fe_shard_payload_size e' = fe_shard_payload_size e"
    "\<forall>p \<in> set out. length p = FEC_COMPACT_HEADER_LEN + fe_shard_payload_size e" by auto
  from k(1) have "mset (contents (Encoded out)) + mset (buffered e') = mset (buffered e)"
    by (metis mset_append)
  with buf_ok_drop [OF assms(2) k(2,3)] k(3,4) Pair show ?thesis by (simp add: step_keeps_def)
qed

lemma keeps_flush:
  assumes rs: "rs_systematic rs" and ok: "buf_ok e"
  shows "step_keeps [] e (fec_flush rs now qb e)"
proof -
  let ?d = "length (fe_shard_buf e)"
  let ?m = "clamp 1 (max (fe_parity_shards e) 1)
    ((?d * max (fe_parity_shards e) 1 + max (fe_data_shards e) 1 - 1) div max (fe_data_shards e) 1)"
  have m: "0 < ?m" using clamp_lower [of 1 "max (fe_parity_shards e) 1"] by (simp add: Suc_le_eq)
  have "step_keeps [] e (Buffered, reset_group_timing e)" if "fe_shard_buf e = []"
    using ok that by (simp add: step_keeps_def contents_def buffered_def reset_group_timing_def buf_ok_def)
  moreover have "step_keeps [] e (let (out, e') = encode_and_reset rs now ?d ?m e in (Encoded out, e'))"
    if "2 \<le> ?d" "?d + ?m \<le> 64"
    using that m by (intro keeps_encode [OF rs ok]) auto
  ultimately show ?thesis
    using keeps_passthrough [OF ok]
    by (auto simp: fec_flush_def Let_def FEC_MAX_TOTAL_SHARDS_def not_less)
qed

lemma keeps_push:
  assumes rs: "rs_systematic rs" and ok: "buf_ok e"
  shows "step_keeps [pkt] e (push_output rs now now' pkt qb e)"
proof (cases "fe_data_shards e = 0 \<or> fe_parity_shards e = 0 \<or> length pkt + FEC_SHARD_LEN_PREFIX > fe_shard_payload_size e
    \<or> fe_data_shards e + fe_parity_shards e > FEC_MAX_TOTAL_SHARDS")
  case True
  then have "push_output rs now now' pkt qb e = (Passthrough [pkt], e)"
    by (auto simp: push_output_def Let_def)
  with ok show ?thesis by (simp add: step_keeps_def contents_def)
next
  case False
  define f where "f = (let policy = classify_packet (length pkt);
              e = (if fe_shard_buf e = [] then e\<lparr>fe_group_flush_timeout := fe_flush_standard e\<rparr> else e);
              e = e\<lparr>fe_group_flush_timeout := min (fe_group_flush_timeout e) (flush_timeout_for_policy e policy)\<rparr>;
              e = (if fe_first_at e = None then e\<lparr>fe_first_at := Some now\<rparr> else e) in
          e\<lparr>fe_shard_buf := fe_shard_buf e
                     @ [\<lparr>ps_original = pkt, ps_shard = make_shard (fe_shard_payload_size e) pkt\<rparr>]\<rparr>)"
  have f: "fe_shard_buf f = fe_shard_buf e @ [\<lparr>ps_original = pkt, ps_shard = make_shard (fe_shard_payload_size e) pkt\<rparr>]"
    "fe_shard_payload_size f = fe_shard_payload_size e" "fe_data_shards f = fe_data_shards e"
    "fe_parity_shards f = fe_parity_shards e"
    by (simp_all add: f_def Let_def)
  have okf: "buf_ok f" using ok False by (auto simp: buf_ok_def f FEC_SHARD_LEN_PREFIX_def)
  have lift: "step_keeps [] f x \<Longrightarrow> step_keeps [pkt] e x" for x
    by (cases x) (auto simp: step_keeps_def buffered_def f)
  have push: "push_output rs now now' pkt qb e =
      (if length (fe_shard_buf f) \<ge> fe_data_shards f then
         if over_budget qb (fe_data_shards e + fe_parity_shards e) then take_passthrough f
         else let (out, e') = encode_and_reset rs now' (fe_data_shards f) (fe_parity_shards f) f in (Encoded out, e')
       else if classify_packet (length pkt) = Immediate then fec_flush rs now' qb f
       else (Buffered, f))"
    using False by (simp add: push_output_def Let_def f_def)
  have "step_keeps [] f (push_output rs now now' pkt qb e)"
    unfolding push
    using keeps_passthrough [OF okf] keeps_flush [OF rs okf, of now' qb]
      keeps_encode [OF rs okf, of "fe_data_shards f" "fe_parity_shards f" now'] False okf
    by (auto simp: f(3,4) FEC_MAX_TOTAL_SHARDS_def step_keeps_def contents_def)
  then show ?thesis by (rule lift)
qed

lemma flush_empties:
  assumes rs: "rs_systematic rs" and ok: "buf_ok e"
  shows "fe_shard_buf (snd (fec_flush rs now qb e)) = []"
proof -
  let ?d = "length (fe_shard_buf e)"
  let ?m = "clamp 1 (max (fe_parity_shards e) 1)
    ((?d * max (fe_parity_shards e) 1 + max (fe_data_shards e) 1 - 1) div max (fe_data_shards e) 1)"
  have m: "0 < ?m" using clamp_lower [of 1 "max (fe_parity_shards e) 1"] by (simp add: Suc_le_eq)
  have "fe_shard_buf (snd (encode_and_reset rs now ?d ?m e)) = []" if "2 \<le> ?d" "?d + ?m \<le> 64"
  proof -
    obtain out e' where r: "encode_and_reset rs now ?d ?m e = (out, e')" by fastforce
    have "0 < ?d" using that by auto
    from encode_keeps [OF rs ok this m that(2) _ r] have "fe_shard_buf e' = []" by simp
    then show ?thesis unfolding r by simp
  qed
  then show ?thesis
    using passthrough_keeps(2) [of e]
    by (auto simp: fec_flush_def Let_def FEC_MAX_TOTAL_SHARDS_def not_less case_prod_beta reset_group_timing_def)
qed

lemma keeps_ratio:
  assumes rs: "rs_systematic rs" and ok: "buf_ok e"
  shows "step_keeps [] e (update_ratio_with_flush rs now d p qb e)"
proof (cases "fec_flush rs now qb e")
  case (Pair out e')
  with keeps_flush [OF rs ok, of now qb] flush_empties [OF rs ok, of now qb] ok show ?thesis
    by (auto simp: update_ratio_with_flush_def Let_def step_keeps_def buffered_def buf_ok_def
        reset_group_timing_def contents_def)
qed

lemma keeps_flush_passthrough: "buf_ok e \<Longrightarrow> step_keeps [] e (flush_passthrough e)"
  using keeps_passthrough [of e]
  by (auto simp: flush_passthrough_def step_keeps_def contents_def buffered_def reset_group_timing_def buf_ok_def)

section \<open>A concrete code\<close>

text \<open>
  Single-parity coding, an instance of the assumptions on the Reed-Solomon parameter: the parity shard is
  the bitwise sum of the data shards, and one missing shard is the sum of the others.
\<close>

fun xor_all :: "bytes list \<Rightarrow> bytes" where
  "xor_all [] = []"
| "xor_all [x] = x"
| "xor_all (x # y # zs) = map2 (XOR) x (xor_all (y # zs))"

definition xor_code :: rs_code where
  "xor_code = \<lparr>rs_new = (\<lambda>k m. True),
     rs_encode = (\<lambda>k m shards. Some (take k shards @ replicate m (xor_all (take k shards)))),
     rs_reconstruct = (\<lambda>k m recv.
       let rest = List.map_filter id recv in
       if length rest = length recv then Some recv
       else if Suc (length rest) = length recv
       then Some (map (\<lambda>s. case s of None \<Rightarrow> Some (xor_all rest) | Some x \<Rightarrow> Some x) recv)
       else None)\<rparr>"

lemma length_xor_all: "xs \<noteq> [] \<Longrightarrow> \<forall>x \<in> set xs. length x = len \<Longrightarrow> length (xor_all xs) = len"
  by (induction xs rule: xor_all.induct) auto

lemma xor_code_systematic: "rs_systematic xor_code"
proof -
  have "length (xor_all (take k shards)) = len"
    if "0 < k" "0 < m" "length shards = k + m" "\<forall>s \<in> set shards. length s = len" for k m len and shards :: "bytes list"
    using that by (intro length_xor_all) (auto dest: in_set_takeD)
  then show ?thesis by (auto simp: rs_systematic_def xor_code_def dest: in_set_takeD)
qed

section \<open>Properties\<close>

lemma step_down_ladder: "fec_ratio_step_down r \<in> set ((0, 0) # FEC_RATIO_LADDER)"
proof -
  have "ladder_next r FEC_RATIO_LADDER = Some q \<Longrightarrow> q \<in> set ((0, 0) # FEC_RATIO_LADDER)" for q
    by (auto simp: FEC_RATIO_LADDER_def split: if_splits)
  then show ?thesis
    by (auto simp: fec_ratio_step_down_def find_Some_iff split: option.splits)
qed

lemma funpow_five: "(f ^^ 5) x = f (f (f (f (f x))))"
  by (simp add: eval_nat_numeral)

lemma funpow_upt_five: "map (\<lambda>i. (f ^^ i) x) [0..<5] = [x, f x, f (f x), f (f (f x)), f (f (f (f x)))]"
  by (simp add: eval_nat_numeral upt_rec)

text \<open>
  The recovery ladder ends: from every ratio, also one that is not on the ladder, five recovery steps
  switch parity off, and off is a fixed point. From the strongest rung the steps pass through every rung.
\<close>

theorem fec_step_down_reaches_off:
  "(fec_ratio_step_down ^^ 5) r = (0, 0) \<and> fec_ratio_step_down (0, 0) = (0, 0)
   \<and> map (\<lambda>i. (fec_ratio_step_down ^^ i) (4, 2)) [0..<5] = [(4, 2), (5, 1), (7, 1), (10, 1), (0, 0)]"
proof -
  have lad: "fec_ratio_step_down (4, 2) = (5, 1)" "fec_ratio_step_down (5, 1) = (7, 1)"
    "fec_ratio_step_down (7, 1) = (10, 1)" "fec_ratio_step_down (10, 1) = (0, 0)" "fec_ratio_step_down (0, 0) = (0, 0)"
    by (simp_all add: fec_ratio_step_down_def FEC_RATIO_LADDER_def)
  from step_down_ladder [of r] have "(fec_ratio_step_down ^^ 5) r = (0, 0)"
    by (auto simp: FEC_RATIO_LADDER_def funpow_five lad simp del: One_nat_def)
  then show ?thesis by (simp add: funpow_upt_five lad del: One_nat_def)
qed

end
