(* ===== verification/Fec_Tx.thy ===== *)
theory Fec_Tx
  imports Fec_Inv Net_Addr
begin

text \<open>
  \<^verbatim>\<open>src/src/net/fec_tx_worker.rs\<close>: the thread that owns one encoder per destination. Its state is
  \<open>WorkerState\<close>, its handlers are functions returning what they hand on: a batch the pacing queue
  accepted, or an event that asks the engine to enqueue packets the normal way. A run of the worker is a
  list of commands; the environment of a command carries the clock readings, the salt of a new encoder,
  the queue observation of the pacing thread and whether that thread accepts a batch.
\<close>

section \<open>State and commands\<close>

record FecTxTuning =
  tt_shard :: nat
  tt_flush_std :: duration
  tt_flush_agg :: duration

definition FecTxTuning_default :: FecTxTuning where
  "FecTxTuning_default = \<lparr>tt_shard = FEC_SHARD_PAYLOAD_SIZE, tt_flush_std = FEC_FLUSH_TIMEOUT,
     tt_flush_agg = FEC_FLUSH_TIMEOUT_AGGRESSIVE\<rparr>"

text \<open>The hints are \<^verbatim>\<open>f32\<close> values the worker only stores and passes on; they are kept as bit patterns.\<close>

type_synonym tx_hint = "u32 option \<times> u32 option"

datatype NormalOfferKind = KPassthrough | KBatchFallback | KDrainPassthrough

datatype TxEvent =
    PeerBatch (ev_dest: SocketAddr) (ev_pkts: "bytes list") tx_hint
  | EnqueueNormal (ev_dest: SocketAddr) (ev_pkts: "bytes list") NormalOfferKind

record WorkerState =
  ws_encoders :: "(SocketAddr, FecEncoder) table"
  ws_hints :: "(SocketAddr, tx_hint) table"
  ws_tuning :: FecTxTuning
  ws_encode_enabled :: bool

record tx_env =
  te_now :: instant
  te_now' :: instant
  te_salt :: u32
  te_queue_len :: "SocketAddr \<Rightarrow> nat"
  te_max_queue :: nat
  te_accept :: "SocketAddr \<Rightarrow> bytes list \<Rightarrow> tx_hint \<Rightarrow> bool"

datatype TxCmd =
    Push SocketAddr bytes nat nat "(nat \<times> nat) option" tx_hint
  | FlushDue bool
  | FlushAll
  | Retune FecTxTuning
  | SetEncodeEnabled bool
  | RemovePeer SocketAddr
  | ResetSession
  | Stop

definition worker_init :: "FecTxTuning \<Rightarrow> WorkerState" where
  "worker_init t = \<lparr>ws_encoders = [], ws_hints = [], ws_tuning = t, ws_encode_enabled = True\<rparr>"

text \<open>\<^verbatim>\<open>request_flush_due\<close>: 1 asks for a flush, 2 for a flush with drain; the larger request stays.\<close>

definition request_flush_due :: "bool \<Rightarrow> nat \<Rightarrow> nat" where
  "request_flush_due drain cur = (let v = (if drain then 2 else 1) in if cur < v then v else cur)"

section \<open>Handlers\<close>

definition dispatch_output :: "tx_env \<Rightarrow> WorkerState \<Rightarrow> SocketAddr \<Rightarrow> FecOutput \<Rightarrow> bool \<Rightarrow> TxEvent list" where
  "dispatch_output env st dest out drain =
     (case out of
        Buffered \<Rightarrow> []
      | Encoded pkts \<Rightarrow>
          let hint = (case tab_get (ws_hints st) dest of Some h \<Rightarrow> h | None \<Rightarrow> (None, None)) in
          if \<not> te_accept env dest pkts hint then [EnqueueNormal dest pkts KBatchFallback]
          else [PeerBatch dest pkts hint]
      | Passthrough pkts \<Rightarrow>
          [EnqueueNormal dest pkts (if drain then KDrainPassthrough else KPassthrough)])"

definition queue_budget_of :: "tx_env \<Rightarrow> SocketAddr \<Rightarrow> (nat \<times> nat) option" where
  "queue_budget_of env dest = Some (te_queue_len env dest, max (te_max_queue env) 1)"

definition tx_flush_all :: "rs_code \<Rightarrow> tx_env \<Rightarrow> WorkerState \<Rightarrow> TxEvent list \<times> WorkerState" where
  "tx_flush_all rs env st =
     (let pending = map (\<lambda>(dest, enc). (dest, fst (fec_flush rs (te_now env) (queue_budget_of env dest) enc)))
                      (ws_encoders st);
          st = st\<lparr>ws_encoders := []\<rparr> in
      (concat (map (\<lambda>(dest, out). dispatch_output env st dest out False) pending), st))"

definition flush_due_one :: "rs_code \<Rightarrow> tx_env \<Rightarrow> bool \<Rightarrow> SocketAddr \<Rightarrow> FecEncoder \<Rightarrow> FecOutput \<times> FecEncoder" where
  "flush_due_one rs env drain dest enc =
     (if needs_flush (te_now env) enc then
        if drain then flush_passthrough enc
        else fec_flush rs (te_now env) (queue_budget_of env dest) enc
      else (Buffered, enc))"

definition tx_flush_due :: "rs_code \<Rightarrow> tx_env \<Rightarrow> bool \<Rightarrow> WorkerState \<Rightarrow> TxEvent list \<times> WorkerState" where
  "tx_flush_due rs env drain st =
     (let res = map (\<lambda>(dest, enc). (dest, flush_due_one rs env drain dest enc)) (ws_encoders st);
          st' = st\<lparr>ws_encoders := map (\<lambda>(dest, r). (dest, snd r)) res\<rparr> in
      (concat (map (\<lambda>(dest, r). dispatch_output env st' dest (fst r) drain) res), st'))"

text \<open>The part of \<^verbatim>\<open>handle_push\<close> that re-tunes the encoder, flushing it when the shard size changes.\<close>

definition retuned :: "rs_code \<Rightarrow> instant \<Rightarrow> (nat \<times> nat) option \<Rightarrow> FecTxTuning \<Rightarrow> FecEncoder \<Rightarrow> FecOutput \<times> FecEncoder" where
  "retuned rs now qb t enc =
     (if fe_shard_payload_size enc \<noteq> tt_shard t then
        let (flushed, enc) = fec_flush rs now qb enc in
        (flushed, fec_apply_tuning (tt_shard t) (tt_flush_std t) (tt_flush_agg t) enc)
      else (Buffered, fec_apply_tuning (tt_shard t) (tt_flush_std t) (tt_flush_agg t) enc))"

definition handle_push ::
    "rs_code \<Rightarrow> tx_env \<Rightarrow> SocketAddr \<Rightarrow> bytes \<Rightarrow> nat \<Rightarrow> nat \<Rightarrow> (nat \<times> nat) option \<Rightarrow> tx_hint \<Rightarrow> WorkerState
     \<Rightarrow> TxEvent list \<times> WorkerState" where
  "handle_push rs env dest pkt ds ps queue_budget hint st0 =
     (let st = st0\<lparr>ws_hints := tab_put dest hint (ws_hints st0)\<rparr> in
      if \<not> ws_encode_enabled st then ([EnqueueNormal dest [pkt] KPassthrough], st)
      else
        let t = ws_tuning st;
            enc = (case tab_get (ws_encoders st) dest of
                     Some enc \<Rightarrow> enc
                   | None \<Rightarrow> with_flush (te_salt env) ds ps (tt_shard t) (tt_flush_std t) (tt_flush_agg t));
            (size_flush, enc) = retuned rs (te_now env) queue_budget t enc;
            (ratio_flush, enc) = update_ratio_with_flush rs (te_now env) ds ps queue_budget enc;
            (out, enc) = push_output rs (te_now env) (te_now' env) pkt queue_budget enc;
            st = st\<lparr>ws_encoders := tab_put dest enc (ws_encoders st)\<rparr> in
        (dispatch_output env st dest size_flush False @ dispatch_output env st dest ratio_flush False
         @ dispatch_output env st dest out False, st))"

definition tx_step :: "rs_code \<Rightarrow> tx_env \<Rightarrow> TxCmd \<Rightarrow> WorkerState \<Rightarrow> TxEvent list \<times> WorkerState" where
  "tx_step rs env cmd st =
     (case cmd of
        Push dest pkt ds ps qb hint \<Rightarrow> handle_push rs env dest pkt ds ps qb hint st
      | FlushDue drain \<Rightarrow> tx_flush_due rs env drain st
      | FlushAll \<Rightarrow> tx_flush_all rs env st
      | Retune t \<Rightarrow> (let (evs, st) = tx_flush_all rs env st in (evs, st\<lparr>ws_tuning := t\<rparr>))
      | SetEncodeEnabled enabled \<Rightarrow> ([], st\<lparr>ws_encode_enabled := enabled\<rparr>)
      | RemovePeer dest \<Rightarrow>
          ([], st\<lparr>ws_encoders := tab_del dest (ws_encoders st), ws_hints := tab_del dest (ws_hints st)\<rparr>)
      | ResetSession \<Rightarrow>
          (let (evs, st) = tx_flush_all rs env st in (evs, st\<lparr>ws_hints := [], ws_encode_enabled := True\<rparr>))
      | Stop \<Rightarrow> tx_flush_all rs env st)"

text \<open>\<^verbatim>\<open>fec_tx_worker_main\<close> handles commands until \<^verbatim>\<open>Stop\<close>; what comes after it is not handled.\<close>

fun tx_run :: "rs_code \<Rightarrow> (tx_env \<times> TxCmd) list \<Rightarrow> WorkerState \<Rightarrow> TxEvent list \<times> WorkerState" where
  "tx_run rs [] st = ([], st)"
| "tx_run rs ((env, cmd) # cmds) st =
     (let (evs, st) = tx_step rs env cmd st in
      if cmd = Stop then (evs, st)
      else let (evs', st) = tx_run rs cmds st in (evs @ evs', st))"

section \<open>What was sent, kept and dropped\<close>

definition ev_contents :: "TxEvent \<Rightarrow> bytes list" where
  "ev_contents ev = (case ev of
     PeerBatch _ pkts _ \<Rightarrow> contents (Encoded pkts)
   | EnqueueNormal _ pkts KBatchFallback \<Rightarrow> contents (Encoded pkts)
   | EnqueueNormal _ pkts _ \<Rightarrow> pkts)"

definition sent :: "SocketAddr \<Rightarrow> TxEvent list \<Rightarrow> bytes list" where
  "sent d evs = concat (map ev_contents (filter (\<lambda>ev. ev_dest ev = d) evs))"

definition kept :: "SocketAddr \<Rightarrow> WorkerState \<Rightarrow> bytes list" where
  "kept d st = (case tab_get (ws_encoders st) d of None \<Rightarrow> [] | Some enc \<Rightarrow> buffered enc)"

definition given :: "SocketAddr \<Rightarrow> TxCmd \<Rightarrow> bytes list" where
  "given d cmd = (case cmd of Push dest pkt _ _ _ _ \<Rightarrow> if dest = d then [pkt] else [] | _ \<Rightarrow> [])"

definition dropped :: "SocketAddr \<Rightarrow> TxCmd \<Rightarrow> WorkerState \<Rightarrow> bytes list" where
  "dropped d cmd st = (case cmd of RemovePeer dest \<Rightarrow> if dest = d then kept d st else [] | _ \<Rightarrow> [])"

fun pushed :: "SocketAddr \<Rightarrow> (tx_env \<times> TxCmd) list \<Rightarrow> bytes list" where
  "pushed d [] = []"
| "pushed d ((env, cmd) # cmds) = given d cmd @ (if cmd = Stop then [] else pushed d cmds)"

fun removed :: "rs_code \<Rightarrow> SocketAddr \<Rightarrow> (tx_env \<times> TxCmd) list \<Rightarrow> WorkerState \<Rightarrow> bytes list" where
  "removed rs d [] st = []"
| "removed rs d ((env, cmd) # cmds) st =
     dropped d cmd st @ (if cmd = Stop then [] else removed rs d cmds (snd (tx_step rs env cmd st)))"

text \<open>The frames of an event that carry coded shards.\<close>

definition fec_frames :: "TxEvent \<Rightarrow> bytes list" where
  "fec_frames ev = (case ev of
     PeerBatch _ pkts _ \<Rightarrow> pkts
   | EnqueueNormal _ pkts KBatchFallback \<Rightarrow> pkts
   | EnqueueNormal _ pkts _ \<Rightarrow> [])"

section \<open>Conservation\<close>

definition tx_ok :: "nat \<Rightarrow> WorkerState \<Rightarrow> bool" where
  "tx_ok bound st =
     (tab_ok (ws_encoders st) \<and> tt_shard (ws_tuning st) \<le> bound \<and>
      (\<forall>d enc. tab_get (ws_encoders st) d = Some enc \<longrightarrow> buf_ok enc \<and> fe_shard_payload_size enc \<le> bound))"

lemma sent_Nil [simp]: "sent d [] = []" and sent_append [simp]: "sent d (xs @ ys) = sent d xs @ sent d ys"
  by (simp_all add: sent_def)

lemma sent_dispatch [simp]: "sent d (dispatch_output env st dest out drain) = (if dest = d then contents out else [])"
  by (cases out) (simp_all add: sent_def dispatch_output_def Let_def ev_contents_def contents_def)

lemma frames_dispatch:
  "ev \<in> set (dispatch_output env st dest out drain) \<Longrightarrow> p \<in> set (fec_frames ev) \<Longrightarrow> \<exists>ps. out = Encoded ps \<and> p \<in> set ps"
  by (cases out) (auto simp: dispatch_output_def Let_def fec_frames_def split: if_splits)

lemma sent_dispatch_table:
  "tab_ok t \<Longrightarrow> sent d (concat (map (\<lambda>(k, v). dispatch_output env st k (f k v) drain) t)) =
     (case tab_get t d of None \<Rightarrow> [] | Some v \<Rightarrow> contents (f d v))"
proof (induction t)
  case (Cons e t)
  obtain k v where e: "e = (k, v)" by fastforce
  have "tab_get t k = None" using Cons.prems by (auto simp: e tab_ok_def tab_get_def map_of_eq_None_iff)
  then show ?case using Cons by (auto simp: e tab_ok_def tab_get_def)
qed simp

text \<open>What one handler must do for one destination, given packets \<open>g\<close> and dropping \<open>l\<close>.\<close>

definition tx_keeps :: "nat \<Rightarrow> SocketAddr \<Rightarrow> bytes list \<Rightarrow> bytes list \<Rightarrow> WorkerState \<Rightarrow> TxEvent list \<times> WorkerState \<Rightarrow> bool" where
  "tx_keeps bound d g l st = (\<lambda>(evs, st').
     mset (sent d evs) + mset (kept d st') + mset l = mset (kept d st) + mset g \<and> tx_ok bound st'
     \<and> (\<forall>ev \<in> set evs. \<forall>p \<in> set (fec_frames ev). length p \<le> FEC_COMPACT_HEADER_LEN + bound))"

lemma step_keepsD:
  assumes "step_keeps g e r"
  shows "mset (contents (fst r)) + mset (buffered (snd r)) = mset (buffered e) + mset g" "buf_ok (snd r)"
    "fe_shard_payload_size (snd r) = fe_shard_payload_size e"
    "fst r = Encoded ps \<Longrightarrow> p \<in> set ps \<Longrightarrow> length p = FEC_COMPACT_HEADER_LEN + fe_shard_payload_size e"
  using assms by (auto simp: step_keeps_def case_prod_beta)

lemma flush_all_keeps:
  assumes rs: "rs_systematic rs" and ok: "tx_ok bound st"
  shows "tx_keeps bound d [] [] st (tx_flush_all rs env st)"
proof -
  let ?f = "\<lambda>dest enc. fst (fec_flush rs (te_now env) (queue_budget_of env dest) enc)"
  let ?st = "st\<lparr>ws_encoders := []\<rparr>"
  let ?evs = "concat (map (\<lambda>(k, v). dispatch_output env ?st k (?f k v) False) (ws_encoders st))"
  have flush: "tx_flush_all rs env st = (?evs, ?st)"
    by (simp add: tx_flush_all_def Let_def comp_def case_prod_unfold)
  have tab: "tab_ok (ws_encoders st)" and enc: "buf_ok e \<and> fe_shard_payload_size e \<le> bound"
    if "tab_get (ws_encoders st) k = Some e" for k e using ok that by (auto simp: tx_ok_def)
  have "mset (sent d ?evs) = mset (kept d st)"
  proof (cases "tab_get (ws_encoders st) d")
    case (Some e)
    then have "buf_ok e" using enc by blast
    with step_keepsD(1) [OF keeps_flush [OF rs this, of "te_now env" "queue_budget_of env d"]]
      flush_empties [OF rs this, of "te_now env" "queue_budget_of env d"] ok Some
    show ?thesis by (simp add: sent_dispatch_table tx_ok_def kept_def buffered_def)
  qed (use ok in \<open>simp add: sent_dispatch_table tx_ok_def kept_def\<close>)
  moreover have "length p \<le> FEC_COMPACT_HEADER_LEN + bound"
    if "ev \<in> set ?evs" "p \<in> set (fec_frames ev)" for ev p
  proof -
    from that(1) obtain k e where ke: "(k, e) \<in> set (ws_encoders st)"
      "ev \<in> set (dispatch_output env ?st k (?f k e) False)" by auto
    then have "buf_ok e" "fe_shard_payload_size e \<le> bound"
      using enc ok by (auto simp: tx_ok_def tab_mem_iff)
    with frames_dispatch [OF ke(2) that(2)]
      step_keepsD(4) [OF keeps_flush [OF rs this(1), of "te_now env" "queue_budget_of env k"]]
    show ?thesis by fastforce
  qed
  ultimately show ?thesis
    using ok unfolding flush by (auto simp: tx_keeps_def tx_ok_def kept_def)
qed

lemma flush_due_one_keeps:
  "rs_systematic rs \<Longrightarrow> buf_ok e \<Longrightarrow> step_keeps [] e (flush_due_one rs env drain dest e)"
  using keeps_flush keeps_flush_passthrough
  by (auto simp: flush_due_one_def step_keeps_def contents_def)

lemma tab_get_map_key: "tab_get (map (\<lambda>(k, v). (k, f k v)) t) d = map_option (f d) (tab_get t d)"
  by (induction t) (auto simp: tab_get_def)

lemma tab_ok_map_key: "tab_ok (map (\<lambda>(k, v). (k, f k v)) t) = tab_ok t"
  by (simp add: tab_ok_def comp_def case_prod_unfold)

lemma flush_due_keeps:
  assumes rs: "rs_systematic rs" and ok: "tx_ok bound st"
  shows "tx_keeps bound d [] [] st (tx_flush_due rs env drain st)"
proof -
  let ?f = "\<lambda>dest enc. flush_due_one rs env drain dest enc"
  let ?encs = "map (\<lambda>(k, v). (k, snd (?f k v))) (ws_encoders st)"
  let ?st = "st\<lparr>ws_encoders := ?encs\<rparr>"
  let ?evs = "concat (map (\<lambda>(k, v). dispatch_output env ?st k (fst (?f k v)) drain) (ws_encoders st))"
  have flush: "tx_flush_due rs env drain st = (?evs, ?st)"
    by (simp add: tx_flush_due_def Let_def comp_def case_prod_unfold)
  have tab: "tab_ok (ws_encoders st)" using ok by (simp add: tx_ok_def)
  have enc: "buf_ok e" "fe_shard_payload_size e \<le> bound" "step_keeps [] e (?f k e)"
    if "tab_get (ws_encoders st) k = Some e" for k e
    using ok that flush_due_one_keeps [OF rs] by (auto simp: tx_ok_def)
  have get: "tab_get ?encs k = map_option (\<lambda>v. snd (?f k v)) (tab_get (ws_encoders st) k)" for k
    by (rule tab_get_map_key)
  have "mset (sent d ?evs) + mset (kept d ?st) = mset (kept d st)"
    using step_keepsD(1) [OF enc(3), of d]
    by (cases "tab_get (ws_encoders st) d") (simp_all add: sent_dispatch_table tab kept_def get)
  moreover have "tx_ok bound ?st"
    using ok tab step_keepsD(2,3) [OF enc(3)] enc(2) by (auto simp: tx_ok_def tab_ok_map_key get)
  moreover have "length p \<le> FEC_COMPACT_HEADER_LEN + bound"
    if "ev \<in> set ?evs" "p \<in> set (fec_frames ev)" for ev p
  proof -
    from that(1) obtain k e where ke: "(k, e) \<in> set (ws_encoders st)"
      "ev \<in> set (dispatch_output env ?st k (fst (?f k e)) drain)" by auto
    then have g: "tab_get (ws_encoders st) k = Some e" by (simp add: tab tab_mem_iff)
    from frames_dispatch [OF ke(2) that(2)] step_keepsD(4) [OF enc(3) [OF g]] enc(2) [OF g]
    show ?thesis by fastforce
  qed
  ultimately show ?thesis unfolding flush by (auto simp: tx_keeps_def)
qed

lemma retuned_keeps:
  assumes rs: "rs_systematic rs" and ok: "buf_ok e" and t: "tt_shard t < 2 ^ 16"
  shows "mset (contents (fst (retuned rs now qb t e))) + mset (buffered (snd (retuned rs now qb t e))) = mset (buffered e)
    \<and> buf_ok (snd (retuned rs now qb t e)) \<and> fe_shard_payload_size (snd (retuned rs now qb t e)) = tt_shard t
    \<and> (\<forall>ps. fst (retuned rs now qb t e) = Encoded ps \<longrightarrow>
          (\<forall>p \<in> set ps. length p = FEC_COMPACT_HEADER_LEN + fe_shard_payload_size e))"
proof (cases "fec_flush rs now qb e")
  case (Pair out e')
  with keeps_flush [OF rs ok, of now qb] flush_empties [OF rs ok, of now qb] ok t show ?thesis
    by (auto simp: retuned_def fec_apply_tuning_def step_keeps_def buffered_def buf_ok_def contents_def)
qed

lemma push_keeps:
  assumes rs: "rs_systematic rs" and ok: "tx_ok bound st" and b: "bound < 2 ^ 16"
  shows "tx_keeps bound d (if dest = d then [pkt] else []) [] st (handle_push rs env dest pkt ds ps qb hint st)"
proof (cases "ws_encode_enabled st")
  case False
  with ok show ?thesis
    by (simp add: handle_push_def Let_def tx_keeps_def tx_ok_def sent_def ev_contents_def kept_def fec_frames_def)
next
  case True
  let ?t = "ws_tuning st"
  define e0 where "e0 = (case tab_get (ws_encoders st) dest of Some enc \<Rightarrow> enc
    | None \<Rightarrow> with_flush (te_salt env) ds ps (tt_shard ?t) (tt_flush_std ?t) (tt_flush_agg ?t))"
  define r1 where "r1 = retuned rs (te_now env) qb ?t e0"
  define r2 where "r2 = update_ratio_with_flush rs (te_now env) ds ps qb (snd r1)"
  define r3 where "r3 = push_output rs (te_now env) (te_now' env) pkt qb (snd r2)"
  let ?st = "st\<lparr>ws_hints := tab_put dest hint (ws_hints st), ws_encoders := tab_put dest (snd r3) (ws_encoders st)\<rparr>"
  let ?evs = "dispatch_output env ?st dest (fst r1) False @ dispatch_output env ?st dest (fst r2) False
    @ dispatch_output env ?st dest (fst r3) False"
  have push: "handle_push rs env dest pkt ds ps qb hint st = (?evs, ?st)"
  proof -
    obtain o1 e1 o2 e2 o3 e3 where r: "r1 = (o1, e1)" "r2 = (o2, e2)" "r3 = (o3, e3)"
      by (metis surj_pair)
    have p: "retuned rs (te_now env) qb ?t e0 = (o1, e1)" "update_ratio_with_flush rs (te_now env) ds ps qb e1 = (o2, e2)"
      "push_output rs (te_now env) (te_now' env) pkt qb e2 = (o3, e3)"
      using r r1_def r2_def r3_def by simp_all
    show ?thesis using True by (simp add: handle_push_def e0_def [symmetric] p r Let_def)
  qed
  have t: "tt_shard ?t \<le> bound" using ok by (simp add: tx_ok_def)
  have e0: "buf_ok e0" "fe_shard_payload_size e0 \<le> bound" "buffered e0 = kept dest st"
    using ok t b by (auto simp: e0_def tx_ok_def kept_def with_flush_def buf_ok_def buffered_def split: option.splits)
  have r1: "mset (contents (fst r1)) + mset (buffered (snd r1)) = mset (buffered e0)" "buf_ok (snd r1)"
      "fe_shard_payload_size (snd r1) = tt_shard ?t"
      "\<And>ps p. fst r1 = Encoded ps \<Longrightarrow> p \<in> set ps \<Longrightarrow> length p = FEC_COMPACT_HEADER_LEN + fe_shard_payload_size e0"
    using retuned_keeps [OF rs e0(1), of ?t "te_now env" qb] t b by (auto simp: r1_def)
  note r2 = step_keepsD [OF keeps_ratio [OF rs r1(2), of "te_now env" ds ps qb], folded r2_def]
  note r3 = step_keepsD [OF keeps_push [OF rs r2(2), of pkt "te_now env" "te_now' env" qb], folded r3_def]
  have "mset (contents (fst r1)) + mset (contents (fst r2)) + mset (contents (fst r3)) + mset (buffered (snd r3))
      = mset (contents (fst r1)) + (mset (contents (fst r2)) + mset (buffered (snd r2))) + {#pkt#}"
    using r3(1) by (simp add: add.assoc)
  also have "\<dots> = mset (kept dest st) + {#pkt#}" using r1(1) r2(1) e0(3) by simp
  finally have sum: "mset (contents (fst r1)) + mset (contents (fst r2)) + mset (contents (fst r3))
      + mset (buffered (snd r3)) = mset (kept dest st) + {#pkt#}" .
  have "mset (sent d ?evs) + mset (kept d ?st) = mset (kept d st) + mset (if dest = d then [pkt] else [])"
    using sum by (cases "dest = d") (simp_all add: kept_def tab_get_put add.assoc)
  moreover have "tx_ok bound ?st"
    using ok r3(2,3) r2(3) r1(3) t by (auto simp: tx_ok_def tab_get_put)
  moreover have "length p \<le> FEC_COMPACT_HEADER_LEN + bound" if "ev \<in> set ?evs" "p \<in> set (fec_frames ev)" for ev p
  proof -
    from that(1) consider "ev \<in> set (dispatch_output env ?st dest (fst r1) False)"
      | "ev \<in> set (dispatch_output env ?st dest (fst r2) False)"
      | "ev \<in> set (dispatch_output env ?st dest (fst r3) False)" unfolding set_append by blast
    then show ?thesis
    proof cases
      case 1
      from frames_dispatch [OF 1 that(2)] r1(4) e0(2) show ?thesis by fastforce
    next
      case 2
      from frames_dispatch [OF 2 that(2)] r2(4) r1(3) t show ?thesis by fastforce
    next
      case 3
      from frames_dispatch [OF 3 that(2)] r3(4) r2(3) r1(3) t show ?thesis by fastforce
    qed
  qed
  ultimately show ?thesis unfolding push by (simp add: tx_keeps_def)
qed

definition cmd_ok :: "nat \<Rightarrow> TxCmd \<Rightarrow> bool" where
  "cmd_ok bound cmd = (case cmd of Retune t \<Rightarrow> tt_shard t \<le> bound | _ \<Rightarrow> True)"

lemma tx_step_keeps:
  assumes rs: "rs_systematic rs" and ok: "tx_ok bound st" and b: "bound < 2 ^ 16" and c: "cmd_ok bound cmd"
  shows "tx_keeps bound d (given d cmd) (dropped d cmd st) st (tx_step rs env cmd st)"
proof -
  have upd: "tx_keeps bound d [] [] st (evs, st'\<lparr>ws_hints := h, ws_encode_enabled := en\<rparr>)"
    "tt_shard t \<le> bound \<Longrightarrow> tx_keeps bound d [] [] st (evs, st'\<lparr>ws_tuning := t\<rparr>)"
    if "tx_keeps bound d [] [] st (evs, st')" for evs st' h en t
    using that by (simp_all add: tx_keeps_def tx_ok_def kept_def)
  obtain evs st' where fa: "tx_flush_all rs env st = (evs, st')" by fastforce
  note all = flush_all_keeps [OF rs ok, of d env, unfolded fa]
  show ?thesis
  proof (cases cmd)
    case (RemovePeer dest)
    with ok show ?thesis
      by (auto simp: tx_step_def tx_keeps_def tx_ok_def kept_def given_def dropped_def tab_get_del)
  next
    case (SetEncodeEnabled en)
    with ok show ?thesis
      by (simp add: tx_step_def tx_keeps_def tx_ok_def kept_def given_def dropped_def)
  next
    case (Push dest pkt ds ps qb hint)
    then show ?thesis
      using push_keeps [OF rs ok b, of d dest pkt env ds ps qb hint] by (simp add: tx_step_def given_def dropped_def)
  next
    case (FlushDue drain)
    then show ?thesis
      using flush_due_keeps [OF rs ok, of d env drain] by (simp add: tx_step_def given_def dropped_def)
  qed (use all upd [OF all] c in \<open>simp_all add: tx_step_def given_def dropped_def fa cmd_ok_def\<close>)
qed

lemma mset_chain:
  fixes a b c x g :: "'a multiset"
  assumes "a + b + c = x + g" and "a' + b' + c' = b + g'"
  shows "a + a' + b' + (c + c') = x + (g + g')"
proof -
  have "b + (a + a' + b' + (c + c')) = (a + b + c) + (a' + b' + c')" by (simp only: ac_simps)
  also have "\<dots> = b + (x + (g + g'))" unfolding assms by (simp only: ac_simps)
  finally show ?thesis by (rule add_left_imp_eq)
qed

lemma tx_run_keeps:
  assumes "rs_systematic rs" and "tx_ok bound st" and "bound < 2 ^ 16" and "list_all (\<lambda>(_, cmd). cmd_ok bound cmd) cmds"
  shows "tx_keeps bound d (pushed d cmds) (removed rs d cmds st) st (tx_run rs cmds st)"
  using assms(2,4)
proof (induction cmds arbitrary: st)
  case Nil
  then show ?case by (simp add: tx_keeps_def)
next
  case (Cons c cmds)
  obtain env cmd where c: "c = (env, cmd)" by fastforce
  obtain evs st1 where s1: "tx_step rs env cmd st = (evs, st1)" by fastforce
  obtain evs' st2 where s2: "tx_run rs cmds st1 = (evs', st2)" by fastforce
  have k1: "tx_keeps bound d (given d cmd) (dropped d cmd st) st (evs, st1)"
    using tx_step_keeps [OF assms(1) Cons.prems(1) assms(3), of cmd d env] Cons.prems(2) by (simp add: c s1)
  show ?case
  proof (cases "cmd = Stop")
    case True
    with k1 s1 show ?thesis by (simp add: c)
  next
    case False
    have "tx_keeps bound d (pushed d cmds) (removed rs d cmds st1) st1 (evs', st2)"
      using Cons.IH [of st1] k1 Cons.prems(2) by (simp add: tx_keeps_def s2)
    with k1 have k: "mset (sent d evs) + mset (kept d st1) + mset (dropped d cmd st) = mset (kept d st) + mset (given d cmd)"
      "mset (sent d evs') + mset (kept d st2) + mset (removed rs d cmds st1) = mset (kept d st1) + mset (pushed d cmds)"
      "tx_ok bound st2" "\<forall>ev \<in> set (evs @ evs'). \<forall>p \<in> set (fec_frames ev). length p \<le> FEC_COMPACT_HEADER_LEN + bound"
      by (auto simp: tx_keeps_def)
    have "tx_run rs (c # cmds) st = (evs @ evs', st2)" using False by (simp add: c s1 s2)
    moreover have "removed rs d (c # cmds) st = dropped d cmd st @ removed rs d cmds st1"
      "pushed d (c # cmds) = given d cmd @ pushed d cmds"
      using False by (simp_all add: c s1)
    ultimately show ?thesis using mset_chain [OF k(1,2)] k(3,4) by (simp add: tx_keeps_def)
  qed
qed

section \<open>Properties\<close>

lemma tx_ok_init: "tt_shard t \<le> bound \<Longrightarrow> tx_ok bound (worker_init t)"
  by (simp add: tx_ok_def worker_init_def)


text \<open>
  C26. Every coded frame fits the path: when the shard sizes in use come from
  \<^verbatim>\<open>effective_shard_payload_size\<close> for a path MTU, no frame of a coded group, with its IP and UDP headers,
  is larger than that MTU, and such a size is between 512 and 1279.
\<close>

theorem fec_frames_fit_path:
  assumes "rs_systematic rs" and "effective_shard_payload_size configured mtu = Some e" and "tt_shard t \<le> e"
    and "list_all (\<lambda>(_, cmd). cmd_ok e cmd) cmds"
  shows "(\<forall>ev \<in> set (fst (tx_run rs cmds (worker_init t))). \<forall>p \<in> set (fec_frames ev).
            UNDERLAY_IPV4_UDP_OVERHEAD + length p \<le> mtu) \<and> 512 \<le> e \<and> e \<le> 1279 \<and> e \<le> configured"
proof -
  have e: "UNDERLAY_IPV4_UDP_OVERHEAD + FEC_COMPACT_HEADER_LEN + e \<le> mtu" "512 \<le> e" "e \<le> 1279" "e \<le> configured"
    using assms(2) by (auto simp: effective_shard_payload_size_def Let_def FEC_SHARD_PAYLOAD_MIN_def
        FEC_SHARD_PAYLOAD_SIZE_def split: if_splits)
  then have "e < 2 ^ 16" by simp
  from tx_run_keeps [OF assms(1) tx_ok_init [OF assms(3)] this assms(4)] e show ?thesis
    by (fastforce simp: tx_keeps_def case_prod_unfold)
qed

definition sample_env :: tx_env where
  "sample_env = \<lparr>te_now = 0, te_now' = 0, te_salt = 7, te_queue_len = (\<lambda>_. 0), te_max_queue = 100, te_accept = (\<lambda>_ _ _. True)\<rparr>"

definition sample_cmds :: "(tx_env \<times> TxCmd) list" where
  "sample_cmds = map (Pair sample_env)
     [Push (V4 1 2) (replicate 300 1) 2 1 None (None, None), Push (V4 1 2) (replicate 400 2) 2 1 None (None, None),
      Push (V4 1 2) (replicate 500 3) 2 1 None (None, None), Retune FecTxTuning_default, Stop]"


lemma fec_frames_fit_path_witness:
  "list_all (\<lambda>ev. list_all (\<lambda>p. UNDERLAY_IPV4_UDP_OVERHEAD + length p \<le> 1400) (fec_frames ev))
      (fst (tx_run xor_code sample_cmds (worker_init FecTxTuning_default))) \<and> effective_shard_payload_size 1279 1400 = Some 1279"
proof -
  have "effective_shard_payload_size 1279 1400 = Some 1279" by code_simp
  then show ?thesis
    using fec_frames_fit_path [OF xor_code_systematic, of 1279 1400 1279 FecTxTuning_default sample_cmds]
    by (simp add: FecTxTuning_default_def FEC_SHARD_PAYLOAD_SIZE_def cmd_ok_def sample_cmds_def list_all_iff)
qed

end
