(* ===== verification/Fec_Decoder.thy ===== *)
theory Fec_Decoder
  imports Fec_Inv
begin

text \<open>
  \<^verbatim>\<open>src/src/net/fec.rs\<close>, receiving side: partial groups, eviction, reconstruction and extraction. The
  clock readings of \<^verbatim>\<open>push_shard\<close> are arguments: \<open>now\<close> at its start, \<open>now'\<close> when a group is created.
  The properties: the decoder's memory is bounded whatever arrives, and any \<open>k\<close> distinct shards of
  a group give back its \<open>k\<close> packets.
\<close>

section \<open>State\<close>

definition FEC_DECODER_EVICT_INTERVAL :: duration where "FEC_DECODER_EVICT_INTERVAL = from_millis 50"
definition FEC_COMPLETED_GROUPS_CAP :: nat where "FEC_COMPLETED_GROUPS_CAP = 128"

record PartialGroup =
  pg_data_shards :: nat
  pg_parity_shards :: nat
  pg_shard_size :: nat
  pg_received :: "bytes option list"
  pg_received_count :: nat
  pg_created_at :: instant

record FecDecoder =
  fd_groups :: "(u32, PartialGroup) table"
  fd_completed_groups :: "u32 list"
  fd_group_ttl :: duration
  fd_max_groups :: nat
  fd_reconstruct_rs :: "(nat \<times> nat) option"
  fd_last_evict :: instant

record FecDecodeResult =
  dr_recovered :: "bytes list"
  dr_invalid :: bool
  dr_shards_new :: nat
  dr_shards_missing :: nat

definition invalid_with_missing :: "nat \<Rightarrow> FecDecodeResult" where
  "invalid_with_missing missing = \<lparr>dr_recovered = [], dr_invalid = True, dr_shards_new = 0, dr_shards_missing = missing\<rparr>"

definition result_ok :: "bytes list \<Rightarrow> nat \<Rightarrow> nat \<Rightarrow> FecDecodeResult" where
  "result_ok recovered shards_new missing =
     \<lparr>dr_recovered = recovered, dr_invalid = False, dr_shards_new = shards_new, dr_shards_missing = missing\<rparr>"

definition group_shards_missing :: "PartialGroup \<Rightarrow> nat" where
  "group_shards_missing g = length (pg_received g) mod 2 ^ 16 - pg_received_count g"

definition FecDecoder_new :: "instant \<Rightarrow> FecDecoder" where
  "FecDecoder_new now = \<lparr>fd_groups = [], fd_completed_groups = [], fd_group_ttl = from_millis 200,
     fd_max_groups = 256, fd_reconstruct_rs = None, fd_last_evict = now\<rparr>"

section \<open>Operations\<close>

definition note_completed :: "u32 \<Rightarrow> FecDecoder \<Rightarrow> FecDecoder" where
  "note_completed group_id d =
     (let q = (if length (fd_completed_groups d) \<ge> FEC_COMPLETED_GROUPS_CAP then tl (fd_completed_groups d)
               else fd_completed_groups d) in
      d\<lparr>fd_completed_groups := q @ [group_id]\<rparr>)"

definition group_live :: "duration \<Rightarrow> instant \<Rightarrow> PartialGroup \<Rightarrow> bool" where
  "group_live ttl now g = (duration_since now (pg_created_at g) < ttl)"

definition evict_at :: "instant \<Rightarrow> FecDecoder \<Rightarrow> nat \<times> FecDecoder" where
  "evict_at now d =
     (fold (\<lambda>(_, g) missing. if group_live (fd_group_ttl d) now g then missing
                              else sat_add 16 missing (group_shards_missing g)) (fd_groups d) 0,
      d\<lparr>fd_groups := tab_retain (\<lambda>_ g. group_live (fd_group_ttl d) now g) (fd_groups d)\<rparr>)"

definition evict_expired :: "instant \<Rightarrow> FecDecoder \<Rightarrow> nat \<times> FecDecoder" where
  "evict_expired now d = (let (missing, d) = evict_at now d in (missing, d\<lparr>fd_last_evict := now\<rparr>))"

definition evict_oldest_group :: "FecDecoder \<Rightarrow> nat \<times> FecDecoder" where
  "evict_oldest_group d =
     (case min_by (\<lambda>(_, g). pg_created_at g) (fd_groups d) of
        Some (k, g) \<Rightarrow> (group_shards_missing g, d\<lparr>fd_groups := tab_del k (fd_groups d)\<rparr>)
      | None \<Rightarrow> (0, d))"

definition drop_group :: "u32 \<Rightarrow> nat \<Rightarrow> FecDecoder \<Rightarrow> FecDecodeResult \<times> FecDecoder" where
  "drop_group group_id missing d =
     (invalid_with_missing (case tab_get (fd_groups d) group_id of
          Some g \<Rightarrow> sat_add 16 missing (group_shards_missing g) | None \<Rightarrow> missing),
      d\<lparr>fd_groups := tab_del group_id (fd_groups d)\<rparr>)"

definition take_group_as_missing :: "u32 \<Rightarrow> FecDecoder \<Rightarrow> (bytes list \<times> nat) \<times> FecDecoder" where
  "take_group_as_missing group_id d =
     (([], case tab_get (fd_groups d) group_id of Some g \<Rightarrow> group_shards_missing g | None \<Rightarrow> 0),
      d\<lparr>fd_groups := tab_del group_id (fd_groups d)\<rparr>)"

text \<open>A shard whose length prefix exceeds it is skipped. The prefix is read from the first two bytes.\<close>

definition unpack_shard :: "bytes option \<Rightarrow> bytes option" where
  "unpack_shard shard =
     (case shard of
        None \<Rightarrow> None
      | Some s \<Rightarrow>
          let orig_len = unat (u16_from_le (take 2 s)) in
          if orig_len > length s - FEC_SHARD_LEN_PREFIX then None
          else Some (take orig_len (drop FEC_SHARD_LEN_PREFIX s)))"

definition extract_data :: "u32 \<Rightarrow> FecDecoder \<Rightarrow> (bytes list \<times> nat) \<times> FecDecoder" where
  "extract_data group_id d =
     (case tab_get (fd_groups d) group_id of
        None \<Rightarrow> (([], 0), d)
      | Some g \<Rightarrow>
          ((List.map_filter unpack_shard (take (pg_data_shards g) (pg_received g)), group_shards_missing g),
           d\<lparr>fd_groups := tab_del group_id (fd_groups d)\<rparr>))"

definition reconstruct_and_extract :: "rs_code \<Rightarrow> u32 \<Rightarrow> FecDecoder \<Rightarrow> (bytes list \<times> nat) \<times> FecDecoder" where
  "reconstruct_and_extract rs group_id d =
     (case tab_get (fd_groups d) group_id of
        None \<Rightarrow> (([], 0), d)
      | Some g \<Rightarrow>
          let dn = pg_data_shards g; pn = pg_parity_shards g;
              need_rebuild = (fd_reconstruct_rs d \<noteq> Some (dn, pn)) in
          if need_rebuild \<and> \<not> rs_new rs dn pn then take_group_as_missing group_id d
          else
            let d = d\<lparr>fd_reconstruct_rs := Some (dn, pn)\<rparr> in
            case rs_reconstruct rs dn pn (pg_received g) of
              None \<Rightarrow> take_group_as_missing group_id d
            | Some full \<Rightarrow>
                extract_data group_id (d\<lparr>fd_groups := tab_put group_id (g\<lparr>pg_received := full\<rparr>) (fd_groups d)\<rparr>))"

text \<open>
  \<^verbatim>\<open>push_shard\<close> in three parts: \<open>push_shard\<close> checks the header, \<open>store_shard\<close> makes room and fetches the
  group, \<open>store_into\<close> adds the shard to it and closes the group when it can.
\<close>

definition add_shard :: "nat \<Rightarrow> bytes \<Rightarrow> PartialGroup \<Rightarrow> PartialGroup" where
  "add_shard shard_idx payload g =
     g\<lparr>pg_received := (pg_received g)[shard_idx := Some payload],
       pg_received_count := sat_add 8 (pg_received_count g) 1\<rparr>"

definition store_into ::
    "rs_code \<Rightarrow> u32 \<Rightarrow> nat \<Rightarrow> nat \<Rightarrow> nat \<Rightarrow> nat \<Rightarrow> bytes \<Rightarrow> nat \<Rightarrow> PartialGroup \<Rightarrow> FecDecoder \<Rightarrow> FecDecodeResult \<times> FecDecoder" where
  "store_into rs group_id shard_idx data_shards parity_shards shard_size payload missing g d =
     (if pg_data_shards g \<noteq> data_shards \<or> pg_parity_shards g \<noteq> parity_shards \<or> pg_shard_size g \<noteq> shard_size
         \<or> length (pg_received g) \<noteq> data_shards + parity_shards
      then drop_group group_id missing d
      else if pg_received g ! shard_idx \<noteq> None then (result_ok [] 0 missing, d)
      else
        let g = add_shard shard_idx payload g;
            d = d\<lparr>fd_groups := tab_put group_id g (fd_groups d)\<rparr>;
            data_count = length (filter (\<lambda>x. x \<noteq> None) (take (pg_data_shards g) (pg_received g))) in
        if data_count = pg_data_shards g then
          let ((recovered, _), d) = extract_data group_id d in
          (result_ok recovered 1 missing, note_completed group_id d)
        else if pg_received_count g \<ge> pg_data_shards g then
          let ((recovered, close_missing), d) = reconstruct_and_extract rs group_id d in
          (result_ok recovered 1 (sat_add 16 missing close_missing), note_completed group_id d)
        else (result_ok [] 1 missing, d))"

definition fresh_group :: "nat \<Rightarrow> nat \<Rightarrow> nat \<Rightarrow> instant \<Rightarrow> PartialGroup" where
  "fresh_group dn pn sz t = \<lparr>pg_data_shards = dn, pg_parity_shards = pn, pg_shard_size = sz,
     pg_received = replicate (dn + pn) None, pg_received_count = 0, pg_created_at = t\<rparr>"

definition group_for :: "u32 \<Rightarrow> PartialGroup \<Rightarrow> FecDecoder \<Rightarrow> PartialGroup" where
  "group_for k new d = (case tab_get (fd_groups d) k of Some g \<Rightarrow> g | None \<Rightarrow> new)"

definition store_shard ::
    "rs_code \<Rightarrow> instant \<Rightarrow> u32 \<Rightarrow> nat \<Rightarrow> nat \<Rightarrow> nat \<Rightarrow> nat \<Rightarrow> bytes \<Rightarrow> nat \<Rightarrow> FecDecoder \<Rightarrow> FecDecodeResult \<times> FecDecoder" where
  "store_shard rs now' group_id shard_idx data_shards parity_shards shard_size payload missing d =
     (let (missing, d) =
            (if tab_get (fd_groups d) group_id = None \<and> length (fd_groups d) \<ge> fd_max_groups d then
               let (m', d) = evict_oldest_group d in (sat_add 16 missing m', d)
             else (missing, d));
          g = group_for group_id (fresh_group data_shards parity_shards shard_size now') d in
      store_into rs group_id shard_idx data_shards parity_shards shard_size payload missing g
        (d\<lparr>fd_groups := tab_put group_id g (fd_groups d)\<rparr>))"

definition push_shard :: "rs_code \<Rightarrow> instant \<Rightarrow> instant \<Rightarrow> bytes \<Rightarrow> FecDecoder \<Rightarrow> FecDecodeResult \<times> FecDecoder" where
  "push_shard rs now now' raw d =
     (let (missing, d) =
            (if duration_since now (fd_last_evict d) \<ge> FEC_DECODER_EVICT_INTERVAL then evict_expired now d
             else (0, d)) in
      if length raw < FEC_COMPACT_HEADER_LEN \<or> raw ! 0 \<noteq> to_byte CompactPacketType.Fec
      then (invalid_with_missing missing, d)
      else
        let group_id = u32_from_le [raw ! 1, raw ! 2, raw ! 3, raw ! 4] in
        if list_ex (\<lambda>i. i = group_id) (fd_completed_groups d) then (result_ok [] 0 missing, d)
        else
          let shard_idx = unat (raw ! 5);
              data_shards = unat (raw ! 6);
              parity_shards = unat (raw ! 7);
              shard_size = unat (u16_from_le [raw ! 8, raw ! 9]);
              shard_data = drop FEC_COMPACT_HEADER_LEN raw;
              total_n = data_shards + parity_shards in
          if total_n = 0 \<or> total_n > FEC_MAX_TOTAL_SHARDS \<or> shard_idx \<ge> total_n \<or> length shard_data < shard_size
             \<or> shard_size < FEC_SHARD_LEN_PREFIX \<or> shard_size > FEC_SHARD_PAYLOAD_SIZE
          then drop_group group_id missing d
          else store_shard rs now' group_id shard_idx data_shards parity_shards shard_size
                 (take shard_size shard_data) missing d)"

section \<open>Bounded memory\<close>

definition received_n :: "bytes option list \<Rightarrow> nat" where
  "received_n xs = length (filter (\<lambda>x. x \<noteq> None) xs)"

definition group_ok :: "PartialGroup \<Rightarrow> bool" where
  "group_ok g =
     (length (pg_received g) = pg_data_shards g + pg_parity_shards g \<and> length (pg_received g) \<le> 64
      \<and> 2 \<le> pg_shard_size g \<and> pg_shard_size g \<le> 1279
      \<and> pg_received_count g = received_n (pg_received g) \<and> pg_received_count g < pg_data_shards g
      \<and> (\<forall>s. Some s \<in> set (pg_received g) \<longrightarrow> length s = pg_shard_size g))"

definition dec_inv :: "FecDecoder \<Rightarrow> bool" where
  "dec_inv d =
     (tab_ok (fd_groups d) \<and> length (fd_groups d) \<le> fd_max_groups d \<and> fd_max_groups d = 256
      \<and> length (fd_completed_groups d) \<le> 128 \<and> fd_group_ttl d = from_millis 200
      \<and> (\<forall>k g. tab_get (fd_groups d) k = Some g \<longrightarrow> group_ok g))"

lemma dec_inv_new: "dec_inv (FecDecoder_new now)"
  by (simp add: dec_inv_def FecDecoder_new_def)

lemma dec_inv_subset:
  assumes "dec_inv d" and "tab_ok t" and "length t \<le> length (fd_groups d)"
    and "\<And>k g. tab_get t k = Some g \<Longrightarrow> tab_get (fd_groups d) k = Some g"
  shows "dec_inv (d\<lparr>fd_groups := t\<rparr>)"
  using assms by (fastforce simp: dec_inv_def)

lemma dec_inv_del: "dec_inv d \<Longrightarrow> dec_inv (d\<lparr>fd_groups := tab_del k (fd_groups d)\<rparr>)"
  by (rule dec_inv_subset) (auto simp: dec_inv_def tab_get_del length_tab_del_le split: if_splits)

lemma dec_inv_put:
  assumes "dec_inv d" and "group_ok g" and "tab_get (fd_groups d) k \<noteq> None \<or> length (fd_groups d) < 256"
  shows "dec_inv (d\<lparr>fd_groups := tab_put k g (fd_groups d)\<rparr>)"
  using assms by (auto simp: dec_inv_def tab_get_put length_tab_put)

lemma dec_inv_rs: "dec_inv (d\<lparr>fd_reconstruct_rs := r\<rparr>) = dec_inv d" "dec_inv (d\<lparr>fd_last_evict := t\<rparr>) = dec_inv d"
  "dec_inv (d\<lparr>fd_reconstruct_rs := r, fd_groups := u\<rparr>) = dec_inv (d\<lparr>fd_groups := u\<rparr>)"
  by (simp_all add: dec_inv_def)

lemma note_completed_inv: "dec_inv d \<Longrightarrow> dec_inv (note_completed k d)"
  by (auto simp: dec_inv_def note_completed_def FEC_COMPLETED_GROUPS_CAP_def Let_def)

lemma evict_expired_inv: "dec_inv d \<Longrightarrow> dec_inv (snd (evict_expired now d))"
proof -
  assume d: "dec_inv d"
  have "dec_inv (d\<lparr>fd_groups := tab_retain (\<lambda>_ g. group_live (fd_group_ttl d) now g) (fd_groups d)\<rparr>)"
    using d by (intro dec_inv_subset)
      (auto simp: dec_inv_def tab_get_retain split: option.splits if_splits, simp add: tab_retain_def)
  then show ?thesis by (simp add: evict_expired_def evict_at_def dec_inv_rs)
qed

lemma evict_oldest_inv:
  assumes "dec_inv d"
  shows "dec_inv (snd (evict_oldest_group d))"
  using dec_inv_del [OF assms] assms by (auto simp: evict_oldest_group_def split: option.splits)

lemma evict_oldest_room:
  assumes "dec_inv d"
  shows "length (fd_groups (snd (evict_oldest_group d))) < 256"
proof (cases "min_by (\<lambda>(_, g). pg_created_at g) (fd_groups d)")
  case None
  then show ?thesis by (simp add: evict_oldest_group_def)
next
  case (Some e)
  obtain k g where e: "e = (k, g)" by fastforce
  from min_by_Some [OF Some] have "tab_get (fd_groups d) k = Some g"
    using assms by (auto simp: e dec_inv_def tab_mem_iff)
  then have "Suc (length (tab_del k (fd_groups d))) = length (fd_groups d)"
    using assms by (intro length_tab_del) (simp_all add: dec_inv_def)
  with assms Some e show ?thesis by (simp add: evict_oldest_group_def dec_inv_def)
qed

lemma evict_oldest_get: "tab_get (fd_groups d) k = None \<Longrightarrow> tab_get (fd_groups (snd (evict_oldest_group d))) k = None"
  by (auto simp: evict_oldest_group_def tab_get_del split: option.splits)

text \<open>Making room and fetching the group, the first half of \<open>store_shard\<close>.\<close>

definition make_room :: "u32 \<Rightarrow> FecDecoder \<Rightarrow> FecDecoder" where
  "make_room k d = (if tab_get (fd_groups d) k = None \<and> length (fd_groups d) \<ge> fd_max_groups d
                    then snd (evict_oldest_group d) else d)"

lemma make_room_inv: "dec_inv d \<Longrightarrow> dec_inv (make_room k d)"
  using evict_oldest_inv by (simp add: make_room_def)

lemma make_room_get: "tab_get (fd_groups (make_room k d)) k = tab_get (fd_groups d) k"
  using evict_oldest_get [of d k] by (simp add: make_room_def)

lemma make_room_completed: "fd_completed_groups (make_room k d) = fd_completed_groups d"
  by (auto simp: make_room_def evict_oldest_group_def split: option.splits)

lemma make_room_room: "dec_inv d \<Longrightarrow> tab_get (fd_groups (make_room k d)) k \<noteq> None \<or> length (fd_groups (make_room k d)) < 256"
  using evict_oldest_room [of d] by (auto simp: make_room_def dec_inv_def)

lemma received_n_update:
  "i < length xs \<Longrightarrow> xs ! i = None \<Longrightarrow> received_n (xs[i := Some v]) = Suc (received_n xs)"
proof (induction xs arbitrary: i)
  case (Cons x xs)
  then show ?case by (cases i) (auto simp: received_n_def)
qed simp

lemma received_n_take: "received_n (take k xs) \<le> received_n xs"
proof -
  have "received_n xs = received_n (take k xs) + received_n (drop k xs)"
    unfolding received_n_def by (metis append_take_drop_id filter_append length_append)
  then show ?thesis by simp
qed

lemma received_n_le: "received_n xs \<le> length xs"
  by (simp add: received_n_def)

lemma store_shard_eq:
  "\<exists>missing'. store_shard rs now' k i dn pn sz payload missing d =
     (let d1 = make_room k d; g = group_for k (fresh_group dn pn sz now') d1 in
      store_into rs k i dn pn sz payload missing' g (d1\<lparr>fd_groups := tab_put k g (fd_groups d1)\<rparr>))"
  by (auto simp: store_shard_def make_room_def case_prod_unfold Let_def)

lemma tab_put_put: "tab_put k v (tab_put k w t) = tab_put k v t"
  by (induction t) (auto simp: tab_put_def)

lemma extract_state:
  "tab_get (fd_groups d) k = Some g \<Longrightarrow> snd (extract_data k d) = d\<lparr>fd_groups := tab_del k (fd_groups d)\<rparr>"
  by (simp add: extract_data_def)

lemma reconstruct_state:
  assumes "tab_get (fd_groups d) k = Some g"
  shows "snd (reconstruct_and_extract rs k d) \<in> {d\<lparr>fd_groups := tab_del k (fd_groups d)\<rparr>,
     d\<lparr>fd_reconstruct_rs := Some (pg_data_shards g, pg_parity_shards g), fd_groups := tab_del k (fd_groups d)\<rparr>}"
  using assms
  by (auto simp: reconstruct_and_extract_def Let_def take_group_as_missing_def extract_data_def tab_get_put
      tab_del_put split: option.splits)

lemma store_shard_inv:
  assumes d: "dec_inv d" and n: "dn + pn \<le> 64" "i < dn + pn" and sz: "2 \<le> sz" "sz \<le> 1279" "length payload = sz"
  shows "dec_inv (snd (store_shard rs now' k i dn pn sz payload missing d))"
proof -
  define d1 where "d1 = make_room k d"
  define g where "g = group_for k (fresh_group dn pn sz now') d1"
  define g' where "g' = add_shard i payload g"
  have d1: "dec_inv d1" "tab_get (fd_groups d1) k \<noteq> None \<or> length (fd_groups d1) < 256"
    using make_room_inv [OF d] make_room_room [OF d] by (simp_all add: d1_def)
  have g: "tab_get (fd_groups d1) k = Some g \<and> group_ok g \<or> g = fresh_group dn pn sz now'"
    using d1(1) by (auto simp: g_def group_for_def dec_inv_def split: option.splits)
  have del: "dec_inv (d1\<lparr>fd_groups := tab_del k (fd_groups d1)\<rparr>)" by (rule dec_inv_del [OF d1(1)])
  have "dec_inv (d1\<lparr>fd_groups := tab_put k g (fd_groups d1)\<rparr>)"
    if "length (pg_received g) = dn + pn" "pg_received g ! i \<noteq> None"
    using g that n(2) by (auto simp: fresh_group_def intro: dec_inv_put [OF d1(1) _ d1(2)])
  moreover have "dec_inv (d1\<lparr>fd_groups := tab_put k g' (fd_groups d1)\<rparr>)"
    if m: "pg_data_shards g = dn" "pg_parity_shards g = pn" "pg_shard_size g = sz" "length (pg_received g) = dn + pn"
      "pg_received g ! i = None" "pg_received_count g' < dn"
  proof (rule dec_inv_put [OF d1(1) _ d1(2)])
    have c: "pg_received_count g = received_n (pg_received g)"
      using g by (auto simp: group_ok_def fresh_group_def received_n_def)
    then have "pg_received_count g' = received_n (pg_received g')"
      using received_n_le [of "pg_received g"] m(4,5) n
      by (simp add: g'_def add_shard_def received_n_update sat_add_def)
    moreover have "length s = sz" if "Some s \<in> set (pg_received g')" for s
      using that g sz(3) m(3) n(2)
      by (auto simp: g'_def add_shard_def group_ok_def fresh_group_def dest!: set_update_subset_insert [THEN subsetD])
    ultimately show "group_ok g'"
      using m n sz by (simp add: group_ok_def) (simp add: g'_def add_shard_def)
  qed
  moreover have "dec_inv (snd (extract_data k (d1\<lparr>fd_groups := tab_put k g' (fd_groups d1)\<rparr>)))"
    using del by (subst extract_state [of _ _ g']) (simp_all add: tab_get_put tab_del_put)
  moreover have "dec_inv (snd (reconstruct_and_extract rs k (d1\<lparr>fd_groups := tab_put k g' (fd_groups d1)\<rparr>)))"
  proof -
    have "tab_get (fd_groups (d1\<lparr>fd_groups := tab_put k g' (fd_groups d1)\<rparr>)) k = Some g'" by (simp add: tab_get_put)
    from reconstruct_state [OF this, of rs] del show ?thesis by (auto simp: tab_del_put dec_inv_rs)
  qed
  moreover have "dec_inv (snd (drop_group k m (d1\<lparr>fd_groups := tab_put k g (fd_groups d1)\<rparr>)))" for m
    using del by (simp add: drop_group_def tab_del_put)
  moreover have "pg_data_shards g' = pg_data_shards g" by (simp add: g'_def add_shard_def)
  ultimately have "dec_inv (snd (store_into rs k i dn pn sz payload m g (d1\<lparr>fd_groups := tab_put k g (fd_groups d1)\<rparr>)))" for m
    unfolding store_into_def g'_def [symmetric]
    by (auto simp: Let_def tab_put_put case_prod_unfold intro: note_completed_inv)
  with store_shard_eq [of rs now' k i dn pn sz payload missing d] show ?thesis
    by (auto simp: d1_def [symmetric] g_def [symmetric] Let_def)
qed

lemma push_shard_inv: "dec_inv d \<Longrightarrow> dec_inv (snd (push_shard rs now now' raw d))"
proof -
  assume d: "dec_inv d"
  define r where "r = (if duration_since now (fd_last_evict d) \<ge> FEC_DECODER_EVICT_INTERVAL then evict_expired now d else (0, d))"
  have r: "dec_inv (snd r)" using evict_expired_inv [OF d] d by (simp add: r_def)
  have "dec_inv (snd (drop_group k m (snd r)))" for k m
    using dec_inv_del [OF r] by (simp add: drop_group_def)
  moreover have "dec_inv (snd (store_shard rs now' k (unat (raw ! 5)) (unat (raw ! 6)) (unat (raw ! 7)) sz (take sz (drop FEC_COMPACT_HEADER_LEN raw)) m (snd r)))"
    if "\<not> (unat (raw ! 6) + unat (raw ! 7) > FEC_MAX_TOTAL_SHARDS \<or> unat (raw ! 5) \<ge> unat (raw ! 6) + unat (raw ! 7)
      \<or> length (drop FEC_COMPACT_HEADER_LEN raw) < sz \<or> sz < FEC_SHARD_LEN_PREFIX \<or> sz > FEC_SHARD_PAYLOAD_SIZE)" for k m sz
    using that by (intro store_shard_inv [OF r])
      (simp_all add: FEC_MAX_TOTAL_SHARDS_def FEC_SHARD_LEN_PREFIX_def FEC_SHARD_PAYLOAD_SIZE_def not_less)
  ultimately show ?thesis
    using r by (simp add: push_shard_def r_def [symmetric] Let_def case_prod_unfold)
qed

interpretation fec_decoder: invariant_machine "\<lambda>(now, now', raw). snd \<circ> push_shard rs now now' raw" dec_inv for rs
  by unfold_locales (auto intro: push_shard_inv)

section \<open>Recovery\<close>

text \<open>
  What the decoder relies on: given at least \<open>k\<close> of the \<open>k + m\<close> shards of an encoded group at their
  places, reconstruction fills in the others.
\<close>

definition rs_recovers :: "rs_code \<Rightarrow> nat \<Rightarrow> nat \<Rightarrow> bool" where
  "rs_recovers rs k m =
     (rs_new rs k m \<and>
      (\<forall>shards enc recv. rs_encode rs k m shards = Some enc \<and> length shards = k + m \<and> length enc = k + m
          \<and> (\<forall>s \<in> set shards. length s = length (hd shards))
          \<and> length recv = k + m \<and> (\<forall>i < k + m. recv ! i = None \<or> recv ! i = Some (enc ! i)) \<and> k \<le> received_n recv
        \<longrightarrow> rs_reconstruct rs k m recv = Some (map Some enc)))"

text \<open>The group after the shards with the indices in \<open>A\<close> have arrived.\<close>

definition grp :: "bytes list \<Rightarrow> nat \<Rightarrow> nat \<Rightarrow> nat \<Rightarrow> instant \<Rightarrow> nat set \<Rightarrow> PartialGroup" where
  "grp enc n m sz t A = \<lparr>pg_data_shards = n, pg_parity_shards = m, pg_shard_size = sz,
     pg_received = map (\<lambda>i. if i \<in> A then Some (enc ! i) else None) [0..<n + m],
     pg_received_count = card A, pg_created_at = t\<rparr>"

lemma grp_fields:
  "pg_data_shards (grp enc n m sz t A) = n" "pg_parity_shards (grp enc n m sz t A) = m"
  "pg_shard_size (grp enc n m sz t A) = sz" "length (pg_received (grp enc n m sz t A)) = n + m"
  "pg_received_count (grp enc n m sz t A) = card A" "pg_created_at (grp enc n m sz t A) = t"
  by (simp_all add: grp_def)

lemma grp_empty: "fresh_group n m sz t = grp enc n m sz t {}"
  by (simp add: grp_def fresh_group_def map_replicate_const)

lemma received_n_grp: "received_n (map (\<lambda>i. if i \<in> A then Some (f i) else None) [0..<k]) = card (A \<inter> {0..<k})"
proof -
  have "received_n (map (\<lambda>i. if i \<in> A then Some (f i) else None) [0..<k]) = length (filter (\<lambda>i. i \<in> A) [0..<k])"
    by (simp add: received_n_def filter_map comp_def if_distrib cong: if_cong)
  also have "\<dots> = card (A \<inter> {0..<k})"
    using distinct_card [of "filter (\<lambda>i. i \<in> A) [0..<k]"] by (simp add: Int_def conj_commute)
  finally show ?thesis .
qed

lemma add_shard_grp:
  assumes "A \<subseteq> {0..<n + m}" and "i < n + m" and "i \<notin> A" and "n + m \<le> 64"
  shows "add_shard i (enc ! i) (grp enc n m sz t A) = grp enc n m sz t (insert i A)"
proof -
  have "card A \<le> 64" using card_mono [OF _ assms(1)] assms(4) by simp
  moreover have "(map (\<lambda>i. if i \<in> A then Some (enc ! i) else None) [0..<n + m])[i := Some (enc ! i)]
      = map (\<lambda>j. if j \<in> insert i A then Some (enc ! j) else None) [0..<n + m]"
    using assms(2) by (intro nth_equalityI) (auto simp: nth_list_update)
  moreover have "finite A" using assms(1) finite_subset by blast
  ultimately show ?thesis using assms(3) by (simp add: add_shard_def grp_def sat_add_def)
qed

lemma unpack_all:
  assumes "\<forall>s \<in> set ss. 2 \<le> length s \<and> unat (u16_from_le (take 2 s)) \<le> length s - 2"
  shows "List.map_filter unpack_shard (map Some ss) = map shard_payload ss"
  using assms
  by (induction ss) (simp_all add: List.map_filter_def unpack_shard_def shard_payload_def Let_def FEC_SHARD_LEN_PREFIX_def)

definition coded :: "rs_code \<Rightarrow> nat \<Rightarrow> nat \<Rightarrow> nat \<Rightarrow> bytes list \<Rightarrow> bool" where
  "coded rs n m sz enc =
     (0 < n \<and> 0 < m \<and> n + m \<le> 64 \<and> 2 \<le> sz \<and> sz \<le> 1279 \<and> length enc = n + m \<and> (\<forall>s \<in> set enc. length s = sz)
      \<and> (\<forall>s \<in> set (take n enc). unat (u16_from_le (take 2 s)) \<le> sz - 2)
      \<and> rs_new rs n m
      \<and> (\<forall>recv. length recv = n + m \<and> (\<forall>i < n + m. recv ! i = None \<or> recv ! i = Some (enc ! i)) \<and> n \<le> received_n recv
           \<longrightarrow> rs_reconstruct rs n m recv = Some (map Some enc)))"

lemma coded_unpack: "coded rs n m sz enc \<Longrightarrow> List.map_filter unpack_shard (map Some (take n enc)) = map shard_payload (take n enc)"
  by (rule unpack_all) (auto simp: coded_def dest: in_set_takeD)

lemma extract_grp:
  assumes c: "coded rs n m sz enc" and A: "{0..<n} \<subseteq> A" and g: "tab_get (fd_groups d) k = Some (grp enc n m sz t A)"
  shows "fst (fst (extract_data k d)) = map shard_payload (take n enc)"
proof -
  have "take n (pg_received (grp enc n m sz t A)) = map Some (take n enc)"
    using A c by (intro nth_equalityI) (auto simp: grp_def coded_def)
  then show ?thesis using g coded_unpack [OF c] by (simp add: extract_data_def grp_def)
qed

lemma reconstruct_grp:
  assumes c: "coded rs n m sz enc" and A: "A \<subseteq> {0..<n + m}" "n \<le> card A"
    and g: "tab_get (fd_groups d) k = Some (grp enc n m sz t A)"
  shows "fst (fst (reconstruct_and_extract rs k d)) = map shard_payload (take n enc)"
proof -
  let ?r = "pg_received (grp enc n m sz t A)"
  have "received_n ?r = card A" using A(1) by (simp add: grp_def received_n_grp Int_absorb2)
  then have "rs_reconstruct rs n m ?r = Some (map Some enc)"
    using c A(2) by (simp add: coded_def grp_def)
  moreover have "List.map_filter unpack_shard (take n (map Some enc)) = map shard_payload (take n enc)"
    using coded_unpack [OF c] by (simp add: take_map)
  ultimately show ?thesis
    using c g by (simp add: reconstruct_and_extract_def coded_def extract_data_def tab_get_put grp_def Let_def)
qed

text \<open>What the decoder knows of the group \<open>k\<close>: it is complete, or exactly the shards in \<open>A\<close> are stored.\<close>

definition dec_knows :: "bytes list \<Rightarrow> nat \<Rightarrow> nat \<Rightarrow> nat \<Rightarrow> u32 \<Rightarrow> nat set \<Rightarrow> instant \<Rightarrow> FecDecoder \<Rightarrow> bool" where
  "dec_knows enc n m sz k A t d =
     (if n \<le> card A then k \<in> set (fd_completed_groups d)
      else k \<notin> set (fd_completed_groups d)
        \<and> tab_get (fd_groups d) k = (if A = {} then None else Some (grp enc n m sz t A)))"

lemma store_into_grp:
  assumes c: "coded rs n m sz enc" and A: "A \<subseteq> {0..<n + m}" "card A < n" and i: "i < n + m"
    and k: "k \<notin> set (fd_completed_groups d)"
    and r: "store_into rs k i n m sz (enc ! i) missing (grp enc n m sz t A)
        (d\<lparr>fd_groups := tab_put k (grp enc n m sz t A) (fd_groups d)\<rparr>) = (r, d')"
  shows "dec_knows enc n m sz k (insert i A) t d' \<and>
     dr_recovered r = (if n \<le> card (insert i A) then map shard_payload (take n enc) else [])"
proof (cases "i \<in> A")
  case True
  then have "pg_received (grp enc n m sz t A) ! i \<noteq> None" using i by (simp add: grp_def)
  then have "store_into rs k i n m sz (enc ! i) missing (grp enc n m sz t A)
      (d\<lparr>fd_groups := tab_put k (grp enc n m sz t A) (fd_groups d)\<rparr>)
    = (result_ok [] 0 missing, d\<lparr>fd_groups := tab_put k (grp enc n m sz t A) (fd_groups d)\<rparr>)"
    by (simp only: store_into_def grp_fields simp_thms if_True if_False not_False_eq_True)
  with r have "d' = d\<lparr>fd_groups := tab_put k (grp enc n m sz t A) (fd_groups d)\<rparr>" "dr_recovered r = []"
    by (auto simp: result_ok_def)
  with True A k show ?thesis by (auto simp: dec_knows_def insert_absorb tab_get_put)
next
  case False
  let ?g = "grp enc n m sz t (insert i A)"
  let ?d = "d\<lparr>fd_groups := tab_put k ?g (fd_groups d)\<rparr>"
  have get: "tab_get (fd_groups ?d) k = Some ?g" by (simp add: tab_get_put)
  have sub: "insert i A \<subseteq> {0..<n + m}" using A i by auto
  have add: "add_shard i (enc ! i) (grp enc n m sz t A) = ?g"
    using add_shard_grp [OF A(1) i False] c by (simp add: coded_def)
  have take: "take n (pg_received ?g) = map (\<lambda>j. if j \<in> insert i A then Some (enc ! j) else None) [0..<n]"
    by (simp add: grp_def take_map)
  have cnt: "received_n (take n (pg_received ?g)) = card (insert i A \<inter> {0..<n})"
    unfolding take by (rule received_n_grp)
  have fin: "finite (insert i A)" by (rule finite_subset [OF sub]) simp
  have full: "card (insert i A \<inter> {0..<n}) = n \<longleftrightarrow> {0..<n} \<subseteq> insert i A"
    using card_subset_eq [of "{0..<n}" "insert i A \<inter> {0..<n}"] by (auto simp: Int_absorb1)
  have le: "n \<le> card (insert i A)" if "{0..<n} \<subseteq> insert i A"
    using card_mono [OF fin that] by simp
  have init: "pg_received (grp enc n m sz t A) ! i = None" using False i by (simp add: grp_def)
  have res: "(r, d') = (if {0..<n} \<subseteq> insert i A then
      (result_ok (fst (fst (extract_data k ?d))) 1 missing, note_completed k (snd (extract_data k ?d)))
    else if n \<le> card (insert i A) then
      (result_ok (fst (fst (reconstruct_and_extract rs k ?d))) 1
         (sat_add 16 missing (snd (fst (reconstruct_and_extract rs k ?d)))), note_completed k (snd (reconstruct_and_extract rs k ?d)))
    else (result_ok [] 1 missing, ?d))"
  proof -
    have "store_into rs k i n m sz (enc ! i) missing (grp enc n m sz t A)
        (d\<lparr>fd_groups := tab_put k (grp enc n m sz t A) (fd_groups d)\<rparr>) =
      (if received_n (take n (pg_received ?g)) = n then
        (result_ok (fst (fst (extract_data k ?d))) 1 missing, note_completed k (snd (extract_data k ?d)))
      else if n \<le> card (insert i A) then
        (result_ok (fst (fst (reconstruct_and_extract rs k ?d))) 1
           (sat_add 16 missing (snd (fst (reconstruct_and_extract rs k ?d)))), note_completed k (snd (reconstruct_and_extract rs k ?d)))
      else (result_ok [] 1 missing, ?d))"
      by (simp only: store_into_def grp_fields init add Let_def received_n_def simp_thms if_True if_False
          case_prod_unfold tab_put_put FecDecoder.simps not_True_eq_False FecDecoder.select_convs
          FecDecoder.update_convs) (simp add: tab_put_put)
    then show ?thesis unfolding cnt full r [symmetric] by simp
  qed
  have noted: "k \<in> set (fd_completed_groups (note_completed k x))" for x
    by (simp add: note_completed_def Let_def)
  show ?thesis
  proof (cases "{0..<n} \<subseteq> insert i A")
    case True
    with res have "d' = note_completed k (snd (extract_data k ?d))" "dr_recovered r = fst (fst (extract_data k ?d))"
      by (simp_all add: result_ok_def)
    with noted le [OF True] extract_grp [OF c True get] show ?thesis by (simp add: dec_knows_def)
  next
    case part: False
    show ?thesis
    proof (cases "n \<le> card (insert i A)")
      case True
      with res part have "d' = note_completed k (snd (reconstruct_and_extract rs k ?d))"
        "dr_recovered r = fst (fst (reconstruct_and_extract rs k ?d))" by (simp_all add: result_ok_def)
      with noted True reconstruct_grp [OF c sub True get] show ?thesis by (simp add: dec_knows_def)
    next
      case False
      with res part have "d' = ?d" "dr_recovered r = []" by (simp_all add: result_ok_def)
      with False k get show ?thesis by (simp add: dec_knows_def)
    qed
  qed
qed

text \<open>The header of a frame of the group, as \<open>push_shard\<close> reads it.\<close>

lemma frame_header:
  assumes "length s \<le> 1279"
    and raw: "raw = build_fec_packet_into g i dn pn s"
  shows "raw ! 0 = to_byte CompactPacketType.Fec" "u32_from_le [raw ! 1, raw ! 2, raw ! 3, raw ! 4] = g"
    "unat (u16_from_le [raw ! 8, raw ! 9]) = length s"
proof -
  obtain a b c e where g: "u32_to_le g = [a, b, c, e]" using list_of_four [of "u32_to_le g"] by auto
  obtain x y where l: "u16_to_le (word_of_nat (length s)) = [x, y]"
    using list_of_two [of "u16_to_le (word_of_nat (length s))"] by auto
  have "u32_from_le [a, b, c, e] = g" using word_coding_roundtrip(2) [of g] by (simp add: g)
  moreover have "u16_from_le [x, y] = word_of_nat (length s)"
    using word_coding_roundtrip(1) [of "word_of_nat (length s)"] by (simp add: l)
  ultimately show "raw ! 0 = to_byte CompactPacketType.Fec" "u32_from_le [raw ! 1, raw ! 2, raw ! 3, raw ! 4] = g"
    "unat (u16_from_le [raw ! 8, raw ! 9]) = length s"
    using assms(1) by (simp_all add: raw build_fec_packet_into_def g l unat_of_nat)
qed

definition housekeep :: "instant \<Rightarrow> FecDecoder \<Rightarrow> nat \<times> FecDecoder" where
  "housekeep now d = (if duration_since now (fd_last_evict d) \<ge> FEC_DECODER_EVICT_INTERVAL then evict_expired now d else (0, d))"

lemma housekeep_keeps:
  assumes "dec_inv d"
  shows "fd_completed_groups (snd (housekeep now d)) = fd_completed_groups d"
    "tab_get (fd_groups d) k = None \<Longrightarrow> tab_get (fd_groups (snd (housekeep now d))) k = None"
    "tab_get (fd_groups d) k = Some g \<Longrightarrow> now - pg_created_at g < from_millis 200 \<Longrightarrow>
       tab_get (fd_groups (snd (housekeep now d))) k = Some g"
    "dec_inv (snd (housekeep now d))"
  using assms evict_expired_inv [OF assms, of now]
  by (auto simp: housekeep_def evict_expired_def evict_at_def tab_get_retain dec_inv_def group_live_def duration_since_def)

lemma push_frame:
  assumes c: "coded rs n m sz enc" and d: "dec_inv d" and A: "A \<subseteq> {0..<n + m}" and i: "i < n + m"
    and k: "dec_knows enc n m sz k A t d" and live: "A \<noteq> {} \<Longrightarrow> now - t < from_millis 200"
    and r: "push_shard rs now now' (build_fec_packet_into k (word_of_nat i) (word_of_nat n) (word_of_nat m) (enc ! i)) d = (r, d')"
  shows "dec_knows enc n m sz k (insert i A) (if A = {} then now' else t) d' \<and> dec_inv d' \<and>
    dr_recovered r = (if card A < n \<and> n \<le> card (insert i A) then map shard_payload (take n enc) else [])"
proof -
  let ?raw = "build_fec_packet_into k (word_of_nat i) (word_of_nat n) (word_of_nat m) (enc ! i)"
  define d1 where "d1 = snd (housekeep now d)"
  define m1 where "m1 = fst (housekeep now d)"
  have nm: "n + m \<le> 64" "2 \<le> sz" "sz \<le> 1279" "length enc = n + m" "0 < n" using c by (simp_all add: coded_def)
  have len: "length (enc ! i) = sz" using c i by (simp add: coded_def)
  note hk = housekeep_keeps [OF d, where now = now, folded d1_def]
  have hdr: "\<not> (length ?raw < FEC_COMPACT_HEADER_LEN \<or> ?raw ! 0 \<noteq> to_byte CompactPacketType.Fec)"
    "u32_from_le [?raw ! 1, ?raw ! 2, ?raw ! 3, ?raw ! 4] = k" "unat (u16_from_le [?raw ! 8, ?raw ! 9]) = sz"
    "unat (?raw ! 5) = i" "unat (?raw ! 6) = n" "unat (?raw ! 7) = m" "drop FEC_COMPACT_HEADER_LEN ?raw = enc ! i"
    using frame_header [OF _ refl, of "enc ! i" k "word_of_nat i" "word_of_nat n" "word_of_nat m"] len nm i
    by (simp_all add: build_fields unat_of_nat)
  have ok: "\<not> (n + m = 0 \<or> n + m > FEC_MAX_TOTAL_SHARDS \<or> i \<ge> n + m \<or> length (enc ! i) < sz
      \<or> sz < FEC_SHARD_LEN_PREFIX \<or> sz > FEC_SHARD_PAYLOAD_SIZE)"
    using nm i len by (simp add: FEC_MAX_TOTAL_SHARDS_def FEC_SHARD_LEN_PREFIX_def FEC_SHARD_PAYLOAD_SIZE_def)
  have push: "push_shard rs now now' ?raw d =
      (if k \<in> set (fd_completed_groups d) then (result_ok [] 0 m1, d1)
       else store_shard rs now' k i n m sz (enc ! i) m1 d1)"
    unfolding push_shard_def housekeep_def [symmetric] Let_def case_prod_unfold if_not_P [OF hdr(1)] hdr(2-)
      if_not_P [OF ok] m1_def [symmetric] d1_def [symmetric]
    using len by (simp add: list_ex_iff hk(1))
  have inv: "dec_inv d'" using push_shard_inv [OF d, of rs now now' ?raw] r by simp
  have fin: "finite A" by (rule finite_subset [OF A]) simp
  show ?thesis
  proof (cases "n \<le> card A")
    case True
    moreover have "n \<le> card (insert i A)" using True card_insert_le [of A i] by linarith
    ultimately show ?thesis
      using k push r inv hk(1) by (auto simp: dec_knows_def result_ok_def split: if_splits)
  next
    case False
    let ?t = "if A = {} then now' else t"
    have nk: "k \<notin> set (fd_completed_groups d)" and get: "tab_get (fd_groups d) k = (if A = {} then None else Some (grp enc n m sz t A))"
      using k False by (simp_all add: dec_knows_def)
    have "tab_get (fd_groups d1) k = (if A = {} then None else Some (grp enc n m sz t A))"
      using get hk(2,3) live by (simp add: grp_fields split: if_splits)
    then have g: "group_for k (fresh_group n m sz now') (make_room k d1) = grp enc n m sz ?t A"
      using grp_empty [of n m sz now' enc] by (simp add: group_for_def make_room_get)
    from store_shard_eq [of rs now' k i n m sz "enc ! i" m1 d1] obtain m2 where
      st: "store_shard rs now' k i n m sz (enc ! i) m1 d1 = store_into rs k i n m sz (enc ! i) m2 (grp enc n m sz ?t A)
        (make_room k d1\<lparr>fd_groups := tab_put k (grp enc n m sz ?t A) (fd_groups (make_room k d1))\<rparr>)"
      unfolding Let_def g by blast
    have "k \<notin> set (fd_completed_groups (make_room k d1))" using nk by (simp add: make_room_completed hk(1))
    from store_into_grp [OF c A _ i this, of m2 ?t r d'] False r push nk st inv show ?thesis by simp
  qed
qed

section \<open>Properties\<close>

text \<open>A run of the decoder over arriving datagrams; the result is all the packets it gave back, in order.\<close>

fun dec_run :: "rs_code \<Rightarrow> (instant \<times> instant \<times> bytes) list \<Rightarrow> FecDecoder \<Rightarrow> bytes list \<times> FecDecoder" where
  "dec_run rs [] d = ([], d)"
| "dec_run rs ((now, now', raw) # xs) d =
     (let (r, d) = push_shard rs now now' raw d; (ps, d) = dec_run rs xs d in (dr_recovered r @ ps, d))"

lemma dec_run_inv: "dec_inv d \<Longrightarrow> dec_inv (snd (dec_run rs xs d))"
proof (induction xs arbitrary: d)
  case (Cons x xs)
  obtain now now' raw where x: "x = (now, now', raw)" by (cases x)
  have "dec_inv (snd (push_shard rs now now' raw d))" by (rule push_shard_inv [OF Cons.prems])
  from Cons.IH [OF this] show ?case by (simp add: x case_prod_unfold Let_def)
qed simp

text \<open>
  C20. The decoder's memory is bounded whatever datagrams arrive: at most 256 groups and 128 remembered group
  identifiers; every stored group has at most 64 places, counts exactly the shards it holds, holds
  fewer than it needs, and all its shards have its shard size, which is between 2 and 1279 bytes.
\<close>

theorem fec_decoder_bounded:
  "let d = snd (dec_run rs xs (FecDecoder_new t)) in
   length (fd_groups d) \<le> 256 \<and> length (fd_completed_groups d) \<le> 128
   \<and> list_all (\<lambda>(k, g). length (pg_received g) = pg_data_shards g + pg_parity_shards g \<and> length (pg_received g) \<le> 64
        \<and> pg_received_count g = length (filter (\<lambda>x. x \<noteq> None) (pg_received g)) \<and> pg_received_count g < pg_data_shards g
        \<and> 2 \<le> pg_shard_size g \<and> pg_shard_size g \<le> 1279
        \<and> list_all (\<lambda>s. case s of None \<Rightarrow> True | Some x \<Rightarrow> length x = pg_shard_size g) (pg_received g)) (fd_groups d)"
proof -
  define d where "d = snd (dec_run rs xs (FecDecoder_new t))"
  have inv: "dec_inv d" unfolding d_def by (rule dec_run_inv [OF dec_inv_new])
  then have "group_ok g" if "(k, g) \<in> set (fd_groups d)" for k g
    using that by (auto simp: dec_inv_def tab_mem_iff)
  then show ?thesis
    using inv unfolding d_def [symmetric] Let_def
    by (auto simp: list_all_iff group_ok_def received_n_def dec_inv_def split: option.splits)
qed

lemma dec_run_frames:
  assumes c: "coded rs n m sz enc"
    and "dec_inv d" and "A \<subseteq> {0..<n + m}" and "dec_knows enc n m sz k A t d" and "A \<noteq> {} \<Longrightarrow> t0 \<le> t"
    and "\<forall>(now, now', i) \<in> set xs. i < n + m \<and> t0 \<le> now' \<and> now < t0 + from_millis 200"
  shows "fst (dec_run rs (map (\<lambda>(now, now', i). (now, now', build_fec_packet_into k (word_of_nat i) (word_of_nat n)
      (word_of_nat m) (enc ! i))) xs) d) =
    (if card A < n \<and> n \<le> card (A \<union> (\<lambda>(_, _, i). i) ` set xs) then map shard_payload (take n enc) else [])"
  using assms(2-)
proof (induction xs arbitrary: d A t)
  case (Cons x xs)
  obtain now now' i where x: "x = (now, now', i)" by (cases x)
  let ?raw = "build_fec_packet_into k (word_of_nat i) (word_of_nat n) (word_of_nat m) (enc ! i)"
  let ?rest = "(\<lambda>(_, _, i). i) ` set xs"
  obtain r d' where r: "push_shard rs now now' ?raw d = (r, d')" by fastforce
  have i: "i < n + m" "t0 \<le> now'" "now < t0 + from_millis 200" using Cons.prems(5) by (auto simp: x)
  then have "now - t < from_millis 200" if "A \<noteq> {}" using Cons.prems(4) [OF that] by (simp add: from_millis_def)
  note p = push_frame [OF c Cons.prems(1,2) i(1) Cons.prems(3) this r]
  have sub: "insert i A \<subseteq> {0..<n + m}" using Cons.prems(2) i by simp
  have fin: "finite (insert i A \<union> ?rest)" using finite_subset [OF sub] by simp
  have "fst (dec_run rs (map (\<lambda>(now, now', i). (now, now', build_fec_packet_into k (word_of_nat i) (word_of_nat n)
      (word_of_nat m) (enc ! i))) xs) d') =
    (if card (insert i A) < n \<and> n \<le> card (insert i A \<union> ?rest) then map shard_payload (take n enc) else [])"
    using p sub i(2) Cons.prems(4,5) by (intro Cons.IH [where t = "if A = {} then now' else t"]) auto
  moreover have "card A \<le> card (insert i A)" "card (insert i A) \<le> card (insert i A \<union> ?rest)"
    using card_insert_le [of A i] card_mono [OF fin] by auto
  moreover have "A \<union> (\<lambda>(_, _, i). i) ` set (x # xs) = insert i A \<union> ?rest" by (auto simp: x)
  ultimately show ?case using p by (auto simp: x r case_prod_unfold Let_def)
qed auto

lemma coded_group:
  assumes rs: "rs_recovers rs n m" and n: "0 < n" "0 < m" "n + m \<le> 64" and ok: "buf_ok e" and sz: "fe_shard_payload_size e \<le> 1279"
    and enc: "rs_encode rs n m shards = Some enc" "length enc = n + m" "take n enc = map ps_shard (take n (fe_shard_buf e))"
      "\<forall>s \<in> set enc. length s = fe_shard_payload_size e" "\<forall>s \<in> set shards. length s = fe_shard_payload_size e"
      "2 \<le> fe_shard_payload_size e" "length shards = n + m"
  shows "coded rs n m (fe_shard_payload_size e) enc"
proof -
  have "shards \<noteq> []" using n(1) enc(7) by auto
  then have "\<forall>s \<in> set shards. length s = length (hd shards)" using enc(5) by auto
  moreover have "unat (u16_from_le (take 2 s)) \<le> fe_shard_payload_size e - 2" if "s \<in> set (take n enc)" for s
  proof -
    from that enc(3) obtain p where p: "p \<in> set (fe_shard_buf e)" "s = ps_shard p" by (auto dest: in_set_takeD)
    with ok have "s = make_shard (fe_shard_payload_size e) (ps_original p)"
      "length (ps_original p) + 2 \<le> fe_shard_payload_size e" by (auto simp: buf_ok_def)
    with sz show ?thesis by (simp add: make_shard_def unat_of_nat)
  qed
  ultimately show ?thesis
    using rs n sz enc unfolding coded_def rs_recovers_def by blast
qed

text \<open>
  C2. Forward error correction works end to end: take the frames an encoder emits for a group of \<open>n\<close> packets
  with \<open>m\<close> parity shards, and any decoder, whatever it has seen before, that does not know the group. Let any of the
  frames arrive within 200 ms, in any order, repeated or not. If at least \<open>n\<close> different ones arrive the decoder
  gives back the \<open>n\<close> packets, in order and once; with fewer it gives back nothing.
\<close>

theorem fec_any_n_frames_recover:
  assumes "rs_systematic rs" and "rs_recovers rs n m" and "buf_ok e" and "fe_shard_payload_size e \<le> 1279"
    and "0 < n" and "0 < m" and "n + m \<le> 64" and "n \<le> length (fe_shard_buf e)"
    and "encode_and_reset rs now n m e = (frames, e')"
    and "d = snd (dec_run rs before (FecDecoder_new t))"
    and "current_group_id e \<notin> set (fd_completed_groups d)" and "tab_get (fd_groups d) (current_group_id e) = None"
    and "list_all (\<lambda>(now, now', i). i < n + m \<and> t0 \<le> now' \<and> now < t0 + from_millis 200) arrivals"
  shows "fst (dec_run rs (map (\<lambda>(now, now', i). (now, now', frames ! i)) arrivals) d) =
     (if n \<le> card ((\<lambda>(_, _, i). i) ` set arrivals) then map ps_original (take n (fe_shard_buf e)) else [])"
proof -
  let ?sz = "fe_shard_payload_size e" and ?k = "current_group_id e"
  from encode_frames [OF assms(1,3,5,6,7,8,9)] obtain enc where
    enc: "rs_encode rs n m (map ps_shard (take n (fe_shard_buf e)) @ replicate m (replicate ?sz 0)) = Some enc"
      "length enc = n + m" "take n enc = map ps_shard (take n (fe_shard_buf e))" "\<forall>s \<in> set enc. length s = ?sz"
      "\<forall>s \<in> set (map ps_shard (take n (fe_shard_buf e)) @ replicate m (replicate ?sz 0)). length s = ?sz"
      "2 \<le> ?sz"
    and frames: "frames = map (\<lambda>(i, s). build_fec_packet_into ?k (word_of_nat i) (word_of_nat n) (word_of_nat m) s) (enumerate 0 enc)"
    by metis
  have c: "coded rs n m ?sz enc"
    using assms(8) by (intro coded_group [OF assms(2,5,6,7,3,4) enc]) simp
  have sent: "map (\<lambda>(now, now', i). (now, now', frames ! i)) arrivals = map (\<lambda>(now, now', i). (now, now',
      build_fec_packet_into ?k (word_of_nat i) (word_of_nat n) (word_of_nat m) (enc ! i))) arrivals"
    using assms(13) enc(2) by (auto simp: frames list_all_iff nth_enumerate_eq)
  have "dec_knows enc n m ?sz ?k {} 0 d" using assms(5,11,12) by (simp add: dec_knows_def)
  moreover have "dec_inv d" unfolding assms(10) by (rule dec_run_inv [OF dec_inv_new])
  moreover have "map shard_payload (take n enc) = map ps_original (take n (fe_shard_buf e))"
    unfolding enc(3) by (rule shard_payloads [OF assms(3)])
  ultimately show ?thesis
    unfolding sent using dec_run_frames [OF c, of d "{}" ?k 0 t0 arrivals] assms(5,13)
    by (simp add: list_all_iff)
qed

lemma xor_cancel:
  assumes "length a = length b"
  shows "map2 (XOR) b (map2 (XOR) a b) = (a :: bytes)" "map2 (XOR) a (map2 (XOR) a b) = (b :: bytes)"
  using assms by (induction a b rule: list_induct2) (simp_all add: xor.left_commute flip: xor.assoc)

lemma list_of_three: "length xs = 3 \<Longrightarrow> \<exists>a b c. xs = [a, b, c]"
  by (auto simp: length_Suc_conv eval_nat_numeral)

lemma xor_code_recovers: "rs_recovers xor_code 2 1"
proof -
  have "rs_reconstruct xor_code 2 1 recv = Some (map Some enc)"
    if enc: "rs_encode xor_code 2 1 shards = Some enc" "length shards = 2 + 1" "\<forall>s \<in> set shards. length s = length (hd shards)"
      and recv: "length recv = 2 + 1" "\<forall>i < 2 + 1. recv ! i = None \<or> recv ! i = Some (enc ! i)" "2 \<le> received_n recv"
    for shards enc and recv :: "bytes option list"
  proof -
    obtain a b c where s: "shards = [a, b, c]" using enc(2) list_of_three [of shards] by auto
    have e: "enc = [a, b, map2 (XOR) a b]" using enc(1) by (simp add: s xor_code_def numeral_2_eq_2)
    have len: "length a = length b" using enc(3) by (simp add: s)
    obtain x y z where r: "recv = [x, y, z]" using recv(1) list_of_three [of recv] by auto
    have "x = None \<or> x = Some a" "y = None \<or> y = Some b" "z = None \<or> z = Some (map2 (XOR) a b)"
      using recv(2) [rule_format, of 0] recv(2) [rule_format, of 1] recv(2) [rule_format, of 2] by (simp_all add: r e)
    then show ?thesis
      using recv(3) xor_cancel [OF len]
      by (auto simp: r e xor_code_def received_n_def List.map_filter_def Let_def)
  qed
  then show ?thesis unfolding rs_recovers_def by (simp add: xor_code_def)
qed

definition sample_encoder :: FecEncoder where
  "sample_encoder = (with_flush 7 3 1 16 0 0)\<lparr>fe_shard_buf :=
     [\<lparr>ps_original = [1, 2], ps_shard = make_shard 16 [1, 2]\<rparr>, \<lparr>ps_original = [3], ps_shard = make_shard 16 [3]\<rparr>]\<rparr>"

theorem fec_any_n_frames_recover_witness:
  "fst (dec_run xor_code (map (\<lambda>(now, now', i). (now, now', fst (encode_and_reset xor_code 0 2 1 sample_encoder) ! i))
      [(5, 5, 2), (6, 6, 1)]) (FecDecoder_new 0)) = [[1, 2], [3]]"
proof -
  let ?r = "encode_and_reset xor_code 0 2 1 sample_encoder" and ?arr = "[(5 :: nat, 5 :: nat, 2 :: nat), (6, 6, 1)]"
  have e: "buf_ok sample_encoder" "fe_shard_payload_size sample_encoder \<le> 1279" "2 \<le> length (fe_shard_buf sample_encoder)"
    by (simp_all add: buf_ok_def sample_encoder_def with_flush_def)
  have arr: "list_all (\<lambda>(now, now', i). i < 2 + 1 \<and> 5 \<le> now' \<and> now < 5 + from_millis 200) ?arr"
    by (simp add: from_millis_def)
  have run: "FecDecoder_new 0 = snd (dec_run xor_code [] (FecDecoder_new 0))" "?r = (fst ?r, snd ?r)" by simp_all
  have new: "current_group_id sample_encoder \<notin> set (fd_completed_groups (FecDecoder_new 0))"
    "tab_get (fd_groups (FecDecoder_new 0)) (current_group_id sample_encoder) = None" by (simp_all add: FecDecoder_new_def)
  have "fst (dec_run xor_code (map (\<lambda>(now, now', i). (now, now', fst ?r ! i)) ?arr) (FecDecoder_new 0)) =
     (if 2 \<le> card ((\<lambda>(_, _, i). i) ` set ?arr) then map ps_original (take 2 (fe_shard_buf sample_encoder)) else [])"
    by (rule fec_any_n_frames_recover [OF xor_code_systematic xor_code_recovers e(1,2) _ _ _ e(3) run(2,1) new arr]) simp_all
  then show ?thesis by (simp add: sample_encoder_def with_flush_def)
qed

end
