(* ===== verification/Tuning.thy ===== *)
theory Tuning
  imports Float64
begin

text \<open>
  The parts of \<^verbatim>\<open>src/src/advanced_tuning.rs\<close> that routing and congestion control read: failover thresholds,
  congestion settings, averaging weights, with their default values.
\<close>

section \<open>Failover\<close>

record FailoverTuning =
  fo_d2r_quality_min :: int
  fo_d2r_loss_max :: f64
  fo_d2r_jitter_max :: f64
  fo_r2d_quality_min :: int
  fo_r2d_success_min :: int
  fo_hold_down_secs :: nat

definition FailoverTuning_default :: FailoverTuning where
  "FailoverTuning_default = \<lparr>fo_d2r_quality_min = 35, fo_d2r_loss_max = f64_lit (12 / 100),
     fo_d2r_jitter_max = f64_lit 50, fo_r2d_quality_min = 50, fo_r2d_success_min = 3, fo_hold_down_secs = 2\<rparr>"

section \<open>Congestion\<close>

abbreviation DEFAULT_BURST_CAP_BYTES :: nat where "DEFAULT_BURST_CAP_BYTES \<equiv> 24000"
abbreviation DEFAULT_GAIN :: f64 where "DEFAULT_GAIN \<equiv> f64_lit (1 / 10)"
abbreviation DEFAULT_MIN_DECREASE_FACTOR :: f64 where "DEFAULT_MIN_DECREASE_FACTOR \<equiv> f64_lit (9 / 10)"
abbreviation DEFAULT_ADDITIVE_INCREASE_BPS :: f64 where "DEFAULT_ADDITIVE_INCREASE_BPS \<equiv> f64_lit 32000"
abbreviation DEFAULT_RATE_SMOOTHING_ALPHA :: f64 where "DEFAULT_RATE_SMOOTHING_ALPHA \<equiv> f64_lit (9 / 10)"
abbreviation DEFAULT_MIN_RATE_BPS :: f64 where "DEFAULT_MIN_RATE_BPS \<equiv> f64_lit 1500000"
abbreviation DEFAULT_MAX_RATE_BPS :: f64 where "DEFAULT_MAX_RATE_BPS \<equiv> f64_lit 25000000"
abbreviation DEFAULT_INITIAL_RATE_BPS :: f64 where "DEFAULT_INITIAL_RATE_BPS \<equiv> f64_lit 4000000"
abbreviation DEFAULT_LOSS_MD :: f64 where "DEFAULT_LOSS_MD \<equiv> f64_lit (9 / 10)"
abbreviation DEFAULT_HOL_ESCAPE_MS :: nat where "DEFAULT_HOL_ESCAPE_MS \<equiv> 8"
abbreviation DEFAULT_TARGET_QUEUE_DELAY_MS :: nat where "DEFAULT_TARGET_QUEUE_DELAY_MS \<equiv> 20"
abbreviation DEFAULT_DELIVERY_RATE_WINDOW_MS :: nat where "DEFAULT_DELIVERY_RATE_WINDOW_MS \<equiv> 750"
abbreviation DEFAULT_DELIVERY_RATE_EWMA_ALPHA :: f64 where "DEFAULT_DELIVERY_RATE_EWMA_ALPHA \<equiv> f64_lit (25 / 100)"
abbreviation DEFAULT_DELIVERY_ANCHOR_FACTOR :: f64 where "DEFAULT_DELIVERY_ANCHOR_FACTOR \<equiv> f64_lit (95 / 100)"
abbreviation DEFAULT_DELIVERY_DECOUPLE_RATIO :: f64 where "DEFAULT_DELIVERY_DECOUPLE_RATIO \<equiv> f64_lit (15 / 10)"
abbreviation DEFAULT_CONGESTION_LOSS_THRESHOLD :: f64 where "DEFAULT_CONGESTION_LOSS_THRESHOLD \<equiv> f64_lit (7 / 10)"

abbreviation DEFAULT_OWD_CLOCK_JUMP_REJECT_MS :: nat where "DEFAULT_OWD_CLOCK_JUMP_REJECT_MS \<equiv> 30000"
abbreviation DEFAULT_OWD_RTT_CONSISTENCY_MS :: nat where "DEFAULT_OWD_RTT_CONSISTENCY_MS \<equiv> 5000"
abbreviation DEFAULT_OWD_PREFER_AFTER_SAMPLES :: nat where "DEFAULT_OWD_PREFER_AFTER_SAMPLES \<equiv> 8"

record CongestionTuning =
  cg_rtt_base_tracking :: bool
  cg_loss_classifier_enabled :: bool
  cg_target_queue_delay_ms :: nat
  cg_congestion_loss_threshold :: f64
  cg_base_rtt_window_secs :: nat
  cg_base_rtt_stale_windows :: nat
  cg_owd_clock_jump_reject_ms :: nat
  cg_owd_rtt_consistency_ms :: nat
  cg_owd_prefer_after_samples :: nat
  cg_probe_interval_ms :: nat
  cg_fec_recovery_recency_ms :: nat
  cg_enabled :: bool
  cg_gain :: f64
  cg_hol_escape_ms :: nat
  cg_initial_rate_bps :: f64
  cg_additive_increase_bps :: f64
  cg_min_decrease_factor :: f64
  cg_rate_smoothing_alpha :: f64
  cg_min_rate_bps :: f64
  cg_max_rate_bps :: f64
  cg_loss_multiplicative_decrease :: f64
  cg_burst_cap_bytes :: nat
  cg_delivery_rate_window_ms :: nat
  cg_delivery_rate_ewma_alpha :: f64
  cg_delivery_anchor_factor :: f64
  cg_delivery_decouple_ratio :: f64

definition CongestionTuning_default :: CongestionTuning where
  "CongestionTuning_default =
     \<lparr>cg_rtt_base_tracking = True,
      cg_loss_classifier_enabled = True,
      cg_target_queue_delay_ms = DEFAULT_TARGET_QUEUE_DELAY_MS,
      cg_congestion_loss_threshold = f64_lit (7 / 10),
      cg_base_rtt_window_secs = 4,
      cg_base_rtt_stale_windows = 3,
      cg_owd_clock_jump_reject_ms = DEFAULT_OWD_CLOCK_JUMP_REJECT_MS,
      cg_owd_rtt_consistency_ms = DEFAULT_OWD_RTT_CONSISTENCY_MS,
      cg_owd_prefer_after_samples = DEFAULT_OWD_PREFER_AFTER_SAMPLES,
      cg_probe_interval_ms = 40,
      cg_fec_recovery_recency_ms = 1200,
      cg_enabled = True,
      cg_gain = DEFAULT_GAIN,
      cg_hol_escape_ms = DEFAULT_HOL_ESCAPE_MS,
      cg_initial_rate_bps = DEFAULT_INITIAL_RATE_BPS,
      cg_additive_increase_bps = DEFAULT_ADDITIVE_INCREASE_BPS,
      cg_min_decrease_factor = DEFAULT_MIN_DECREASE_FACTOR,
      cg_rate_smoothing_alpha = DEFAULT_RATE_SMOOTHING_ALPHA,
      cg_min_rate_bps = DEFAULT_MIN_RATE_BPS,
      cg_max_rate_bps = DEFAULT_MAX_RATE_BPS,
      cg_loss_multiplicative_decrease = DEFAULT_LOSS_MD,
      cg_burst_cap_bytes = DEFAULT_BURST_CAP_BYTES,
      cg_delivery_rate_window_ms = DEFAULT_DELIVERY_RATE_WINDOW_MS,
      cg_delivery_rate_ewma_alpha = DEFAULT_DELIVERY_RATE_EWMA_ALPHA,
      cg_delivery_anchor_factor = DEFAULT_DELIVERY_ANCHOR_FACTOR,
      cg_delivery_decouple_ratio = DEFAULT_DELIVERY_DECOUPLE_RATIO\<rparr>"

section \<open>Averages and quality score\<close>

record RoutingEwmaTuning =
  ew_rtt_old :: f64
  ew_rtt_new :: f64
  ew_jitter_old :: f64
  ew_jitter_new :: f64
  ew_loss_decay :: f64
  ew_loss_success_delta :: f64
  ew_loss_fail_bump :: f64
  ew_bw_old :: f64
  ew_bw_new :: f64
  ew_quality_initial :: int
  ew_quality_loss_scale :: f64
  ew_quality_loss_penalty_cap :: f64
  ew_quality_jitter_div :: f64
  ew_quality_jitter_penalty_cap :: f64
  ew_rtt_score_clamp_ms :: int

definition RoutingEwmaTuning_default :: RoutingEwmaTuning where
  "RoutingEwmaTuning_default =
     \<lparr>ew_rtt_old = f64_lit (8 / 10), ew_rtt_new = f64_lit (2 / 10), ew_jitter_old = f64_lit (8 / 10),
      ew_jitter_new = f64_lit (2 / 10), ew_loss_decay = f64_lit (85 / 100), ew_loss_success_delta = f64_lit (1 / 100),
      ew_loss_fail_bump = f64_lit (5 / 100), ew_bw_old = f64_lit (85 / 100), ew_bw_new = f64_lit (15 / 100),
      ew_quality_initial = 50, ew_quality_loss_scale = f64_lit 60, ew_quality_loss_penalty_cap = f64_lit 40,
      ew_quality_jitter_div = f64_lit 3, ew_quality_jitter_penalty_cap = f64_lit 30, ew_rtt_score_clamp_ms = 500\<rparr>"

end
