(* ===== verification/Routing.thy ===== *)
theory Routing
  imports Net_Addr Tuning "HOL-Library.Signed_Division"
begin

text \<open>
  \<^verbatim>\<open>src/src/routing.rs\<close>: paths to a peer, their scores and the choice among them; route entries with their
  quality, base delay and forward delay estimates; the routing table with its four indices, its revision and
  its tombstones; relay selection. The clock readings inside one operation are one argument \<open>now\<close>. Iteration
  over a map is iteration over the list of the table.
\<close>

section \<open>Data\<close>

definition TOMBSTONE_TTL :: duration where "TOMBSTONE_TTL = from_secs 300"
definition TOMBSTONE_MIN_RETENTION :: duration where "TOMBSTONE_MIN_RETENTION = from_secs 600"
definition TOMBSTONE_PRUNE_INTERVAL :: duration where "TOMBSTONE_PRUNE_INTERVAL = from_secs 60"

datatype RouteState = Candidate | Active | Degraded | Stale

datatype PathKind = Direct | HubRelay | IceSrflx

record NoteFailResult =
  nf_vip :: "string option"
  nf_needs_heal :: bool

section \<open>Paths\<close>

record PathCandidate =
  pc_kind :: PathKind
  pc_endpoint :: SocketAddr
  pc_smoothed_rtt_ms :: f64
  pc_loss_ewma :: f64
  pc_bandwidth_ewma_kbps :: f64
  pc_last_probed :: instant
  pc_active :: bool
  pc_consecutive_failures :: nat

definition PathCandidate_new :: "instant \<Rightarrow> PathKind \<Rightarrow> SocketAddr \<Rightarrow> bool \<Rightarrow> PathCandidate" where
  "PathCandidate_new now kind endpoint active =
     \<lparr>pc_kind = kind, pc_endpoint = endpoint, pc_smoothed_rtt_ms = Fin (- 1), pc_loss_ewma = Fin 0,
      pc_bandwidth_ewma_kbps = Fin 0, pc_last_probed = now, pc_active = active, pc_consecutive_failures = 0\<rparr>"

definition score_core :: "PathCandidate \<Rightarrow> f64" where
  "score_core p =
     (let rtt_norm = (if f64_lt (pc_smoothed_rtt_ms p) (Fin 0) then f64_lit (1 / 2)
                      else f64_min (f64_div (pc_smoothed_rtt_ms p) (f64_lit 400)) (Fin 1));
          loss = f64_min (pc_loss_ewma p) (Fin 1) in
      f64_add (f64_mul (f64_lit (7 / 10)) (f64_sub (Fin 1) rtt_norm))
        (f64_mul (f64_lit (3 / 10)) (f64_sub (Fin 1) loss)))"

definition score_advanced :: "PathCandidate \<Rightarrow> f64" where
  "score_advanced p =
     (let bw = (if f64_lt (Fin 0) (pc_bandwidth_ewma_kbps p)
                then f64_min (f64_div (pc_bandwidth_ewma_kbps p) (f64_lit 50000)) (Fin 1) else f64_lit (3 / 10)) in
      f64_add (f64_mul (f64_lit (4 / 10)) (score_core p)) (f64_mul (f64_lit (6 / 10)) bw))"

definition is_usable :: "PathCandidate \<Rightarrow> bool" where
  "is_usable p = (pc_active p \<and> pc_consecutive_failures p < 5)"

definition pc_note_rtt :: "instant \<Rightarrow> f64 \<Rightarrow> RoutingEwmaTuning \<Rightarrow> PathCandidate \<Rightarrow> PathCandidate" where
  "pc_note_rtt now rtt ew p =
     p\<lparr>pc_smoothed_rtt_ms :=
         (if f64_lt (pc_smoothed_rtt_ms p) (Fin 0) then rtt
          else f64_add (f64_mul (ew_rtt_old ew) (pc_smoothed_rtt_ms p)) (f64_mul (ew_rtt_new ew) rtt)),
       pc_loss_ewma :=
         f64_max (f64_sub (f64_mul (pc_loss_ewma p) (ew_loss_decay ew)) (ew_loss_success_delta ew)) (Fin 0),
       pc_last_probed := now, pc_consecutive_failures := 0, pc_active := True\<rparr>"

definition pc_note_failure :: "RoutingEwmaTuning \<Rightarrow> PathCandidate \<Rightarrow> PathCandidate" where
  "pc_note_failure ew p =
     p\<lparr>pc_loss_ewma := f64_min (f64_add (f64_mul (pc_loss_ewma p) (ew_loss_decay ew)) (ew_loss_fail_bump ew)) (Fin 1),
       pc_consecutive_failures := sat_add 8 (pc_consecutive_failures p) 1\<rparr>"

definition pc_note_bandwidth :: "nat \<Rightarrow> nat \<Rightarrow> RoutingEwmaTuning \<Rightarrow> PathCandidate \<Rightarrow> PathCandidate" where
  "pc_note_bandwidth bs elapsed_ms ew p =
     (if elapsed_ms = 0 then p
      else
        let kbps = f64_div (f64_mul (f64_of_nat bs) (Fin 8)) (f64_of_nat elapsed_ms) in
        p\<lparr>pc_bandwidth_ewma_kbps :=
            (if f64_le (pc_bandwidth_ewma_kbps p) (Fin 0) then kbps
             else f64_add (f64_mul (ew_bw_old ew) (pc_bandwidth_ewma_kbps p)) (f64_mul (ew_bw_new ew) kbps))\<rparr>)"

definition SWITCH_SCORE_GAP :: f64 where "SWITCH_SCORE_GAP = f64_lit (15 / 100)"
definition SWITCH_CONFIRMING_TIME :: duration where "SWITCH_CONFIRMING_TIME = from_secs 3"
definition FORCED_SWITCH_SCORE_GAP :: f64 where "FORCED_SWITCH_SCORE_GAP = f64_lit (40 / 100)"
definition CRISIS_SCORE_THRESHOLD :: f64 where "CRISIS_SCORE_THRESHOLD = f64_lit (1 / 10)"

record PathSet =
  ps_paths :: "PathCandidate option list"
  ps_active_idx :: nat
  ps_last_secondary_probe :: instant
  ps_switch_candidate_idx :: "nat option"
  ps_switch_candidate_since :: "instant option"

definition path_score :: "PathCandidate \<Rightarrow> bool \<Rightarrow> f64" where
  "path_score p advanced_scoring = (if advanced_scoring then score_advanced p else score_core p)"

definition PathSet_new :: "instant \<Rightarrow> SocketAddr \<Rightarrow> PathSet" where
  "PathSet_new now direct_ep =
     \<lparr>ps_paths = [Some (PathCandidate_new now Direct direct_ep True), None, None], ps_active_idx = 0,
      ps_last_secondary_probe = now, ps_switch_candidate_idx = None, ps_switch_candidate_since = None\<rparr>"

definition set_direct :: "instant \<Rightarrow> SocketAddr \<Rightarrow> PathSet \<Rightarrow> PathSet" where
  "set_direct now endpoint ps =
     ps\<lparr>ps_paths := (ps_paths ps)[0 := Some (case ps_paths ps ! 0 of
          Some direct \<Rightarrow> direct\<lparr>pc_endpoint := endpoint\<rparr>
        | None \<Rightarrow> PathCandidate_new now Direct endpoint True)]\<rparr>"

definition set_relay :: "instant \<Rightarrow> SocketAddr \<Rightarrow> PathSet \<Rightarrow> PathSet" where
  "set_relay now endpoint ps = ps\<lparr>ps_paths := (ps_paths ps)[1 := Some (PathCandidate_new now HubRelay endpoint True)]\<rparr>"

definition set_srflx :: "instant \<Rightarrow> SocketAddr \<Rightarrow> PathSet \<Rightarrow> PathSet" where
  "set_srflx now endpoint ps = ps\<lparr>ps_paths := (ps_paths ps)[2 := Some (PathCandidate_new now IceSrflx endpoint False)]\<rparr>"

text \<open>\<^verbatim>\<open>max_by\<close> returns the last of the elements that no other exceeds.\<close>

fun max_path :: "bool \<Rightarrow> (nat \<times> PathCandidate) list \<Rightarrow> (nat \<times> PathCandidate) option" where
  "max_path adv [] = None"
| "max_path adv (x # xs) =
     Some (fold (\<lambda>y best. if f64_lt (path_score (snd y) adv) (path_score (snd best) adv) then best else y) xs x)"

definition usable_paths :: "PathSet \<Rightarrow> (nat \<times> PathCandidate) list" where
  "usable_paths ps =
     List.map_filter (\<lambda>(i, p). case p of Some c \<Rightarrow> if is_usable c then Some (i, c) else None | None \<Rightarrow> None)
       (enumerate 0 (ps_paths ps))"

definition best_path :: "bool \<Rightarrow> PathSet \<Rightarrow> (nat \<times> PathCandidate) option" where
  "best_path advanced_scoring ps = max_path advanced_scoring (usable_paths ps)"

definition active_path :: "PathSet \<Rightarrow> PathCandidate option" where
  "active_path ps = (if ps_active_idx ps < length (ps_paths ps) then ps_paths ps ! ps_active_idx ps else None)"

definition reselect_active :: "instant \<Rightarrow> bool \<Rightarrow> PathSet \<Rightarrow> PathSet" where
  "reselect_active now adv ps =
     (let current_score = (case active_path ps of
            Some p \<Rightarrow> if is_usable p then path_score p adv else Fin 0 | None \<Rightarrow> Fin 0);
          cleared = ps\<lparr>ps_switch_candidate_idx := None, ps_switch_candidate_since := None\<rparr> in
      case best_path adv ps of
        None \<Rightarrow> ps
      | Some (best_idx, best) \<Rightarrow>
          if best_idx = ps_active_idx ps then cleared
          else
            let gap = f64_sub (path_score best adv) current_score in
            if f64_le FORCED_SWITCH_SCORE_GAP gap \<or> f64_lt current_score CRISIS_SCORE_THRESHOLD
            then cleared\<lparr>ps_active_idx := best_idx\<rparr>
            else if f64_le SWITCH_SCORE_GAP gap then
              if ps_switch_candidate_idx ps = Some best_idx then
                let since = (case ps_switch_candidate_since ps of Some t \<Rightarrow> t | None \<Rightarrow> now) in
                if duration_since now since \<ge> SWITCH_CONFIRMING_TIME then cleared\<lparr>ps_active_idx := best_idx\<rparr> else ps
              else ps\<lparr>ps_switch_candidate_idx := Some best_idx, ps_switch_candidate_since := Some now\<rparr>
            else cleared)"

definition active_endpoint_kind :: "PathSet \<Rightarrow> (SocketAddr \<times> PathKind) option" where
  "active_endpoint_kind ps = map_option (\<lambda>p. (pc_endpoint p, pc_kind p)) (active_path ps)"

definition present_paths :: "PathSet \<Rightarrow> PathCandidate list" where
  "present_paths ps = List.map_filter id (ps_paths ps)"

fun race_rest :: "PathCandidate list \<Rightarrow> SocketAddr list \<Rightarrow> SocketAddr list" where
  "race_rest [] out = out"
| "race_rest (p # ps) out =
     (if length out \<ge> 3 then out
      else if pc_consecutive_failures p \<ge> 5 then race_rest ps out
      else if pc_endpoint p \<notin> set out then race_rest ps (out @ [pc_endpoint p])
      else race_rest ps out)"

definition control_race_endpoints :: "PathSet \<Rightarrow> SocketAddr list" where
  "control_race_endpoints ps =
     (let out = (case active_endpoint_kind ps of
            Some (active_ep, _) \<Rightarrow>
              if list_ex (\<lambda>p. pc_endpoint p = active_ep \<and> pc_consecutive_failures p < 5) (present_paths ps)
              then [active_ep] else []
          | None \<Rightarrow> []) in
      race_rest (present_paths ps) out)"

text \<open>The first path with the endpoint is updated, as the loops that return on the first match do.\<close>

fun upd_first_path :: "SocketAddr \<Rightarrow> (PathCandidate \<Rightarrow> PathCandidate) \<Rightarrow> PathCandidate option list \<Rightarrow> PathCandidate option list" where
  "upd_first_path ep f [] = []"
| "upd_first_path ep f (None # ps) = None # upd_first_path ep f ps"
| "upd_first_path ep f (Some p # ps) =
     (if pc_endpoint p = ep then Some (f p) # ps else Some p # upd_first_path ep f ps)"

definition note_rtt_for_endpoint :: "instant \<Rightarrow> SocketAddr \<Rightarrow> f64 \<Rightarrow> RoutingEwmaTuning \<Rightarrow> PathSet \<Rightarrow> PathSet" where
  "note_rtt_for_endpoint now ep rtt ew ps = ps\<lparr>ps_paths := upd_first_path ep (pc_note_rtt now rtt ew) (ps_paths ps)\<rparr>"

definition note_failure_for_endpoint :: "SocketAddr \<Rightarrow> RoutingEwmaTuning \<Rightarrow> PathSet \<Rightarrow> PathSet" where
  "note_failure_for_endpoint ep ew ps = ps\<lparr>ps_paths := upd_first_path ep (pc_note_failure ew) (ps_paths ps)\<rparr>"

definition note_bandwidth_for_endpoint :: "SocketAddr \<Rightarrow> nat \<Rightarrow> nat \<Rightarrow> RoutingEwmaTuning \<Rightarrow> PathSet \<Rightarrow> PathSet" where
  "note_bandwidth_for_endpoint ep bs elapsed_ms ew ps =
     ps\<lparr>ps_paths := upd_first_path ep (pc_note_bandwidth bs elapsed_ms ew) (ps_paths ps)\<rparr>"

section \<open>Route entries\<close>

record RouteEntry =
  re_endpoint :: SocketAddr
  re_node_id :: string
  re_state :: RouteState
  re_last_seen :: instant
  re_smoothed_rtt_ms :: f64
  re_jitter_ms :: f64
  re_last_rtt_ms :: int
  re_loss_ewma :: f64
  re_quality_score :: int
  re_success_streak :: int
  re_fail_streak :: int
  re_hold_down_until :: "instant option"
  re_last_modified_revision :: u64
  re_path_set :: "PathSet option"
  re_rx_bytes :: nat
  re_rx_bw_calc_at :: instant
  re_dual_write_until :: "instant option"
  re_dual_write_old_ep :: "SocketAddr option"
  re_dual_write_old_kind :: "PathKind option"
  re_rtt_base_ms :: f64
  re_rtt_base_window_min :: f64
  re_rtt_base_window_start :: instant
  re_rtt_base_stale_count :: nat
  re_queuing_delay_ms :: f64
  re_owd_base_ms :: "f64 option"
  re_owd_base_window_min :: f64
  re_owd_base_window_start :: instant
  re_owd_base_stale_count :: nat
  re_fwd_queuing_delay_ms :: f64
  re_owd_rtt_residual_ewma :: "f64 option"
  re_owd_samples_since_cold :: nat

definition RouteEntry_new :: "instant \<Rightarrow> SocketAddr \<Rightarrow> int \<Rightarrow> RouteEntry" where
  "RouteEntry_new now ep quality_initial =
     \<lparr>re_endpoint = ep, re_node_id = [], re_state = Candidate, re_last_seen = now, re_smoothed_rtt_ms = Fin (- 1),
      re_jitter_ms = Fin 0, re_last_rtt_ms = - 1, re_loss_ewma = Fin 0, re_quality_score = quality_initial,
      re_success_streak = 0, re_fail_streak = 0, re_hold_down_until = None, re_last_modified_revision = 0,
      re_path_set = Some (PathSet_new now ep), re_rx_bytes = 0, re_rx_bw_calc_at = now, re_dual_write_until = None,
      re_dual_write_old_ep = None, re_dual_write_old_kind = None, re_rtt_base_ms = Fin (- 1),
      re_rtt_base_window_min = Inf False, re_rtt_base_window_start = now, re_rtt_base_stale_count = 0,
      re_queuing_delay_ms = Fin 0, re_owd_base_ms = None, re_owd_base_window_min = Inf False,
      re_owd_base_window_start = now, re_owd_base_stale_count = 0, re_fwd_queuing_delay_ms = Fin 0,
      re_owd_rtt_residual_ewma = None, re_owd_samples_since_cold = 0\<rparr>"

record RelayPathSnapshot =
  rp_state :: RouteState
  rp_quality_score :: int
  rp_loss_ewma :: f64
  rp_jitter_ms :: f64
  rp_success_streak :: int
  rp_hold_down_until :: "instant option"

definition relay_from_entry :: "RouteEntry \<Rightarrow> RelayPathSnapshot" where
  "relay_from_entry e = \<lparr>rp_state = re_state e, rp_quality_score = re_quality_score e, rp_loss_ewma = re_loss_ewma e,
     rp_jitter_ms = re_jitter_ms e, rp_success_streak = re_success_streak e, rp_hold_down_until = re_hold_down_until e\<rparr>"

definition should_relay_snap :: "RelayPathSnapshot \<Rightarrow> FailoverTuning \<Rightarrow> bool" where
  "should_relay_snap s fo =
     (rp_quality_score s < fo_d2r_quality_min fo \<or> rp_state s = Degraded \<or> rp_state s = Stale
      \<or> f64_lt (fo_d2r_loss_max fo) (rp_loss_ewma s) \<or> f64_lt (fo_d2r_jitter_max fo) (rp_jitter_ms s))"

definition should_relay :: "RouteEntry \<Rightarrow> FailoverTuning \<Rightarrow> bool" where
  "should_relay e fo = should_relay_snap (relay_from_entry e) fo"

definition can_return_to_direct_snap :: "RelayPathSnapshot \<Rightarrow> instant \<Rightarrow> FailoverTuning \<Rightarrow> bool" where
  "can_return_to_direct_snap s now fo =
     (rp_quality_score s \<ge> fo_r2d_quality_min fo \<and> rp_success_streak s \<ge> fo_r2d_success_min fo
      \<and> (case rp_hold_down_until s of None \<Rightarrow> True | Some t \<Rightarrow> t \<le> now))"

definition can_return_to_direct :: "RouteEntry \<Rightarrow> instant \<Rightarrow> FailoverTuning \<Rightarrow> bool" where
  "can_return_to_direct e now fo = can_return_to_direct_snap (relay_from_entry e) now fo"

text \<open>
  The base of a delay is the least sample of a window; a lower window minimum is taken at once, a higher one
  only after several windows in a row. \<^verbatim>\<open>update_rtt_base_on_sample\<close> and \<^verbatim>\<open>update_owd_base_on_sample\<close>
  share this rule: \<open>roll_base base stale window_min limit\<close> gives the new base and stale count.
\<close>

definition roll_base :: "f64 \<Rightarrow> nat \<Rightarrow> f64 \<Rightarrow> nat \<Rightarrow> f64 \<times> nat" where
  "roll_base base stale window_min limit =
     (if f64_lt window_min base then (window_min, 0)
      else if f64_lt base window_min then
        let stale = sat_add 8 stale 1 in if stale \<ge> limit then (window_min, 0) else (base, stale)
      else (base, 0))"

definition update_rtt_base_on_sample :: "f64 \<Rightarrow> instant \<Rightarrow> CongestionTuning \<Rightarrow> RouteEntry \<Rightarrow> RouteEntry" where
  "update_rtt_base_on_sample sample now cg e =
     (if \<not> cg_rtt_base_tracking cg then e
      else if f64_lt (re_rtt_base_ms e) (Fin 0) then
        e\<lparr>re_rtt_base_ms := sample, re_rtt_base_window_min := sample, re_rtt_base_window_start := now,
          re_queuing_delay_ms := f64_max (f64_sub (re_smoothed_rtt_ms e) sample) (Fin 0)\<rparr>
      else
        let e = e\<lparr>re_rtt_base_window_min := f64_min (re_rtt_base_window_min e) sample\<rparr>;
            e = (if duration_since now (re_rtt_base_window_start e) \<ge> from_secs (cg_base_rtt_window_secs cg) then
                   let (b, stale) = roll_base (re_rtt_base_ms e) (re_rtt_base_stale_count e)
                          (re_rtt_base_window_min e) (cg_base_rtt_stale_windows cg) in
                   e\<lparr>re_rtt_base_ms := b, re_rtt_base_stale_count := stale, re_rtt_base_window_min := Inf False,
                     re_rtt_base_window_start := now\<rparr>
                 else e) in
        if f64_le (Fin 0) (re_smoothed_rtt_ms e) \<and> f64_le (Fin 0) (re_rtt_base_ms e)
        then e\<lparr>re_queuing_delay_ms := f64_max (f64_sub (re_smoothed_rtt_ms e) (re_rtt_base_ms e)) (Fin 0)\<rparr>
        else e)"

definition apply_rtt_sample ::
    "int \<Rightarrow> FailoverTuning \<Rightarrow> CongestionTuning \<Rightarrow> RoutingEwmaTuning \<Rightarrow> instant \<Rightarrow> RouteEntry \<Rightarrow> RouteEntry" where
  "apply_rtt_sample rtt_ms fo cg ew now e =
     (let rtt = f64_of_int rtt_ms;
          delta = f64_abs (f64_sub rtt (re_smoothed_rtt_ms e));
          e = e\<lparr>re_jitter_ms := f64_add (f64_mul (ew_jitter_old ew) (re_jitter_ms e)) (f64_mul (ew_jitter_new ew) delta)\<rparr>;
          e = e\<lparr>re_smoothed_rtt_ms := f64_add (f64_mul (ew_rtt_old ew) (re_smoothed_rtt_ms e)) (f64_mul (ew_rtt_new ew) rtt)\<rparr>;
          e = update_rtt_base_on_sample rtt now cg e;
          e = e\<lparr>re_loss_ewma := f64_max (f64_sub (f64_mul (re_loss_ewma e) (ew_loss_decay ew)) (ew_loss_success_delta ew)) (Fin 0)\<rparr>;
          bounded = as_i32 (clamp 0 (ew_rtt_score_clamp_ms ew) rtt_ms);
          jitter_penalty = f64_as_i32 (f64_min (f64_div (re_jitter_ms e) (ew_quality_jitter_div ew)) (ew_quality_jitter_penalty_cap ew));
          loss_penalty = f64_as_i32 (f64_min (f64_mul (re_loss_ewma e) (ew_quality_loss_scale ew)) (ew_quality_loss_penalty_cap ew));
          e = e\<lparr>re_quality_score := max (as_i32 (100 - bounded sdiv 5 - jitter_penalty - loss_penalty)) 0,
                re_success_streak := min (re_success_streak e + 1) 100,
                re_fail_streak := max (re_fail_streak e - 1) 0\<rparr>;
          e = (if re_success_streak e \<ge> 2 \<and> re_quality_score e \<ge> fo_d2r_quality_min fo then e\<lparr>re_state := Active\<rparr>
               else if re_quality_score e < fo_d2r_quality_min fo then e\<lparr>re_state := Degraded\<rparr> else e) in
      if re_quality_score e \<ge> fo_r2d_quality_min fo \<and> re_success_streak e \<ge> as_i32 (fo_r2d_success_min fo * 2)
      then e\<lparr>re_hold_down_until := None\<rparr> else e)"

datatype OwdSampleOutcome = OwdIgnored | OwdApplied | OwdRejected

definition reset_owd_base_cold :: "instant \<Rightarrow> RouteEntry \<Rightarrow> RouteEntry" where
  "reset_owd_base_cold now e =
     e\<lparr>re_owd_base_ms := None, re_owd_base_window_min := Inf False, re_owd_base_window_start := now,
       re_owd_base_stale_count := 0, re_fwd_queuing_delay_ms := Fin 0, re_owd_rtt_residual_ewma := None,
       re_owd_samples_since_cold := 0\<rparr>"

definition OWD_RTT_RESIDUAL_EWMA_ALPHA :: f64 where "OWD_RTT_RESIDUAL_EWMA_ALPHA = f64_lit (125 / 1000)"

definition note_owd_applied_residual :: "f64 \<Rightarrow> f64 \<Rightarrow> RouteEntry \<Rightarrow> RouteEntry" where
  "note_owd_applied_residual owd rtt e =
     (let resid = f64_sub (f64_mul (Fin 2) owd) rtt in
      e\<lparr>re_owd_rtt_residual_ewma := Some (case re_owd_rtt_residual_ewma e of
            Some ewma \<Rightarrow> f64_add (f64_mul (f64_sub (Fin 1) OWD_RTT_RESIDUAL_EWMA_ALPHA) ewma)
                           (f64_mul OWD_RTT_RESIDUAL_EWMA_ALPHA resid)
          | None \<Rightarrow> resid),
        re_owd_samples_since_cold := sat_add 8 (re_owd_samples_since_cold e) 1\<rparr>)"

definition update_owd_base_on_sample ::
    "f64 \<Rightarrow> f64 \<Rightarrow> instant \<Rightarrow> CongestionTuning \<Rightarrow> RouteEntry \<Rightarrow> OwdSampleOutcome \<times> RouteEntry" where
  "update_owd_base_on_sample owd rtt now cg e =
     (if \<not> cg_rtt_base_tracking cg then (OwdIgnored, e)
      else if (case re_owd_base_ms e of
                 Some b \<Rightarrow> f64_lt (f64_of_nat (cg_owd_clock_jump_reject_ms cg)) (f64_abs (f64_sub owd b)) | None \<Rightarrow> False)
      then (OwdRejected, reset_owd_base_cold now e)
      else if (case re_owd_rtt_residual_ewma e of
                 Some ewma \<Rightarrow> f64_lt (f64_of_nat (cg_owd_rtt_consistency_ms cg))
                                (f64_abs (f64_sub (f64_sub (f64_mul (Fin 2) owd) rtt) ewma)) | None \<Rightarrow> False)
      then (OwdRejected, reset_owd_base_cold now e)
      else case re_owd_base_ms e of
        None \<Rightarrow>
          (OwdApplied, note_owd_applied_residual owd rtt
             (e\<lparr>re_owd_base_ms := Some owd, re_owd_base_window_min := owd, re_owd_base_window_start := now,
                re_owd_base_stale_count := 0, re_fwd_queuing_delay_ms := Fin 0\<rparr>))
      | Some base \<Rightarrow>
          let e = e\<lparr>re_owd_base_window_min := f64_min (re_owd_base_window_min e) owd\<rparr>;
              (base, e) =
                (if duration_since now (re_owd_base_window_start e) \<ge> from_secs (cg_base_rtt_window_secs cg) then
                   let (b, stale) = roll_base base (re_owd_base_stale_count e) (re_owd_base_window_min e)
                          (cg_base_rtt_stale_windows cg) in
                   (b, e\<lparr>re_owd_base_ms := Some b, re_owd_base_stale_count := stale,
                         re_owd_base_window_min := Inf False, re_owd_base_window_start := now\<rparr>)
                 else (base, e)) in
          (OwdApplied, note_owd_applied_residual owd rtt (e\<lparr>re_fwd_queuing_delay_ms := f64_max (f64_sub owd base) (Fin 0)\<rparr>)))"

definition effective_queuing_delay_ms :: "RouteEntry \<Rightarrow> nat \<Rightarrow> f64" where
  "effective_queuing_delay_ms e owd_prefer_after_samples =
     (if re_owd_base_ms e \<noteq> None \<and> re_owd_samples_since_cold e \<ge> owd_prefer_after_samples then re_fwd_queuing_delay_ms e
      else if f64_le (Fin 0) (re_rtt_base_ms e) then re_queuing_delay_ms e
      else if re_owd_base_ms e \<noteq> None then re_fwd_queuing_delay_ms e
      else Fin (- 1))"

section \<open>The routing table\<close>

record RouteSyncRow =
  sr_vip :: string
  sr_endpoint :: SocketAddr
  sr_node_id :: string
  sr_state :: RouteState
  sr_last_modified_revision :: u64

record RouteRetryRow =
  rr_endpoint :: SocketAddr
  rr_state :: RouteState

datatype RelaySelection = Hop SocketAddr | NoHop

record RoutingTable =
  rt_table :: "(string, RouteEntry) table"
  rt_ep_to_vip :: "(SocketAddr, string) table"
  rt_path_ep_to_vip :: "(SocketAddr, string) table"
  rt_node_to_vip :: "(string, string) table"
  rt_vip_u32_to_vip :: "(u32, string) table"
  rt_revision :: u64
  rt_tombstones :: "(string, u64 \<times> instant) table"
  rt_last_tombstone_prune :: instant
  rt_failover :: FailoverTuning
  rt_congestion :: CongestionTuning
  rt_routing_ewma :: RoutingEwmaTuning

definition RoutingTable_new :: "instant \<Rightarrow> RoutingTable" where
  "RoutingTable_new now = \<lparr>rt_table = [], rt_ep_to_vip = [], rt_path_ep_to_vip = [], rt_node_to_vip = [],
     rt_vip_u32_to_vip = [], rt_revision = 0, rt_tombstones = [], rt_last_tombstone_prune = now,
     rt_failover = FailoverTuning_default, rt_congestion = CongestionTuning_default,
     rt_routing_ewma = RoutingEwmaTuning_default\<rparr>"

definition ipv4_to_u32 :: "string \<Rightarrow> u32 option" where
  "ipv4_to_u32 ip = parse_ipv4 ip"

definition same_subnet :: "u32 \<Rightarrow> u32 \<Rightarrow> nat \<Rightarrow> bool" where
  "same_subnet a b prefix =
     (let p = min prefix 32 in
      if p = 0 then True
      else let mask = push_bit (32 - p) (- 1) in (a AND mask) = (b AND mask))"

definition upd_entry :: "string \<Rightarrow> (RouteEntry \<Rightarrow> RouteEntry) \<Rightarrow> RoutingTable \<Rightarrow> RoutingTable" where
  "upd_entry vip f rt =
     (case tab_get (rt_table rt) vip of
        Some e \<Rightarrow> rt\<lparr>rt_table := tab_put vip (f e) (rt_table rt)\<rparr>
      | None \<Rightarrow> rt)"

definition clear_path_ep_index_for_vip :: "string \<Rightarrow> RoutingTable \<Rightarrow> RoutingTable" where
  "clear_path_ep_index_for_vip vip rt =
     rt\<lparr>rt_path_ep_to_vip := tab_retain (\<lambda>_ v. v \<noteq> vip) (rt_path_ep_to_vip rt)\<rparr>"

definition rebuild_path_ep_index_for_vip :: "string \<Rightarrow> RoutingTable \<Rightarrow> RoutingTable" where
  "rebuild_path_ep_index_for_vip vip rt0 =
     (let rt = clear_path_ep_index_for_vip vip rt0 in
      case tab_get (rt_table rt) vip of
        None \<Rightarrow> rt
      | Some e \<Rightarrow>
          (case re_path_set e of
             None \<Rightarrow> rt
           | Some ps \<Rightarrow>
               rt\<lparr>rt_path_ep_to_vip :=
                  fold (\<lambda>p t. if pc_endpoint p \<noteq> re_endpoint e then tab_put (pc_endpoint p) vip t else t)
                    (present_paths ps) (rt_path_ep_to_vip rt)\<rparr>))"

definition tombstone_kept :: "string list \<Rightarrow> instant \<Rightarrow> string \<Rightarrow> instant \<Rightarrow> bool" where
  "tombstone_kept retain_vips now vip created =
     (vip \<in> set retain_vips
      \<or> (let age = duration_since now created in age < TOMBSTONE_MIN_RETENTION \<or> age < TOMBSTONE_TTL))"

definition prune_tombstones :: "instant \<Rightarrow> string list \<Rightarrow> RoutingTable \<Rightarrow> RoutingTable" where
  "prune_tombstones now retain_vips rt =
     rt\<lparr>rt_tombstones := tab_retain (\<lambda>vip (_, created). tombstone_kept retain_vips now vip created) (rt_tombstones rt),
        rt_last_tombstone_prune := now\<rparr>"

definition rt_remove :: "instant \<Rightarrow> string \<Rightarrow> RoutingTable \<Rightarrow> RoutingTable" where
  "rt_remove now vip rt0 =
     (let rt = clear_path_ep_index_for_vip vip rt0;
          rt = (case tab_get (rt_table rt) vip of
                  None \<Rightarrow> rt
                | Some e \<Rightarrow>
                    rt\<lparr>rt_table := tab_del vip (rt_table rt),
                       rt_ep_to_vip := (if tab_get (rt_ep_to_vip rt) (re_endpoint e) = Some vip
                                        then tab_del (re_endpoint e) (rt_ep_to_vip rt) else rt_ep_to_vip rt),
                       rt_node_to_vip := (if re_node_id e \<noteq> [] then tab_del (re_node_id e) (rt_node_to_vip rt)
                                          else rt_node_to_vip rt)\<rparr>);
          rt = (case ipv4_to_u32 vip of
                  Some u \<Rightarrow> rt\<lparr>rt_vip_u32_to_vip := tab_del u (rt_vip_u32_to_vip rt)\<rparr>
                | None \<Rightarrow> rt);
          rev = rt_revision rt + 1 in
      rt\<lparr>rt_revision := rev, rt_tombstones := tab_put vip (rev, now) (rt_tombstones rt)\<rparr>)"

text \<open>
  The start of \<^verbatim>\<open>update\<close>: an endpoint that belongs to another address. The result is None when the
  update is rejected.
\<close>

definition resolve_alias :: "instant \<Rightarrow> string \<Rightarrow> SocketAddr \<Rightarrow> string option \<Rightarrow> RoutingTable \<Rightarrow> RoutingTable option" where
  "resolve_alias now vip ep node_id rt =
     (case tab_get (rt_ep_to_vip rt) ep of
        None \<Rightarrow> Some rt
      | Some prev_vip \<Rightarrow>
          if prev_vip = vip then Some rt
          else
            let prev_node = (case tab_get (rt_table rt) prev_vip of Some e \<Rightarrow> re_node_id e | None \<Rightarrow> []);
                prev_state = (case tab_get (rt_table rt) prev_vip of Some e \<Rightarrow> re_state e | None \<Rightarrow> Candidate);
                incoming_node = (case node_id of Some n \<Rightarrow> n | None \<Rightarrow> []);
                conflicting_identity = (prev_node \<noteq> [] \<and> incoming_node \<noteq> [] \<and> prev_node \<noteq> incoming_node);
                ambiguous_identity = (prev_node \<noteq> [] \<and> incoming_node = []);
                allow_ambiguous_rebind = (ambiguous_identity \<and> (prev_state = Stale \<or> prev_state = Degraded)) in
            if conflicting_identity \<or> (ambiguous_identity \<and> \<not> allow_ambiguous_rebind) then None
            else if incoming_node \<noteq> [] \<and> prev_node = incoming_node then Some (rt_remove now prev_vip rt)
            else if prev_node = [] \<and> incoming_node \<noteq> [] then Some (rt_remove now prev_vip rt)
            else Some (rt\<lparr>rt_ep_to_vip := tab_del ep (rt_ep_to_vip rt)\<rparr>))"

definition touched_entry :: "instant \<Rightarrow> SocketAddr \<Rightarrow> string option \<Rightarrow> RouteEntry \<Rightarrow> RouteEntry" where
  "touched_entry now ep node_id e =
     e\<lparr>re_endpoint := ep,
       re_path_set := Some (case re_path_set e of Some ps \<Rightarrow> set_direct now ep ps | None \<Rightarrow> PathSet_new now ep),
       re_last_seen := now,
       re_node_id := (case node_id of Some n \<Rightarrow> n | None \<Rightarrow> re_node_id e)\<rparr>"

text \<open>The entry is stored and the indices are moved from the old entry to it.\<close>

definition index_route :: "string \<Rightarrow> RouteEntry option \<Rightarrow> RouteEntry \<Rightarrow> RoutingTable \<Rightarrow> RoutingTable" where
  "index_route vip old entry rt0 =
     (let rt = rt0\<lparr>rt_table := tab_put vip entry (rt_table rt0)\<rparr>;
          rt = (case old of
                  None \<Rightarrow> rt
                | Some e \<Rightarrow>
                    rt\<lparr>rt_ep_to_vip := tab_del (re_endpoint e) (rt_ep_to_vip rt),
                       rt_node_to_vip := (if re_node_id e \<noteq> [] \<and> re_node_id entry \<noteq> re_node_id e
                                          then tab_del (re_node_id e) (rt_node_to_vip rt) else rt_node_to_vip rt)\<rparr>) in
      rt\<lparr>rt_ep_to_vip := tab_put (re_endpoint entry) vip (rt_ep_to_vip rt),
         rt_node_to_vip := (if re_node_id entry \<noteq> [] then tab_put (re_node_id entry) vip (rt_node_to_vip rt)
                            else rt_node_to_vip rt),
         rt_vip_u32_to_vip := (case ipv4_to_u32 vip of
              Some u \<Rightarrow> tab_put u vip (rt_vip_u32_to_vip rt) | None \<Rightarrow> rt_vip_u32_to_vip rt),
         rt_tombstones := tab_del vip (rt_tombstones rt)\<rparr>)"

definition route_changed :: "SocketAddr \<Rightarrow> string option \<Rightarrow> RouteEntry option \<Rightarrow> bool" where
  "route_changed ep node_id old =
     (let ep_changed = (case old of Some e \<Rightarrow> re_endpoint e \<noteq> ep | None \<Rightarrow> True);
          node_changed = (node_id \<noteq> None
             \<and> (case old of Some e \<Rightarrow> Some (re_node_id e) \<noteq> node_id | None \<Rightarrow> True));
          is_new_entry = (old = None) in
      is_new_entry \<or> ep_changed \<or> node_changed)"

definition stamp_revision :: "string \<Rightarrow> RoutingTable \<Rightarrow> RoutingTable" where
  "stamp_revision vip rt =
     (let rev = rt_revision rt + 1 in
      upd_entry vip (\<lambda>e. e\<lparr>re_last_modified_revision := rev\<rparr>) (rt\<lparr>rt_revision := rev\<rparr>))"

definition store_route :: "instant \<Rightarrow> string \<Rightarrow> SocketAddr \<Rightarrow> string option \<Rightarrow> RoutingTable \<Rightarrow> RoutingTable" where
  "store_route now vip ep node_id rt0 =
     (let old = tab_get (rt_table rt0) vip;
          entry0 = (case old of Some e \<Rightarrow> e | None \<Rightarrow> RouteEntry_new now ep (ew_quality_initial (rt_routing_ewma rt0)));
          entry = touched_entry now ep node_id entry0;
          rt = index_route vip old entry rt0;
          rt = (if route_changed ep node_id old then stamp_revision vip rt else rt) in
      rebuild_path_ep_index_for_vip vip rt)"

definition rt_update :: "instant \<Rightarrow> string \<Rightarrow> SocketAddr \<Rightarrow> string option \<Rightarrow> RoutingTable \<Rightarrow> RoutingTable" where
  "rt_update now vip ep node_id rt =
     (let rt = (if duration_since now (rt_last_tombstone_prune rt) \<ge> TOMBSTONE_PRUNE_INTERVAL
                then prune_tombstones now [] rt else rt) in
      case resolve_alias now vip ep node_id rt of
        None \<Rightarrow> rt
      | Some rt \<Rightarrow> store_route now vip ep node_id rt)"

section \<open>Lookups\<close>

definition rt_lookup :: "string \<Rightarrow> RoutingTable \<Rightarrow> SocketAddr option" where
  "rt_lookup vip rt = map_option re_endpoint (tab_get (rt_table rt) vip)"

definition tracks_endpoint :: "SocketAddr \<Rightarrow> RoutingTable \<Rightarrow> bool" where
  "tracks_endpoint addr rt = (tab_get (rt_ep_to_vip rt) addr \<noteq> None)"

definition lookup_vip_by_u32 :: "u32 \<Rightarrow> RoutingTable \<Rightarrow> string option" where
  "lookup_vip_by_u32 u rt = tab_get (rt_vip_u32_to_vip rt) u"

definition lookup_by_vip_u32 :: "u32 \<Rightarrow> RoutingTable \<Rightarrow> SocketAddr option" where
  "lookup_by_vip_u32 u rt = Option.bind (tab_get (rt_vip_u32_to_vip rt) u) (\<lambda>vip. rt_lookup vip rt)"

definition relay_snapshot_by_u32 :: "u32 \<Rightarrow> RoutingTable \<Rightarrow> RelayPathSnapshot option" where
  "relay_snapshot_by_u32 u rt =
     Option.bind (tab_get (rt_vip_u32_to_vip rt) u) (\<lambda>vip. map_option relay_from_entry (tab_get (rt_table rt) vip))"

definition lookup_ep_by_node :: "string \<Rightarrow> RoutingTable \<Rightarrow> SocketAddr option" where
  "lookup_ep_by_node node_id rt = Option.bind (tab_get (rt_node_to_vip rt) node_id) (\<lambda>vip. rt_lookup vip rt)"

definition vip_for_data_endpoint :: "SocketAddr \<Rightarrow> SocketAddr option \<Rightarrow> RoutingTable \<Rightarrow> string option" where
  "vip_for_data_endpoint ep ignore_relay_ep rt =
     (if ignore_relay_ep = Some ep then None
      else case tab_get (rt_ep_to_vip rt) ep of
        Some vip \<Rightarrow> Some vip
      | None \<Rightarrow> tab_get (rt_path_ep_to_vip rt) ep)"

definition is_endpoint_stale :: "SocketAddr \<Rightarrow> RoutingTable \<Rightarrow> bool" where
  "is_endpoint_stale ep rt =
     (case Option.bind (tab_get (rt_ep_to_vip rt) ep) (tab_get (rt_table rt)) of
        Some e \<Rightarrow> re_state e = Stale | None \<Rightarrow> False)"

definition all_endpoints_except :: "SocketAddr \<Rightarrow> RoutingTable \<Rightarrow> SocketAddr list" where
  "all_endpoints_except exclude rt = filter (\<lambda>ep. ep \<noteq> exclude) (map re_endpoint (tab_vals (rt_table rt)))"

definition all_active_endpoints :: "RoutingTable \<Rightarrow> SocketAddr list" where
  "all_active_endpoints rt = map re_endpoint (filter (\<lambda>e. re_state e = Active) (tab_vals (rt_table rt)))"

definition endpoints_excluding_stale :: "RoutingTable \<Rightarrow> SocketAddr list" where
  "endpoints_excluding_stale rt = map re_endpoint (filter (\<lambda>e. re_state e \<noteq> Stale) (tab_vals (rt_table rt)))"

definition count_under_relay_path :: "instant \<Rightarrow> RoutingTable \<Rightarrow> nat" where
  "count_under_relay_path now rt =
     length (filter (\<lambda>e. should_relay e (rt_failover rt) \<or> \<not> can_return_to_direct e now (rt_failover rt))
       (tab_vals (rt_table rt)))"

definition control_race_endpoints_for_endpoint :: "SocketAddr \<Rightarrow> SocketAddr option \<Rightarrow> RoutingTable \<Rightarrow> SocketAddr list" where
  "control_race_endpoints_for_endpoint ep ignore_relay_ep rt =
     (case Option.bind (vip_for_data_endpoint ep ignore_relay_ep rt) (tab_get (rt_table rt)) of
        None \<Rightarrow> [ep]
      | Some e \<Rightarrow>
          let raced = (case re_path_set e of Some ps \<Rightarrow> control_race_endpoints ps | None \<Rightarrow> []) in
          if raced \<noteq> [] then raced else [re_endpoint e])"

definition transition_state :: "instant \<Rightarrow> string \<Rightarrow> RoutingTable \<Rightarrow> (SocketAddr \<times> PathKind) option" where
  "transition_state now vip rt =
     (case tab_get (rt_table rt) vip of
        None \<Rightarrow> None
      | Some e \<Rightarrow>
          (case re_dual_write_until e of
             None \<Rightarrow> None
           | Some until \<Rightarrow>
               if now \<ge> until then None
               else case (re_dual_write_old_ep e, re_dual_write_old_kind e) of
                 (Some ep, Some k) \<Rightarrow> Some (ep, k) | _ \<Rightarrow> None))"

definition snapshot_for_retry :: "RoutingTable \<Rightarrow> RouteRetryRow list" where
  "snapshot_for_retry rt = map (\<lambda>e. \<lparr>rr_endpoint = re_endpoint e, rr_state = re_state e\<rparr>) (tab_vals (rt_table rt))"

definition sync_snapshot :: "RoutingTable \<Rightarrow> RouteSyncRow list" where
  "sync_snapshot rt =
     map (\<lambda>(vip, e). \<lparr>sr_vip = vip, sr_endpoint = re_endpoint e, sr_node_id = re_node_id e, sr_state = re_state e,
            sr_last_modified_revision = re_last_modified_revision e\<rparr>) (rt_table rt)"

section \<open>Updates of entries\<close>

definition apply_last_seen_batch :: "(SocketAddr \<times> instant) list \<Rightarrow> RoutingTable \<Rightarrow> RoutingTable" where
  "apply_last_seen_batch batch rt =
     fold (\<lambda>(ep, ts) rt. case tab_get (rt_ep_to_vip rt) ep of
         Some vip \<Rightarrow> upd_entry vip (\<lambda>e. e\<lparr>re_last_seen := ts\<rparr>) rt | None \<Rightarrow> rt) batch rt"

definition promote_stale_if_needed :: "instant \<Rightarrow> SocketAddr \<Rightarrow> RoutingTable \<Rightarrow> string option \<times> RoutingTable" where
  "promote_stale_if_needed now ep rt =
     (case tab_get (rt_ep_to_vip rt) ep of
        None \<Rightarrow> (None, rt)
      | Some vip \<Rightarrow>
          (case tab_get (rt_table rt) vip of
             None \<Rightarrow> (None, rt)
           | Some e \<Rightarrow>
               if re_state e = Stale
               then (Some vip, upd_entry vip (\<lambda>e. e\<lparr>re_last_seen := now, re_state := Candidate\<rparr>) rt)
               else (None, rt)))"

definition touch_endpoint :: "instant \<Rightarrow> SocketAddr \<Rightarrow> RoutingTable \<Rightarrow> string option \<times> RoutingTable" where
  "touch_endpoint now ep rt =
     (case tab_get (rt_ep_to_vip rt) ep of
        None \<Rightarrow> (None, rt)
      | Some vip \<Rightarrow> promote_stale_if_needed now ep (upd_entry vip (\<lambda>e. e\<lparr>re_last_seen := now\<rparr>) rt))"

definition is_active_path :: "SocketAddr \<Rightarrow> RouteEntry \<Rightarrow> bool" where
  "is_active_path from_ep e =
     (case Option.bind (re_path_set e) active_endpoint_kind of Some (ep, _) \<Rightarrow> ep = from_ep | None \<Rightarrow> True)"

definition entry_note_rtt ::
    "instant \<Rightarrow> SocketAddr \<Rightarrow> int \<Rightarrow> FailoverTuning \<Rightarrow> CongestionTuning \<Rightarrow> RoutingEwmaTuning \<Rightarrow> RouteEntry \<Rightarrow> RouteEntry" where
  "entry_note_rtt now from_ep rtt_ms fo cg ew e0 =
     (let e = e0\<lparr>re_last_seen := now\<rparr>;
          e = (if is_active_path from_ep e0 then
                 let e = (if f64_lt (re_smoothed_rtt_ms e) (Fin 0)
                          then e\<lparr>re_smoothed_rtt_ms := f64_of_int rtt_ms, re_jitter_ms := Fin 0\<rparr> else e) in
                 apply_rtt_sample rtt_ms fo cg ew now (e\<lparr>re_last_rtt_ms := rtt_ms\<rparr>)
               else e) in
      e\<lparr>re_path_set := map_option
          (\<lambda>ps. reselect_active now False (note_rtt_for_endpoint now from_ep (f64_of_int rtt_ms) ew ps)) (re_path_set e)\<rparr>)"

definition rt_note_rtt :: "instant \<Rightarrow> SocketAddr \<Rightarrow> int \<Rightarrow> SocketAddr option \<Rightarrow> RoutingTable \<Rightarrow> bool \<times> RoutingTable" where
  "rt_note_rtt now from_ep rtt_ms ignore_relay_ep rt =
     (case vip_for_data_endpoint from_ep ignore_relay_ep rt of
        None \<Rightarrow> (False, rt)
      | Some vip \<Rightarrow>
          (case tab_get (rt_table rt) vip of
             None \<Rightarrow> (False, rt)
           | Some e \<Rightarrow> (is_active_path from_ep e,
               upd_entry vip (entry_note_rtt now from_ep rtt_ms (rt_failover rt) (rt_congestion rt) (rt_routing_ewma rt)) rt)))"

definition note_fwd_owd ::
    "instant \<Rightarrow> SocketAddr \<Rightarrow> f64 \<Rightarrow> f64 \<Rightarrow> SocketAddr option \<Rightarrow> RoutingTable \<Rightarrow> OwdSampleOutcome \<times> RoutingTable" where
  "note_fwd_owd now from_ep owd rtt ignore_relay_ep rt =
     (case vip_for_data_endpoint from_ep ignore_relay_ep rt of
        None \<Rightarrow> (OwdIgnored, rt)
      | Some vip \<Rightarrow>
          (case tab_get (rt_table rt) vip of
             None \<Rightarrow> (OwdIgnored, rt)
           | Some e \<Rightarrow>
               if \<not> is_active_path from_ep e then (OwdIgnored, rt)
               else
                 let (outcome, e') = update_owd_base_on_sample owd rtt now (rt_congestion rt) e in
                 (outcome, upd_entry vip (\<lambda>_. e') rt)))"

definition entry_note_fail :: "instant \<Rightarrow> SocketAddr \<Rightarrow> RoutingEwmaTuning \<Rightarrow> RouteEntry \<Rightarrow> RouteEntry" where
  "entry_note_fail now from_ep ew e =
     (let e = e\<lparr>re_fail_streak := min (re_fail_streak e + 1) 100, re_success_streak := max (re_success_streak e - 1) 0,
               re_loss_ewma := f64_min (f64_add (f64_mul (re_loss_ewma e) (ew_loss_decay ew)) (ew_loss_fail_bump ew)) (Fin 1)\<rparr>;
          loss_penalty = f64_as_i32 (f64_min (f64_mul (re_loss_ewma e) (ew_quality_loss_scale ew)) (ew_quality_loss_penalty_cap ew));
          e = e\<lparr>re_quality_score := max (as_i32 (re_quality_score e - loss_penalty)) 0\<rparr>;
          e = (if re_fail_streak e \<ge> 3 then e\<lparr>re_state := Degraded\<rparr> else e);
          e = (if re_fail_streak e \<ge> 6 then e\<lparr>re_state := Stale\<rparr> else e) in
      e\<lparr>re_path_set := map_option (\<lambda>ps. reselect_active now False (note_failure_for_endpoint from_ep ew ps)) (re_path_set e)\<rparr>)"

definition note_fail :: "instant \<Rightarrow> SocketAddr \<Rightarrow> SocketAddr option \<Rightarrow> RoutingTable \<Rightarrow> NoteFailResult \<times> RoutingTable" where
  "note_fail now from_ep ignore_relay_ep rt =
     (case vip_for_data_endpoint from_ep ignore_relay_ep rt of
        None \<Rightarrow> (\<lparr>nf_vip = None, nf_needs_heal = False\<rparr>, rt)
      | Some vip \<Rightarrow>
          (case tab_get (rt_table rt) vip of
             None \<Rightarrow> (\<lparr>nf_vip = None, nf_needs_heal = False\<rparr>, rt)
           | Some e \<Rightarrow>
               (\<lparr>nf_vip = Some vip, nf_needs_heal = (re_fail_streak (entry_note_fail now from_ep (rt_routing_ewma rt) e) \<ge> 3)\<rparr>,
                upd_entry vip (entry_note_fail now from_ep (rt_routing_ewma rt)) rt)))"

definition entry_note_bytes :: "instant \<Rightarrow> SocketAddr \<Rightarrow> nat \<Rightarrow> bool \<Rightarrow> RoutingEwmaTuning \<Rightarrow> RouteEntry \<Rightarrow> RouteEntry" where
  "entry_note_bytes now path_ep bs adv ew e0 =
     (let e = e0\<lparr>re_rx_bytes := sat_add 64 (re_rx_bytes e0) bs\<rparr>;
          elapsed_ms = as_millis (duration_since now (re_rx_bw_calc_at e)) mod 2 ^ 64 in
      if elapsed_ms \<ge> 500 then
        e\<lparr>re_path_set := map_option (\<lambda>ps. reselect_active now adv
             (note_bandwidth_for_endpoint path_ep (re_rx_bytes e) elapsed_ms ew ps)) (re_path_set e),
          re_rx_bytes := 0, re_rx_bw_calc_at := now\<rparr>
      else e)"

definition note_bytes_received_for_vip :: "instant \<Rightarrow> string \<Rightarrow> SocketAddr \<Rightarrow> nat \<Rightarrow> bool \<Rightarrow> RoutingTable \<Rightarrow> RoutingTable" where
  "note_bytes_received_for_vip now vip path_ep bs adv rt =
     upd_entry vip (entry_note_bytes now path_ep bs adv (rt_routing_ewma rt)) rt"

definition note_bytes_received :: "instant \<Rightarrow> SocketAddr \<Rightarrow> nat \<Rightarrow> bool \<Rightarrow> SocketAddr option \<Rightarrow> RoutingTable \<Rightarrow> RoutingTable" where
  "note_bytes_received now from_ep bs adv ignore_relay_ep rt =
     (case vip_for_data_endpoint from_ep ignore_relay_ep rt of
        None \<Rightarrow> rt
      | Some vip \<Rightarrow> note_bytes_received_for_vip now vip from_ep bs adv rt)"

definition note_bytes_received_for_vip_u32 :: "instant \<Rightarrow> u32 \<Rightarrow> nat \<Rightarrow> bool \<Rightarrow> RoutingTable \<Rightarrow> RoutingTable" where
  "note_bytes_received_for_vip_u32 now u bs adv rt =
     (case lookup_vip_by_u32 u rt of
        None \<Rightarrow> rt
      | Some vip \<Rightarrow>
          (case tab_get (rt_table rt) vip of
             None \<Rightarrow> rt
           | Some e \<Rightarrow> note_bytes_received_for_vip now vip (re_endpoint e) bs adv rt))"

definition note_bytes_received_batch :: "instant \<Rightarrow> (SocketAddr \<times> nat) list \<Rightarrow> bool \<Rightarrow> SocketAddr option \<Rightarrow> RoutingTable \<Rightarrow> RoutingTable" where
  "note_bytes_received_batch now batch adv ignore_relay_ep rt =
     fold (\<lambda>(from_ep, bs). note_bytes_received now from_ep bs adv ignore_relay_ep) batch rt"

definition begin_transition :: "instant \<Rightarrow> string \<Rightarrow> SocketAddr \<Rightarrow> PathKind \<Rightarrow> duration \<Rightarrow> RoutingTable \<Rightarrow> RoutingTable" where
  "begin_transition now vip old_ep old_kind window rt =
     upd_entry vip (\<lambda>e.
       if (case re_dual_write_until e of Some until \<Rightarrow> now < until | None \<Rightarrow> False) then e
       else e\<lparr>re_dual_write_until := Some (now + window), re_dual_write_old_ep := Some old_ep,
              re_dual_write_old_kind := Some old_kind\<rparr>) rt"

definition end_transition :: "string \<Rightarrow> RoutingTable \<Rightarrow> RoutingTable" where
  "end_transition vip rt =
     upd_entry vip (\<lambda>e. e\<lparr>re_dual_write_until := None, re_dual_write_old_ep := None, re_dual_write_old_kind := None\<rparr>) rt"

definition mark_stale_if_idle :: "instant \<Rightarrow> duration \<Rightarrow> RoutingTable \<Rightarrow> RoutingTable" where
  "mark_stale_if_idle now idle_threshold rt =
     rt\<lparr>rt_table := tab_map (\<lambda>e. if duration_since now (re_last_seen e) > idle_threshold \<and> re_state e \<noteq> Stale
                                 then e\<lparr>re_state := Stale\<rparr> else e) (rt_table rt)\<rparr>"

definition stale_vips :: "instant \<Rightarrow> duration \<Rightarrow> RoutingTable \<Rightarrow> string list" where
  "stale_vips now stale_age rt =
     map fst (filter (\<lambda>(_, e). re_state e = Stale \<and> duration_since now (re_last_seen e) > stale_age) (rt_table rt))"

definition evict_old_stale :: "instant \<Rightarrow> duration \<Rightarrow> RoutingTable \<Rightarrow> RoutingTable" where
  "evict_old_stale now stale_age rt = fold (rt_remove now) (stale_vips now stale_age rt) rt"

definition outside_subnet :: "u32 \<Rightarrow> nat \<Rightarrow> string \<Rightarrow> bool" where
  "outside_subnet anchor prefix vip = (case parse_ipv4 vip of Some ip \<Rightarrow> \<not> same_subnet anchor ip prefix | None \<Rightarrow> True)"

definition drain_one :: "instant \<Rightarrow> string \<Rightarrow> (string \<times> SocketAddr \<times> string) list \<times> RoutingTable \<Rightarrow> (string \<times> SocketAddr \<times> string) list \<times> RoutingTable" where
  "drain_one now vip = (\<lambda>(removed, rt). case tab_get (rt_table rt) vip of
     None \<Rightarrow> (removed, rt)
   | Some e \<Rightarrow> (removed @ [(vip, re_endpoint e, re_node_id e)], rt_remove now vip rt))"

definition drain_vips_outside_subnet ::
    "instant \<Rightarrow> string \<Rightarrow> nat \<Rightarrow> RoutingTable \<Rightarrow> (string \<times> SocketAddr \<times> string) list \<times> RoutingTable" where
  "drain_vips_outside_subnet now my_vip prefix rt =
     (case parse_ipv4 my_vip of
        None \<Rightarrow> ([], rt)
      | Some anchor \<Rightarrow> fold (drain_one now) (filter (outside_subnet anchor prefix) (tab_keys (rt_table rt))) ([], rt))"

definition note_relay_fallback :: "instant \<Rightarrow> string \<Rightarrow> RoutingTable \<Rightarrow> RoutingTable" where
  "note_relay_fallback now vip rt =
     upd_entry vip (\<lambda>e.
       if (case re_hold_down_until e of Some t \<Rightarrow> t > now | None \<Rightarrow> False) then e
       else e\<lparr>re_hold_down_until := Some (now + from_secs (fo_hold_down_secs (rt_failover rt)))\<rparr>) rt"

definition clear_relay_path :: "string \<Rightarrow> RoutingTable \<Rightarrow> RoutingTable" where
  "clear_relay_path vip rt =
     rebuild_path_ep_index_for_vip vip (upd_entry vip (\<lambda>e. e\<lparr>re_path_set := map_option (\<lambda>ps.
         ps\<lparr>ps_paths := (ps_paths ps)[1 := None], ps_active_idx := (if ps_active_idx ps = 1 then 0 else ps_active_idx ps),
            ps_switch_candidate_idx := None, ps_switch_candidate_since := None\<rparr>) (re_path_set e)\<rparr>) rt)"

definition stamp_relay_hop :: "instant \<Rightarrow> string \<Rightarrow> SocketAddr \<Rightarrow> RoutingTable \<Rightarrow> RoutingTable" where
  "stamp_relay_hop now dest_vip hop rt =
     (case tab_get (rt_table rt) dest_vip of
        None \<Rightarrow> rt
      | Some _ \<Rightarrow>
          rebuild_path_ep_index_for_vip dest_vip (upd_entry dest_vip (\<lambda>e.
            e\<lparr>re_path_set := Some (set_relay now hop
                (case re_path_set e of Some ps \<Rightarrow> ps | None \<Rightarrow> PathSet_new now (re_endpoint e)))\<rparr>) rt))"

section \<open>Relay selection\<close>

definition hop_usable :: "SocketAddr \<Rightarrow> string option \<Rightarrow> string \<Rightarrow> SocketAddr option \<Rightarrow> RoutingTable \<Rightarrow> bool" where
  "hop_usable ep dest_vip my_vip exclude rt =
     (if exclude = Some ep then False
      else case tab_get (rt_ep_to_vip rt) ep of
        None \<Rightarrow> False
      | Some hop_vip \<Rightarrow>
          if hop_vip = my_vip then False
          else if (case dest_vip of
                     Some dest \<Rightarrow> hop_vip = dest
                       \<or> (case tab_get (rt_table rt) dest of Some e \<Rightarrow> re_endpoint e = ep | None \<Rightarrow> False)
                   | None \<Rightarrow> False)
          then False
          else case tab_get (rt_table rt) hop_vip of
            None \<Rightarrow> False
          | Some e \<Rightarrow> if re_fail_streak e \<ge> 3 then False else \<not> should_relay e (rt_failover rt))"

definition sticky_relay_hop :: "string \<Rightarrow> RoutingTable \<Rightarrow> SocketAddr option" where
  "sticky_relay_hop dest_vip rt =
     Option.bind (tab_get (rt_table rt) dest_vip) (\<lambda>e. Option.bind (re_path_set e) (\<lambda>ps. map_option pc_endpoint (ps_paths ps ! 1)))"

definition rtt_sort_key :: "RouteEntry \<Rightarrow> f64" where
  "rtt_sort_key e = (if f64_lt (re_smoothed_rtt_ms e) (Fin 0) then Inf False else re_smoothed_rtt_ms e)"

definition hop_candidate :: "string option \<Rightarrow> string \<Rightarrow> SocketAddr option \<Rightarrow> RoutingTable \<Rightarrow> string \<Rightarrow> RouteEntry \<Rightarrow> bool" where
  "hop_candidate dest_vip my_vip exclude rt vip e =
     (vip \<noteq> my_vip \<and> dest_vip \<noteq> Some vip \<and> hop_usable (re_endpoint e) dest_vip my_vip exclude rt)"

text \<open>\<open>replaces (vip, e) best\<close>: the comparison by quality, then round-trip time, then address text.\<close>

definition replaces :: "string \<times> RouteEntry \<Rightarrow> string \<times> RouteEntry \<Rightarrow> bool" where
  "replaces = (\<lambda>(vip, e) (best_vip, b).
     re_quality_score e > re_quality_score b
     \<or> (re_quality_score e = re_quality_score b
        \<and> (f64_lt (rtt_sort_key e) (rtt_sort_key b)
           \<or> (f64_le (rtt_sort_key e) (rtt_sort_key b) \<and> f64_le (rtt_sort_key b) (rtt_sort_key e) \<and> vip < best_vip))))"

definition best_usable_peer_hop :: "string option \<Rightarrow> string \<Rightarrow> SocketAddr option \<Rightarrow> RoutingTable \<Rightarrow> SocketAddr option" where
  "best_usable_peer_hop dest_vip my_vip exclude rt =
     map_option (re_endpoint \<circ> snd)
       (fold (\<lambda>(vip, e) best.
          if \<not> hop_candidate dest_vip my_vip exclude rt vip e then best
          else case best of
            None \<Rightarrow> Some (vip, e)
          | Some b \<Rightarrow> if replaces (vip, e) b then Some (vip, e) else Some b) (rt_table rt) None)"

definition select_relay_endpoint :: "string \<Rightarrow> string \<Rightarrow> SocketAddr option \<Rightarrow> RoutingTable \<Rightarrow> RelaySelection" where
  "select_relay_endpoint dest_vip my_vip exclude rt =
     (case sticky_relay_hop dest_vip rt of
        Some sticky \<Rightarrow>
          if hop_usable sticky (Some dest_vip) my_vip exclude rt then Hop sticky
          else (case best_usable_peer_hop (Some dest_vip) my_vip exclude rt of Some ep \<Rightarrow> Hop ep | None \<Rightarrow> NoHop)
      | None \<Rightarrow> (case best_usable_peer_hop (Some dest_vip) my_vip exclude rt of Some ep \<Rightarrow> Hop ep | None \<Rightarrow> NoHop))"

definition select_broadcast_relay_hop :: "string \<Rightarrow> SocketAddr option \<Rightarrow> RoutingTable \<Rightarrow> RelaySelection" where
  "select_broadcast_relay_hop my_vip exclude rt =
     (case best_usable_peer_hop None my_vip exclude rt of Some ep \<Rightarrow> Hop ep | None \<Rightarrow> NoHop)"

end
