(* ===== verification/Routing_Inv.thy ===== *)
theory Routing_Inv
  imports Routing
begin

text \<open>
  Properties of the routing table: every index points to a live entry that agrees with it, a path set always has
  a usable shape, entries changed since a revision can be told from the table and its tombstones, and relay
  selection returns only usable hops. Two places where the indices lose entries are shown as they are.
\<close>

section \<open>Path sets\<close>

definition path_eps :: "PathSet \<Rightarrow> SocketAddr option list" where
  "path_eps ps = map (map_option pc_endpoint) (ps_paths ps)"

definition pathset_ok :: "PathSet \<Rightarrow> bool" where
  "pathset_ok ps =
     (length (ps_paths ps) = 3 \<and> ps_paths ps ! 0 \<noteq> None \<and> ps_active_idx ps < 3 \<and> ps_paths ps ! ps_active_idx ps \<noteq> None)"

lemma upd_first_path_eps:
  "(\<And>p. pc_endpoint (f p) = pc_endpoint p) \<Longrightarrow>
     map (map_option pc_endpoint) (upd_first_path ep f ps) = map (map_option pc_endpoint) ps"
  by (induction ep f ps rule: upd_first_path.induct) auto

lemma pc_note_endpoint [simp]:
  "pc_endpoint (pc_note_rtt now rtt ew p) = pc_endpoint p" "pc_endpoint (pc_note_failure ew p) = pc_endpoint p"
  "pc_endpoint (pc_note_bandwidth bs ms ew p) = pc_endpoint p"
  by (simp_all add: pc_note_rtt_def pc_note_failure_def pc_note_bandwidth_def Let_def)

lemma note_for_endpoint_eps [simp]:
  "path_eps (note_rtt_for_endpoint now ep rtt ew ps) = path_eps ps"
  "path_eps (note_failure_for_endpoint ep ew ps) = path_eps ps"
  "path_eps (note_bandwidth_for_endpoint ep bs ms ew ps) = path_eps ps"
  by (simp_all add: path_eps_def note_rtt_for_endpoint_def note_failure_for_endpoint_def
      note_bandwidth_for_endpoint_def upd_first_path_eps)

lemma note_for_endpoint_idx [simp]:
  "ps_active_idx (note_rtt_for_endpoint now ep rtt ew ps) = ps_active_idx ps"
  "ps_active_idx (note_failure_for_endpoint ep ew ps) = ps_active_idx ps"
  "ps_active_idx (note_bandwidth_for_endpoint ep bs ms ew ps) = ps_active_idx ps"
  by (simp_all add: note_rtt_for_endpoint_def note_failure_for_endpoint_def note_bandwidth_for_endpoint_def)

lemma pathset_ok_eps:
  "pathset_ok ps \<longleftrightarrow> length (path_eps ps) = 3 \<and> path_eps ps ! 0 \<noteq> None \<and> ps_active_idx ps < 3
     \<and> path_eps ps ! ps_active_idx ps \<noteq> None"
  by (auto simp: pathset_ok_def path_eps_def)

lemma max_path_mem: "max_path adv xs = Some x \<Longrightarrow> x \<in> set xs"
proof (cases xs)
  case (Cons y ys)
  have *: "fold (\<lambda>y best. if f64_lt (path_score (snd y) adv) (path_score (snd best) adv) then best else y) ys b \<in> set (b # ys)" for b
    by (induction ys arbitrary: b) (auto split: if_splits)
  assume "max_path adv xs = Some x"
  with * [of y] Cons show ?thesis by auto
qed simp

lemma usable_paths_mem:
  "(i, p) \<in> set (usable_paths ps) \<longleftrightarrow> i < length (ps_paths ps) \<and> ps_paths ps ! i = Some p \<and> is_usable p"
proof
  assume "(i, p) \<in> set (usable_paths ps)"
  then show "i < length (ps_paths ps) \<and> ps_paths ps ! i = Some p \<and> is_usable p"
    by (auto simp: usable_paths_def mem_map_filter in_set_enumerate_eq split: option.splits if_splits)
next
  assume "i < length (ps_paths ps) \<and> ps_paths ps ! i = Some p \<and> is_usable p"
  then show "(i, p) \<in> set (usable_paths ps)"
    unfolding usable_paths_def mem_map_filter by (intro bexI [of _ "(i, Some p)"]) (auto simp: in_set_enumerate_eq)
qed

lemma best_path_usable: "best_path adv ps = Some (i, p) \<Longrightarrow> i < length (ps_paths ps) \<and> ps_paths ps ! i = Some p \<and> is_usable p"
  unfolding best_path_def by (drule max_path_mem) (simp add: usable_paths_mem)

lemma reselect_eps [simp]: "path_eps (reselect_active now adv ps) = path_eps ps"
  by (auto simp: reselect_active_def path_eps_def Let_def split: option.splits)

lemma reselect_ok:
  assumes "pathset_ok ps"
  shows "pathset_ok (reselect_active now adv ps)"
proof -
  have "ps_active_idx (reselect_active now adv ps) = ps_active_idx ps \<or>
      (\<exists>p. best_path adv ps = Some (ps_active_idx (reselect_active now adv ps), p))"
    by (auto simp: reselect_active_def Let_def split: option.splits if_splits)
  moreover have "path_eps ps ! i \<noteq> None \<and> i < 3" if "best_path adv ps = Some (i, p)" for i p
    using best_path_usable [OF that] assms by (auto simp: pathset_ok_def path_eps_def)
  ultimately show ?thesis using assms by (auto simp: pathset_ok_eps)
qed

section \<open>The invariant\<close>

definition entry_ok :: "RouteEntry \<Rightarrow> bool" where
  "entry_ok e =
     ((\<exists>ps. re_path_set e = Some ps \<and> pathset_ok ps \<and> path_eps ps ! 0 = Some (re_endpoint e))
      \<and> 0 \<le> re_quality_score e \<and> 0 \<le> re_success_streak e \<and> re_success_streak e \<le> 100
      \<and> 0 \<le> re_fail_streak e \<and> re_fail_streak e \<le> 100)"

definition entry_same :: "bool \<Rightarrow> RouteEntry \<Rightarrow> RouteEntry \<Rightarrow> bool" where
  "entry_same paths e e' =
     (re_endpoint e' = re_endpoint e \<and> re_node_id e' = re_node_id e
      \<and> (paths \<longrightarrow> map_option path_eps (re_path_set e') = map_option path_eps (re_path_set e)))"

definition tables_ok :: "RoutingTable \<Rightarrow> bool" where
  "tables_ok rt = (tab_ok (rt_table rt) \<and> tab_ok (rt_ep_to_vip rt) \<and> tab_ok (rt_path_ep_to_vip rt)
     \<and> tab_ok (rt_node_to_vip rt) \<and> tab_ok (rt_vip_u32_to_vip rt) \<and> tab_ok (rt_tombstones rt))"

definition ep_index_ok :: "RoutingTable \<Rightarrow> bool" where
  "ep_index_ok rt = (\<forall>ep v. tab_get (rt_ep_to_vip rt) ep = Some v \<longrightarrow>
     (\<exists>e. tab_get (rt_table rt) v = Some e \<and> re_endpoint e = ep))"

definition node_index_ok :: "RoutingTable \<Rightarrow> bool" where
  "node_index_ok rt = (\<forall>n v. tab_get (rt_node_to_vip rt) n = Some v \<longrightarrow>
     n \<noteq> [] \<and> (\<exists>e. tab_get (rt_table rt) v = Some e \<and> re_node_id e = n))"

definition u32_index_ok :: "RoutingTable \<Rightarrow> bool" where
  "u32_index_ok rt = (\<forall>u v. tab_get (rt_vip_u32_to_vip rt) u = Some v \<longleftrightarrow>
     tab_get (rt_table rt) v \<noteq> None \<and> ipv4_to_u32 v = Some u)"

definition path_of :: "SocketAddr \<Rightarrow> RouteEntry \<Rightarrow> bool" where
  "path_of ep e = (ep \<noteq> re_endpoint e \<and> (case re_path_set e of Some ps \<Rightarrow> Some ep \<in> set (path_eps ps) | None \<Rightarrow> False))"

definition path_index_ok :: "string set \<Rightarrow> RoutingTable \<Rightarrow> bool" where
  "path_index_ok except rt = (\<forall>ep v. v \<notin> except \<and> tab_get (rt_path_ep_to_vip rt) ep = Some v \<longrightarrow>
     (\<exists>e. tab_get (rt_table rt) v = Some e \<and> path_of ep e))"

definition tombs_ok :: "RoutingTable \<Rightarrow> bool" where
  "tombs_ok rt = (\<forall>v. tab_get (rt_tombstones rt) v \<noteq> None \<longrightarrow> tab_get (rt_table rt) v = None)"

definition entries_ok :: "RoutingTable \<Rightarrow> bool" where
  "entries_ok rt = (0 \<le> ew_quality_initial (rt_routing_ewma rt) \<and> (\<forall>v e. tab_get (rt_table rt) v = Some e \<longrightarrow> entry_ok e))"

definition rt_inv_except :: "string set \<Rightarrow> RoutingTable \<Rightarrow> bool" where
  "rt_inv_except X rt = (tables_ok rt \<and> ep_index_ok rt \<and> node_index_ok rt \<and> u32_index_ok rt \<and> path_index_ok X rt
     \<and> tombs_ok rt \<and> entries_ok rt)"

abbreviation rt_inv :: "RoutingTable \<Rightarrow> bool" where
  "rt_inv \<equiv> rt_inv_except {}"

lemmas rt_inv_defs = rt_inv_except_def tables_ok_def ep_index_ok_def node_index_ok_def u32_index_ok_def
  path_index_ok_def tombs_ok_def entries_ok_def

lemma rt_inv_new: "rt_inv (RoutingTable_new now)"
  by (simp add: rt_inv_defs RoutingTable_new_def RoutingEwmaTuning_default_def)

lemma tab_get_upd_entry:
  "tab_get (rt_table (upd_entry vip f rt)) v = (if v = vip then map_option f (tab_get (rt_table rt) v) else tab_get (rt_table rt) v)"
  by (auto simp: upd_entry_def tab_get_put split: option.splits)

lemma upd_entry_fields [simp]:
  "rt_ep_to_vip (upd_entry vip f rt) = rt_ep_to_vip rt" "rt_path_ep_to_vip (upd_entry vip f rt) = rt_path_ep_to_vip rt"
  "rt_node_to_vip (upd_entry vip f rt) = rt_node_to_vip rt" "rt_vip_u32_to_vip (upd_entry vip f rt) = rt_vip_u32_to_vip rt"
  "rt_revision (upd_entry vip f rt) = rt_revision rt" "rt_tombstones (upd_entry vip f rt) = rt_tombstones rt"
  "rt_routing_ewma (upd_entry vip f rt) = rt_routing_ewma rt" "rt_failover (upd_entry vip f rt) = rt_failover rt"
  "rt_congestion (upd_entry vip f rt) = rt_congestion rt" "rt_last_tombstone_prune (upd_entry vip f rt) = rt_last_tombstone_prune rt"
  by (simp_all add: upd_entry_def split: option.splits)

lemma tab_ok_upd_entry: "tab_ok (rt_table rt) \<Longrightarrow> tab_ok (rt_table (upd_entry vip f rt))"
  by (simp add: upd_entry_def split: option.splits)

lemma path_of_same: "entry_same True e e' \<Longrightarrow> path_of ep e' = path_of ep e"
  by (cases "re_path_set e"; cases "re_path_set e'") (auto simp: entry_same_def path_of_def)

text \<open>An operation that changes entries only as \<open>entry_same\<close> allows keeps the invariant.\<close>

lemma rt_inv_entries:
  assumes inv: "rt_inv_except X rt" and ok: "tab_ok (rt_table rt')"
    and same: "rt_ep_to_vip rt' = rt_ep_to_vip rt" "rt_path_ep_to_vip rt' = rt_path_ep_to_vip rt"
      "rt_node_to_vip rt' = rt_node_to_vip rt" "rt_vip_u32_to_vip rt' = rt_vip_u32_to_vip rt"
      "rt_tombstones rt' = rt_tombstones rt" "rt_routing_ewma rt' = rt_routing_ewma rt"
    and dom: "\<And>v. tab_get (rt_table rt') v = None \<longleftrightarrow> tab_get (rt_table rt) v = None"
    and ent: "\<And>v e e'. tab_get (rt_table rt) v = Some e \<Longrightarrow> tab_get (rt_table rt') v = Some e' \<Longrightarrow>
        entry_same (v \<notin> X) e e' \<and> entry_ok e'"
  shows "rt_inv_except X rt'"
proof -
  have get: "\<exists>e'. tab_get (rt_table rt') v = Some e' \<and> entry_same (v \<notin> X) e e' \<and> entry_ok e'"
    if "tab_get (rt_table rt) v = Some e" for v e
    using that dom [of v] ent [of v e] by (cases "tab_get (rt_table rt') v") auto
  have eix: "ep_index_ok rt"  and nix: "node_index_ok rt" and pix: "path_index_ok X rt" and eok: "entries_ok rt"
    using inv by (simp_all add: rt_inv_except_def)
  have "ep_index_ok rt'"
    unfolding ep_index_ok_def same
  proof (intro allI impI)
    fix ep v
    assume "tab_get (rt_ep_to_vip rt) ep = Some v"
    with eix obtain e where "tab_get (rt_table rt) v = Some e" "re_endpoint e = ep" by (auto simp: ep_index_ok_def)
    with get show "\<exists>e. tab_get (rt_table rt') v = Some e \<and> re_endpoint e = ep" by (fastforce simp: entry_same_def)
  qed
  moreover have "node_index_ok rt'"
    unfolding node_index_ok_def same
  proof (intro allI impI)
    fix n v
    assume "tab_get (rt_node_to_vip rt) n = Some v"
    with nix obtain e where "n \<noteq> []" "tab_get (rt_table rt) v = Some e" "re_node_id e = n"
      by (auto simp: node_index_ok_def)
    with get show "n \<noteq> [] \<and> (\<exists>e. tab_get (rt_table rt') v = Some e \<and> re_node_id e = n)"
      by (fastforce simp: entry_same_def)
  qed
  moreover have "path_index_ok X rt'"
    unfolding path_index_ok_def same
  proof (intro allI impI)
    fix ep v
    assume "v \<notin> X \<and> tab_get (rt_path_ep_to_vip rt) ep = Some v"
    with pix obtain e where "tab_get (rt_table rt) v = Some e" "path_of ep e" by (auto simp: path_index_ok_def)
    with get show "\<exists>e. tab_get (rt_table rt') v = Some e \<and> path_of ep e" using \<open>v \<notin> X \<and> _\<close> path_of_same by fastforce
  qed
  moreover have "entries_ok rt'"
    unfolding entries_ok_def same
  proof (intro conjI allI impI)
    fix v e'
    assume "tab_get (rt_table rt') v = Some e'"
    with dom [of v] ent [of v _ e'] show "entry_ok e'" by (cases "tab_get (rt_table rt) v") auto
  qed (use eok in \<open>simp add: entries_ok_def\<close>)
  moreover have "tables_ok rt'" "u32_index_ok rt'" "tombs_ok rt'"
    using inv ok by (simp_all add: rt_inv_except_def tables_ok_def u32_index_ok_def tombs_ok_def same dom)
  ultimately show ?thesis by (simp add: rt_inv_except_def)
qed

lemma upd_entry_inv:
  assumes "rt_inv_except X rt" and "\<And>e. tab_get (rt_table rt) vip = Some e \<Longrightarrow> entry_same (vip \<notin> X) e (f e) \<and> entry_ok (f e)"
  shows "rt_inv_except X (upd_entry vip f rt)"
proof (rule rt_inv_entries [OF assms(1)])
  show "tab_ok (rt_table (upd_entry vip f rt))"
    using assms(1) by (simp add: rt_inv_except_def tables_ok_def tab_ok_upd_entry)
  fix v e e'
  assume "tab_get (rt_table rt) v = Some e" "tab_get (rt_table (upd_entry vip f rt)) v = Some e'"
  then show "entry_same (v \<notin> X) e e' \<and> entry_ok e'"
    using assms by (auto simp: tab_get_upd_entry entry_same_def rt_inv_except_def entries_ok_def split: if_splits)
qed (auto simp: tab_get_upd_entry)

section \<open>The operations keep the invariant\<close>

lemma present_paths_eps: "p \<in> set (present_paths ps) \<Longrightarrow> Some (pc_endpoint p) \<in> set (path_eps ps)"
  by (force simp: present_paths_def mem_map_filter path_eps_def)

lemma fold_put_get:
  "tab_get (fold (\<lambda>p t. if c p then tab_put (g p) vip t else t) ps t) k = Some v \<Longrightarrow>
     tab_get t k = Some v \<or> (v = vip \<and> (\<exists>p \<in> set ps. c p \<and> g p = k))"
  by (induction ps arbitrary: t) (fastforce simp: tab_get_put split: if_splits)+

lemma fold_put_ok: "tab_ok t \<Longrightarrow> tab_ok (fold (\<lambda>p t. if c p then tab_put (g p) vip t else t) ps t)"
  by (induction ps arbitrary: t) auto

lemma clear_fields [simp]:
  "rt_table (clear_path_ep_index_for_vip vip rt) = rt_table rt" "rt_ep_to_vip (clear_path_ep_index_for_vip vip rt) = rt_ep_to_vip rt"
  "rt_node_to_vip (clear_path_ep_index_for_vip vip rt) = rt_node_to_vip rt"
  "rt_vip_u32_to_vip (clear_path_ep_index_for_vip vip rt) = rt_vip_u32_to_vip rt"
  "rt_revision (clear_path_ep_index_for_vip vip rt) = rt_revision rt" "rt_tombstones (clear_path_ep_index_for_vip vip rt) = rt_tombstones rt"
  "rt_routing_ewma (clear_path_ep_index_for_vip vip rt) = rt_routing_ewma rt"
  "rt_last_tombstone_prune (clear_path_ep_index_for_vip vip rt) = rt_last_tombstone_prune rt"
  by (simp_all add: clear_path_ep_index_for_vip_def)

lemma rebuild_fields [simp]:
  "rt_table (rebuild_path_ep_index_for_vip vip rt) = rt_table rt" "rt_ep_to_vip (rebuild_path_ep_index_for_vip vip rt) = rt_ep_to_vip rt"
  "rt_node_to_vip (rebuild_path_ep_index_for_vip vip rt) = rt_node_to_vip rt"
  "rt_vip_u32_to_vip (rebuild_path_ep_index_for_vip vip rt) = rt_vip_u32_to_vip rt"
  "rt_revision (rebuild_path_ep_index_for_vip vip rt) = rt_revision rt" "rt_tombstones (rebuild_path_ep_index_for_vip vip rt) = rt_tombstones rt"
  "rt_routing_ewma (rebuild_path_ep_index_for_vip vip rt) = rt_routing_ewma rt"
  "rt_last_tombstone_prune (rebuild_path_ep_index_for_vip vip rt) = rt_last_tombstone_prune rt"
  by (simp_all add: rebuild_path_ep_index_for_vip_def Let_def split: option.splits)

lemma clear_get: "tab_get (rt_path_ep_to_vip (clear_path_ep_index_for_vip vip rt)) ep = Some v \<longleftrightarrow>
    tab_ok (rt_path_ep_to_vip rt) \<and> v \<noteq> vip \<and> tab_get (rt_path_ep_to_vip rt) ep = Some v"
  if "tab_ok (rt_path_ep_to_vip rt)"
  using that by (auto simp: clear_path_ep_index_for_vip_def tab_get_retain split: option.splits)

lemma rebuild_get:
  assumes "tab_ok (rt_path_ep_to_vip rt)" "tab_get (rt_path_ep_to_vip (rebuild_path_ep_index_for_vip vip rt)) ep = Some v"
  shows "(v \<noteq> vip \<and> tab_get (rt_path_ep_to_vip rt) ep = Some v)
     \<or> (v = vip \<and> (\<exists>e. tab_get (rt_table rt) vip = Some e \<and> path_of ep e))"
proof (cases "\<exists>e ps. tab_get (rt_table rt) vip = Some e \<and> re_path_set e = Some ps")
  case False
  then show ?thesis using assms by (auto simp: rebuild_path_ep_index_for_vip_def Let_def clear_get split: option.splits)
next
  case True
  then obtain e ps where e: "tab_get (rt_table rt) vip = Some e" "re_path_set e = Some ps" by auto
  with assms(2) have "tab_get (fold (\<lambda>p t. if pc_endpoint p \<noteq> re_endpoint e then tab_put (pc_endpoint p) vip t else t)
      (present_paths ps) (rt_path_ep_to_vip (clear_path_ep_index_for_vip vip rt))) ep = Some v"
    by (simp add: rebuild_path_ep_index_for_vip_def Let_def)
  from fold_put_get [OF this] show ?thesis
    using e assms(1) present_paths_eps by (auto simp: clear_get path_of_def)
qed

lemma rebuild_index_inv: "rt_inv_except {vip} rt \<Longrightarrow> rt_inv (rebuild_path_ep_index_for_vip vip rt)"
proof -
  assume inv: "rt_inv_except {vip} rt"
  then have ok: "tab_ok (rt_path_ep_to_vip rt)" by (simp add: rt_inv_except_def tables_ok_def)
  have "path_index_ok {} (rebuild_path_ep_index_for_vip vip rt)"
    unfolding path_index_ok_def
  proof (intro allI impI)
    fix ep v
    assume "v \<notin> {} \<and> tab_get (rt_path_ep_to_vip (rebuild_path_ep_index_for_vip vip rt)) ep = Some v"
    then have "tab_get (rt_path_ep_to_vip (rebuild_path_ep_index_for_vip vip rt)) ep = Some v" by simp
    from rebuild_get [OF ok this] inv
    show "\<exists>e. tab_get (rt_table (rebuild_path_ep_index_for_vip vip rt)) v = Some e \<and> path_of ep e"
      by (auto simp: rt_inv_except_def path_index_ok_def)
  qed
  moreover have "tab_ok (rt_path_ep_to_vip (rebuild_path_ep_index_for_vip vip rt))"
    using ok by (simp add: rebuild_path_ep_index_for_vip_def Let_def clear_path_ep_index_for_vip_def fold_put_ok split: option.splits)
  ultimately show ?thesis
    using inv by (simp add: rt_inv_except_def tables_ok_def ep_index_ok_def node_index_ok_def u32_index_ok_def
        tombs_ok_def entries_ok_def)
qed

lemma rt_inv_weaken: "rt_inv rt \<Longrightarrow> rt_inv_except X rt"
  by (simp add: rt_inv_except_def path_index_ok_def)

text \<open>Removal leaves exactly the other entries, and no index entry that points to the removed address.\<close>

lemma rt_remove_table: "rt_table (rt_remove now vip rt) =
    (if tab_get (rt_table rt) vip = None then rt_table rt else tab_del vip (rt_table rt))"
  by (auto simp: rt_remove_def Let_def split: option.splits)

lemma rt_remove_get: "tab_get (rt_table (rt_remove now vip rt)) v = (if v = vip then None else tab_get (rt_table rt) v)"
  by (auto simp: rt_remove_table tab_get_del)

lemma rt_remove_fields [simp]:
  "rt_revision (rt_remove now vip rt) = rt_revision rt + 1"
  "rt_tombstones (rt_remove now vip rt) = tab_put vip (rt_revision rt + 1, now) (rt_tombstones rt)"
  "rt_routing_ewma (rt_remove now vip rt) = rt_routing_ewma rt"
  "rt_path_ep_to_vip (rt_remove now vip rt) = rt_path_ep_to_vip (clear_path_ep_index_for_vip vip rt)"
  "rt_last_tombstone_prune (rt_remove now vip rt) = rt_last_tombstone_prune rt"
  by (simp_all add: rt_remove_def Let_def split: option.splits)

lemma rt_remove_index:
  "rt_ep_to_vip (rt_remove now vip rt) = (case tab_get (rt_table rt) vip of None \<Rightarrow> rt_ep_to_vip rt
     | Some e \<Rightarrow> if tab_get (rt_ep_to_vip rt) (re_endpoint e) = Some vip then tab_del (re_endpoint e) (rt_ep_to_vip rt)
                else rt_ep_to_vip rt)"
  "rt_node_to_vip (rt_remove now vip rt) = (case tab_get (rt_table rt) vip of None \<Rightarrow> rt_node_to_vip rt
     | Some e \<Rightarrow> if re_node_id e \<noteq> [] then tab_del (re_node_id e) (rt_node_to_vip rt) else rt_node_to_vip rt)"
  "rt_vip_u32_to_vip (rt_remove now vip rt) = (case ipv4_to_u32 vip of None \<Rightarrow> rt_vip_u32_to_vip rt
     | Some u \<Rightarrow> tab_del u (rt_vip_u32_to_vip rt))"
  by (auto simp: rt_remove_def Let_def split: option.splits)

lemma ipv4_to_u32_inj: "ipv4_to_u32 v = Some u \<Longrightarrow> ipv4_to_u32 v' = Some u \<Longrightarrow> v = v'"
  by (simp add: ipv4_to_u32_def parse_ipv4_inj)

lemma rt_remove_inv:
  assumes inv: "rt_inv rt"
  shows "rt_inv (rt_remove now vip rt)"
proof -
  let ?r = "rt_remove now vip rt"
  have ix: "tables_ok rt" "ep_index_ok rt" "node_index_ok rt" "u32_index_ok rt" "path_index_ok {} rt" "tombs_ok rt" "entries_ok rt"
    using inv by (simp_all add: rt_inv_except_def)
  have "tables_ok ?r"
    using ix(1) by (simp add: tables_ok_def rt_remove_table rt_remove_index clear_path_ep_index_for_vip_def split: option.splits)
  moreover have "ep_index_ok ?r"
    using ix(2) by (fastforce simp: ep_index_ok_def rt_remove_get rt_remove_index tab_get_del split: option.splits if_splits)
  moreover have "node_index_ok ?r"
    using ix(3) by (fastforce simp: node_index_ok_def rt_remove_get rt_remove_index tab_get_del split: option.splits if_splits)
  moreover have "u32_index_ok ?r"
    using ix(4) ipv4_to_u32_inj
    by (auto simp: u32_index_ok_def rt_remove_get rt_remove_index tab_get_del split: option.splits)
  moreover have "path_index_ok {} ?r"
    using ix(1,5) by (fastforce simp: path_index_ok_def tables_ok_def rt_remove_get clear_get)
  moreover have "tombs_ok ?r"
    using ix(6) by (simp add: tombs_ok_def rt_remove_get tab_get_put)
  moreover have "entries_ok ?r"
    using ix(7) by (auto simp: entries_ok_def rt_remove_get split: if_splits)
  ultimately show ?thesis by (simp add: rt_inv_except_def)
qed

lemma index_route_fields [simp]:
  "rt_table (index_route vip old entry rt) = tab_put vip entry (rt_table rt)"
  "rt_path_ep_to_vip (index_route vip old entry rt) = rt_path_ep_to_vip rt"
  "rt_tombstones (index_route vip old entry rt) = tab_del vip (rt_tombstones rt)"
  "rt_routing_ewma (index_route vip old entry rt) = rt_routing_ewma rt"
  "rt_revision (index_route vip old entry rt) = rt_revision rt"
  "rt_last_tombstone_prune (index_route vip old entry rt) = rt_last_tombstone_prune rt"
  by (simp_all add: index_route_def Let_def split: option.splits)

lemma index_route_index:
  "rt_ep_to_vip (index_route vip old entry rt) = tab_put (re_endpoint entry) vip
     (case old of None \<Rightarrow> rt_ep_to_vip rt | Some e \<Rightarrow> tab_del (re_endpoint e) (rt_ep_to_vip rt))"
  "rt_node_to_vip (index_route vip old entry rt) =
     (let t = (case old of None \<Rightarrow> rt_node_to_vip rt
               | Some e \<Rightarrow> if re_node_id e \<noteq> [] \<and> re_node_id entry \<noteq> re_node_id e
                          then tab_del (re_node_id e) (rt_node_to_vip rt) else rt_node_to_vip rt) in
      if re_node_id entry \<noteq> [] then tab_put (re_node_id entry) vip t else t)"
  "rt_vip_u32_to_vip (index_route vip old entry rt) = (case ipv4_to_u32 vip of None \<Rightarrow> rt_vip_u32_to_vip rt
     | Some u \<Rightarrow> tab_put u vip (rt_vip_u32_to_vip rt))"
  by (auto simp: index_route_def Let_def split: option.splits)

lemma index_route_ep: "ep_index_ok rt \<Longrightarrow> ep_index_ok (index_route vip (tab_get (rt_table rt) vip) entry rt)"
  by (fastforce simp: ep_index_ok_def index_route_index tab_get_put tab_get_del split: option.splits if_splits)

lemma index_route_node: "node_index_ok rt \<Longrightarrow> node_index_ok (index_route vip (tab_get (rt_table rt) vip) entry rt)"
  unfolding node_index_ok_def index_route_index index_route_fields Let_def
  by (cases "tab_get (rt_table rt) vip") (fastforce simp: tab_get_put tab_get_del split: if_splits)+

lemma index_route_inv:
  assumes inv: "rt_inv rt" and ok: "entry_ok entry"
  shows "rt_inv_except {vip} (index_route vip (tab_get (rt_table rt) vip) entry rt)"
proof -
  let ?r = "index_route vip (tab_get (rt_table rt) vip) entry rt"
  have ix: "tables_ok rt" "ep_index_ok rt" "node_index_ok rt" "u32_index_ok rt" "path_index_ok {} rt" "tombs_ok rt" "entries_ok rt"
    using inv by (simp_all add: rt_inv_except_def)
  have "tables_ok ?r"
    using ix(1) by (simp add: tables_ok_def index_route_index Let_def split: option.splits)
  moreover have "u32_index_ok ?r"
    using ix(4) ipv4_to_u32_inj
    by (auto simp: u32_index_ok_def index_route_index tab_get_put split: option.splits)
  moreover have "path_index_ok {vip} ?r"
    using ix(5) by (simp add: path_index_ok_def tab_get_put)
  moreover have "tombs_ok ?r"
    using ix(6) by (simp add: tombs_ok_def tab_get_put tab_get_del)
  moreover have "entries_ok ?r"
    using ix(7) ok by (simp add: entries_ok_def tab_get_put)
  ultimately show ?thesis using ix by (simp add: rt_inv_except_def index_route_ep index_route_node)
qed

lemma set_direct_eps: "length (ps_paths ps) = 3 \<Longrightarrow> path_eps (set_direct now ep ps) = (path_eps ps)[0 := Some ep]"
  by (simp add: path_eps_def set_direct_def map_update PathCandidate_new_def split: option.splits)

lemma set_relay_eps: "path_eps (set_relay now ep ps) = (path_eps ps)[1 := Some ep]"
  by (simp add: path_eps_def set_relay_def map_update PathCandidate_new_def)

lemma path_eps_length [simp]: "length (path_eps ps) = length (ps_paths ps)"
  by (simp add: path_eps_def)

lemma set_path_idx [simp]:
  "ps_active_idx (set_direct now ep ps) = ps_active_idx ps" "ps_active_idx (set_relay now ep ps) = ps_active_idx ps"
  by (simp_all add: set_direct_def set_relay_def)

lemma PathSet_new_ok: "pathset_ok (PathSet_new now ep)" "path_eps (PathSet_new now ep) = [Some ep, None, None]"
  by (simp_all add: pathset_ok_def PathSet_new_def path_eps_def PathCandidate_new_def)

lemma set_direct_ok:
  assumes "pathset_ok ps"
  shows "pathset_ok (set_direct now ep ps)" "path_eps (set_direct now ep ps) ! 0 = Some ep"
proof -
  have l: "length (ps_paths ps) = 3" using assms by (simp add: pathset_ok_def)
  show "path_eps (set_direct now ep ps) ! 0 = Some ep" using l by (simp add: set_direct_eps)
  have "length (ps_paths (set_direct now ep ps)) = 3" using l by (simp add: set_direct_def)
  then show "pathset_ok (set_direct now ep ps)"
    using assms l by (auto simp: pathset_ok_eps set_direct_eps nth_list_update)
qed

lemma set_relay_ok:
  assumes "pathset_ok ps"
  shows "pathset_ok (set_relay now ep ps)" "path_eps (set_relay now ep ps) ! 0 = path_eps ps ! 0"
proof -
  have l: "length (ps_paths ps) = 3" using assms by (simp add: pathset_ok_def)
  have "length (ps_paths (set_relay now ep ps)) = 3" using l by (simp add: set_relay_def)
  then show "pathset_ok (set_relay now ep ps)"
    using assms l by (auto simp: pathset_ok_eps set_relay_eps nth_list_update)
qed (simp add: set_relay_eps)

lemma touched_entry_ok: "entry_ok e \<Longrightarrow> entry_ok (touched_entry now ep node_id e)"
  by (auto simp: entry_ok_def touched_entry_def set_direct_ok split: option.splits)

lemma RouteEntry_new_ok: "0 \<le> q \<Longrightarrow> entry_ok (RouteEntry_new now ep q)"
  by (simp add: entry_ok_def RouteEntry_new_def PathSet_new_ok)

lemma stamp_revision_inv: "rt_inv_except X rt \<Longrightarrow> rt_inv_except X (stamp_revision vip rt)"
proof -
  assume inv: "rt_inv_except X rt"
  then have "rt_inv_except X (rt\<lparr>rt_revision := rt_revision rt + 1\<rparr>)" by (simp add: rt_inv_defs)
  then show ?thesis
    unfolding stamp_revision_def Let_def
    by (rule upd_entry_inv) (use inv in \<open>auto simp: entry_same_def rt_inv_except_def entries_ok_def entry_ok_def\<close>)
qed

lemma store_route_inv:
  assumes inv: "rt_inv rt"
  shows "rt_inv (store_route now vip ep node_id rt)"
proof -
  let ?e0 = "case tab_get (rt_table rt) vip of Some e \<Rightarrow> e
      | None \<Rightarrow> RouteEntry_new now ep (ew_quality_initial (rt_routing_ewma rt))"
  have "entry_ok ?e0"
    using inv by (auto simp: rt_inv_except_def entries_ok_def RouteEntry_new_ok split: option.splits)
  from index_route_inv [OF inv touched_entry_ok [OF this]]
  show ?thesis
    unfolding store_route_def Let_def by (auto intro!: rebuild_index_inv stamp_revision_inv)
qed

lemma prune_tombstones_inv: "rt_inv rt \<Longrightarrow> rt_inv (prune_tombstones now keep rt)"
  by (simp add: rt_inv_defs prune_tombstones_def tab_get_retain split: option.splits)

lemma resolve_alias_inv:
  assumes inv: "rt_inv rt" and res: "resolve_alias now vip ep node_id rt = Some rt'"
  shows "rt_inv rt'"
proof -
  have "rt_inv (rt\<lparr>rt_ep_to_vip := tab_del ep (rt_ep_to_vip rt)\<rparr>)"
    using inv by (simp add: rt_inv_defs tab_get_del)
  then show ?thesis
    using res inv rt_remove_inv [OF inv] by (auto simp: resolve_alias_def Let_def split: option.splits if_splits)
qed

lemma rt_update_inv: "rt_inv rt \<Longrightarrow> rt_inv (rt_update now vip ep node_id rt)"
  using prune_tombstones_inv [of rt now "[]"]
  by (auto simp: rt_update_def Let_def intro: store_route_inv resolve_alias_inv split: option.splits if_splits)

section \<open>Samples\<close>

definition sync_view :: "RouteEntry \<Rightarrow> SocketAddr \<times> string \<times> u64" where
  "sync_view e = (re_endpoint e, re_node_id e, re_last_modified_revision e)"

text \<open>What a sample may do to an entry: everything the other components and the indices see of it stays.\<close>

definition sample_step :: "RouteEntry \<Rightarrow> RouteEntry \<Rightarrow> bool" where
  "sample_step e e' = (sync_view e' = sync_view e \<and> map_option path_eps (re_path_set e') = map_option path_eps (re_path_set e)
     \<and> (entry_ok e \<longrightarrow> entry_ok e'))"

lemma sample_step_refl: "sample_step e e"
  by (simp add: sample_step_def)

lemma sample_step_trans: "sample_step e e' \<Longrightarrow> sample_step e' e'' \<Longrightarrow> sample_step e e''"
  by (simp add: sample_step_def)

lemma update_rtt_base_fields [simp]:
  "re_endpoint (update_rtt_base_on_sample s now cg e) = re_endpoint e"
  "re_node_id (update_rtt_base_on_sample s now cg e) = re_node_id e"
  "re_last_modified_revision (update_rtt_base_on_sample s now cg e) = re_last_modified_revision e"
  "re_path_set (update_rtt_base_on_sample s now cg e) = re_path_set e"
  "re_success_streak (update_rtt_base_on_sample s now cg e) = re_success_streak e"
  "re_fail_streak (update_rtt_base_on_sample s now cg e) = re_fail_streak e"
  by (simp_all add: update_rtt_base_on_sample_def Let_def split: prod.splits)

lemma apply_rtt_sample_fields [simp]:
  "re_endpoint (apply_rtt_sample r fo cg ew now e) = re_endpoint e"
  "re_node_id (apply_rtt_sample r fo cg ew now e) = re_node_id e"
  "re_last_modified_revision (apply_rtt_sample r fo cg ew now e) = re_last_modified_revision e"
  "re_path_set (apply_rtt_sample r fo cg ew now e) = re_path_set e"
  "re_success_streak (apply_rtt_sample r fo cg ew now e) = min (re_success_streak e + 1) 100"
  "re_fail_streak (apply_rtt_sample r fo cg ew now e) = max (re_fail_streak e - 1) 0"
  by (simp_all add: apply_rtt_sample_def Let_def)

lemma apply_rtt_sample_quality: "0 \<le> re_quality_score (apply_rtt_sample r fo cg ew now e)"
  by (simp add: apply_rtt_sample_def Let_def)

lemma apply_rtt_sample_step: "sample_step e (apply_rtt_sample r fo cg ew now e)"
  by (auto simp: sample_step_def sync_view_def entry_ok_def apply_rtt_sample_quality)

lemma sample_step_path_set:
  assumes "\<And>ps. path_eps (f ps) = path_eps ps" "\<And>ps. pathset_ok ps \<Longrightarrow> pathset_ok (f ps)"
  shows "sample_step e (e\<lparr>re_path_set := map_option f (re_path_set e)\<rparr>)"
  using assms by (cases "re_path_set e") (auto simp: sample_step_def sync_view_def entry_ok_def)

lemma note_ok: "pathset_ok ps \<Longrightarrow> pathset_ok (note_rtt_for_endpoint now ep rtt ew ps)"
  "pathset_ok ps \<Longrightarrow> pathset_ok (note_failure_for_endpoint ep ew ps)"
  "pathset_ok ps \<Longrightarrow> pathset_ok (note_bandwidth_for_endpoint ep bs ms ew ps)"
  by (simp_all add: pathset_ok_eps)

lemma entry_note_rtt_step: "sample_step e (entry_note_rtt now ep rtt fo cg ew e)"
proof -
  let ?base = "\<lambda>e1. if f64_lt (re_smoothed_rtt_ms e1) (Fin 0)
      then e1\<lparr>re_smoothed_rtt_ms := f64_of_int rtt, re_jitter_ms := Fin 0\<rparr> else e1"
  let ?e2 = "if is_active_path ep e then
      apply_rtt_sample rtt fo cg ew now ((?base (e\<lparr>re_last_seen := now\<rparr>))\<lparr>re_last_rtt_ms := rtt\<rparr>)
    else e\<lparr>re_last_seen := now\<rparr>"
  have "sample_step e ((?base (e\<lparr>re_last_seen := now\<rparr>))\<lparr>re_last_rtt_ms := rtt\<rparr>)" "sample_step e (e\<lparr>re_last_seen := now\<rparr>)"
    by (simp_all add: sample_step_def sync_view_def entry_ok_def)
  then have "sample_step e ?e2" using apply_rtt_sample_step sample_step_trans by (simp only: split: if_split) blast
  then show ?thesis
    unfolding entry_note_rtt_def Let_def
    by (rule sample_step_trans) (rule sample_step_path_set, auto intro!: reselect_ok note_ok)
qed

lemma entry_note_fail_step: "sample_step e (entry_note_fail now ep ew e)"
proof -
  have *: "entry_note_fail now ep ew e = e'\<lparr>re_path_set := map_option (\<lambda>ps. reselect_active now False
      (note_failure_for_endpoint ep ew ps)) (re_path_set e')\<rparr>"
    if "e' = (entry_note_fail now ep ew e)\<lparr>re_path_set := re_path_set e\<rparr>" for e'
    using that by (simp add: entry_note_fail_def Let_def)
  have "sample_step e ((entry_note_fail now ep ew e)\<lparr>re_path_set := re_path_set e\<rparr>)"
    by (auto simp: sample_step_def sync_view_def entry_ok_def entry_note_fail_def Let_def)
  then show ?thesis
    by (subst * [OF refl], rule sample_step_trans) (rule sample_step_path_set, auto intro!: reselect_ok note_ok)
qed

lemma entry_note_bytes_step: "sample_step e (entry_note_bytes now ep bs adv ew e)"
proof -
  have "sample_step e (e\<lparr>re_path_set := map_option f (re_path_set e), re_rx_bytes := x, re_rx_bw_calc_at := y\<rparr>)"
    if "sample_step e (e\<lparr>re_path_set := map_option f (re_path_set e)\<rparr>)" for f x y
    using that by (auto simp: sample_step_def sync_view_def entry_ok_def)
  moreover have "sample_step e (e\<lparr>re_path_set := map_option (\<lambda>ps. reselect_active now adv
      (note_bandwidth_for_endpoint ep b ms ew ps)) (re_path_set e)\<rparr>)" for b ms
    by (rule sample_step_path_set) (auto intro!: reselect_ok note_ok)
  ultimately show ?thesis
    by (auto simp: entry_note_bytes_def Let_def) (auto simp: sample_step_def sync_view_def entry_ok_def)
qed

lemma owd_sample_step: "sample_step e (snd (update_owd_base_on_sample owd rtt now cg e))"
  by (auto simp: update_owd_base_on_sample_def note_owd_applied_residual_def reset_owd_base_cold_def Let_def
      sample_step_def sync_view_def entry_ok_def split: option.splits prod.splits)

section \<open>Operations on the table\<close>

datatype rt_op =
    OpUpdate instant string SocketAddr "string option"
  | OpRemove instant string
  | OpPrune instant "string list"
  | OpLastSeen "(SocketAddr \<times> instant) list"
  | OpPromote instant SocketAddr
  | OpTouch instant SocketAddr
  | OpRtt instant SocketAddr int "SocketAddr option"
  | OpOwd instant SocketAddr f64 f64 "SocketAddr option"
  | OpFail instant SocketAddr "SocketAddr option"
  | OpBytes instant SocketAddr nat bool "SocketAddr option"
  | OpBytesU32 instant u32 nat bool
  | OpBytesBatch instant "(SocketAddr \<times> nat) list" bool "SocketAddr option"
  | OpBegin instant string SocketAddr PathKind duration
  | OpEnd string
  | OpMarkStale instant duration
  | OpEvict instant duration
  | OpDrain instant string nat
  | OpFallback instant string
  | OpClearRelay string
  | OpStampRelay instant string SocketAddr

fun rt_step :: "rt_op \<Rightarrow> RoutingTable \<Rightarrow> RoutingTable" where
  "rt_step (OpUpdate now vip ep node_id) rt = rt_update now vip ep node_id rt"
| "rt_step (OpRemove now vip) rt = rt_remove now vip rt"
| "rt_step (OpPrune now keep) rt = prune_tombstones now keep rt"
| "rt_step (OpLastSeen batch) rt = apply_last_seen_batch batch rt"
| "rt_step (OpPromote now ep) rt = snd (promote_stale_if_needed now ep rt)"
| "rt_step (OpTouch now ep) rt = snd (touch_endpoint now ep rt)"
| "rt_step (OpRtt now ep rtt ign) rt = snd (rt_note_rtt now ep rtt ign rt)"
| "rt_step (OpOwd now ep owd rtt ign) rt = snd (note_fwd_owd now ep owd rtt ign rt)"
| "rt_step (OpFail now ep ign) rt = snd (note_fail now ep ign rt)"
| "rt_step (OpBytes now ep bs adv ign) rt = note_bytes_received now ep bs adv ign rt"
| "rt_step (OpBytesU32 now u bs adv) rt = note_bytes_received_for_vip_u32 now u bs adv rt"
| "rt_step (OpBytesBatch now batch adv ign) rt = note_bytes_received_batch now batch adv ign rt"
| "rt_step (OpBegin now vip ep k window) rt = begin_transition now vip ep k window rt"
| "rt_step (OpEnd vip) rt = end_transition vip rt"
| "rt_step (OpMarkStale now idle) rt = mark_stale_if_idle now idle rt"
| "rt_step (OpEvict now age) rt = evict_old_stale now age rt"
| "rt_step (OpDrain now my_vip prefix) rt = snd (drain_vips_outside_subnet now my_vip prefix rt)"
| "rt_step (OpFallback now vip) rt = note_relay_fallback now vip rt"
| "rt_step (OpClearRelay vip) rt = clear_relay_path vip rt"
| "rt_step (OpStampRelay now vip hop) rt = stamp_relay_hop now vip hop rt"

text \<open>
  A quiet operation changes nothing the table announces: no revision, no tombstone, no endpoint or node id.
\<close>

definition quiet :: "RoutingTable \<Rightarrow> RoutingTable \<Rightarrow> bool" where
  "quiet rt rt' = (rt_revision rt' = rt_revision rt \<and> rt_tombstones rt' = rt_tombstones rt
     \<and> rt_last_tombstone_prune rt' = rt_last_tombstone_prune rt
     \<and> (\<forall>v. map_option sync_view (tab_get (rt_table rt') v) = map_option sync_view (tab_get (rt_table rt) v)))"

definition quiet_ok :: "RoutingTable \<Rightarrow> RoutingTable \<Rightarrow> bool" where
  "quiet_ok rt rt' = (quiet rt rt' \<and> (rt_inv rt \<longrightarrow> rt_inv rt'))"

lemma quiet_ok_refl [simp]: "quiet_ok rt rt"
  by (simp add: quiet_ok_def quiet_def)

lemma quiet_ok_trans: "quiet_ok rt rt' \<Longrightarrow> quiet_ok rt' rt'' \<Longrightarrow> quiet_ok rt rt''"
  by (simp add: quiet_ok_def quiet_def)

lemma upd_entry_quiet:
  assumes "\<And>e. tab_get (rt_table rt) vip = Some e \<Longrightarrow> sample_step e (f e)"
  shows "quiet_ok rt (upd_entry vip f rt)"
proof -
  have "quiet rt (upd_entry vip f rt)"
    using assms by (auto simp: quiet_def tab_get_upd_entry option.map_comp o_def sample_step_def
        cong: map_option_cong)
  moreover have "rt_inv (upd_entry vip f rt)" if inv: "rt_inv rt"
  proof (rule upd_entry_inv [OF inv])
    fix e
    assume "tab_get (rt_table rt) vip = Some e"
    with assms inv show "entry_same (vip \<notin> {}) e (f e) \<and> entry_ok (f e)"
      by (auto simp: sample_step_def entry_same_def sync_view_def rt_inv_except_def entries_ok_def)
  qed
  ultimately show ?thesis by (simp add: quiet_ok_def)
qed

lemma quiet_ok_fold: "(\<And>x rt. quiet_ok rt (f x rt)) \<Longrightarrow> quiet_ok rt (fold f xs rt)"
  by (induction xs arbitrary: rt) (auto intro: quiet_ok_trans)

lemma touch_step: "sample_step e (e\<lparr>re_last_seen := t\<rparr>)" "sample_step e (e\<lparr>re_last_seen := t, re_state := s\<rparr>)"
    "sample_step e (e\<lparr>re_state := s\<rparr>)"
    "sample_step e (e\<lparr>re_dual_write_until := a, re_dual_write_old_ep := b, re_dual_write_old_kind := c\<rparr>)"
    "sample_step e (e\<lparr>re_hold_down_until := d\<rparr>)"
  by (simp_all add: sample_step_def sync_view_def entry_ok_def)

lemma note_bytes_for_vip_quiet: "quiet_ok rt (note_bytes_received_for_vip now vip ep bs adv rt)"
  unfolding note_bytes_received_for_vip_def by (rule upd_entry_quiet) (rule entry_note_bytes_step)

lemma note_bytes_quiet: "quiet_ok rt (note_bytes_received now ep bs adv ign rt)"
  by (simp add: note_bytes_received_def note_bytes_for_vip_quiet split: option.splits)

lemma promote_quiet: "quiet_ok rt (snd (promote_stale_if_needed now ep rt))"
  by (auto simp: promote_stale_if_needed_def intro!: upd_entry_quiet touch_step split: option.splits)

lemma touch_quiet: "quiet_ok rt (snd (touch_endpoint now ep rt))"
  by (auto simp: touch_endpoint_def intro!: quiet_ok_trans [OF _ promote_quiet] upd_entry_quiet touch_step split: option.splits)

lemma last_seen_quiet: "quiet_ok rt (apply_last_seen_batch batch rt)"
  unfolding apply_last_seen_batch_def
  by (rule quiet_ok_fold) (auto intro!: upd_entry_quiet touch_step split: option.splits prod.splits)

lemma rt_note_rtt_quiet: "quiet_ok rt (snd (rt_note_rtt now ep rtt ign rt))"
  by (auto simp: rt_note_rtt_def intro!: upd_entry_quiet entry_note_rtt_step split: option.splits)

lemma note_fail_quiet: "quiet_ok rt (snd (note_fail now ep ign rt))"
  by (auto simp: note_fail_def intro!: upd_entry_quiet entry_note_fail_step split: option.splits)

lemma note_owd_quiet: "quiet_ok rt (snd (note_fwd_owd now ep owd rtt ign rt))"
proof -
  have "sample_step e e'" if "update_owd_base_on_sample owd rtt now cg e = (r, e')" for cg e e' r
    using owd_sample_step [of e owd rtt now cg] that by simp
  then show ?thesis
    by (auto simp: note_fwd_owd_def intro!: upd_entry_quiet split: option.splits prod.splits)
qed

lemma mark_stale_quiet: "quiet_ok rt (mark_stale_if_idle now idle rt)"
proof -
  let ?f = "\<lambda>e. if duration_since now (re_last_seen e) > idle \<and> re_state e \<noteq> Stale then e\<lparr>re_state := Stale\<rparr> else e"
  have f: "sample_step e (?f e)" for e by (simp add: touch_step sample_step_refl)
  have "quiet rt (mark_stale_if_idle now idle rt)"
    using f by (simp add: quiet_def mark_stale_if_idle_def tab_get_map option.map_comp o_def sample_step_def)
  moreover have "rt_inv (mark_stale_if_idle now idle rt)" if "rt_inv rt"
    using that
  proof (rule rt_inv_entries)
    fix v e e'
    assume "tab_get (rt_table rt) v = Some e" "tab_get (rt_table (mark_stale_if_idle now idle rt)) v = Some e'"
    then have "e' = ?f e" "entry_ok e"
      using that by (auto simp: mark_stale_if_idle_def tab_get_map rt_inv_except_def entries_ok_def)
    with f [of e] show "entry_same (v \<notin> {}) e e' \<and> entry_ok e'" by (simp add: sample_step_def entry_same_def sync_view_def)
  qed (use that in \<open>simp_all add: mark_stale_if_idle_def tab_get_map rt_inv_except_def tables_ok_def\<close>)
  ultimately show ?thesis by (simp add: quiet_ok_def)
qed

lemma path_set_quiet:
  assumes f: "\<And>e. sync_view (f e) = sync_view e" and ok: "\<And>e. entry_ok e \<Longrightarrow> entry_ok (f e)"
  shows "quiet_ok rt (rebuild_path_ep_index_for_vip vip (upd_entry vip f rt))"
proof -
  have "rt_inv_except {vip} (upd_entry vip f rt)" if "rt_inv rt"
    using rt_inv_weaken [OF that]
  proof (rule upd_entry_inv)
    fix e
    assume "tab_get (rt_table rt) vip = Some e"
    then have "entry_ok e" using that by (auto simp: rt_inv_except_def entries_ok_def)
    with f [of e] ok show "entry_same (vip \<notin> {vip}) e (f e) \<and> entry_ok (f e)" by (simp add: entry_same_def sync_view_def)
  qed
  then show ?thesis
    using f by (auto simp: quiet_ok_def quiet_def tab_get_upd_entry option.map_comp o_def intro: rebuild_index_inv)
qed

lemma clear_relay_ok:
  assumes "pathset_ok ps"
  shows "pathset_ok (ps\<lparr>ps_paths := (ps_paths ps)[1 := None], ps_active_idx := (if ps_active_idx ps = 1 then 0 else ps_active_idx ps),
      ps_switch_candidate_idx := None, ps_switch_candidate_since := None\<rparr>)"
  using assms by (auto simp: pathset_ok_def nth_list_update)

lemma clear_relay_quiet: "quiet_ok rt (clear_relay_path vip rt)"
  unfolding clear_relay_path_def
proof (rule path_set_quiet)
  fix e
  assume "entry_ok e"
  then obtain ps where "re_path_set e = Some ps" "pathset_ok ps" "path_eps ps ! 0 = Some (re_endpoint e)"
    by (auto simp: entry_ok_def)
  with \<open>entry_ok e\<close> clear_relay_ok [of ps] show "entry_ok (e\<lparr>re_path_set := map_option (\<lambda>ps.
         ps\<lparr>ps_paths := (ps_paths ps)[1 := None], ps_active_idx := (if ps_active_idx ps = 1 then 0 else ps_active_idx ps),
            ps_switch_candidate_idx := None, ps_switch_candidate_since := None\<rparr>) (re_path_set e)\<rparr>)"
    by (simp add: entry_ok_def path_eps_def map_update)
qed (simp add: sync_view_def)

lemma stamp_relay_quiet: "quiet_ok rt (stamp_relay_hop now vip hop rt)"
proof -
  have "entry_ok (e\<lparr>re_path_set := Some (set_relay now hop
      (case re_path_set e of Some ps \<Rightarrow> ps | None \<Rightarrow> PathSet_new now (re_endpoint e)))\<rparr>)" if "entry_ok e" for e
    using that by (auto simp: entry_ok_def set_relay_ok)
  then have "quiet_ok rt (rebuild_path_ep_index_for_vip vip (upd_entry vip (\<lambda>e. e\<lparr>re_path_set := Some (set_relay now hop
      (case re_path_set e of Some ps \<Rightarrow> ps | None \<Rightarrow> PathSet_new now (re_endpoint e)))\<rparr>) rt))"
    by (intro path_set_quiet) (simp_all add: sync_view_def)
  then show ?thesis by (simp add: stamp_relay_hop_def split: option.splits)
qed

lemma evict_inv: "rt_inv rt \<Longrightarrow> rt_inv (evict_old_stale now age rt)"
proof -
  have "rt_inv rt \<Longrightarrow> rt_inv (fold (rt_remove now) vs rt)" for vs
    by (induction vs arbitrary: rt) (auto intro: rt_remove_inv)
  then show "rt_inv rt \<Longrightarrow> ?thesis" by (simp add: evict_old_stale_def)
qed

lemma drain_one_cases:
  "snd (drain_one now v acc) = snd acc \<or> snd (drain_one now v acc) = rt_remove now v (snd acc)"
  by (auto simp: drain_one_def split: prod.splits option.splits)

lemma drain_inv: "rt_inv rt \<Longrightarrow> rt_inv (snd (drain_vips_outside_subnet now my_vip prefix rt))"
proof -
  have "rt_inv (snd acc) \<Longrightarrow> rt_inv (snd (fold (drain_one now) vs acc))" for vs acc
  proof (induction vs arbitrary: acc)
    case (Cons v vs)
    then have "rt_inv (snd (drain_one now v acc))" using drain_one_cases [of now v acc] rt_remove_inv by metis
    with Cons.IH show ?case by simp
  qed simp
  then show "rt_inv rt \<Longrightarrow> ?thesis" by (simp add: drain_vips_outside_subnet_def split: option.splits)
qed

fun loud :: "rt_op \<Rightarrow> bool" where
  "loud (OpUpdate _ _ _ _) = True"
| "loud (OpRemove _ _) = True"
| "loud (OpPrune _ _) = True"
| "loud (OpEvict _ _) = True"
| "loud (OpDrain _ _ _) = True"
| "loud _ = False"

lemma rt_step_quiet: "\<not> loud op \<Longrightarrow> quiet_ok rt (rt_step op rt)"
proof (induction op rt rule: rt_step.induct)
  case (12 now batch adv ign rt)
  show ?case unfolding rt_step.simps note_bytes_received_batch_def
    by (rule quiet_ok_fold) (auto simp: note_bytes_quiet)
next
  case (13 now vip ep k window rt)
  show ?case unfolding rt_step.simps begin_transition_def by (rule upd_entry_quiet) (simp add: touch_step sample_step_refl)
next
  case (14 vip rt)
  show ?case unfolding rt_step.simps end_transition_def by (rule upd_entry_quiet) (simp add: touch_step)
next
  case (18 now vip rt)
  show ?case unfolding rt_step.simps note_relay_fallback_def by (rule upd_entry_quiet) (simp add: touch_step sample_step_refl)
qed (simp_all add: last_seen_quiet promote_quiet touch_quiet rt_note_rtt_quiet note_owd_quiet note_fail_quiet note_bytes_quiet
    note_bytes_received_for_vip_u32_def note_bytes_for_vip_quiet mark_stale_quiet clear_relay_quiet stamp_relay_quiet split: option.splits)

lemma rt_step_inv: "rt_inv rt \<Longrightarrow> rt_inv (rt_step op rt)"
proof (cases "loud op")
  case True
  then show "rt_inv rt \<Longrightarrow> ?thesis"
    by (cases op) (simp_all add: rt_update_inv rt_remove_inv prune_tombstones_inv evict_inv drain_inv)
next
  case False
  then show "rt_inv rt \<Longrightarrow> ?thesis" using rt_step_quiet by (simp add: quiet_ok_def)
qed

interpretation routing: invariant_machine rt_step rt_inv
  by unfold_locales (rule rt_step_inv)

section \<open>Revisions\<close>

text \<open>
  How many revisions an operation may draw, and the time it runs at. \<open>clocked\<close> says that every operation that
  creates or prunes tombstones runs within the retention time after \<open>t\<close>.
\<close>

fun bumps :: "rt_op \<Rightarrow> RoutingTable \<Rightarrow> nat" where
  "bumps (OpUpdate _ _ _ _) rt = 2"
| "bumps (OpRemove _ _) rt = 1"
| "bumps (OpEvict now age) rt = length (stale_vips now age rt)"
| "bumps (OpDrain _ _ _) rt = length (rt_table rt)"
| "bumps _ rt = 0"

fun total_bumps :: "rt_op list \<Rightarrow> RoutingTable \<Rightarrow> nat" where
  "total_bumps [] rt = 0"
| "total_bumps (op # ops) rt = bumps op rt + total_bumps ops (rt_step op rt)"

definition in_window :: "instant \<Rightarrow> instant \<Rightarrow> bool" where
  "in_window t now = (t \<le> now \<and> now < t + TOMBSTONE_MIN_RETENTION)"

fun clocked :: "instant \<Rightarrow> rt_op \<Rightarrow> bool" where
  "clocked t (OpUpdate now _ _ _) = in_window t now"
| "clocked t (OpRemove now _) = in_window t now"
| "clocked t (OpPrune now _) = in_window t now"
| "clocked t (OpEvict now _) = in_window t now"
| "clocked t (OpDrain now _ _) = in_window t now"
| "clocked t _ = True"

text \<open>
  \<open>since r t rt0 rt\<close>: what \<open>rt\<close> announces beyond revision \<open>r\<close> accounts for every difference to \<open>rt0\<close>.
\<close>

definition accounted :: "u64 \<Rightarrow> instant \<Rightarrow> RoutingTable \<Rightarrow> RoutingTable \<Rightarrow> string \<Rightarrow> bool" where
  "accounted r t rt0 rt v =
     (case tab_get (rt_table rt) v of
        Some e \<Rightarrow> r < re_last_modified_revision e \<or> map_option sync_view (tab_get (rt_table rt0) v) = Some (sync_view e)
      | None \<Rightarrow> tab_get (rt_table rt0) v = None
          \<or> (case tab_get (rt_tombstones rt) v of Some (rv, created) \<Rightarrow> r < rv \<and> t \<le> created | None \<Rightarrow> False))"

definition since :: "u64 \<Rightarrow> instant \<Rightarrow> RoutingTable \<Rightarrow> RoutingTable \<Rightarrow> bool" where
  "since r t rt0 rt = (tab_ok (rt_tombstones rt) \<and> r \<le> rt_revision rt \<and> (\<forall>v. accounted r t rt0 rt v))"

text \<open>A step that draws at most \<open>n\<close> revisions and, when they do not wrap, keeps the account.\<close>

definition draws :: "instant \<Rightarrow> nat \<Rightarrow> RoutingTable \<Rightarrow> RoutingTable \<Rightarrow> bool" where
  "draws t n rt rt' = (unat (rt_revision rt) + n < 2 ^ 64 \<longrightarrow>
     unat (rt_revision rt') \<le> unat (rt_revision rt) + n \<and> (\<forall>r rt0. since r t rt0 rt \<longrightarrow> since r t rt0 rt'))"

lemma draws_trans: "draws t n rt rt' \<Longrightarrow> draws t m rt' rt'' \<Longrightarrow> draws t (n + m) rt rt''"
  by (auto simp: draws_def)

lemma draws_mono: "draws t n rt rt' \<Longrightarrow> n \<le> m \<Longrightarrow> draws t m rt rt'"
  by (auto simp: draws_def)

lemma draws_refl: "draws t n rt rt"
  by (simp add: draws_def)

lemma accounted_view:
  "accounted r t rt0 rt v =
     (case map_option sync_view (tab_get (rt_table rt) v) of
        Some (ep, n, rv) \<Rightarrow> r < rv \<or> map_option sync_view (tab_get (rt_table rt0) v) = Some (ep, n, rv)
      | None \<Rightarrow> tab_get (rt_table rt0) v = None
          \<or> (case tab_get (rt_tombstones rt) v of Some (rv, created) \<Rightarrow> r < rv \<and> t \<le> created | None \<Rightarrow> False))"
  by (auto simp: accounted_def sync_view_def split: option.splits)

lemma accounted_cong:
  assumes "map_option sync_view (tab_get (rt_table rt') v) = map_option sync_view (tab_get (rt_table rt) v)"
    "tab_get (rt_tombstones rt') v = tab_get (rt_tombstones rt) v"
  shows "accounted r t rt0 rt' v = accounted r t rt0 rt v"
  unfolding accounted_view assms ..

lemma draws_same:
  assumes "rt_revision rt' = rt_revision rt" "rt_tombstones rt' = rt_tombstones rt"
    "\<And>v. map_option sync_view (tab_get (rt_table rt') v) = map_option sync_view (tab_get (rt_table rt) v)"
  shows "draws t n rt rt'"
  using accounted_cong [of rt' _ rt] assms by (simp add: draws_def since_def)

lemma quiet_draws: "quiet rt rt' \<Longrightarrow> draws t n rt rt'"
  by (auto simp: quiet_def intro: draws_same)

lemma rev_bump: "unat (rv :: u64) + 1 < 2 ^ 64 \<Longrightarrow> unat (rv + 1) = unat rv + 1"
  by (simp add: unat_word_ariths)

lemma rev_bump_less: "unat (rv :: u64) + 1 < 2 ^ 64 \<Longrightarrow> r \<le> rv \<Longrightarrow> r < rv + 1"
  by (simp add: word_less_nat_alt word_le_nat_alt rev_bump)

lemma draws_loud:
  assumes "unat (rt_revision rt) + n < 2 ^ 64 \<Longrightarrow> unat (rt_revision rt') \<le> unat (rt_revision rt) + n"
    and "unat (rt_revision rt) + n < 2 ^ 64 \<Longrightarrow> rt_revision rt \<le> rt_revision rt'"
    and "tab_ok (rt_tombstones rt) \<Longrightarrow> tab_ok (rt_tombstones rt')"
    and "\<And>r rt0 v. unat (rt_revision rt) + n < 2 ^ 64 \<Longrightarrow> tab_ok (rt_tombstones rt) \<Longrightarrow> r \<le> rt_revision rt \<Longrightarrow>
        accounted r t rt0 rt v \<Longrightarrow> accounted r t rt0 rt' v"
  shows "draws t n rt rt'"
  using assms unfolding draws_def since_def by (meson order_trans)

lemma rev_bump_le: "unat (rv :: u64) + 1 < 2 ^ 64 \<Longrightarrow> rv \<le> rv + 1"
  by (simp add: rev_bump word_le_nat_alt)

lemma remove_draws:
  assumes "t \<le> now"
  shows "draws t 1 rt (rt_remove now vip rt)"
proof (rule draws_loud)
  fix r rt0 v
  assume "unat (rt_revision rt) + 1 < 2 ^ 64" "r \<le> rt_revision rt" and acc: "accounted r t rt0 rt v"
  then have "r < rt_revision rt + 1" by (intro rev_bump_less)
  with acc assms accounted_cong [of "rt_remove now vip rt" v rt]
  show "accounted r t rt0 (rt_remove now vip rt) v"
    by (cases "v = vip") (simp_all add: rt_remove_get tab_get_put accounted_def)
qed (simp_all add: rev_bump rev_bump_le)

lemma prune_draws:
  assumes "in_window t now"
  shows "draws t n rt (prune_tombstones now keep rt)"
proof (rule draws_loud)
  fix r rt0 v
  assume "tab_ok (rt_tombstones rt)" and acc: "accounted r t rt0 rt v"
  moreover have "tombstone_kept keep now v created" if "t \<le> created" for v created
    using assms that by (auto simp: tombstone_kept_def in_window_def duration_since_def Let_def)
  ultimately show "accounted r t rt0 (prune_tombstones now keep rt) v"
    by (auto simp: accounted_def prune_tombstones_def tab_get_retain split: option.splits prod.splits if_splits)
qed (simp_all add: prune_tombstones_def)

lemma store_route_revision:
  "rt_revision (store_route now vip ep node_id rt) =
     (if route_changed ep node_id (tab_get (rt_table rt) vip) then rt_revision rt + 1 else rt_revision rt)"
  by (simp add: store_route_def Let_def stamp_revision_def)

lemma store_route_tombstones: "rt_tombstones (store_route now vip ep node_id rt) = tab_del vip (rt_tombstones rt)"
  by (simp add: store_route_def Let_def stamp_revision_def)

lemma store_route_view:
  "map_option sync_view (tab_get (rt_table (store_route now vip ep node_id rt)) v) =
     (if v = vip then
        Some (ep, case node_id of Some n \<Rightarrow> n | None \<Rightarrow> (case tab_get (rt_table rt) vip of Some e \<Rightarrow> re_node_id e | None \<Rightarrow> []),
              if route_changed ep node_id (tab_get (rt_table rt) vip) then rt_revision rt + 1
              else (case tab_get (rt_table rt) vip of Some e \<Rightarrow> re_last_modified_revision e | None \<Rightarrow> 0))
      else map_option sync_view (tab_get (rt_table rt) v))"
  by (auto simp: store_route_def Let_def stamp_revision_def tab_get_upd_entry tab_get_put sync_view_def touched_entry_def
      RouteEntry_new_def split: option.splits)

lemma unchanged_view:
  "\<not> route_changed ep node_id old \<Longrightarrow> \<exists>e. old = Some e \<and> re_endpoint e = ep \<and> (node_id = None \<or> node_id = Some (re_node_id e))"
  by (auto simp: route_changed_def Let_def split: option.splits)

lemma store_draws: "draws t 1 rt (store_route now vip ep node_id rt)"
proof (rule draws_loud)
  fix r rt0 v
  assume b: "unat (rt_revision rt) + 1 < 2 ^ 64" "r \<le> rt_revision rt" and acc: "accounted r t rt0 rt v"
  have less: "r < rt_revision rt + 1" using b by (intro rev_bump_less)
  show "accounted r t rt0 (store_route now vip ep node_id rt) v"
  proof (cases "v = vip")
    case False
    with acc show ?thesis
      by (subst accounted_cong [where rt = rt]) (simp_all add: store_route_view store_route_tombstones tab_get_del)
  next
    case True
    show ?thesis
    proof (cases "route_changed ep node_id (tab_get (rt_table rt) vip)")
      case False
      from unchanged_view [OF this] obtain e where
        "tab_get (rt_table rt) vip = Some e" "re_endpoint e = ep" "node_id = None \<or> node_id = Some (re_node_id e)" by blast
      with acc \<open>v = vip\<close> False show ?thesis
        by (auto simp: accounted_view store_route_view sync_view_def)
    qed (use \<open>v = vip\<close> less in \<open>simp add: accounted_view store_route_view\<close>)
  qed
qed (auto simp: store_route_revision store_route_tombstones rev_bump rev_bump_le)

lemma resolve_alias_draws:
  assumes "t \<le> now" "resolve_alias now vip ep node_id rt = Some rt'"
  shows "draws t 1 rt rt'"
proof -
  have "draws t 1 rt (rt\<lparr>rt_ep_to_vip := tab_del ep (rt_ep_to_vip rt)\<rparr>)" by (rule draws_same) simp_all
  then show ?thesis
    using assms remove_draws draws_refl
    by (auto simp: resolve_alias_def Let_def split: option.splits if_splits)
qed

lemma update_draws:
  assumes "in_window t now"
  shows "draws t 2 rt (rt_update now vip ep node_id rt)"
proof -
  let ?p = "if duration_since now (rt_last_tombstone_prune rt) \<ge> TOMBSTONE_PRUNE_INTERVAL then prune_tombstones now [] rt else rt"
  have p: "draws t 0 rt ?p" using prune_draws [OF assms] draws_refl by simp
  have t: "t \<le> now" using assms by (simp add: in_window_def)
  show ?thesis
  proof (cases "resolve_alias now vip ep node_id ?p")
    case None
    then show ?thesis using draws_mono [OF p, of 2] by (simp add: rt_update_def Let_def)
  next
    case (Some rt')
    from draws_trans [OF draws_trans [OF p resolve_alias_draws [OF t Some]] store_draws]
    have "draws t 2 rt (store_route now vip ep node_id rt')" by (simp del: One_nat_def add: numeral_2_eq_2 [symmetric])
    with Some show ?thesis by (simp add: rt_update_def Let_def)
  qed
qed

lemma fold_remove_draws: "t \<le> now \<Longrightarrow> draws t (length vs) rt (fold (rt_remove now) vs rt)"
proof (induction vs arbitrary: rt)
  case (Cons v vs)
  from draws_trans [OF remove_draws [OF Cons.prems] Cons.IH [OF Cons.prems]] show ?case by simp
qed (simp add: draws_refl)

lemma fold_drain_draws: "t \<le> now \<Longrightarrow> draws t (length vs) (snd acc) (snd (fold (drain_one now) vs acc))"
proof (induction vs arbitrary: acc)
  case (Cons v vs)
  have "draws t 1 (snd acc) (snd (drain_one now v acc))"
    using drain_one_cases [of now v acc] remove_draws [OF Cons.prems] draws_refl by metis
  from draws_trans [OF this Cons.IH [OF Cons.prems]] show ?case by simp
qed (simp add: draws_refl)

lemma step_draws: "clocked t op \<Longrightarrow> draws t (bumps op rt) rt (rt_step op rt)"
proof (cases "loud op")
  case False
  then show ?thesis using rt_step_quiet by (simp add: quiet_ok_def quiet_draws)
next
  case True
  have "draws t (length (rt_table rt)) rt (snd (drain_vips_outside_subnet now my_vip prefix rt))" if "t \<le> now" for now my_vip prefix
  proof (cases "parse_ipv4 my_vip")
    case (Some anchor)
    have "draws t (length (filter (outside_subnet anchor prefix) (tab_keys (rt_table rt)))) rt
        (snd (fold (drain_one now) (filter (outside_subnet anchor prefix) (tab_keys (rt_table rt))) ([], rt)))"
      using fold_drain_draws [OF that, of _ "([], rt)"] by simp
    moreover have "length (filter (outside_subnet anchor prefix) (tab_keys (rt_table rt))) \<le> length (rt_table rt)"
      using length_filter_le [of "outside_subnet anchor prefix" "tab_keys (rt_table rt)"] by (simp add: tab_keys_def)
    ultimately show ?thesis by (simp add: drain_vips_outside_subnet_def Some draws_mono)
  qed (simp add: drain_vips_outside_subnet_def draws_refl)
  moreover assume "clocked t op"
  ultimately show ?thesis using True
    by (cases op) (simp_all add: update_draws remove_draws [simplified] prune_draws in_window_def evict_old_stale_def fold_remove_draws)
qed

lemma run_draws: "list_all (clocked t) ops \<Longrightarrow> draws t (total_bumps ops rt) rt (fold rt_step ops rt)"
proof (induction ops arbitrary: rt)
  case (Cons op ops)
  from Cons.prems have "draws t (bumps op rt) rt (rt_step op rt)" by (intro step_draws) simp
  from draws_trans [OF this Cons.IH] Cons.prems show ?case by simp
qed (simp add: draws_refl)

text \<open>Over a run in which the revision does not wrap, the table accounts for every change.\<close>

lemma run_accounted:
  assumes "list_all (clocked t) ops" "unat (rt_revision rt0) + total_bumps ops rt0 < 2 ^ 64" "rt_inv rt0"
  shows "accounted (rt_revision rt0) t rt0 (fold rt_step ops rt0) v"
proof -
  have "since (rt_revision rt0) t rt0 rt0"
    using assms(3) by (auto simp: since_def accounted_def rt_inv_except_def tables_ok_def split: option.splits)
  with run_draws [OF assms(1), of rt0] assms(2)
  have "since (rt_revision rt0) t rt0 (fold rt_step ops rt0)" by (auto simp: draws_def)
  then show ?thesis by (simp add: since_def)
qed

section \<open>Relay selection\<close>

lemma best_hop_fold:
  fixes c :: "string \<times> RouteEntry \<Rightarrow> bool"
  defines "pick \<equiv> fold (\<lambda>x best. if \<not> c x then best
     else case best of None \<Rightarrow> Some x | Some b \<Rightarrow> if replaces x b then Some x else Some b)"
  shows "(case pick xs None of
            Some x \<Rightarrow> x \<in> set xs \<and> c x \<and> (\<forall>y \<in> set xs. c y \<longrightarrow> re_quality_score (snd y) \<le> re_quality_score (snd x))
          | None \<Rightarrow> \<forall>y \<in> set xs. \<not> c y)"
proof -
  have some: "\<exists>x. pick xs (Some b) = Some x \<and> (x = b \<or> x \<in> set xs \<and> c x)
      \<and> re_quality_score (snd b) \<le> re_quality_score (snd x)
      \<and> (\<forall>y \<in> set xs. c y \<longrightarrow> re_quality_score (snd y) \<le> re_quality_score (snd x))" for xs b
  proof (induction xs arbitrary: b)
    case (Cons y ys)
    let ?b = "if c y \<and> replaces y b then y else b"
    have "pick (y # ys) (Some b) = pick ys (Some ?b)" by (simp add: pick_def)
    moreover have "re_quality_score (snd b) \<le> re_quality_score (snd ?b)"
      "c y \<Longrightarrow> re_quality_score (snd y) \<le> re_quality_score (snd ?b)"
      by (auto simp: replaces_def split: prod.splits)
    ultimately show ?case using Cons.IH [of ?b] by (force split: if_splits)
  qed (simp add: pick_def)
  show ?thesis
  proof (induction xs)
    case (Cons y ys)
    show ?case
    proof (cases "c y")
      case True
      with some [of ys y] show ?thesis by (auto simp: pick_def)
    next
      case False
      then have "pick (y # ys) None = pick ys None" by (simp add: pick_def)
      with Cons.IH False show ?thesis by (auto split: option.splits)
    qed
  qed (simp add: pick_def)
qed

lemma best_hop:
  "(case best_usable_peer_hop dest my exclude rt of
      Some ep \<Rightarrow> \<exists>v e. (v, e) \<in> set (rt_table rt) \<and> re_endpoint e = ep \<and> hop_candidate dest my exclude rt v e
        \<and> (\<forall>(v', e') \<in> set (rt_table rt). hop_candidate dest my exclude rt v' e' \<longrightarrow> re_quality_score e' \<le> re_quality_score e)
    | None \<Rightarrow> \<forall>(v, e) \<in> set (rt_table rt). \<not> hop_candidate dest my exclude rt v e)"
  using best_hop_fold [where c = "\<lambda>(v, e). hop_candidate dest my exclude rt v e" and xs = "rt_table rt"]
  unfolding best_usable_peer_hop_def
  by (auto simp: case_prod_unfold cong: if_cong option.case_cong split: option.splits) blast

lemma hop_usable_of_candidate: "hop_candidate dest my exclude rt v e \<Longrightarrow> hop_usable (re_endpoint e) dest my exclude rt"
  by (simp add: hop_candidate_def)

section \<open>Properties\<close>


text \<open>
  C35. A relay hop that is selected for an address is usable: not the excluded endpoint, neither this node nor the
  destination, with a live route that is not itself failing. It is the hop already stamped on the destination,
  or the endpoint of a candidate of the highest quality; no hop is selected only when the stamped one is
  unusable and the table has no candidate.
\<close>

theorem relay_hop_usable:
  "case select_relay_endpoint dest my exclude rt of
     Hop ep \<Rightarrow> hop_usable ep (Some dest) my exclude rt
       \<and> (if sticky_relay_hop dest rt = Some ep then True
          else list_ex (\<lambda>(v, e). re_endpoint e = ep \<and> hop_candidate (Some dest) my exclude rt v e
            \<and> list_all (\<lambda>(v', e'). if hop_candidate (Some dest) my exclude rt v' e'
                 then re_quality_score e' \<le> re_quality_score e else True) (rt_table rt)) (rt_table rt))
   | NoHop \<Rightarrow> (case sticky_relay_hop dest rt of Some ep \<Rightarrow> \<not> hop_usable ep (Some dest) my exclude rt | None \<Rightarrow> True)
       \<and> list_all (\<lambda>(v, e). \<not> hop_candidate (Some dest) my exclude rt v e) (rt_table rt)"
  using best_hop [where dest = "Some dest" and my = my and exclude = exclude and rt = rt]
  by (auto simp: select_relay_endpoint_def list_ex_iff list_all_iff dest: hop_usable_of_candidate
      split: option.splits if_splits)

definition ep_at :: "nat \<Rightarrow> SocketAddr" where
  "ep_at p = V4 3232235786 (of_nat p)"

lemma store_route_ep:
  "rt_ep_to_vip (store_route now vip ep node_id rt) = tab_put ep vip
     (case map_option sync_view (tab_get (rt_table rt) vip) of
        None \<Rightarrow> rt_ep_to_vip rt | Some (old, _) \<Rightarrow> tab_del old (rt_ep_to_vip rt))"
  by (simp add: store_route_def Let_def stamp_revision_def index_route_index touched_entry_def sync_view_def split: option.splits)

lemma store_route_new_node:
  "tab_get (rt_table rt) vip = None \<Longrightarrow> n \<noteq> [] \<Longrightarrow>
     rt_node_to_vip (store_route now vip ep (Some n) rt) = tab_put n vip (rt_node_to_vip rt)"
  by (simp add: store_route_def Let_def stamp_revision_def index_route_index touched_entry_def)

lemma rt_update_fresh:
  assumes "now < TOMBSTONE_PRUNE_INTERVAL" "tab_get (rt_ep_to_vip rt) ep = None"
  shows "rt_update now vip ep node_id rt = store_route now vip ep node_id rt"
  using assms by (simp add: rt_update_def Let_def resolve_alias_def duration_since_def)

text \<open>Without node ids an endpoint is taken over: only its index entry moves.\<close>

lemma rt_update_takeover:
  assumes "now < TOMBSTONE_PRUNE_INTERVAL" "tab_get (rt_ep_to_vip rt) ep = Some prev" "prev \<noteq> vip"
    "map_option sync_view (tab_get (rt_table rt) prev) = Some (ep', [], rv)"
  shows "rt_update now vip ep None rt = store_route now vip ep None (rt\<lparr>rt_ep_to_vip := tab_del ep (rt_ep_to_vip rt)\<rparr>)"
  using assms by (auto simp: rt_update_def Let_def resolve_alias_def duration_since_def sync_view_def)

lemma rt_lookup_view: "rt_lookup v rt = map_option fst (map_option sync_view (tab_get (rt_table rt) v))"
  by (simp add: rt_lookup_def option.map_comp o_def sync_view_def)

lemma node_of_view: "map_option re_node_id (tab_get (rt_table rt) v) = map_option (fst \<circ> snd) (map_option sync_view (tab_get (rt_table rt) v))"
  by (simp add: option.map_comp o_def sync_view_def)

lemma new_table_empty: "rt_table (RoutingTable_new now) = []" "rt_ep_to_vip (RoutingTable_new now) = []"
    "rt_node_to_vip (RoutingTable_new now) = []" "rt_revision (RoutingTable_new now) = 0"
  by (simp_all add: RoutingTable_new_def)

lemma tab_get_single: "tab_get [(a, b)] k = (if k = a then Some b else None)"
  by (simp add: tab_get_def)

lemma ep_at_neq: "ep_at 1 \<noteq> ep_at 2" "ep_at 2 \<noteq> ep_at 1"
  by (simp_all add: ep_at_def)

lemma prune_interval_long: "1 < TOMBSTONE_PRUNE_INTERVAL" "2 < TOMBSTONE_PRUNE_INTERVAL" "3 < TOMBSTONE_PRUNE_INTERVAL"
  by (simp_all add: TOMBSTONE_PRUNE_INTERVAL_def from_secs_def)

text \<open>
  Two addresses that share an endpoint: when the first moves to another endpoint, \<^verbatim>\<open>update\<close> drops the index
  entry of the endpoint although the second address still has it, so that the endpoint is no longer tracked.
\<close>

theorem shared_endpoint_move_loses_index:
  "let rt = rt_update 2 ''10.0.0.3'' (ep_at 1) None (rt_update 1 ''10.0.0.2'' (ep_at 1) None (RoutingTable_new 0));
       rt' = rt_update 3 ''10.0.0.2'' (ep_at 2) None rt in
   tracks_endpoint (ep_at 1) rt \<and> \<not> tracks_endpoint (ep_at 1) rt' \<and> rt_lookup ''10.0.0.3'' rt' = Some (ep_at 1)"
proof -
  define r0 where "r0 = RoutingTable_new 0"
  define r1 where "r1 = rt_update 1 ''10.0.0.2'' (ep_at 1) None r0"
  define r2 where "r2 = rt_update 2 ''10.0.0.3'' (ep_at 1) None r1"
  define r3 where "r3 = rt_update 3 ''10.0.0.2'' (ep_at 2) None r2"
  note new = new_table_empty [of 0, folded r0_def]
  have "r1 = store_route 1 ''10.0.0.2'' (ep_at 1) None r0"
    unfolding r1_def by (rule rt_update_fresh) (simp_all add: new prune_interval_long del: One_nat_def)
  then have r1: "rt_ep_to_vip r1 = [(ep_at 1, ''10.0.0.2'')]"
      "map_option sync_view (tab_get (rt_table r1) v) = (if v = ''10.0.0.2'' then Some (ep_at 1, [], 1) else None)" for v
    by (simp_all add: store_route_ep store_route_view new route_changed_def tab_put_def del: One_nat_def)
  have none: "tab_get (rt_table r1) ''10.0.0.3'' = None" using r1(2) [of "''10.0.0.3''"] by simp
  have "r2 = store_route 2 ''10.0.0.3'' (ep_at 1) None (r1\<lparr>rt_ep_to_vip := tab_del (ep_at 1) (rt_ep_to_vip r1)\<rparr>)"
    unfolding r2_def by (rule rt_update_takeover [where prev = "''10.0.0.2''" and ep' = "ep_at 1" and rv = 1]) (simp_all add: r1 prune_interval_long tab_get_single)
  then have r2: "rt_ep_to_vip r2 = [(ep_at 1, ''10.0.0.3'')]"
      "map_option sync_view (tab_get (rt_table r2) v) = (if v = ''10.0.0.3'' then Some (ep_at 1, [], rt_revision r1 + 1)
         else if v = ''10.0.0.2'' then Some (ep_at 1, [], 1) else None)" for v
    using none
    by (simp_all add: store_route_ep store_route_view r1 route_changed_def tab_put_def tab_del_def del: One_nat_def)
  have "r3 = store_route 3 ''10.0.0.2'' (ep_at 2) None r2"
    unfolding r3_def by (rule rt_update_fresh) (simp_all add: r2 prune_interval_long tab_get_single ep_at_neq del: One_nat_def)
  then have r3: "rt_ep_to_vip r3 = [(ep_at 2, ''10.0.0.2'')]" "rt_lookup ''10.0.0.3'' r3 = Some (ep_at 1)"
    by (simp_all add: store_route_ep store_route_view rt_lookup_view r2 tab_put_def tab_del_def del: One_nat_def)
  from r2 r3 show ?thesis
    unfolding Let_def r3_def [symmetric] r2_def [symmetric] r1_def [symmetric] r0_def [symmetric]
    by (simp add: tracks_endpoint_def tab_get_single ep_at_neq del: One_nat_def)
qed

text \<open>
  A node that moved to another address: when its old address is removed, \<^verbatim>\<open>remove\<close> drops the node's index
  entry although it names the new address, so that the node is no longer found although its route is there.
\<close>

theorem old_address_removal_loses_node:
  "let rt = rt_update 2 ''10.0.0.3'' (ep_at 2) (Some ''n1'') (rt_update 1 ''10.0.0.2'' (ep_at 1) (Some ''n1'') (RoutingTable_new 0));
       rt' = rt_remove 3 ''10.0.0.2'' rt in
   lookup_ep_by_node ''n1'' rt = Some (ep_at 2) \<and> lookup_ep_by_node ''n1'' rt' = None
   \<and> rt_lookup ''10.0.0.3'' rt' = Some (ep_at 2)
   \<and> map_option re_node_id (tab_get (rt_table rt') ''10.0.0.3'') = Some ''n1''"
proof -
  define r0 where "r0 = RoutingTable_new 0"
  define r1 where "r1 = rt_update 1 ''10.0.0.2'' (ep_at 1) (Some ''n1'') r0"
  define r2 where "r2 = rt_update 2 ''10.0.0.3'' (ep_at 2) (Some ''n1'') r1"
  note new = new_table_empty [of 0, folded r0_def]
  have "r1 = store_route 1 ''10.0.0.2'' (ep_at 1) (Some ''n1'') r0"
    unfolding r1_def by (rule rt_update_fresh) (simp_all add: new prune_interval_long del: One_nat_def)
  then have r1: "rt_ep_to_vip r1 = [(ep_at 1, ''10.0.0.2'')]" "rt_node_to_vip r1 = [(''n1'', ''10.0.0.2'')]"
      "map_option sync_view (tab_get (rt_table r1) v) = (if v = ''10.0.0.2'' then Some (ep_at 1, ''n1'', 1) else None)" for v
    by (simp_all add: store_route_ep store_route_view store_route_new_node new route_changed_def tab_put_def del: One_nat_def)
  have none: "tab_get (rt_table r1) ''10.0.0.3'' = None" using r1(3) [of "''10.0.0.3''"] by simp
  have "r2 = store_route 2 ''10.0.0.3'' (ep_at 2) (Some ''n1'') r1"
    unfolding r2_def by (rule rt_update_fresh) (simp_all add: r1 prune_interval_long tab_get_single ep_at_neq del: One_nat_def)
  then have r2: "rt_node_to_vip r2 = [(''n1'', ''10.0.0.3'')]"
      "map_option sync_view (tab_get (rt_table r2) v) = (if v = ''10.0.0.3'' then Some (ep_at 2, ''n1'', rt_revision r1 + 1)
         else if v = ''10.0.0.2'' then Some (ep_at 1, ''n1'', 1) else None)" for v
    using none by (simp_all add: store_route_view store_route_new_node r1 route_changed_def tab_put_def del: One_nat_def)
  obtain e where e: "tab_get (rt_table r2) ''10.0.0.2'' = Some e" "re_node_id e = ''n1''"
    using r2(2) [of "''10.0.0.2''"] by (auto simp: sync_view_def)
  have "rt_node_to_vip (rt_remove 3 ''10.0.0.2'' r2) = []" by (simp add: rt_remove_index e r2 tab_del_def)
  with r2 show ?thesis
    unfolding Let_def r2_def [symmetric] r1_def [symmetric] r0_def [symmetric]
    by (simp add: lookup_ep_by_node_def rt_lookup_view node_of_view rt_remove_get tab_get_single del: One_nat_def)
qed

end
