(* ===== verification/Msyn.thy ===== *)
theory Msyn
  imports Routing_Inv
begin

text \<open>
  \<^verbatim>\<open>net/msyn_sync.rs\<close>: the route synchronisation between a sender and a joiner. The sender collects what changed
  since a revision, packs it into parts under a size budget, and the joiner buffers the parts of a sender until
  all are there. The JSON text of a part is a parameter: \<open>ser\<close> renders the content of a part, \<open>text_len\<close> is the
  length of a text, and \<open>de\<close> gives what the accessors of the JSON value return on a text. The joiner's side is
  written over these accessor results, so that missing and malformed fields are cases of the model.
\<close>

section \<open>Constants\<close>

definition MSYN_PROTO_VER :: u64 where "MSYN_PROTO_VER = 4"
definition MSYN_SCHEMA_VER :: u64 where "MSYN_SCHEMA_VER = 1"
definition MSYN_ASSEMBLE_MAX_BUFFERS_PER_FROM :: nat where "MSYN_ASSEMBLE_MAX_BUFFERS_PER_FROM = 8"
definition MSYN_ASSEMBLE_MAX_PARTS_TOTAL :: nat where "MSYN_ASSEMBLE_MAX_PARTS_TOTAL = 64"
definition MSYN_ASSEMBLE_TTL :: duration where "MSYN_ASSEMBLE_TTL = from_secs 30"
definition MSYN_APPLY_MAX_ROUTES :: nat where "MSYN_APPLY_MAX_ROUTES = 1024"
definition MSYN_APPLY_MAX_REMOVED :: nat where "MSYN_APPLY_MAX_REMOVED = 1024"
definition MSYN_SHARD_WRAP_RESERVE :: nat where "MSYN_SHARD_WRAP_RESERVE = 4 + 6 + 16 + 4 + 2 + 1 + 15 + 4"
definition MSYN_JSON_BUDGET_FLOOR :: nat where "MSYN_JSON_BUDGET_FLOOR = 256"

definition effective_msyn_json_budget :: "nat \<Rightarrow> nat" where
  "effective_msyn_json_budget configured = max (configured - MSYN_SHARD_WRAP_RESERVE) MSYN_JSON_BUDGET_FLOOR"

section \<open>What a peer is owed\<close>

text \<open>The hash set of the result is a list without repetitions; a pending set is a list.\<close>

definition collect_removed_vips :: "u64 \<Rightarrow> (string \<times> u64) list \<Rightarrow> string list option \<Rightarrow> string list" where
  "collect_removed_vips last_rev tombs pending =
     remdups (map fst (filter (\<lambda>(_, rv). rv > last_rev) tombs) @ (case pending of Some p \<Rightarrow> p | None \<Rightarrow> []))"

definition peer_owes_removals :: "u64 \<Rightarrow> (string \<times> u64) list \<Rightarrow> string list option \<Rightarrow> bool" where
  "peer_owes_removals last_rev tombs pending =
     (if (case pending of Some p \<Rightarrow> p \<noteq> [] | None \<Rightarrow> False) then True else list_ex (\<lambda>(_, rv). rv > last_rev) tombs)"

definition should_advance_peer_sync :: "bool \<Rightarrow> u64 \<Rightarrow> (string \<times> u64) list \<Rightarrow> string list option \<Rightarrow> bool" where
  "should_advance_peer_sync sync_ok last_rev tombs pending = (sync_ok \<and> \<not> peer_owes_removals last_rev tombs pending)"

definition should_advance_peer_sync_after_send :: "bool \<Rightarrow> string list option \<Rightarrow> bool" where
  "should_advance_peer_sync_after_send sync_ok pending_after =
     (sync_ok \<and> \<not> (case pending_after of Some p \<Rightarrow> p \<noteq> [] | None \<Rightarrow> False))"

definition clear_pending_delivered :: "string list \<Rightarrow> string list \<Rightarrow> string list" where
  "clear_pending_delivered pending removed_vips = fold removeAll removed_vips pending"

section \<open>Parts\<close>

record MsynRouteItem =
  mi_vip :: string
  mi_ep :: string
  mi_node_id :: string

definition from_sync_row :: "(SocketAddr \<Rightarrow> string) \<Rightarrow> RouteSyncRow \<Rightarrow> MsynRouteItem" where
  "from_sync_row show_addr r = \<lparr>mi_vip = sr_vip r, mi_ep = show_addr (sr_endpoint r), mi_node_id = sr_node_id r\<rparr>"

datatype ShardError =
    EntryTooLarge string nat
  | TooManyParts nat
  | EpochTooLarge nat nat

record MsynPart =
  mp_proto_ver :: u64
  mp_schema_ver :: u64
  mp_from_rev :: u64
  mp_to_rev :: u64
  mp_sync_id :: u64
  mp_part_idx :: u32
  mp_parts_total :: u32
  mp_routes :: "MsynRouteItem list"
  mp_removed :: "string list"

definition serialize_part :: "u64 \<Rightarrow> u64 \<Rightarrow> u64 \<Rightarrow> u32 \<Rightarrow> u32 \<Rightarrow> MsynRouteItem list \<Rightarrow> string list \<Rightarrow> MsynPart" where
  "serialize_part from_rev to_rev sync_id part_idx parts_total routes removed =
     \<lparr>mp_proto_ver = MSYN_PROTO_VER, mp_schema_ver = MSYN_SCHEMA_VER, mp_from_rev = from_rev, mp_to_rev = to_rev,
      mp_sync_id = sync_id, mp_part_idx = part_idx, mp_parts_total = parts_total, mp_routes = routes, mp_removed = removed\<rparr>"

type_synonym Acc = "MsynRouteItem list \<times> string list"

text \<open>
  The packing loops over the entries: \<open>fits\<close> and \<open>size_alone\<close> stand for the closures over the serializer.
  The result is the finished parts and the open one.
\<close>

definition close_part :: "Acc list \<Rightarrow> Acc \<Rightarrow> Acc list" where
  "close_part finished cur = (if fst cur \<noteq> [] \<or> snd cur \<noteq> [] then finished @ [cur] else finished)"

fun pack_removed :: "(Acc \<Rightarrow> bool) \<Rightarrow> (Acc \<Rightarrow> nat) \<Rightarrow> Acc list \<Rightarrow> Acc \<Rightarrow> string list \<Rightarrow> ShardError + (Acc list \<times> Acc)" where
  "pack_removed fits part_size finished cur [] = Inr (finished, cur)"
| "pack_removed fits part_size finished cur (v # vs) =
     (if fits (fst cur, snd cur @ [v]) then pack_removed fits part_size finished (fst cur, snd cur @ [v]) vs
      else if \<not> fits ([], [v]) then Inl (EntryTooLarge ''removed'' (part_size ([], [v])))
      else pack_removed fits part_size (close_part finished cur) ([], [v]) vs)"

fun pack_routes :: "(Acc \<Rightarrow> bool) \<Rightarrow> (Acc \<Rightarrow> nat) \<Rightarrow> Acc list \<Rightarrow> Acc \<Rightarrow> MsynRouteItem list \<Rightarrow> ShardError + (Acc list \<times> Acc)" where
  "pack_routes fits part_size finished cur [] = Inr (finished, cur)"
| "pack_routes fits part_size finished cur (r # rs) =
     (if fits (fst cur @ [r], snd cur) then pack_routes fits part_size finished (fst cur @ [r], snd cur) rs
      else if \<not> fits ([r], []) then Inl (EntryTooLarge ''route'' (part_size ([r], [])))
      else pack_routes fits part_size (close_part finished cur) ([r], []) rs)"

definition shard_msyn_epoch ::
    "(MsynPart \<Rightarrow> 'text) \<Rightarrow> ('text \<Rightarrow> nat) \<Rightarrow> u64 \<Rightarrow> u64 \<Rightarrow> u64 \<Rightarrow> MsynRouteItem list \<Rightarrow> string list \<Rightarrow> nat \<Rightarrow> ShardError + 'text list" where
  "shard_msyn_epoch ser text_len from_rev to_rev sync_id routes removed budget =
     (if length routes > MSYN_APPLY_MAX_ROUTES \<or> length removed > MSYN_APPLY_MAX_REMOVED
      then Inl (EpochTooLarge (length routes) (length removed))
      else
        let part_size = (\<lambda>acc. text_len (ser (serialize_part from_rev to_rev sync_id 0 1 (fst acc) (snd acc))));
            fits = (\<lambda>acc. part_size acc \<le> budget) in
        case pack_removed fits part_size [] ([], []) removed of
          Inl e \<Rightarrow> Inl e
        | Inr (finished, cur) \<Rightarrow>
            (case pack_routes fits part_size finished cur routes of
               Inl e \<Rightarrow> Inl e
             | Inr (finished, cur) \<Rightarrow>
                 let finished = (if fst cur \<noteq> [] \<or> snd cur \<noteq> [] \<or> finished = [] then finished @ [cur] else finished);
                     parts_total = (of_nat (length finished) :: u32) in
                 if unat parts_total > MSYN_ASSEMBLE_MAX_PARTS_TOTAL then Inl (TooManyParts (unat parts_total))
                 else Inr (map (\<lambda>(idx, acc). ser (serialize_part from_rev to_rev sync_id (of_nat idx) parts_total (fst acc) (snd acc)))
                        (enumerate 0 finished))))"

definition build_msyn_delta_shards ::
    "(MsynPart \<Rightarrow> 'text) \<Rightarrow> ('text \<Rightarrow> nat) \<Rightarrow> (SocketAddr \<Rightarrow> string) \<Rightarrow> u64 \<Rightarrow> u64 \<Rightarrow> u64 \<Rightarrow> RouteSyncRow list \<Rightarrow> (string \<times> u64) list \<Rightarrow>
     string list option \<Rightarrow> nat \<Rightarrow> ShardError + 'text list option" where
  "build_msyn_delta_shards ser text_len show_addr last_rev current_rev sync_id snapshot tombs pending budget =
     (let routes = map (from_sync_row show_addr) (filter (\<lambda>r. sr_last_modified_revision r > last_rev) snapshot);
          removed = collect_removed_vips last_rev tombs pending in
      if routes = [] \<and> removed = [] then Inr None
      else case shard_msyn_epoch ser text_len last_rev current_rev sync_id routes removed budget of
        Inl e \<Rightarrow> Inl e | Inr parts \<Rightarrow> Inr (Some parts))"

definition build_msyn_full_shards ::
    "(MsynPart \<Rightarrow> 'text) \<Rightarrow> ('text \<Rightarrow> nat) \<Rightarrow> u64 \<Rightarrow> u64 \<Rightarrow> MsynRouteItem list \<Rightarrow> string list \<Rightarrow> nat \<Rightarrow> ShardError + 'text list" where
  "build_msyn_full_shards ser text_len to_rev sync_id routes removed budget =
     shard_msyn_epoch ser text_len 0 to_rev sync_id routes removed budget"

definition routes_from_snapshot_non_stale :: "(SocketAddr \<Rightarrow> string) \<Rightarrow> RouteSyncRow list \<Rightarrow> MsynRouteItem list" where
  "routes_from_snapshot_non_stale show_addr snapshot =
     map (from_sync_row show_addr) (filter (\<lambda>r. sr_state r \<noteq> Stale) snapshot)"

section \<open>Assembling\<close>

record 'r MsynPartPayload =
  pl_routes :: "'r list"
  pl_removed :: "string list"

record 'r PartialMsyn =
  pa_sync_id :: u64
  pa_from_rev :: u64
  pa_to_rev :: u64
  pa_parts_total :: u32
  pa_parts :: "(u32, 'r MsynPartPayload) table"
  pa_first_seen :: instant

definition is_complete :: "'r PartialMsyn \<Rightarrow> bool" where
  "is_complete p = (pa_parts_total p > 0 \<and> (of_nat (length (pa_parts p)) :: u32) = pa_parts_total p)"

definition assemble_removed_then_routes :: "'r PartialMsyn \<Rightarrow> string list \<times> 'r list" where
  "assemble_removed_then_routes p =
     fold (\<lambda>idx (removed, routes). case tab_get (pa_parts p) (of_nat idx) of
         Some pl \<Rightarrow> (removed @ pl_removed pl, routes @ pl_routes pl)
       | None \<Rightarrow> (removed, routes)) [0..<unat (pa_parts_total p)] ([], [])"

type_synonym 'r MsynAssembleMap = "(SocketAddr \<times> u64, 'r PartialMsyn) table"

datatype 'r MsynIngestOutcome = Ignored | Buffered bool | Complete "'r PartialMsyn"

text \<open>
  What the accessors return on the received JSON value: a number field is None when it is missing or not an
  unsigned integer, an array field when it is missing or not an array; an element of \<^verbatim>\<open>removed\<close> that is not a
  string is None.
\<close>

record 'r MsynValue =
  mv_proto_ver :: "u64 option"
  mv_schema_ver :: "u64 option"
  mv_sync_id :: "u64 option"
  mv_from_rev :: "u64 option"
  mv_to_rev :: "u64 option"
  mv_part_idx :: "u64 option"
  mv_parts_total :: "u64 option"
  mv_routes :: "'r list option"
  mv_removed :: "string option list option"

definition parse_u32 :: "u64 option \<Rightarrow> u32 option" where
  "parse_u32 x = Option.bind x (\<lambda>n. if unat n < 2 ^ 32 then Some (ucast n) else None)"

definition sweep_msyn_assemble :: "instant \<Rightarrow> 'r MsynAssembleMap \<Rightarrow> 'r MsynAssembleMap" where
  "sweep_msyn_assemble now m = tab_retain (\<lambda>_ p. duration_since now (pa_first_seen p) < MSYN_ASSEMBLE_TTL) m"

definition enforce_buffer_cap :: "SocketAddr \<Rightarrow> 'r MsynAssembleMap \<Rightarrow> 'r MsynAssembleMap" where
  "enforce_buffer_cap from_ep m =
     (let ks = map (\<lambda>((_, sid), p). (sid, pa_first_seen p)) (filter (\<lambda>((f, _), _). f = from_ep) m) in
      if length ks \<le> MSYN_ASSEMBLE_MAX_BUFFERS_PER_FROM then m
      else fold (\<lambda>(sid, _). tab_del (from_ep, sid))
             (take (length ks - MSYN_ASSEMBLE_MAX_BUFFERS_PER_FROM) (sort_key snd ks)) m)"

text \<open>The checks of the header fields, in the order of the code.\<close>

definition part_header :: "'r MsynValue \<Rightarrow> u64 \<Rightarrow> (u64 \<times> u64 \<times> u64 \<times> u32 \<times> u32) option" where
  "part_header v applied_to_rev =
     (case mv_proto_ver v of None \<Rightarrow> None | Some proto_ver \<Rightarrow>
      if proto_ver \<noteq> MSYN_PROTO_VER then None else
      case mv_schema_ver v of None \<Rightarrow> None | Some schema_ver \<Rightarrow>
      if schema_ver \<noteq> MSYN_SCHEMA_VER then None else
      case mv_sync_id v of None \<Rightarrow> None | Some sync_id \<Rightarrow>
      case mv_from_rev v of None \<Rightarrow> None | Some from_rev \<Rightarrow>
      case mv_to_rev v of None \<Rightarrow> None | Some to_rev \<Rightarrow>
      case parse_u32 (mv_part_idx v) of None \<Rightarrow> None | Some part_idx \<Rightarrow>
      case parse_u32 (mv_parts_total v) of None \<Rightarrow> None | Some parts_total \<Rightarrow>
      if parts_total = 0 \<or> unat parts_total > MSYN_ASSEMBLE_MAX_PARTS_TOTAL then None
      else if part_idx \<ge> parts_total then None
      else if to_rev \<le> applied_to_rev then None
      else Some (sync_id, from_rev, to_rev, part_idx, parts_total))"

definition part_payload :: "'r MsynValue \<Rightarrow> 'r MsynPartPayload" where
  "part_payload v =
     \<lparr>pl_routes = (case mv_routes v of Some rs \<Rightarrow> rs | None \<Rightarrow> []),
      pl_removed = (case mv_removed v of Some xs \<Rightarrow> List.map_filter id xs | None \<Rightarrow> [])\<rparr>"

definition supersede :: "SocketAddr \<Rightarrow> u64 \<Rightarrow> u64 \<Rightarrow> 'r MsynAssembleMap \<Rightarrow> 'r MsynAssembleMap" where
  "supersede from_ep sync_id to_rev m =
     tab_retain (\<lambda>(f, _) p. \<not> (f = from_ep \<and> pa_sync_id p \<noteq> sync_id \<and> (pa_to_rev p < to_rev \<or> pa_to_rev p = to_rev))) m"

definition finish_part :: "SocketAddr \<times> u64 \<Rightarrow> bool \<Rightarrow> 'r MsynAssembleMap \<Rightarrow> 'r MsynIngestOutcome \<times> 'r MsynAssembleMap" where
  "finish_part key first_part m =
     (case tab_get m key of
        None \<Rightarrow> (Ignored, m)
      | Some buf \<Rightarrow> if is_complete buf then (Complete buf, tab_del key m) else (Buffered first_part, m))"

definition ingest_msyn_part ::
    "SocketAddr \<Rightarrow> 'r MsynValue \<Rightarrow> u64 \<Rightarrow> instant \<Rightarrow> 'r MsynAssembleMap \<Rightarrow> 'r MsynIngestOutcome \<times> 'r MsynAssembleMap" where
  "ingest_msyn_part from_ep v applied_to_rev now m0 =
     (let m = sweep_msyn_assemble now m0 in
      case part_header v applied_to_rev of
        None \<Rightarrow> (Ignored, m)
      | Some (sync_id, from_rev, to_rev, part_idx, parts_total) \<Rightarrow>
          let m = supersede from_ep sync_id to_rev m in
          if list_ex (\<lambda>((f, _), p). f = from_ep \<and> pa_sync_id p \<noteq> sync_id \<and> pa_to_rev p > to_rev) m then (Ignored, m)
          else
            case tab_get m (from_ep, sync_id) of
              Some existing \<Rightarrow>
                if pa_parts_total existing \<noteq> parts_total \<or> pa_from_rev existing \<noteq> from_rev \<or> pa_to_rev existing \<noteq> to_rev
                then (Ignored, tab_del (from_ep, sync_id) m)
                else finish_part (from_ep, sync_id) False
                  (tab_put (from_ep, sync_id)
                     (existing\<lparr>pa_parts := tab_put part_idx (part_payload v) (pa_parts existing)\<rparr>) m)
            | None \<Rightarrow>
                finish_part (from_ep, sync_id) True
                  (enforce_buffer_cap from_ep (tab_put (from_ep, sync_id)
                     \<lparr>pa_sync_id = sync_id, pa_from_rev = from_rev, pa_to_rev = to_rev, pa_parts_total = parts_total,
                      pa_parts = tab_put part_idx (part_payload v) [], pa_first_seen = now\<rparr> m)))"

section \<open>Packing\<close>

definition acc_routes :: "Acc list \<Rightarrow> MsynRouteItem list" where "acc_routes accs = concat (map fst accs)"
definition acc_removed :: "Acc list \<Rightarrow> string list" where "acc_removed accs = concat (map snd accs)"

lemma acc_append [simp]:
  "acc_routes (xs @ ys) = acc_routes xs @ acc_routes ys" "acc_removed (xs @ ys) = acc_removed xs @ acc_removed ys"
  "acc_routes [] = []" "acc_removed [] = []" "acc_routes (a # xs) = fst a @ acc_routes xs" "acc_removed (a # xs) = snd a @ acc_removed xs"
  by (simp_all add: acc_routes_def acc_removed_def)

lemma close_part_acc [simp]:
  "acc_routes (close_part finished cur) = acc_routes (finished @ [cur])"
  "acc_removed (close_part finished cur) = acc_removed (finished @ [cur])"
  by (auto simp: close_part_def)

lemma close_part_length: "length (close_part finished cur) \<le> length finished + 1"
  by (simp add: close_part_def)

lemma pack_removed_ok:
  "pack_removed fits part_size finished cur vs = Inr (fin, cur') \<Longrightarrow>
     acc_routes (fin @ [cur']) = acc_routes (finished @ [cur]) \<and> acc_removed (fin @ [cur']) = acc_removed (finished @ [cur]) @ vs
     \<and> length fin \<le> length finished + length vs"
proof (induction vs arbitrary: finished cur)
  case (Cons v vs)
  show ?case
  proof (cases "fits (fst cur, snd cur @ [v])")
    case True
    with Cons.IH [of finished "(fst cur, snd cur @ [v])"] Cons.prems show ?thesis by auto
  next
    case False
    with Cons.prems have "pack_removed fits part_size (close_part finished cur) ([], [v]) vs = Inr (fin, cur')"
      by (auto split: if_splits)
    from Cons.IH [OF this] close_part_length [of finished cur] show ?thesis by auto
  qed
qed auto

lemma pack_routes_ok:
  "pack_routes fits part_size finished cur rs = Inr (fin, cur') \<Longrightarrow>
     acc_routes (fin @ [cur']) = acc_routes (finished @ [cur]) @ rs
     \<and> acc_removed (fin @ [cur']) = acc_removed (finished @ [cur]) \<and> length fin \<le> length finished + length rs"
proof (induction rs arbitrary: finished cur)
  case (Cons r rs)
  show ?case
  proof (cases "fits (fst cur @ [r], snd cur)")
    case True
    with Cons.IH [of finished "(fst cur @ [r], snd cur)"] Cons.prems show ?thesis by auto
  next
    case False
    with Cons.prems have "pack_routes fits part_size (close_part finished cur) ([r], []) rs = Inr (fin, cur')"
      by (auto split: if_splits)
    from Cons.IH [OF this] close_part_length [of finished cur] show ?thesis by auto
  qed
qed auto

definition epoch_parts :: "u64 \<Rightarrow> u64 \<Rightarrow> u64 \<Rightarrow> Acc list \<Rightarrow> MsynPart list" where
  "epoch_parts from_rev to_rev sync_id accs =
     map (\<lambda>i. serialize_part from_rev to_rev sync_id (of_nat i) (of_nat (length accs)) (fst (accs ! i)) (snd (accs ! i)))
       [0..<length accs]"

lemma map_enumerate_nth: "map (\<lambda>(i, a). f i a) (enumerate 0 xs) = map (\<lambda>i. f i (xs ! i)) [0..<length xs]"
  by (rule nth_equalityI) (simp_all add: nth_enumerate_eq)

text \<open>What packing produces: at most 64 parts that together hold the removed addresses and the routes in order.\<close>

lemma shard_ok:
  assumes "shard_msyn_epoch ser text_len from_rev to_rev sync_id routes removed budget = Inr texts"
  shows "\<exists>accs. accs \<noteq> [] \<and> length accs \<le> 64 \<and> texts = map ser (epoch_parts from_rev to_rev sync_id accs)
    \<and> acc_removed accs = removed \<and> acc_routes accs = routes"
proof -
  let ?size = "\<lambda>acc. text_len (ser (serialize_part from_rev to_rev sync_id 0 1 (fst acc) (snd acc)))"
  let ?fits = "\<lambda>acc. ?size acc \<le> budget"
  have few: "length routes \<le> 1024" "length removed \<le> 1024"
    using assms by (auto simp: shard_msyn_epoch_def MSYN_APPLY_MAX_ROUTES_def MSYN_APPLY_MAX_REMOVED_def split: if_splits)
  obtain fin1 cur1 where p1: "pack_removed ?fits ?size [] ([], []) removed = Inr (fin1, cur1)"
    using assms by (cases "pack_removed ?fits ?size [] ([], []) removed") (auto simp: shard_msyn_epoch_def Let_def split: if_splits)
  obtain fin2 cur2 where p2: "pack_routes ?fits ?size fin1 cur1 routes = Inr (fin2, cur2)"
    using assms p1 by (cases "pack_routes ?fits ?size fin1 cur1 routes") (auto simp: shard_msyn_epoch_def Let_def split: if_splits)
  define accs where "accs = (if fst cur2 \<noteq> [] \<or> snd cur2 \<noteq> [] \<or> fin2 = [] then fin2 @ [cur2] else fin2)"
  have parts: "acc_removed accs = removed" "acc_routes accs = routes"
    using pack_removed_ok [OF p1] pack_routes_ok [OF p2] by (auto simp: accs_def)
  have "length accs \<le> 2049"
    using pack_removed_ok [OF p1] pack_routes_ok [OF p2] few by (auto simp: accs_def)
  then have len: "unat (of_nat (length accs) :: u32) = length accs" by (simp add: unat_of_nat take_bit_nat_eq_self_iff)
  have out: "(if unat (of_nat (length accs) :: u32) > MSYN_ASSEMBLE_MAX_PARTS_TOTAL
        then Inl (TooManyParts (unat (of_nat (length accs) :: u32)))
        else Inr (map (\<lambda>(idx, acc). ser (serialize_part from_rev to_rev sync_id (of_nat idx) (of_nat (length accs)) (fst acc) (snd acc)))
              (enumerate 0 accs))) = Inr texts"
    using assms few unfolding shard_msyn_epoch_def Let_def p1 p2 sum.case prod.case accs_def [symmetric]
    by (simp add: MSYN_APPLY_MAX_ROUTES_def MSYN_APPLY_MAX_REMOVED_def)
  then have "length accs \<le> 64" using len by (simp add: MSYN_ASSEMBLE_MAX_PARTS_TOTAL_def split: if_splits)
  moreover have "texts = map ser (epoch_parts from_rev to_rev sync_id accs)"
    using out by (auto simp: map_enumerate_nth epoch_parts_def split: if_splits)
  ultimately show ?thesis using parts by (intro exI [of _ accs]) (auto simp: accs_def)
qed

section \<open>The buffers of the joiner\<close>

definition buf_ok :: "SocketAddr \<times> u64 \<Rightarrow> 'r PartialMsyn \<Rightarrow> bool" where
  "buf_ok k p = (pa_sync_id p = snd k \<and> tab_ok (pa_parts p) \<and> (\<forall>i pl. tab_get (pa_parts p) i = Some pl \<longrightarrow> i < pa_parts_total p)
     \<and> unat (pa_parts_total p) \<le> MSYN_ASSEMBLE_MAX_PARTS_TOTAL)"

definition msyn_inv :: "'r MsynAssembleMap \<Rightarrow> bool" where
  "msyn_inv m = (tab_ok m
     \<and> (\<forall>k k'. tab_get m k \<noteq> None \<and> tab_get m k' \<noteq> None \<and> fst k = fst k' \<longrightarrow> k = k')
     \<and> (\<forall>k p. tab_get m k = Some p \<longrightarrow> buf_ok k p \<and> length (pa_parts p) < unat (pa_parts_total p)))"

lemma parts_card:
  assumes "buf_ok k p"
  shows "length (pa_parts p) \<le> unat (pa_parts_total p)"
    "is_complete p \<longleftrightarrow> 0 < pa_parts_total p \<and> length (pa_parts p) = unat (pa_parts_total p)"
proof -
  let ?ks = "map fst (pa_parts p)"
  have d: "distinct (map unat ?ks)"
    using assms by (auto simp: buf_ok_def tab_ok_def distinct_map inj_on_def word_unat_eq_iff)
  have "set (map unat ?ks) \<subseteq> {..<unat (pa_parts_total p)}"
  proof
    fix x
    assume "x \<in> set (map unat ?ks)"
    then obtain i pl where "x = unat i" "(i, pl) \<in> set (pa_parts p)" by auto
    with assms show "x \<in> {..<unat (pa_parts_total p)}" by (auto simp: buf_ok_def tab_mem_iff word_less_nat_alt)
  qed
  then have "card (set (map unat ?ks)) \<le> unat (pa_parts_total p)"
    using card_mono [of "{..<unat (pa_parts_total p)}"] by fastforce
  with distinct_card [OF d] show le: "length (pa_parts p) \<le> unat (pa_parts_total p)" by simp
  then have "length (pa_parts p) < 2 ^ 32"
    using assms by (simp add: buf_ok_def MSYN_ASSEMBLE_MAX_PARTS_TOTAL_def)
  then have "unat (of_nat (length (pa_parts p)) :: u32) = length (pa_parts p)"
    by (simp add: unat_of_nat take_bit_nat_eq_self_iff)
  then have "(of_nat (length (pa_parts p)) :: u32) = pa_parts_total p \<longleftrightarrow> length (pa_parts p) = unat (pa_parts_total p)"
    by (simp add: word_unat_eq_iff)
  then show "is_complete p \<longleftrightarrow> 0 < pa_parts_total p \<and> length (pa_parts p) = unat (pa_parts_total p)"
    by (simp add: is_complete_def)
qed

lemma msyn_inv_retain: "msyn_inv m \<Longrightarrow> msyn_inv (tab_retain q m)"
  by (auto simp: msyn_inv_def tab_get_retain split: option.splits if_splits)

lemma msyn_inv_del: "msyn_inv m \<Longrightarrow> msyn_inv (tab_del k m)"
  by (auto simp: msyn_inv_def tab_get_del)

lemma supersede_get:
  assumes "msyn_inv m" "tab_get (supersede from_ep sid to_rev m) (from_ep, sid') = Some p" "sid' \<noteq> sid"
  shows "to_rev < pa_to_rev p"
  using assms by (auto simp: supersede_def msyn_inv_def tab_get_retain buf_ok_def split: option.splits if_splits)

text \<open>After the checks the sender has no buffer but that of the part, so the cap on buffers is never exceeded.\<close>

lemma only_buffer:
  assumes inv: "msyn_inv m"
    and chk: "\<not> list_ex (\<lambda>((f, _), p). f = from_ep \<and> pa_sync_id p \<noteq> sid \<and> to_rev < pa_to_rev p) (supersede from_ep sid to_rev m)"
    and get: "tab_get (supersede from_ep sid to_rev m) (from_ep, sid') \<noteq> None"
  shows "sid' = sid"
proof (rule ccontr)
  assume ne: "sid' \<noteq> sid"
  from get obtain p where p: "tab_get (supersede from_ep sid to_rev m) (from_ep, sid') = Some p" by auto
  have "msyn_inv (supersede from_ep sid to_rev m)" unfolding supersede_def by (rule msyn_inv_retain [OF inv])
  with p have "pa_sync_id p = sid'" by (auto simp: msyn_inv_def buf_ok_def)
  with ne supersede_get [OF inv p ne] tab_get_mem [OF p] chk show False by (auto simp: list_ex_iff)
qed

lemma enforce_cap_idle:
  assumes ok: "tab_ok m" and one: "\<And>s. tab_get m (from_ep, s) \<noteq> None \<Longrightarrow> s = sid"
  shows "enforce_buffer_cap from_ep m = m"
proof -
  let ?l = "filter (\<lambda>((f, _), _). f = from_ep) m"
  have d: "distinct (map fst ?l)" using tab_ok_filter [OF ok, of "\<lambda>((f, _), _). f = from_ep"] by (simp add: tab_ok_def)
  have "set (map fst ?l) \<subseteq> {(from_ep, sid)}"
    using one ok by (auto simp: tab_mem_iff)
  then have "card (set (map fst ?l)) \<le> card {(from_ep, sid)}" by (intro card_mono) simp_all
  with distinct_card [OF d] have "length ?l \<le> 1" by simp
  then show ?thesis by (simp add: enforce_buffer_cap_def Let_def MSYN_ASSEMBLE_MAX_BUFFERS_PER_FROM_def)
qed

lemma msyn_inv_bufD:
  "msyn_inv m \<Longrightarrow> tab_get m k = Some p \<Longrightarrow> buf_ok k p \<and> length (pa_parts p) < unat (pa_parts_total p)"
  unfolding msyn_inv_def by blast

lemma msyn_inv_oneD: "msyn_inv m \<Longrightarrow> tab_get m k \<noteq> None \<Longrightarrow> tab_get m k' \<noteq> None \<Longrightarrow> fst k = fst k' \<Longrightarrow> k = k'"
  unfolding msyn_inv_def by blast

lemma msyn_inv_put:
  assumes inv: "msyn_inv m" and p: "buf_ok k p" "length (pa_parts p) < unat (pa_parts_total p)"
    and one: "\<And>k'. tab_get m k' \<noteq> None \<Longrightarrow> fst k' = fst k \<Longrightarrow> k' = k"
  shows "msyn_inv (tab_put k p m)"
proof -
  have "buf_ok k' p' \<and> length (pa_parts p') < unat (pa_parts_total p')" if "tab_get (tab_put k p m) k' = Some p'" for k' p'
    using that p msyn_inv_bufD [OF inv, of k' p'] by (cases "k' = k") (simp_all add: tab_get_put)
  moreover have "k1 = k2" if "tab_get (tab_put k p m) k1 \<noteq> None" "tab_get (tab_put k p m) k2 \<noteq> None" "fst k1 = fst k2" for k1 k2
    using that one [of k1] one [of k2] msyn_inv_oneD [OF inv, of k1 k2]
    by (cases "k1 = k"; cases "k2 = k") (simp_all add: tab_get_put)
  moreover have "tab_ok (tab_put k p m)" using inv by (simp add: msyn_inv_def)
  ultimately show ?thesis unfolding msyn_inv_def by blast
qed

lemma finish_put_inv:
  assumes inv: "msyn_inv m" and p: "buf_ok k p" "0 < pa_parts_total p"
    and one: "\<And>k'. tab_get m k' \<noteq> None \<Longrightarrow> fst k' = fst k \<Longrightarrow> k' = k"
  shows "msyn_inv (snd (finish_part k first_part (tab_put k p m)))"
proof (cases "is_complete p")
  case True
  then show ?thesis using inv by (simp add: finish_part_def tab_get_put tab_del_put msyn_inv_del)
next
  case False
  then have "length (pa_parts p) < unat (pa_parts_total p)" using parts_card [OF p(1)] p(2) by simp
  from msyn_inv_put [OF inv p(1) this one] False show ?thesis by (simp add: finish_part_def tab_get_put)
qed

lemma part_header_SomeD:
  assumes "part_header v applied = Some (sid, from_rev, to_rev, idx, parts_total)"
  shows "0 < parts_total" "unat parts_total \<le> MSYN_ASSEMBLE_MAX_PARTS_TOTAL" "idx < parts_total" "applied < to_rev"
  using assms by (auto simp: part_header_def word_neq_0_conv split: option.splits if_splits)

text \<open>One ingest on a map that keeps the invariant, with the cap on buffers left out.\<close>

definition new_buffer :: "u64 \<Rightarrow> u64 \<Rightarrow> u64 \<Rightarrow> u32 \<Rightarrow> u32 \<Rightarrow> 'r MsynPartPayload \<Rightarrow> instant \<Rightarrow> 'r PartialMsyn" where
  "new_buffer sid from_rev to_rev idx n pl now = \<lparr>pa_sync_id = sid, pa_from_rev = from_rev, pa_to_rev = to_rev,
     pa_parts_total = n, pa_parts = tab_put idx pl [], pa_first_seen = now\<rparr>"

definition add_part :: "u32 \<Rightarrow> 'r MsynPartPayload \<Rightarrow> 'r PartialMsyn \<Rightarrow> 'r PartialMsyn" where
  "add_part idx pl e = e\<lparr>pa_parts := tab_put idx pl (pa_parts e)\<rparr>"

definition newer_buffer :: "SocketAddr \<Rightarrow> u64 \<Rightarrow> u64 \<Rightarrow> 'r MsynAssembleMap \<Rightarrow> bool" where
  "newer_buffer from_ep sid to_rev m = list_ex (\<lambda>((f, _), p). f = from_ep \<and> pa_sync_id p \<noteq> sid \<and> pa_to_rev p > to_rev) m"

lemma only_key:
  assumes "msyn_inv m" "\<not> newer_buffer from_ep sid to_rev (supersede from_ep sid to_rev m)"
    "tab_get (supersede from_ep sid to_rev m) k' \<noteq> None" "fst k' = from_ep"
  shows "k' = (from_ep, sid)"
  using only_buffer [OF assms(1), where sid' = "snd k'" and sid = sid and from_ep = from_ep and to_rev = to_rev] assms(2-)
  by (cases k') (auto simp: newer_buffer_def)

lemma ingest_eval:
  assumes inv: "msyn_inv m0" and h: "part_header v applied = Some (sid, from_rev, to_rev, idx, n)"
    and m: "m = supersede from_ep sid to_rev (sweep_msyn_assemble now m0)"
  shows "ingest_msyn_part from_ep v applied now m0 =
      (if newer_buffer from_ep sid to_rev m then (Ignored, m) else
       case tab_get m (from_ep, sid) of
         Some e \<Rightarrow> if pa_parts_total e \<noteq> n \<or> pa_from_rev e \<noteq> from_rev \<or> pa_to_rev e \<noteq> to_rev then (Ignored, tab_del (from_ep, sid) m)
                  else finish_part (from_ep, sid) False (tab_put (from_ep, sid) (add_part idx (part_payload v) e) m)
       | None \<Rightarrow> finish_part (from_ep, sid) True
           (tab_put (from_ep, sid) (new_buffer sid from_rev to_rev idx n (part_payload v) now) m))"
proof -
  have s: "msyn_inv (sweep_msyn_assemble now m0)" unfolding sweep_msyn_assemble_def by (rule msyn_inv_retain [OF inv])
  then have "msyn_inv m" unfolding m supersede_def by (rule msyn_inv_retain)
  then have "enforce_buffer_cap from_ep (tab_put (from_ep, sid) b m) = tab_put (from_ep, sid) b m"
    if "\<not> newer_buffer from_ep sid to_rev m" for b
    using only_key [OF s, of from_ep sid to_rev] that
    by (intro enforce_cap_idle [where sid = sid]) (auto simp: msyn_inv_def tab_get_put m split: if_splits)
  then show ?thesis
    unfolding ingest_msyn_part_def Let_def h option.case prod.case m [symmetric] newer_buffer_def [symmetric]
      new_buffer_def [symmetric] add_part_def [symmetric]
    by (simp split: option.split)
qed

lemma ingest_inv:
  assumes inv: "msyn_inv m0"
  shows "msyn_inv (snd (ingest_msyn_part from_ep v applied now m0))"
proof (cases "part_header v applied")
  case None
  then show ?thesis
    using msyn_inv_retain [OF inv] by (simp add: ingest_msyn_part_def Let_def sweep_msyn_assemble_def)
next
  case (Some h)
  obtain sid from_rev to_rev idx n where h: "part_header v applied = Some (sid, from_rev, to_rev, idx, n)"
    using Some by (cases h) auto
  note hdr = part_header_SomeD [OF h]
  define m1 where "m1 = sweep_msyn_assemble now m0"
  define m where "m = supersede from_ep sid to_rev m1"
  have m1: "msyn_inv m1" unfolding m1_def sweep_msyn_assemble_def by (rule msyn_inv_retain [OF inv])
  then have m: "msyn_inv m" unfolding m_def supersede_def by (rule msyn_inv_retain)
  note one = only_key [OF m1, where from_ep = from_ep and sid = sid and to_rev = to_rev, folded m_def]
  have "buf_ok (from_ep, sid) (new_buffer sid from_rev to_rev idx n pl now)" for pl :: "'a MsynPartPayload"
    using hdr by (auto simp: buf_ok_def new_buffer_def tab_get_put split: if_splits)
  moreover have "buf_ok (from_ep, sid) (add_part idx pl e)" if "tab_get m (from_ep, sid) = Some e" "pa_parts_total e = n" for e pl
    using msyn_inv_bufD [OF m that(1)] that(2) hdr by (auto simp: buf_ok_def add_part_def tab_get_put split: if_splits)
  moreover have "pa_parts_total (new_buffer sid from_rev to_rev idx n pl now) = n" "pa_parts_total (add_part idx pl e) = pa_parts_total e"
    for pl :: "'a MsynPartPayload" and e by (simp_all add: new_buffer_def add_part_def)
  ultimately show ?thesis
    unfolding ingest_eval [OF inv h refl] m1_def [symmetric] m_def [symmetric]
    using m hdr one by (auto simp: msyn_inv_del intro!: finish_put_inv split: option.splits)
qed

section \<open>Delivery of an epoch\<close>

definition acc_payload :: "Acc \<Rightarrow> MsynRouteItem MsynPartPayload" where
  "acc_payload a = \<lparr>pl_routes = fst a, pl_removed = snd a\<rparr>"

definition part_value :: "MsynPart \<Rightarrow> MsynRouteItem MsynValue" where
  "part_value p = \<lparr>mv_proto_ver = Some (mp_proto_ver p), mv_schema_ver = Some (mp_schema_ver p), mv_sync_id = Some (mp_sync_id p),
     mv_from_rev = Some (mp_from_rev p), mv_to_rev = Some (mp_to_rev p), mv_part_idx = Some (ucast (mp_part_idx p)),
     mv_parts_total = Some (ucast (mp_parts_total p)), mv_routes = Some (mp_routes p), mv_removed = Some (map Some (mp_removed p))\<rparr>"

text \<open>Documented behaviour of the JSON library: the accessors on a rendered value return what was rendered.\<close>

definition json_ok :: "(MsynPart \<Rightarrow> 'text) \<Rightarrow> ('text \<Rightarrow> MsynRouteItem MsynValue) \<Rightarrow> bool" where
  "json_ok ser de = (\<forall>p. de (ser p) = part_value p)"

definition collected :: "u64 \<Rightarrow> u64 \<Rightarrow> u64 \<Rightarrow> Acc list \<Rightarrow> instant \<Rightarrow> nat set \<Rightarrow> MsynRouteItem PartialMsyn \<Rightarrow> bool" where
  "collected from_rev to_rev sid accs t0 J p =
     (pa_sync_id p = sid \<and> pa_from_rev p = from_rev \<and> pa_to_rev p = to_rev \<and> pa_parts_total p = of_nat (length accs)
      \<and> pa_first_seen p = t0 \<and> tab_ok (pa_parts p)
      \<and> (\<forall>x. tab_get (pa_parts p) x = (if unat x \<in> J then Some (acc_payload (accs ! unat x)) else None)))"

lemma unat_small: "n \<le> 64 \<Longrightarrow> unat (of_nat n :: u32) = n"
  by (simp add: unat_of_nat take_bit_nat_eq_self_iff)

lemma collected_complete:
  assumes c: "collected from_rev to_rev sid accs t0 J p" and J: "J \<subseteq> {..<length accs}" and n: "accs \<noteq> []" "length accs \<le> 64"
  shows "is_complete p \<longleftrightarrow> J = {..<length accs}"
proof -
  have tot: "unat (pa_parts_total p) = length accs" using c n by (simp add: collected_def unat_small)
  have buf: "buf_ok (x, sid) p" for x
    using c J n tot by (auto simp: collected_def buf_ok_def MSYN_ASSEMBLE_MAX_PARTS_TOTAL_def word_less_nat_alt split: if_splits)
  have "unat ` set (map fst (pa_parts p)) = J"
  proof
    show "unat ` set (map fst (pa_parts p)) \<subseteq> J"
      using c by (auto simp: collected_def tab_mem_iff split: if_splits)
    show "J \<subseteq> unat ` set (map fst (pa_parts p))"
    proof
      fix j
      assume "j \<in> J"
      then have "unat (of_nat j :: u32) = j" using J n by (intro unat_small) auto
      with \<open>j \<in> J\<close> c have "tab_get (pa_parts p) (of_nat j) = Some (acc_payload (accs ! j))" by (simp add: collected_def)
      from tab_get_mem [OF this] \<open>unat (of_nat j) = j\<close> show "j \<in> unat ` set (map fst (pa_parts p))"
        by (metis fst_conv image_eqI list.set_map)
    qed
  qed
  moreover have "card (unat ` set (map fst (pa_parts p))) = length (pa_parts p)"
    using c distinct_card [of "map fst (pa_parts p)"]
    by (subst card_image) (auto simp: collected_def tab_ok_def inj_on_def word_unat_eq_iff)
  ultimately have len: "length (pa_parts p) = card J" by simp
  have "J = {..<length accs} \<longleftrightarrow> card J = length accs"
    using J card_subset_eq [of "{..<length accs}" J] by auto
  moreover have "0 < pa_parts_total p" using tot n by (auto simp: word_neq_0_conv [symmetric])
  ultimately show ?thesis using parts_card(2) [OF buf] len tot by simp
qed

lemma collected_assemble:
  assumes c: "collected from_rev to_rev sid accs t0 {..<length accs} p" and n: "length accs \<le> 64"
  shows "assemble_removed_then_routes p = (acc_removed accs, acc_routes accs)"
proof -
  let ?f = "\<lambda>idx (removed, routes). case tab_get (pa_parts p) (of_nat idx) of
      Some pl \<Rightarrow> (removed @ pl_removed pl, routes @ pl_routes pl) | None \<Rightarrow> (removed, routes)"
  have "fold ?f [0..<k] ([], []) = (acc_removed (take k accs), acc_routes (take k accs))" if "k \<le> length accs" for k
    using that
  proof (induction k)
    case (Suc k)
    then have "tab_get (pa_parts p) (of_nat k) = Some (acc_payload (accs ! k))"
      using c n unat_small [of k] by (auto simp: collected_def)
    with Suc show ?case by (simp add: take_Suc_conv_app_nth acc_payload_def)
  qed simp
  from this [of "length accs"] show ?thesis
    using c n by (simp add: assemble_removed_then_routes_def collected_def unat_small)
qed

definition epoch_value :: "u64 \<Rightarrow> u64 \<Rightarrow> u64 \<Rightarrow> Acc list \<Rightarrow> nat \<Rightarrow> MsynRouteItem MsynValue" where
  "epoch_value from_rev to_rev sid accs i = part_value (epoch_parts from_rev to_rev sid accs ! i)"

lemma epoch_header:
  assumes "i < length accs" "length accs \<le> 64" "applied < to_rev"
  shows "part_header (epoch_value from_rev to_rev sid accs i) applied = Some (sid, from_rev, to_rev, of_nat i, of_nat (length accs))"
proof -
  have u: "unat (of_nat i :: u32) = i" "unat (of_nat (length accs) :: u32) = length accs"
    using assms by (simp_all add: unat_small)
  have p: "parse_u32 (Some (ucast w)) = Some w" for w :: u32
  proof -
    have "unat (ucast w :: u64) = unat w" using unsigned_less [of w, where ?'a = nat] by (simp add: unsigned_ucast_eq take_bit_nat_eq_self_iff)
    moreover have "ucast (ucast w :: u64) = w" by (intro bit_word_eqI) (auto simp: bit_simps)
    ultimately show ?thesis using unsigned_less [of w, where ?'a = nat] by (simp add: parse_u32_def)
  qed
  show ?thesis
    using assms u by (auto simp: part_header_def epoch_value_def epoch_parts_def part_value_def serialize_part_def p
        MSYN_ASSEMBLE_MAX_PARTS_TOTAL_def word_less_nat_alt word_le_nat_alt word_unat_eq_iff)
qed

lemma epoch_payload: "i < length accs \<Longrightarrow> part_payload (epoch_value from_rev to_rev sid accs i) = acc_payload (accs ! i)"
proof -
  have "List.map_filter id (map Some xs) = xs" for xs :: "string list"
    by (induction xs) (simp_all add: List.map_filter_def)
  then show "i < length accs \<Longrightarrow> ?thesis"
    by (simp add: part_payload_def epoch_value_def epoch_parts_def part_value_def serialize_part_def acc_payload_def)
qed

text \<open>The buffer of an epoch: None before its first part.\<close>

definition epoch_state ::
    "SocketAddr \<Rightarrow> u64 \<Rightarrow> u64 \<Rightarrow> u64 \<Rightarrow> Acc list \<Rightarrow> instant \<Rightarrow> nat set \<Rightarrow> MsynRouteItem MsynAssembleMap \<Rightarrow> bool" where
  "epoch_state from_ep from_rev to_rev sid accs t0 J m = (msyn_inv m \<and>
     (if J = {} then \<forall>s p. tab_get m (from_ep, s) = Some p \<longrightarrow> s \<noteq> sid \<and> pa_to_rev p \<le> to_rev
      else \<exists>p. tab_get m (from_ep, sid) = Some p \<and> collected from_rev to_rev sid accs t0 J p))"

lemma collected_new: "i < length accs \<Longrightarrow> length accs \<le> 64 \<Longrightarrow>
    collected from_rev to_rev sid accs now {i} (new_buffer sid from_rev to_rev (of_nat i) (of_nat (length accs)) (acc_payload (accs ! i)) now)"
  using unat_small [of i] by (auto simp: collected_def new_buffer_def tab_get_put)

lemma collected_add: "i < length accs \<Longrightarrow> length accs \<le> 64 \<Longrightarrow> collected from_rev to_rev sid accs t0 J p \<Longrightarrow>
    collected from_rev to_rev sid accs t0 (insert i J) (add_part (of_nat i) (acc_payload (accs ! i)) p)"
  using unat_small [of i] by (auto simp: collected_def add_part_def tab_get_put)

lemma ingest_collect:
  assumes st: "epoch_state from_ep from_rev to_rev sid accs t0 J m0" and i: "i < length accs" and n: "length accs \<le> 64"
    and J: "J \<subseteq> {..<length accs}" and app: "applied < to_rev"
    and t: "if J = {} then now = t0 else duration_since now t0 < MSYN_ASSEMBLE_TTL"
  shows "\<exists>p m. collected from_rev to_rev sid accs t0 (insert i J) p \<and>
    ingest_msyn_part from_ep (epoch_value from_rev to_rev sid accs i) applied now m0 = finish_part (from_ep, sid) (J = {}) (tab_put (from_ep, sid) p m)"
proof -
  let ?k = "(from_ep, sid)"
  have inv: "msyn_inv m0" using st by (simp add: epoch_state_def)
  define m1 where "m1 = sweep_msyn_assemble now m0"
  define m where "m = supersede from_ep sid to_rev m1"
  have m1: "msyn_inv m1" unfolding m1_def sweep_msyn_assemble_def by (rule msyn_inv_retain [OF inv])
  then have mi: "msyn_inv m" unfolding m_def supersede_def by (rule msyn_inv_retain)
  have ok: "tab_ok m0" "tab_ok m1" "tab_ok m" using inv m1 mi by (simp_all add: msyn_inv_def)
  have sub: "tab_get m0 k = Some p" if "tab_get m k = Some p" for k p
    using that ok by (auto simp: m_def m1_def supersede_def sweep_msyn_assemble_def tab_get_retain split: option.splits if_splits)
  have newer: "\<not> newer_buffer from_ep sid to_rev m"
  proof
    assume "newer_buffer from_ep sid to_rev m"
    then obtain s p where sp: "((from_ep, s), p) \<in> set m" "pa_sync_id p \<noteq> sid" "to_rev < pa_to_rev p"
      by (auto simp: newer_buffer_def list_ex_iff)
    then have g: "tab_get m (from_ep, s) = Some p" using ok by (simp add: tab_mem_iff)
    have "s \<noteq> sid" using msyn_inv_bufD [OF mi g] sp by (auto simp: buf_ok_def)
    show False
    proof (cases "J = {}")
      case True
      with st sub [OF g] have "pa_to_rev p \<le> to_rev" by (auto simp: epoch_state_def)
      with sp show False by simp
    next
      case False
      then have "tab_get m0 ?k \<noteq> None" using st by (auto simp: epoch_state_def)
      with msyn_inv_oneD [OF inv this, of "(from_ep, s)"] sub [OF g] \<open>s \<noteq> sid\<close> show False by simp
    qed
  qed
  note ev = ingest_eval [OF inv epoch_header [OF i n app] refl, where now = now and from_ep = from_ep and from_rev = from_rev and sid = sid,
      folded m1_def, folded m_def] epoch_payload [OF i]
  show ?thesis
  proof (cases "J = {}")
    case True
    then have "tab_get m ?k = None" using st sub [of ?k] by (cases "tab_get m ?k") (auto simp: epoch_state_def)
    with True t newer ev show ?thesis using collected_new [OF i n, of from_rev to_rev sid now] by auto
  next
    case False
    then obtain p where p: "tab_get m0 ?k = Some p" "collected from_rev to_rev sid accs t0 J p"
      using st by (auto simp: epoch_state_def)
    then have "tab_get m ?k = Some p"
      using ok t False by (simp add: m_def m1_def supersede_def sweep_msyn_assemble_def tab_get_retain collected_def)
    with False p newer ev show ?thesis using collected_add [OF i n p(2)] by (auto simp: collected_def)
  qed
qed

lemma ingest_complete:
  assumes "epoch_state from_ep from_rev to_rev sid accs t0 J m0" "i < length accs" "length accs \<le> 64"
    "J \<subseteq> {..<length accs}" "applied < to_rev" "if J = {} then now = t0 else duration_since now t0 < MSYN_ASSEMBLE_TTL"
    "insert i J = {..<length accs}"
  shows "\<exists>p. fst (ingest_msyn_part from_ep (epoch_value from_rev to_rev sid accs i) applied now m0) = Complete p
    \<and> assemble_removed_then_routes p = (acc_removed accs, acc_routes accs)"
proof -
  from ingest_collect [OF assms(1-6)] obtain p m where p: "collected from_rev to_rev sid accs t0 (insert i J) p"
    "ingest_msyn_part from_ep (epoch_value from_rev to_rev sid accs i) applied now m0 =
      finish_part (from_ep, sid) (J = {}) (tab_put (from_ep, sid) p m)" by blast
  have "is_complete p" using collected_complete [OF p(1)] assms by force
  with p collected_assemble [of from_rev to_rev sid accs t0 p] assms(3,7) show ?thesis
    by (simp add: finish_part_def tab_get_put)
qed

lemma ingest_buffer:
  assumes "epoch_state from_ep from_rev to_rev sid accs t0 J m0" "i < length accs" "length accs \<le> 64"
    "J \<subseteq> {..<length accs}" "applied < to_rev" "if J = {} then now = t0 else duration_since now t0 < MSYN_ASSEMBLE_TTL"
    "insert i J \<noteq> {..<length accs}"
  shows "epoch_state from_ep from_rev to_rev sid accs t0 (insert i J)
    (snd (ingest_msyn_part from_ep (epoch_value from_rev to_rev sid accs i) applied now m0))"
proof -
  from ingest_collect [OF assms(1-6)] obtain p m where p: "collected from_rev to_rev sid accs t0 (insert i J) p"
    "ingest_msyn_part from_ep (epoch_value from_rev to_rev sid accs i) applied now m0 =
      finish_part (from_ep, sid) (J = {}) (tab_put (from_ep, sid) p m)" by blast
  have "\<not> is_complete p" using collected_complete [OF p(1)] assms by force
  with p assms(1) show ?thesis
    using ingest_inv [of m0 from_ep "epoch_value from_rev to_rev sid accs i" applied now]
    by (simp add: epoch_state_def finish_part_def tab_get_put)
qed

definition deliver ::
    "('text \<Rightarrow> MsynRouteItem MsynValue) \<Rightarrow> SocketAddr \<Rightarrow> u64 \<Rightarrow> 'text list \<Rightarrow> nat \<times> instant \<Rightarrow> MsynRouteItem MsynAssembleMap \<Rightarrow> MsynRouteItem MsynAssembleMap" where
  "deliver de from_ep applied texts = (\<lambda>(i, t) m. snd (ingest_msyn_part from_ep (de (texts ! i)) applied t m))"

text \<open>No buffer of the sender is in the way: none has this epoch's id, none is newer.\<close>

definition sender_clear :: "SocketAddr \<Rightarrow> u64 \<Rightarrow> u64 \<Rightarrow> 'r MsynAssembleMap \<Rightarrow> bool" where
  "sender_clear from_ep sid to_rev m = list_all (\<lambda>((f, s), p). f = from_ep \<longrightarrow> s \<noteq> sid \<and> pa_to_rev p \<le> to_rev) m"

text \<open>
  \<open>good_delivery n ds j now\<close>: the parts of \<open>ds\<close> arrive in any order, possibly repeated, then part \<open>j\<close> arrives, the
  only one still missing, all within the lifetime of the buffer.
\<close>

definition good_delivery :: "nat \<Rightarrow> (nat \<times> instant) list \<Rightarrow> nat \<Rightarrow> instant \<Rightarrow> bool" where
  "good_delivery n ds j now = (j < n \<and> set (map fst ds) = {..<n} - {j}
     \<and> (let t0 = (case ds of [] \<Rightarrow> now | d # _ \<Rightarrow> snd d) in
        list_all (\<lambda>d. duration_since (snd d) t0 < MSYN_ASSEMBLE_TTL) ds \<and> duration_since now t0 < MSYN_ASSEMBLE_TTL))"

lemma deliver_collects:
  assumes "\<And>i. i < length accs \<Longrightarrow> de (texts ! i) = epoch_value from_rev to_rev sid accs i"
    and "epoch_state from_ep from_rev to_rev sid accs t0 J m" "length accs \<le> 64" "applied < to_rev"
    "J \<subseteq> {..<length accs} - {j}" "j < length accs" "fst ` set ds \<subseteq> {..<length accs} - {j}"
    "J = {} \<Longrightarrow> ds = [] \<or> snd (hd ds) = t0" "\<And>d. d \<in> set ds \<Longrightarrow> duration_since (snd d) t0 < MSYN_ASSEMBLE_TTL"
  shows "epoch_state from_ep from_rev to_rev sid accs t0 (J \<union> fst ` set ds) (fold (deliver de from_ep applied texts) ds m)"
  using assms(2,5,7-9)
proof (induction ds arbitrary: J m)
  case (Cons d ds)
  obtain i t where d: "d = (i, t)" by (cases d)
  have i: "i < length accs" "i \<noteq> j" using Cons.prems(3) d by auto
  have J: "J \<subseteq> {..<length accs}" using Cons.prems(2) by auto
  have t: "if J = {} then t = t0 else duration_since t t0 < MSYN_ASSEMBLE_TTL"
    using Cons.prems(4) Cons.prems(5) [of d] d by auto
  have "insert i J \<noteq> {..<length accs}" using Cons.prems(2) i assms(6) by auto
  from ingest_buffer [OF Cons.prems(1) i(1) assms(3) J assms(4) t this]
  have "epoch_state from_ep from_rev to_rev sid accs t0 (insert i J) (deliver de from_ep applied texts d m)"
    using i by (simp add: deliver_def d assms(1))
  from Cons.IH [OF this] Cons.prems i d show ?case by (auto simp: insert_commute Un_insert_left)
qed simp

text \<open>The parts of an epoch, delivered in any order, are put together again.\<close>

lemma epoch_delivered:
  assumes json: "json_ok ser de" and shard: "shard_msyn_epoch ser text_len from_rev to_rev sid routes removed budget = Inr texts"
    and m: "msyn_inv m" "sender_clear from_ep sid to_rev m" and app: "applied < to_rev"
    and del: "good_delivery (length texts) ds j now"
  shows "\<exists>p. fst (ingest_msyn_part from_ep (de (texts ! j)) applied now (fold (deliver de from_ep applied texts) ds m)) = Complete p
    \<and> assemble_removed_then_routes p = (removed, routes)"
proof -
  from shard_ok [OF shard] obtain accs where accs: "length accs \<le> 64"
    "texts = map ser (epoch_parts from_rev to_rev sid accs)" "acc_removed accs = removed" "acc_routes accs = routes" by blast
  have len: "length texts = length accs" by (simp add: accs epoch_parts_def)
  have val: "de (texts ! i) = epoch_value from_rev to_rev sid accs i" if "i < length accs" for i
    using that json by (simp add: accs epoch_value_def json_ok_def epoch_parts_def)
  define t0 where "t0 = (case ds of [] \<Rightarrow> now | d # _ \<Rightarrow> snd d)"
  have d: "j < length accs" "fst ` set ds = {..<length accs} - {j}" "duration_since now t0 < MSYN_ASSEMBLE_TTL"
    "\<And>d. d \<in> set ds \<Longrightarrow> duration_since (snd d) t0 < MSYN_ASSEMBLE_TTL"
    using del by (auto simp: good_delivery_def len t0_def [symmetric] Let_def list_all_iff)
  have "epoch_state from_ep from_rev to_rev sid accs t0 {} m"
    using m by (auto simp: epoch_state_def sender_clear_def list_all_iff dest!: tab_get_mem)
  from deliver_collects [where de = de, OF val this accs(1) app, where j = j and ds = ds] d
  have "epoch_state from_ep from_rev to_rev sid accs t0 ({} \<union> fst ` set ds) (fold (deliver de from_ep applied texts) ds m)"
    by (cases ds) (auto simp: t0_def)
  then have st: "epoch_state from_ep from_rev to_rev sid accs t0 ({..<length accs} - {j}) (fold (deliver de from_ep applied texts) ds m)"
    by (simp only: d(2) Un_empty_left)
  have t: "if {..<length accs} - {j} = {} then now = t0 else duration_since now t0 < MSYN_ASSEMBLE_TTL"
    using d by (cases ds) (auto simp: t0_def)
  from ingest_complete [OF st d(1) accs(1) _ app t] d(1) val [OF d(1)] accs show ?thesis by auto
qed

section \<open>Properties\<close>

datatype 'r msyn_op = Ingest SocketAddr "'r MsynValue" u64 instant | Sweep instant

fun msyn_step :: "'r msyn_op \<Rightarrow> 'r MsynAssembleMap \<Rightarrow> 'r MsynAssembleMap" where
  "msyn_step (Ingest from_ep v applied now) m = snd (ingest_msyn_part from_ep v applied now m)"
| "msyn_step (Sweep now) m = sweep_msyn_assemble now m"

lemma msyn_step_inv: "msyn_inv m \<Longrightarrow> msyn_inv (msyn_step op m)"
  by (cases op) (simp_all add: ingest_inv sweep_msyn_assemble_def msyn_inv_retain)

interpretation msyn: invariant_machine msyn_step msyn_inv
  by unfold_locales (rule msyn_step_inv)

lemma msyn_inv_empty: "msyn_inv []"
  by (simp add: msyn_inv_def)

lemma msyn_inv_senders: "msyn_inv m \<Longrightarrow> distinct (map (fst \<circ> fst) m)"
proof -
  assume inv: "msyn_inv m"
  then have ok: "tab_ok m" by (simp add: msyn_inv_def)
  then have "distinct (map fst m)" by (simp add: tab_ok_def)
  moreover have "inj_on fst (set (map fst m))"
  proof (rule inj_onI)
    fix k k'
    assume "k \<in> set (map fst m)" "k' \<in> set (map fst m)" "fst k = fst k'"
    then show "k = k'" using msyn_inv_oneD [OF inv, of k k'] ok by (force simp: tab_mem_iff)
  qed
  ultimately show ?thesis by (simp add: distinct_map flip: map_map)
qed

text \<open>
  C22. Whatever arrives, the joiner buffers at most one epoch per sender, with fewer parts than the epoch has and
  at most 64. The cap of eight buffers per sender is therefore never reached.
\<close>

theorem msyn_buffers_bounded:
  "let m = fold msyn_step ops [] in
   distinct (map (fst \<circ> fst) m)
   \<and> list_all (\<lambda>(_, p). length (pa_parts p) < unat (pa_parts_total p) \<and> unat (pa_parts_total p) \<le> 64) m"
proof -
  have inv: "msyn_inv (fold msyn_step ops [])" by (rule msyn.run_inv [OF msyn_inv_empty])
  then have "list_all (\<lambda>(_, p). length (pa_parts p) < unat (pa_parts_total p) \<and> unat (pa_parts_total p) \<le> 64) (fold msyn_step ops [])"
    by (auto simp: list_all_iff msyn_inv_def tab_mem_iff buf_ok_def MSYN_ASSEMBLE_MAX_PARTS_TOTAL_def)
  with msyn_inv_senders [OF inv] show ?thesis by simp
qed

end
