(* ===== verification/Background_Cc.thy ===== *)
theory Background_Cc
  imports Tuning Fec Net_Addr
begin

text \<open>
  \<^verbatim>\<open>src/src/net/background_cc.rs\<close>: the per-peer rate controller of the pacing engine. A delay or loss sample moves
  the rate of a peer, elapsed time refills its tokens, sending consumes them. A \<^verbatim>\<open>clamp\<close> whose bounds come from
  the configuration panics when they are not ordered: the operations that call it return None then.
\<close>

section \<open>Data\<close>

record BackgroundCcConfig =
  bc_enabled :: bool
  bc_gain :: f64
  bc_min_decrease_factor :: f64
  bc_additive_increase_bps :: f64
  bc_rate_smoothing_alpha :: f64
  bc_initial_rate_bps :: f64
  bc_min_rate_bps :: f64
  bc_max_rate_bps :: f64
  bc_loss_multiplicative_decrease :: f64
  bc_burst_cap_bytes :: f64
  bc_target_queue_delay_ms :: nat
  bc_hol_escape_ms :: nat
  bc_delivery_rate_window_ms :: nat
  bc_delivery_rate_ewma_alpha :: f64
  bc_delivery_anchor_factor :: f64
  bc_delivery_decouple_ratio :: f64
  bc_loss_classifier_enabled :: bool
  bc_congestion_loss_threshold :: f64
  bc_qd_telemetry_valid :: bool

definition BackgroundCcConfig_default :: BackgroundCcConfig where
  "BackgroundCcConfig_default =
     \<lparr>bc_enabled = False, bc_gain = DEFAULT_GAIN, bc_min_decrease_factor = DEFAULT_MIN_DECREASE_FACTOR,
      bc_additive_increase_bps = DEFAULT_ADDITIVE_INCREASE_BPS, bc_rate_smoothing_alpha = DEFAULT_RATE_SMOOTHING_ALPHA,
      bc_initial_rate_bps = DEFAULT_INITIAL_RATE_BPS, bc_min_rate_bps = DEFAULT_MIN_RATE_BPS,
      bc_max_rate_bps = DEFAULT_MAX_RATE_BPS, bc_loss_multiplicative_decrease = DEFAULT_LOSS_MD,
      bc_burst_cap_bytes = f64_of_nat DEFAULT_BURST_CAP_BYTES, bc_target_queue_delay_ms = DEFAULT_TARGET_QUEUE_DELAY_MS,
      bc_hol_escape_ms = DEFAULT_HOL_ESCAPE_MS, bc_delivery_rate_window_ms = DEFAULT_DELIVERY_RATE_WINDOW_MS,
      bc_delivery_rate_ewma_alpha = DEFAULT_DELIVERY_RATE_EWMA_ALPHA,
      bc_delivery_anchor_factor = DEFAULT_DELIVERY_ANCHOR_FACTOR,
      bc_delivery_decouple_ratio = DEFAULT_DELIVERY_DECOUPLE_RATIO, bc_loss_classifier_enabled = True,
      bc_congestion_loss_threshold = DEFAULT_CONGESTION_LOSS_THRESHOLD, bc_qd_telemetry_valid = True\<rparr>"

text \<open>\<^verbatim>\<open>CongestionTuning::to_background_cc_config\<close>.\<close>

definition to_background_cc_config :: "CongestionTuning \<Rightarrow> BackgroundCcConfig" where
  "to_background_cc_config t =
     \<lparr>bc_enabled = cg_enabled t, bc_gain = cg_gain t, bc_min_decrease_factor = cg_min_decrease_factor t,
      bc_additive_increase_bps = cg_additive_increase_bps t, bc_rate_smoothing_alpha = cg_rate_smoothing_alpha t,
      bc_initial_rate_bps = cg_initial_rate_bps t, bc_min_rate_bps = cg_min_rate_bps t, bc_max_rate_bps = cg_max_rate_bps t,
      bc_loss_multiplicative_decrease = cg_loss_multiplicative_decrease t,
      bc_burst_cap_bytes = f64_of_nat (cg_burst_cap_bytes t), bc_target_queue_delay_ms = cg_target_queue_delay_ms t,
      bc_hol_escape_ms = cg_hol_escape_ms t, bc_delivery_rate_window_ms = cg_delivery_rate_window_ms t,
      bc_delivery_rate_ewma_alpha = cg_delivery_rate_ewma_alpha t, bc_delivery_anchor_factor = cg_delivery_anchor_factor t,
      bc_delivery_decouple_ratio = cg_delivery_decouple_ratio t, bc_loss_classifier_enabled = cg_loss_classifier_enabled t,
      bc_congestion_loss_threshold = cg_congestion_loss_threshold t, bc_qd_telemetry_valid = cg_rtt_base_tracking t\<rparr>"

record PeerCcState =
  cs_rate_bps :: f64
  cs_smoothed_rate_bps :: f64
  cs_token_bytes :: f64
  cs_last_loss_ewma :: f64
  cs_bytes_acc :: f64
  cs_window_elapsed_secs :: f64
  cs_delivery_rate_bps :: "f64 option"

definition PeerCcState_new :: "f64 \<Rightarrow> PeerCcState" where
  "PeerCcState_new initial_rate_bps =
     \<lparr>cs_rate_bps = initial_rate_bps, cs_smoothed_rate_bps = initial_rate_bps, cs_token_bytes = Fin 0,
      cs_last_loss_ewma = Fin 0, cs_bytes_acc = Fin 0, cs_window_elapsed_secs = Fin 0, cs_delivery_rate_bps = None\<rparr>"

record CcUpdateCounters =
  cc_increase_events :: nat
  cc_decrease_events :: nat
  cc_loss_decrease_events :: nat
  cc_delivery_anchor_events :: nat
  cc_loss_ignored_random_events :: nat

definition CcUpdateCounters_default :: CcUpdateCounters where
  "CcUpdateCounters_default = \<lparr>cc_increase_events = 0, cc_decrease_events = 0, cc_loss_decrease_events = 0,
     cc_delivery_anchor_events = 0, cc_loss_ignored_random_events = 0\<rparr>"

record BackgroundCcEngine =
  be_config :: BackgroundCcConfig
  be_peers :: "(SocketAddr, PeerCcState) table"
  be_counters :: CcUpdateCounters

definition BackgroundCcEngine_new :: "BackgroundCcConfig \<Rightarrow> BackgroundCcEngine" where
  "BackgroundCcEngine_new config = \<lparr>be_config = config, be_peers = [], be_counters = CcUpdateCounters_default\<rparr>"

section \<open>Rate updates\<close>

definition D2R_LOSS_MAX :: f64 where "D2R_LOSS_MAX = f64_lit (12 / 100)"

definition loss_edge :: "f64 \<Rightarrow> PeerCcState \<Rightarrow> bool" where
  "loss_edge loss_ewma st = (f64_lt D2R_LOSS_MAX loss_ewma \<and> f64_le (cs_last_loss_ewma st) D2R_LOSS_MAX)"

text \<open>Whether a loss edge counts; otherwise it is ignored as random loss.\<close>

definition loss_counts :: "BackgroundCcConfig \<Rightarrow> f64 \<Rightarrow> bool" where
  "loss_counts cfg qd_ms =
     (if \<not> bc_loss_classifier_enabled cfg \<or> \<not> bc_qd_telemetry_valid cfg \<or> f64_lt qd_ms (Fin 0) then True
      else fec_delay_is_congestive qd_ms (bc_target_queue_delay_ms cfg) (bc_congestion_loss_threshold cfg))"

text \<open>The additive increase or multiplicative decrease by the queuing delay.\<close>

definition delay_update :: "BackgroundCcConfig \<Rightarrow> f64 \<Rightarrow> f64 \<Rightarrow> f64 \<Rightarrow> CcUpdateCounters \<Rightarrow> (f64 \<times> CcUpdateCounters) option" where
  "delay_update cfg qd_ms delay_ratio rate c =
     (if f64_le (Fin 0) qd_ms then
        if f64_le delay_ratio (Fin 1)
        then Some (f64_add rate (bc_additive_increase_bps cfg), c\<lparr>cc_increase_events := sat_add 64 (cc_increase_events c) 1\<rparr>)
        else
          let raw = f64_sub (Fin 1) (f64_mul (bc_gain cfg) (f64_sub delay_ratio (Fin 1))) in
          case f64_clamp (bc_min_decrease_factor cfg) (Fin 1) raw of
            None \<Rightarrow> None
          | Some decrease_factor \<Rightarrow>
              Some (f64_mul rate decrease_factor, c\<lparr>cc_decrease_events := sat_add 64 (cc_decrease_events c) 1\<rparr>)
      else Some (rate, c))"

text \<open>The delivery rate a decrease falls back to when the rate has moved far above it.\<close>

definition delivery_anchor :: "BackgroundCcConfig \<Rightarrow> bool \<Rightarrow> PeerCcState \<Rightarrow> f64 option" where
  "delivery_anchor cfg will_decrease st =
     (if will_decrease then
        (case cs_delivery_rate_bps st of
           Some d \<Rightarrow> if f64_lt (Fin 0) d \<and> f64_lt (f64_mul d (bc_delivery_decouple_ratio cfg)) (cs_rate_bps st) then Some d else None
         | None \<Rightarrow> None)
      else None)"

definition aimd_update ::
    "BackgroundCcConfig \<Rightarrow> f64 \<Rightarrow> f64 \<Rightarrow> bool \<Rightarrow> PeerCcState \<Rightarrow> CcUpdateCounters \<Rightarrow> (PeerCcState \<times> CcUpdateCounters) option" where
  "aimd_update cfg qd_ms delay_ratio loss_actionable st c =
     (let (rate, c) =
            (if loss_actionable
             then (f64_max (f64_mul (cs_rate_bps st) (bc_loss_multiplicative_decrease cfg)) (bc_min_rate_bps cfg),
                   c\<lparr>cc_loss_decrease_events := sat_add 64 (cc_loss_decrease_events c) 1\<rparr>)
             else (cs_rate_bps st, c)) in
      case delay_update cfg qd_ms delay_ratio rate c of
        None \<Rightarrow> None
      | Some (rate, c) \<Rightarrow>
          (case f64_clamp (bc_min_rate_bps cfg) (bc_max_rate_bps cfg) rate of
             None \<Rightarrow> None
           | Some r \<Rightarrow>
               let alpha = f64_clip (Fin 0) (f64_lit (95 / 100)) (bc_rate_smoothing_alpha cfg) in
               Some (st\<lparr>cs_rate_bps := r, cs_smoothed_rate_bps :=
                   f64_add (f64_mul alpha (cs_smoothed_rate_bps st)) (f64_mul (f64_sub (Fin 1) alpha) r)\<rparr>, c)))"

definition apply_background_cc_rate_update ::
    "BackgroundCcConfig \<Rightarrow> f64 \<Rightarrow> f64 \<Rightarrow> PeerCcState \<Rightarrow> CcUpdateCounters \<Rightarrow> (PeerCcState \<times> CcUpdateCounters) option" where
  "apply_background_cc_rate_update cfg qd_ms loss_ewma st0 c0 =
     (let edge = loss_edge loss_ewma st0;
          st = st0\<lparr>cs_last_loss_ewma := loss_ewma\<rparr>;
          target = f64_of_nat (max (bc_target_queue_delay_ms cfg) 1);
          delay_ratio = (if f64_le (Fin 0) qd_ms then f64_div qd_ms target else Fin 0);
          delay_excess = (f64_le (Fin 0) qd_ms \<and> f64_lt (Fin 1) delay_ratio);
          loss_actionable = (edge \<and> loss_counts cfg qd_ms);
          c = (if edge \<and> \<not> loss_counts cfg qd_ms
               then c0\<lparr>cc_loss_ignored_random_events := sat_add 64 (cc_loss_ignored_random_events c0) 1\<rparr> else c0) in
      case delivery_anchor cfg (loss_actionable \<or> delay_excess) st of
        Some delivery \<Rightarrow>
          (case f64_clamp (bc_min_rate_bps cfg) (bc_max_rate_bps cfg) (f64_mul delivery (bc_delivery_anchor_factor cfg)) of
             None \<Rightarrow> None
           | Some r \<Rightarrow>
               Some (st\<lparr>cs_rate_bps := r, cs_smoothed_rate_bps := r\<rparr>,
                 c\<lparr>cc_delivery_anchor_events := sat_add 64 (cc_delivery_anchor_events c) 1,
                   cc_loss_decrease_events :=
                     (if loss_actionable then sat_add 64 (cc_loss_decrease_events c) 1 else cc_loss_decrease_events c),
                   cc_decrease_events := (if delay_excess then sat_add 64 (cc_decrease_events c) 1 else cc_decrease_events c)\<rparr>))
      | None \<Rightarrow> aimd_update cfg qd_ms delay_ratio loss_actionable st c)"

section \<open>The engine\<close>

definition bc_set_config :: "BackgroundCcConfig \<Rightarrow> BackgroundCcEngine \<Rightarrow> BackgroundCcEngine" where
  "bc_set_config config e = e\<lparr>be_config := config\<rparr>"

definition bc_take_counters :: "BackgroundCcEngine \<Rightarrow> CcUpdateCounters \<times> BackgroundCcEngine" where
  "bc_take_counters e = (be_counters e, e\<lparr>be_counters := CcUpdateCounters_default\<rparr>)"

definition rate_stats :: "f64 list \<Rightarrow> f64 \<times> f64 \<times> f64" where
  "rate_stats rs =
     (if rs = [] then (Fin 0, Fin 0, Fin 0)
      else let (mn, mx, sm) = fold (\<lambda>r (mn, mx, sm). (f64_min mn r, f64_max mx r, f64_add sm r)) rs
                 (Fin ((2 - 1 / 2 ^ 52) * 2 ^ 1023), Fin 0, Fin 0) in
           (mn, f64_div sm (f64_of_nat (length rs)), mx))"

definition rate_distribution :: "BackgroundCcEngine \<Rightarrow> f64 \<times> f64 \<times> f64" where
  "rate_distribution e = rate_stats (map cs_smoothed_rate_bps (tab_vals (be_peers e)))"

definition delivery_rate_distribution :: "BackgroundCcEngine \<Rightarrow> f64 \<times> f64 \<times> f64" where
  "delivery_rate_distribution e = rate_stats (List.map_filter cs_delivery_rate_bps (tab_vals (be_peers e)))"

definition refill_peer :: "BackgroundCcConfig \<Rightarrow> f64 \<Rightarrow> PeerCcState \<Rightarrow> PeerCcState" where
  "refill_peer cfg dt_secs st =
     (let window_secs = f64_div (f64_of_nat (max (bc_delivery_rate_window_ms cfg) 1)) (f64_lit 1000);
          ewma_alpha = f64_clip (f64_lit (5 / 100)) (Fin 1) (bc_delivery_rate_ewma_alpha cfg);
          st = st\<lparr>cs_token_bytes := f64_min (f64_add (cs_token_bytes st) (f64_mul (cs_smoothed_rate_bps st) dt_secs)) (bc_burst_cap_bytes cfg),
                  cs_window_elapsed_secs := f64_add (cs_window_elapsed_secs st) dt_secs\<rparr> in
      if f64_le window_secs (cs_window_elapsed_secs st) then
        let st = (if f64_lt (Fin 0) (cs_bytes_acc st) then
                    let sample = f64_div (cs_bytes_acc st) (cs_window_elapsed_secs st) in
                    st\<lparr>cs_delivery_rate_bps := Some (case cs_delivery_rate_bps st of
                          Some prev \<Rightarrow> f64_add (f64_mul ewma_alpha sample) (f64_mul (f64_sub (Fin 1) ewma_alpha) prev)
                        | None \<Rightarrow> sample),
                       cs_bytes_acc := Fin 0\<rparr>
                  else st) in
        st\<lparr>cs_window_elapsed_secs := Fin 0\<rparr>
      else st)"

definition refill_all_tokens :: "f64 \<Rightarrow> BackgroundCcEngine \<Rightarrow> BackgroundCcEngine" where
  "refill_all_tokens dt_secs e =
     (if \<not> bc_enabled (be_config e) \<or> f64_le dt_secs (Fin 0) then e
      else e\<lparr>be_peers := tab_map (refill_peer (be_config e) dt_secs) (be_peers e)\<rparr>)"

definition bc_ensure_peer :: "SocketAddr \<Rightarrow> BackgroundCcEngine \<Rightarrow> BackgroundCcEngine" where
  "bc_ensure_peer dest e =
     (if \<not> bc_enabled (be_config e) then e
      else case tab_get (be_peers e) dest of
        Some _ \<Rightarrow> e
      | None \<Rightarrow> e\<lparr>be_peers := tab_put dest (PeerCcState_new (bc_initial_rate_bps (be_config e))) (be_peers e)\<rparr>)"

definition bc_on_cc_sample :: "SocketAddr \<Rightarrow> f64 \<Rightarrow> f64 \<Rightarrow> BackgroundCcEngine \<Rightarrow> BackgroundCcEngine option" where
  "bc_on_cc_sample dest qd_ms loss_ewma e =
     (if \<not> bc_enabled (be_config e) then Some e
      else
        let st = (case tab_get (be_peers e) dest of
                    Some st \<Rightarrow> st | None \<Rightarrow> PeerCcState_new (bc_initial_rate_bps (be_config e))) in
        case apply_background_cc_rate_update (be_config e) qd_ms loss_ewma st (be_counters e) of
          None \<Rightarrow> None
        | Some (st, c) \<Rightarrow> Some (e\<lparr>be_peers := tab_put dest st (be_peers e), be_counters := c\<rparr>))"

definition peer_can_send_bytes :: "PeerCcState \<Rightarrow> BackgroundCcConfig \<Rightarrow> nat \<Rightarrow> f32 \<Rightarrow> bool" where
  "peer_can_send_bytes st cfg pkt_len hol_sojourn_ms =
     (if f64_le (f32_of_nat (bc_hol_escape_ms cfg)) hol_sojourn_ms then True
      else
        let len = f64_of_nat pkt_len in
        if f64_le len (cs_token_bytes st) then True
        else f64_lt (bc_burst_cap_bytes cfg) len \<and> f64_lt (Fin 0) (cs_token_bytes st))"

definition can_send_data :: "SocketAddr \<Rightarrow> nat \<Rightarrow> f32 \<Rightarrow> BackgroundCcEngine \<Rightarrow> bool" where
  "can_send_data dest pkt_len hol_sojourn_ms e =
     (if \<not> bc_enabled (be_config e) then True
      else case tab_get (be_peers e) dest of
        None \<Rightarrow> True
      | Some st \<Rightarrow> peer_can_send_bytes st (be_config e) pkt_len hol_sojourn_ms)"

definition consume_send_bytes :: "SocketAddr \<Rightarrow> nat \<Rightarrow> BackgroundCcEngine \<Rightarrow> BackgroundCcEngine" where
  "consume_send_bytes dest pkt_len e =
     (if \<not> bc_enabled (be_config e) then e
      else case tab_get (be_peers e) dest of
        None \<Rightarrow> e
      | Some st \<Rightarrow>
          let len = f64_of_nat pkt_len in
          e\<lparr>be_peers := tab_put dest (st\<lparr>cs_token_bytes := f64_max (f64_sub (cs_token_bytes st) len) (Fin 0),
                cs_bytes_acc := f64_add (cs_bytes_acc st) len\<rparr>) (be_peers e)\<rparr>)"

definition bc_remove_peer :: "SocketAddr \<Rightarrow> BackgroundCcEngine \<Rightarrow> BackgroundCcEngine" where
  "bc_remove_peer dest e = e\<lparr>be_peers := tab_del dest (be_peers e)\<rparr>"

section \<open>Bounds\<close>

text \<open>A configuration as the clamps of \<^verbatim>\<open>CongestionTuning\<close> leave it.\<close>

definition cc_config_ok :: "BackgroundCcConfig \<Rightarrow> bool" where
  "cc_config_ok cfg =
     ((case (bc_min_rate_bps cfg, bc_max_rate_bps cfg) of
        (Fin a, Fin b) \<Rightarrow> 0 \<le> a \<and> a \<le> b \<and> fin_in a b (bc_initial_rate_bps cfg)
      | _ \<Rightarrow> False)
      \<and> fin_in (1 / 100) 1 (bc_min_decrease_factor cfg)
      \<and> fin_in (1 / 10) 4 (bc_gain cfg) \<and> fin_in 0 1000000 (bc_additive_increase_bps cfg)
      \<and> fin_in 0 1 (bc_loss_multiplicative_decrease cfg) \<and> fin_in (1 / 100) 1 (bc_delivery_anchor_factor cfg)
      \<and> fin_in 0 1000000 (bc_burst_cap_bytes cfg) \<and> bc_rate_smoothing_alpha cfg \<noteq> NaN
      \<and> fin_in 1 1000 (f64_of_nat (max (bc_target_queue_delay_ms cfg) 1)))"

definition notneg :: "f64 \<Rightarrow> bool" where
  "notneg x = (\<not> f64_lt x (Fin 0))"

lemma nonneg_notneg: "nonneg64 x \<Longrightarrow> notneg x"
  by (cases x) (auto simp: nonneg64_def notneg_def)

lemma notneg_add: "notneg x \<Longrightarrow> notneg y \<Longrightarrow> notneg (f64_add x y)"
  by (cases x; cases y) (auto simp: notneg_def intro!: nonneg_notneg [unfolded notneg_def] rnd64_nonneg)

lemma notneg_mul: "notneg x \<Longrightarrow> notneg y \<Longrightarrow> notneg (f64_mul x y)"
  by (cases x; cases y) (auto simp: notneg_def not_less intro!: nonneg_notneg [unfolded notneg_def, unfolded not_less] rnd64_nonneg
      mult_nonneg_nonneg)

definition cc_peer_ok :: "BackgroundCcConfig \<Rightarrow> PeerCcState \<Rightarrow> bool" where
  "cc_peer_ok cfg st = (f64_le (bc_min_rate_bps cfg) (cs_rate_bps st) \<and> f64_le (cs_rate_bps st) (bc_max_rate_bps cfg)
     \<and> f64_le (Fin 0) (cs_token_bytes st) \<and> notneg (cs_smoothed_rate_bps st))"

definition cc_inv :: "BackgroundCcConfig \<Rightarrow> BackgroundCcEngine \<Rightarrow> bool" where
  "cc_inv cfg e = (be_config e = cfg \<and> list_all (\<lambda>(_, st). cc_peer_ok cfg st) (be_peers e))"

lemma cc_config_okE:
  assumes "cc_config_ok cfg"
  obtains a b i g mdf ai md af cap tq where "bc_min_rate_bps cfg = Fin a" "bc_max_rate_bps cfg = Fin b" "0 \<le> a" "a \<le> b"
    "bc_initial_rate_bps cfg = Fin i" "a \<le> i" "i \<le> b" "bc_gain cfg = Fin g" "0 < g" "bc_min_decrease_factor cfg = Fin mdf"
    "0 < mdf" "mdf \<le> 1" "bc_additive_increase_bps cfg = Fin ai" "bc_loss_multiplicative_decrease cfg = Fin md"
    "bc_delivery_anchor_factor cfg = Fin af" "0 < af" "bc_burst_cap_bytes cfg = Fin cap" "0 \<le> cap" "bc_rate_smoothing_alpha cfg \<noteq> NaN"
    "f64_of_nat (max (bc_target_queue_delay_ms cfg) 1) = Fin tq" "1 \<le> tq"
  using assms unfolding cc_config_ok_def
  by (auto split: prod.splits f64.splits elim!: fin_inE)

lemma cc_new_ok: "cc_config_ok cfg \<Longrightarrow> cc_peer_ok cfg (PeerCcState_new (bc_initial_rate_bps cfg))"
  by (elim cc_config_okE) (auto simp: cc_peer_ok_def PeerCcState_new_def notneg_def)

lemma not_NaN_ops:
  "x \<noteq> NaN \<Longrightarrow> f64_sub x (Fin y) \<noteq> NaN" "x \<noteq> NaN \<Longrightarrow> f64_sub (Fin y) x \<noteq> NaN" "x \<noteq> NaN \<Longrightarrow> f64_add x (Fin y) \<noteq> NaN"
  "x \<noteq> NaN \<Longrightarrow> y \<noteq> 0 \<Longrightarrow> f64_mul (Fin y) x \<noteq> NaN" "x \<noteq> NaN \<Longrightarrow> y \<noteq> 0 \<Longrightarrow> f64_mul x (Fin y) \<noteq> NaN"
  "x \<noteq> NaN \<Longrightarrow> y \<noteq> 0 \<Longrightarrow> f64_div x (Fin y) \<noteq> NaN"
  by (cases x; simp add: f64_sub_def)+

lemma delay_update_rate:
  assumes ok: "cc_config_ok cfg" and r: "rate \<noteq> NaN" and ratio: "f64_le (Fin 0) qd_ms \<Longrightarrow> ratio \<noteq> NaN"
  shows "\<exists>rate' c'. delay_update cfg qd_ms ratio rate c = Some (rate', c') \<and> rate' \<noteq> NaN"
proof -
  obtain g mdf ai where cfg: "bc_gain cfg = Fin g" "0 < g" "bc_min_decrease_factor cfg = Fin mdf" "0 < mdf" "mdf \<le> 1"
    "bc_additive_increase_bps cfg = Fin ai" using ok by (rule cc_config_okE)
  have "\<exists>f. f64_clip (Fin mdf) (Fin 1) (f64_sub (Fin 1) (f64_mul (Fin g) (f64_sub ratio (Fin 1)))) = Fin f \<and> f \<noteq> 0" if "ratio \<noteq> NaN"
  proof -
    have "f64_sub (Fin 1) (f64_mul (Fin g) (f64_sub ratio (Fin 1))) \<noteq> NaN"
      using that cfg by (intro not_NaN_ops) auto
    from f64_clip_in [OF this, of mdf 1] cfg show ?thesis by (auto elim!: fin_inE)
  qed
  then show ?thesis using cfg ratio not_NaN_ops(3,5) [OF r] by (fastforce simp: delay_update_def Let_def f64_clamp_def)
qed

lemma cc_peer_rate:
  assumes "cc_config_ok cfg" "cc_peer_ok cfg st"
  obtains a b r where "bc_min_rate_bps cfg = Fin a" "bc_max_rate_bps cfg = Fin b" "0 \<le> a" "a \<le> b" "cs_rate_bps st = Fin r" "a \<le> r" "r \<le> b"
proof -
  obtain a b where ab: "bc_min_rate_bps cfg = Fin a" "bc_max_rate_bps cfg = Fin b" "0 \<le> a" "a \<le> b"
    using assms(1) by (rule cc_config_okE)
  with assms(2) obtain r where "cs_rate_bps st = Fin r" "a \<le> r" "r \<le> b"
    by (cases "cs_rate_bps st") (auto simp: cc_peer_ok_def)
  with ab that show thesis by blast
qed

lemma clamped_rate:
  assumes "bc_min_rate_bps cfg = Fin a" "bc_max_rate_bps cfg = Fin b" "a \<le> b" "x \<noteq> NaN"
  shows "\<exists>r. f64_clamp (bc_min_rate_bps cfg) (bc_max_rate_bps cfg) x = Some (Fin r) \<and> a \<le> r \<and> r \<le> b"
  using f64_clip_in [OF assms(4,3)] assms by (auto simp: f64_clamp_def elim!: fin_inE)

lemma alpha_notneg:
  assumes "x \<noteq> NaN"
  shows "notneg (f64_clip (Fin 0) (f64_lit (95 / 100)) x)" "notneg (f64_sub (Fin 1) (f64_clip (Fin 0) (f64_lit (95 / 100)) x))"
proof -
  have "fin_in 0 1 (f64_lit (95 / 100))" by code_simp
  then obtain h where h: "f64_lit (95 / 100) = Fin h" "0 \<le> h" "h \<le> 1" by (auto elim!: fin_inE)
  from f64_clip_in [OF assms h(2)] obtain y where y: "f64_clip (Fin 0) (Fin h) x = Fin y" "0 \<le> y" "y \<le> h" by (auto elim!: fin_inE)
  then show "notneg (f64_clip (Fin 0) (f64_lit (95 / 100)) x)" unfolding h by (simp add: notneg_def)
  show "notneg (f64_sub (Fin 1) (f64_clip (Fin 0) (f64_lit (95 / 100)) x))"
    unfolding h using y h(3) rnd64_nonneg [of "1 - y"] by (auto simp: f64_sub_def intro: nonneg_notneg)
qed

lemma aimd_ok:
  assumes ok: "cc_config_ok cfg" and st: "cc_peer_ok cfg st" and ratio: "f64_le (Fin 0) qd_ms \<Longrightarrow> ratio \<noteq> NaN"
  shows "\<exists>st' c'. aimd_update cfg qd_ms ratio loss st c = Some (st', c') \<and> cc_peer_ok cfg st'"
proof -
  obtain a b r where r: "bc_min_rate_bps cfg = Fin a" "bc_max_rate_bps cfg = Fin b" "0 \<le> a" "a \<le> b" "cs_rate_bps st = Fin r"
    using ok st by (rule cc_peer_rate)
  obtain md where md: "bc_loss_multiplicative_decrease cfg = Fin md" and alpha: "bc_rate_smoothing_alpha cfg \<noteq> NaN"
    using ok by (rule cc_config_okE)
  define rc where "rc = (if loss then (f64_max (f64_mul (cs_rate_bps st) (bc_loss_multiplicative_decrease cfg)) (bc_min_rate_bps cfg),
                   c\<lparr>cc_loss_decrease_events := sat_add 64 (cc_loss_decrease_events c) 1\<rparr>) else (cs_rate_bps st, c))"
  have "fst rc \<noteq> NaN" by (auto simp: rc_def r md f64_max_def rnd64_not_NaN split: f64.splits)
  then obtain rate' c' where d: "delay_update cfg qd_ms ratio (fst rc) (snd rc) = Some (rate', c')" and "rate' \<noteq> NaN"
    using delay_update_rate [OF ok _ ratio] by blast
  then obtain r' where r': "f64_clamp (bc_min_rate_bps cfg) (bc_max_rate_bps cfg) rate' = Some (Fin r')" "a \<le> r'" "r' \<le> b"
    using clamped_rate [OF r(1,2,4)] by blast
  define al where "al = f64_clip (Fin 0) (f64_lit (95 / 100)) (bc_rate_smoothing_alpha cfg)"
  note al = alpha_notneg [OF alpha, folded al_def]
  have "notneg (f64_add (f64_mul al (cs_smoothed_rate_bps st)) (f64_mul (f64_sub (Fin 1) al) (Fin r')))"
    using st r(3) r' al by (intro notneg_add notneg_mul) (auto simp: cc_peer_ok_def notneg_def)
  then show ?thesis using d r' st r unfolding aimd_update_def rc_def [symmetric] al_def [symmetric] by (simp add: case_prod_unfold Let_def cc_peer_ok_def)
qed

lemma rate_update_ok:
  assumes ok: "cc_config_ok cfg" and st: "cc_peer_ok cfg st"
  shows "\<exists>st' c'. apply_background_cc_rate_update cfg qd loss st c = Some (st', c') \<and> cc_peer_ok cfg st'"
proof -
  obtain a b where ab: "bc_min_rate_bps cfg = Fin a" "bc_max_rate_bps cfg = Fin b" "0 \<le> a" "a \<le> b"
    using ok by (rule cc_config_okE)
  obtain af where af: "bc_delivery_anchor_factor cfg = Fin af" "0 < af" using ok by (rule cc_config_okE)
  obtain tq where tq: "f64_of_nat (max (bc_target_queue_delay_ms cfg) 1) = Fin tq" "1 \<le> tq" using ok by (rule cc_config_okE)
  let ?st = "st\<lparr>cs_last_loss_ewma := loss\<rparr>"
  have st': "cc_peer_ok cfg ?st" using st by (simp add: cc_peer_ok_def)
  define ratio where "ratio = (if f64_le (Fin 0) qd then f64_div qd (Fin tq) else Fin 0)"
  define dec where "dec = ((loss_edge loss st \<and> loss_counts cfg qd) \<or> (f64_le (Fin 0) qd \<and> f64_lt (Fin 1) ratio))"
  have ratio: "ratio \<noteq> NaN"
    using tq not_NaN_ops(6) [of qd tq] by (cases qd) (auto simp: ratio_def)
  show ?thesis
  proof (cases "delivery_anchor cfg dec ?st")
    case None
    then show ?thesis using aimd_ok [OF ok st', of qd ratio] ratio
      unfolding apply_background_cc_rate_update_def tq ratio_def [symmetric] Let_def dec_def [symmetric] by simp
  next
    case (Some d)
    then have "d \<noteq> NaN" by (auto simp: delivery_anchor_def split: if_splits option.splits)
    then have "f64_mul d (Fin af) \<noteq> NaN" using af by (intro not_NaN_ops) auto
    from clamped_rate [OF ab(1,2,4) this] obtain r' where
      r': "f64_clamp (bc_min_rate_bps cfg) (bc_max_rate_bps cfg) (f64_mul d (Fin af)) = Some (Fin r')" "a \<le> r'" "r' \<le> b" by blast
    with Some st ab show ?thesis
      unfolding apply_background_cc_rate_update_def tq ratio_def [symmetric] Let_def dec_def [symmetric] af
      by (simp add: cc_peer_ok_def notneg_def)
  qed
qed

lemma refill_peer_ok:
  assumes ok: "cc_config_ok cfg" and st: "cc_peer_ok cfg st" and dt: "f64_lt (Fin 0) dt"
  shows "cc_peer_ok cfg (refill_peer cfg dt st)"
proof -
  obtain cap where cap: "bc_burst_cap_bytes cfg = Fin cap" "0 \<le> cap" using ok by (rule cc_config_okE)
  have "notneg (f64_add (cs_token_bytes st) (f64_mul (cs_smoothed_rate_bps st) dt))"
    using st dt by (intro notneg_add notneg_mul; cases "cs_token_bytes st"; cases dt) (auto simp: cc_peer_ok_def notneg_def)
  then have "f64_le (Fin 0) (f64_min (f64_add (cs_token_bytes st) (f64_mul (cs_smoothed_rate_bps st) dt)) (Fin cap))"
    using cap by (cases "f64_add (cs_token_bytes st) (f64_mul (cs_smoothed_rate_bps st) dt)") (auto simp: f64_min_def notneg_def)
  with st show ?thesis unfolding refill_peer_def cap by (auto simp: cc_peer_ok_def Let_def)
qed

section \<open>Histories\<close>

text \<open>The calls the pacing engine makes on the rate controller.\<close>

datatype CcOp =
    CcSample SocketAddr f64 f64
  | CcRefill nat
  | CcConsume SocketAddr nat
  | CcEnsure SocketAddr
  | CcRemove SocketAddr

fun cc_op :: "CcOp \<Rightarrow> BackgroundCcEngine \<Rightarrow> BackgroundCcEngine option" where
  "cc_op (CcSample dest qd loss) e = bc_on_cc_sample dest qd loss e"
| "cc_op (CcRefill dt) e = Some (refill_all_tokens (as_secs_f64 dt) e)"
| "cc_op (CcConsume dest n) e = Some (consume_send_bytes dest n e)"
| "cc_op (CcEnsure dest) e = Some (bc_ensure_peer dest e)"
| "cc_op (CcRemove dest) e = Some (bc_remove_peer dest e)"

fun cc_run :: "CcOp list \<Rightarrow> BackgroundCcEngine \<Rightarrow> BackgroundCcEngine option" where
  "cc_run [] e = Some e"
| "cc_run (op # ops) e = Option.bind (cc_op op e) (cc_run ops)"

lemma peers_put: "list_all P t \<Longrightarrow> P (k, v) \<Longrightarrow> list_all P (tab_put k v t)"
  by (induction t) (auto simp: tab_put_def)

lemma peers_del: "list_all P t \<Longrightarrow> list_all P (tab_del k t)"
  by (auto simp: list_all_iff tab_del_def AList.delete_eq)

lemma peers_get: "list_all (\<lambda>(_, st). P st) t \<Longrightarrow> tab_get t k = Some st \<Longrightarrow> P st"
  by (auto simp: list_all_iff dest: tab_get_mem)

lemma nonneg_add_num: "nonneg64 x \<Longrightarrow> nonneg64 y \<Longrightarrow> f64_add x y \<noteq> NaN"
  by (cases x; cases y) (auto simp: nonneg64_def)

lemma nonneg_div: "nonneg64 x \<Longrightarrow> 0 < y \<Longrightarrow> nonneg64 (f64_div x (Fin y))"
  by (cases x) (auto simp: nonneg64_def intro!: rnd64_nonneg [unfolded nonneg64_def])

lemma as_secs_f64_num: "as_secs_f64 n \<noteq> NaN"
proof -
  have giga: "f64_of_nat 1000000000 = Fin 1000000000" by code_simp
  have "nonneg64 (f64_of_nat m)" for m by (simp add: f64_of_nat_def rnd64_nonneg)
  then show ?thesis unfolding as_secs_f64_def giga by (intro nonneg_add_num nonneg_div) auto
qed

lemma cc_op_ok:
  assumes ok: "cc_config_ok cfg" and e: "cc_inv cfg e"
  shows "\<exists>e'. cc_op op e = Some e' \<and> cc_inv cfg e'"
proof (cases op)
  case (CcSample dest qd loss)
  define st where "st = (case tab_get (be_peers e) dest of
                    Some st \<Rightarrow> st | None \<Rightarrow> PeerCcState_new (bc_initial_rate_bps (be_config e)))"
  have "cc_peer_ok cfg st"
    using e cc_new_ok [OF ok] by (auto simp: st_def cc_inv_def split: option.splits dest: peers_get)
  from rate_update_ok [OF ok this] obtain st' c' where
    "apply_background_cc_rate_update cfg qd loss st (be_counters e) = Some (st', c')" "cc_peer_ok cfg st'" by blast
  with CcSample e show ?thesis
    by (auto simp: bc_on_cc_sample_def st_def [symmetric] cc_inv_def intro!: peers_put)
next
  case (CcRefill dt)
  have "f64_lt (Fin 0) (as_secs_f64 dt)" if "\<not> f64_le (as_secs_f64 dt) (Fin 0)"
    using that as_secs_f64_num [of dt] by (cases "as_secs_f64 dt") auto
  with refill_peer_ok [OF ok] CcRefill e show ?thesis
    by (auto simp: refill_all_tokens_def cc_inv_def tab_map_def list_all_iff)
next
  case (CcConsume dest n)
  have "f64_le (Fin 0) (f64_max x (Fin 0))" for x by (cases x) (auto simp: f64_max_def)
  with CcConsume e show ?thesis
    by (auto simp: consume_send_bytes_def cc_inv_def Let_def cc_peer_ok_def split: option.splits intro!: peers_put dest: peers_get)
next
  case (CcEnsure dest)
  with e cc_new_ok [OF ok] show ?thesis
    by (auto simp: bc_ensure_peer_def cc_inv_def split: option.splits intro!: peers_put)
next
  case (CcRemove dest)
  with e show ?thesis by (auto simp: bc_remove_peer_def cc_inv_def intro!: peers_del)
qed

lemma cc_run_ok: "cc_config_ok cfg \<Longrightarrow> cc_inv cfg e \<Longrightarrow> \<exists>e'. cc_run ops e = Some e' \<and> cc_inv cfg e'"
proof (induction ops arbitrary: e)
  case (Cons op ops)
  then show ?case using cc_op_ok [of cfg e op] by fastforce
qed simp

end
