(* ===== verification/Tuning_Clamp.thy ===== *)
theory Tuning_Clamp
  imports Background_Cc Reliable_Inv Pmtud_Inv
begin

text \<open>
  \<^verbatim>\<open>src/src/advanced_tuning.rs\<close>: the whole of the runtime tuning and \<^verbatim>\<open>AdvancedTuning::clamp\<close>, which is applied to
  every tuning read from a file before it reaches a component. A clamp whose bounds are constants is total
  (\<open>clamp\<close>, \<open>f64_clip\<close>); one whose bounds are themselves tuned panics when they are not ordered (\<open>f64_clamp\<close>).
  The records of failover, congestion and averages are in \<open>Tuning\<close>, those of the reliable channel and of
  path MTU discovery with their components.
\<close>

section \<open>Records\<close>

record TimerTuning =
  tm_keepalive_secs :: nat
  tm_msyn_secs :: nat
  tm_pmtud_tick_ms :: nat
  tm_pmtud_raise_secs :: nat
  tm_ping_watchdog_ms :: nat
  tm_stale_tick_secs :: nat
  tm_stale_mark_secs :: nat
  tm_stale_evict_secs :: nat

definition TimerTuning_default :: TimerTuning where
  "TimerTuning_default =
     \<lparr>tm_keepalive_secs = 5, tm_msyn_secs = 15, tm_pmtud_tick_ms = 50, tm_pmtud_raise_secs = 60,
      tm_ping_watchdog_ms = 100, tm_stale_tick_secs = 30, tm_stale_mark_secs = 35, tm_stale_evict_secs = 45\<rparr>"

definition ReliableTuning_default :: ReliableTuning where
  "ReliableTuning_default =
     \<lparr>rt_rto_min_ms = 75, rt_rto_max_ms = 400, rt_max_pending = 256, rt_retries_left = 1, rt_send_scratch_bytes = 1500\<rparr>"

record BufferReuseTuning =
  bu_encrypt_scratch_bytes :: nat
  bu_control_scratch_bytes :: nat
  bu_plain_data_scratch_bytes :: nat
  bu_decrypt_scratch_bytes :: nat
  bu_fec_frame_scratch_bytes :: nat

definition BufferReuseTuning_default :: BufferReuseTuning where
  "BufferReuseTuning_default =
     \<lparr>bu_encrypt_scratch_bytes = 2048, bu_control_scratch_bytes = 512, bu_plain_data_scratch_bytes = 2048,
      bu_decrypt_scratch_bytes = 2048, bu_fec_frame_scratch_bytes = FEC_COMPACT_HEADER_LEN + FEC_SHARD_PAYLOAD_SIZE\<rparr>"

record FecTuning =
  ft_shard_payload_size :: nat
  ft_flush_ms :: nat
  ft_flush_aggressive_ms :: nat
  ft_adaptive_off_below :: f64
  ft_adaptive_on_above :: f64
  ft_fec_max_total_shards :: nat

definition FecTuning_default :: FecTuning where
  "FecTuning_default =
     \<lparr>ft_shard_payload_size = 1024, ft_flush_ms = 2, ft_flush_aggressive_ms = 1,
      ft_adaptive_off_below = f64_lit (25 / 1000), ft_adaptive_on_above = f64_lit (5 / 100), ft_fec_max_total_shards = 16\<rparr>"

record EngineLimitsTuning =
  el_max_direct_retry_per_tick :: nat
  el_max_pending_heal_probes :: nat
  el_max_pending_stun_queries :: nat
  el_max_cc_probes_per_tick :: nat
  el_max_secondary_retry_per_tick :: nat
  el_stun_cache_ttl_secs :: nat
  el_msyn_body_max :: nat
  el_msyn_shard_budget_bytes :: nat
  el_heal_cooldown_ms :: nat
  el_probe_miss_fail_threshold :: nat

definition EngineLimitsTuning_default :: EngineLimitsTuning where
  "EngineLimitsTuning_default =
     \<lparr>el_max_direct_retry_per_tick = 8, el_max_pending_heal_probes = 96, el_max_pending_stun_queries = 8,
      el_max_cc_probes_per_tick = 32, el_max_secondary_retry_per_tick = 4, el_stun_cache_ttl_secs = 30,
      el_msyn_body_max = 524288, el_msyn_shard_budget_bytes = 1200, el_heal_cooldown_ms = 1000,
      el_probe_miss_fail_threshold = 8\<rparr>"

record HolePunchTuning =
  hp_stage1_packets :: nat
  hp_stage1_gap_ms :: nat
  hp_stage1_observe_ms :: nat
  hp_stage2_observe_secs :: nat
  hp_stage2_pps :: nat
  hp_stage3_pps :: nat
  hp_stage3_max_secs :: nat
  hp_stage3_batch_gap_ms :: nat
  hp_max_expanded_targets :: nat
  hp_wide_min_width :: nat
  hp_wide_max_width :: nat
  hp_random_port_min :: nat
  hp_random_port_max :: nat

text \<open>The constants of \<^verbatim>\<open>src/src/net/decentralized.rs\<close> that are its defaults are written as values.\<close>

definition HolePunchTuning_default :: HolePunchTuning where
  "HolePunchTuning_default =
     \<lparr>hp_stage1_packets = 3, hp_stage1_gap_ms = 50, hp_stage1_observe_ms = 500, hp_stage2_observe_secs = 1,
      hp_stage2_pps = 128, hp_stage3_pps = 64, hp_stage3_max_secs = 10, hp_stage3_batch_gap_ms = 500,
      hp_max_expanded_targets = 512, hp_wide_min_width = 32, hp_wide_max_width = 256,
      hp_random_port_min = 1024, hp_random_port_max = 65535\<rparr>"

record AdvancedTuning =
  at_failover :: FailoverTuning
  at_timers :: TimerTuning
  at_reliable :: ReliableTuning
  at_fec :: FecTuning
  at_congestion :: CongestionTuning
  at_pmtud :: PmtudTuning
  at_routing_ewma :: RoutingEwmaTuning
  at_engine_limits :: EngineLimitsTuning
  at_hole_punch :: HolePunchTuning
  at_buffers :: BufferReuseTuning

definition AdvancedTuning_default :: AdvancedTuning where
  "AdvancedTuning_default =
     \<lparr>at_failover = FailoverTuning_default, at_timers = TimerTuning_default, at_reliable = ReliableTuning_default,
      at_fec = FecTuning_default, at_congestion = CongestionTuning_default, at_pmtud = PmtudTuning_default,
      at_routing_ewma = RoutingEwmaTuning_default, at_engine_limits = EngineLimitsTuning_default,
      at_hole_punch = HolePunchTuning_default, at_buffers = BufferReuseTuning_default\<rparr>"

section \<open>Clamps\<close>

definition clamp_buffers :: "BufferReuseTuning \<Rightarrow> BufferReuseTuning" where
  "clamp_buffers t =
     \<lparr>bu_encrypt_scratch_bytes = clamp 64 1048576 (bu_encrypt_scratch_bytes t),
      bu_control_scratch_bytes = clamp 32 131072 (bu_control_scratch_bytes t),
      bu_plain_data_scratch_bytes = clamp 64 1048576 (bu_plain_data_scratch_bytes t),
      bu_decrypt_scratch_bytes = clamp 64 1048576 (bu_decrypt_scratch_bytes t),
      bu_fec_frame_scratch_bytes = clamp 64 1048576 (bu_fec_frame_scratch_bytes t)\<rparr>"

definition renormalize_pair :: "f64 \<Rightarrow> f64 \<Rightarrow> f64 \<times> f64" where
  "renormalize_pair old0 new0 =
     (let old = f64_clip (Fin 0) (Fin 1) old0; new = f64_clip (Fin 0) (Fin 1) new0; s = f64_add old new in
      if f64_lt (Fin 0) s then (f64_div old s, f64_div new s) else (f64_lit (5 / 10), f64_lit (5 / 10)))"

definition clamp_routing_ewma :: "RoutingEwmaTuning \<Rightarrow> RoutingEwmaTuning" where
  "clamp_routing_ewma t =
     (let (rtt_old, rtt_new) = renormalize_pair (ew_rtt_old t) (ew_rtt_new t);
          (jitter_old, jitter_new) = renormalize_pair (ew_jitter_old t) (ew_jitter_new t);
          (bw_old, bw_new) = renormalize_pair (ew_bw_old t) (ew_bw_new t) in
      \<lparr>ew_rtt_old = rtt_old, ew_rtt_new = rtt_new, ew_jitter_old = jitter_old, ew_jitter_new = jitter_new,
       ew_loss_decay = f64_clip (f64_lit (5 / 10)) (f64_lit (999 / 1000)) (ew_loss_decay t),
       ew_loss_success_delta = f64_clip (Fin 0) (f64_lit (1 / 10)) (ew_loss_success_delta t),
       ew_loss_fail_bump = f64_clip (Fin 0) (f64_lit (5 / 10)) (ew_loss_fail_bump t),
       ew_bw_old = bw_old, ew_bw_new = bw_new,
       ew_quality_initial = clamp 0 100 (ew_quality_initial t),
       ew_quality_loss_scale = f64_clip (Fin 0) (f64_lit 200) (ew_quality_loss_scale t),
       ew_quality_loss_penalty_cap = f64_clip (Fin 0) (f64_lit 100) (ew_quality_loss_penalty_cap t),
       ew_quality_jitter_div = f64_clip (f64_lit 1) (f64_lit 30) (ew_quality_jitter_div t),
       ew_quality_jitter_penalty_cap = f64_clip (Fin 0) (f64_lit 100) (ew_quality_jitter_penalty_cap t),
       ew_rtt_score_clamp_ms = clamp 50 2000 (ew_rtt_score_clamp_ms t)\<rparr>)"

definition clamp_engine_limits :: "EngineLimitsTuning \<Rightarrow> EngineLimitsTuning" where
  "clamp_engine_limits t =
     (let body_max = clamp 4096 524288 (el_msyn_body_max t); shard_hi = min 4096 body_max in
      \<lparr>el_max_direct_retry_per_tick = clamp 1 256 (el_max_direct_retry_per_tick t),
       el_max_pending_heal_probes = clamp 1 1024 (el_max_pending_heal_probes t),
       el_max_pending_stun_queries = clamp 1 64 (el_max_pending_stun_queries t),
       el_max_cc_probes_per_tick = clamp 1 256 (el_max_cc_probes_per_tick t),
       el_max_secondary_retry_per_tick = clamp 1 256 (el_max_secondary_retry_per_tick t),
       el_stun_cache_ttl_secs = clamp 1 600 (el_stun_cache_ttl_secs t),
       el_msyn_body_max = body_max,
       el_msyn_shard_budget_bytes = clamp 512 shard_hi (el_msyn_shard_budget_bytes t),
       el_heal_cooldown_ms = clamp 50 60000 (el_heal_cooldown_ms t),
       el_probe_miss_fail_threshold = clamp 3 64 (el_probe_miss_fail_threshold t)\<rparr>)"

definition clamp_hole_punch :: "HolePunchTuning \<Rightarrow> HolePunchTuning" where
  "clamp_hole_punch t =
     (let wmin = min (max (hp_wide_min_width t) 1) 2048;
          wmax = min (max (hp_wide_max_width t) 1) 2048;
          wmax = (if wmax < wmin then wmin else wmax);
          pmin = (if hp_random_port_min t = 0 then 1 else hp_random_port_min t);
          pmax = (if hp_random_port_max t = 0 then 1 else hp_random_port_max t);
          (pmin, pmax) = (if pmin > pmax then (pmax, pmin) else (pmin, pmax)) in
      \<lparr>hp_stage1_packets = clamp 1 16 (hp_stage1_packets t),
       hp_stage1_gap_ms = clamp 1 1000 (hp_stage1_gap_ms t),
       hp_stage1_observe_ms = min (hp_stage1_observe_ms t) 10000,
       hp_stage2_observe_secs = min (hp_stage2_observe_secs t) 30,
       hp_stage2_pps = clamp 1 2000 (hp_stage2_pps t),
       hp_stage3_pps = clamp 1 2000 (hp_stage3_pps t),
       hp_stage3_max_secs = clamp 1 120 (hp_stage3_max_secs t),
       hp_stage3_batch_gap_ms = min (hp_stage3_batch_gap_ms t) 5000,
       hp_max_expanded_targets = clamp 32 2048 (hp_max_expanded_targets t),
       hp_wide_min_width = wmin, hp_wide_max_width = wmax, hp_random_port_min = pmin, hp_random_port_max = pmax\<rparr>)"

text \<open>The value of \<^verbatim>\<open>f64::MAX\<close>.\<close>

definition F64_MAX :: rat where "F64_MAX = (2 - 1 / 2 ^ 52) * 2 ^ 1023"

definition clamp_rate_knobs :: "CongestionTuning \<Rightarrow> CongestionTuning option" where
  "clamp_rate_knobs t =
     (let min_rate = f64_clip (f64_lit 1000) (Fin F64_MAX) (cg_min_rate_bps t) in
      case f64_clamp min_rate (f64_lit 50000000) (cg_max_rate_bps t) of
        None \<Rightarrow> None
      | Some max_rate \<Rightarrow>
          (case f64_clamp min_rate max_rate (cg_initial_rate_bps t) of
             None \<Rightarrow> None
           | Some initial \<Rightarrow>
               Some (t\<lparr>cg_gain := f64_clip (f64_lit (1 / 10)) (f64_lit 4) (cg_gain t),
                 cg_hol_escape_ms := clamp 4 100 (cg_hol_escape_ms t),
                 cg_min_decrease_factor := f64_clip (f64_lit (1 / 10)) (f64_lit (9 / 10)) (cg_min_decrease_factor t),
                 cg_additive_increase_bps := f64_clip (f64_lit 4000) (f64_lit 1000000) (cg_additive_increase_bps t),
                 cg_rate_smoothing_alpha := f64_clip (Fin 0) (f64_lit (95 / 100)) (cg_rate_smoothing_alpha t),
                 cg_min_rate_bps := min_rate, cg_max_rate_bps := max_rate,
                 cg_loss_multiplicative_decrease := f64_clip (f64_lit (3 / 10)) (f64_lit (9 / 10)) (cg_loss_multiplicative_decrease t),
                 cg_burst_cap_bytes := clamp 512 (256 * 1024) (cg_burst_cap_bytes t),
                 cg_initial_rate_bps := initial,
                 cg_delivery_rate_window_ms := clamp 100 5000 (cg_delivery_rate_window_ms t),
                 cg_delivery_rate_ewma_alpha := f64_clip (f64_lit (5 / 100)) (f64_lit 1) (cg_delivery_rate_ewma_alpha t),
                 cg_delivery_anchor_factor := f64_clip (f64_lit (5 / 10)) (f64_lit (99 / 100)) (cg_delivery_anchor_factor t),
                 cg_delivery_decouple_ratio := f64_clip (f64_lit (105 / 100)) (f64_lit 3) (cg_delivery_decouple_ratio t)\<rparr>)))"

definition cc_probe_timer_period_ms :: "nat \<Rightarrow> nat" where
  "cc_probe_timer_period_ms probe_interval_ms =
     (if probe_interval_ms = 0 then 3600000 else clamp 20 1000 probe_interval_ms)"

text \<open>The parts of \<^verbatim>\<open>AdvancedTuning::clamp\<close>, in its order.\<close>

definition clamp_failover :: "FailoverTuning \<Rightarrow> FailoverTuning" where
  "clamp_failover t =
     (let d2r = clamp 0 100 (fo_d2r_quality_min t); r2d = clamp 0 100 (fo_r2d_quality_min t) in
      \<lparr>fo_d2r_quality_min = d2r,
       fo_d2r_loss_max = f64_clip (Fin 0) (f64_lit 1) (fo_d2r_loss_max t),
       fo_d2r_jitter_max = f64_max (fo_d2r_jitter_max t) (Fin 0),
       fo_r2d_quality_min = (if r2d < d2r then d2r else r2d),
       fo_r2d_success_min = max (fo_r2d_success_min t) 1,
       fo_hold_down_secs = max (fo_hold_down_secs t) 0\<rparr>)"

text \<open>The additions that order the three stale periods wrap around at 64 bits.\<close>

definition clamp_timers :: "TimerTuning \<Rightarrow> TimerTuning" where
  "clamp_timers t =
     (let tick = max (tm_stale_tick_secs t) 1;
          mark = max (tm_stale_mark_secs t) 1;
          evict = max (tm_stale_evict_secs t) 1;
          mark = (if mark \<le> tick then (tick + 1) mod 2 ^ 64 else mark);
          evict = (if evict \<le> mark then (mark + 1) mod 2 ^ 64 else evict) in
      \<lparr>tm_keepalive_secs = max (tm_keepalive_secs t) 1,
       tm_msyn_secs = max (tm_msyn_secs t) 1,
       tm_pmtud_tick_ms = clamp 10 1000 (tm_pmtud_tick_ms t),
       tm_pmtud_raise_secs = max (tm_pmtud_raise_secs t) 1,
       tm_ping_watchdog_ms = max (tm_ping_watchdog_ms t) 10,
       tm_stale_tick_secs = tick, tm_stale_mark_secs = mark, tm_stale_evict_secs = evict\<rparr>)"

definition clamp_fec :: "FecTuning \<Rightarrow> FecTuning" where
  "clamp_fec t =
     (let off = f64_clip (Fin 0) (f64_lit (5 / 10)) (ft_adaptive_off_below t);
          on = f64_clip (Fin 0) (f64_lit (5 / 10)) (ft_adaptive_on_above t) in
      \<lparr>ft_shard_payload_size = clamp FEC_SHARD_PAYLOAD_MIN FEC_SHARD_PAYLOAD_SIZE (ft_shard_payload_size t),
       ft_flush_ms = max (ft_flush_ms t) 1,
       ft_flush_aggressive_ms = max (ft_flush_aggressive_ms t) 1,
       ft_adaptive_off_below = off,
       ft_adaptive_on_above = (if f64_lt on off then off else on),
       ft_fec_max_total_shards = clamp 2 FEC_MAX_TOTAL_SHARDS (ft_fec_max_total_shards t)\<rparr>)"

definition clamp_congestion :: "CongestionTuning \<Rightarrow> CongestionTuning option" where
  "clamp_congestion t =
     clamp_rate_knobs
       (t\<lparr>cg_target_queue_delay_ms := clamp 10 150 (cg_target_queue_delay_ms t),
          cg_congestion_loss_threshold := f64_clip (f64_lit (3 / 10)) (f64_lit (95 / 100)) (cg_congestion_loss_threshold t),
          cg_base_rtt_window_secs := clamp 1 60 (cg_base_rtt_window_secs t),
          cg_base_rtt_stale_windows := clamp 1 10 (cg_base_rtt_stale_windows t),
          cg_owd_clock_jump_reject_ms := clamp 1000 600000 (cg_owd_clock_jump_reject_ms t),
          cg_owd_rtt_consistency_ms := clamp 500 120000 (cg_owd_rtt_consistency_ms t),
          cg_owd_prefer_after_samples := clamp 1 64 (cg_owd_prefer_after_samples t),
          cg_probe_interval_ms :=
            (if cg_probe_interval_ms t \<noteq> 0 then clamp 20 1000 (cg_probe_interval_ms t) else 0),
          cg_fec_recovery_recency_ms :=
            (if cg_fec_recovery_recency_ms t \<noteq> 0 then clamp 100 60000 (cg_fec_recovery_recency_ms t) else 0),
          cg_gain := f64_clip (f64_lit (1 / 10)) (f64_lit 4) (cg_gain t)\<rparr>)"

definition clamp_pmtud :: "PmtudTuning \<Rightarrow> PmtudTuning" where
  "clamp_pmtud t =
     \<lparr>pt_probe_timeout_ms = clamp 50 10000 (pt_probe_timeout_ms t),
      pt_confirm_count = clamp 1 8 (pt_confirm_count t),
      pt_resolve_epsilon = clamp 1 8 (pt_resolve_epsilon t),
      pt_raise_step = clamp 1 512 (pt_raise_step t),
      pt_max_probes_per_search = clamp 8 256 (pt_max_probes_per_search t),
      pt_max_concurrent_peers = clamp 1 64 (pt_max_concurrent_peers t),
      pt_stable_downgrade_batches = max (pt_stable_downgrade_batches t) 1\<rparr>"

definition AdvancedTuning_clamp :: "AdvancedTuning \<Rightarrow> AdvancedTuning option" where
  "AdvancedTuning_clamp t =
     (case clamp_congestion (at_congestion t) of
        None \<Rightarrow> None
      | Some congestion \<Rightarrow>
          Some \<lparr>at_failover = clamp_failover (at_failover t), at_timers = clamp_timers (at_timers t),
            at_reliable = clamp_reliable (at_reliable t), at_fec = clamp_fec (at_fec t), at_congestion = congestion,
            at_pmtud = clamp_pmtud (at_pmtud t), at_routing_ewma = clamp_routing_ewma (at_routing_ewma t),
            at_engine_limits = clamp_engine_limits (at_engine_limits t),
            at_hole_punch = clamp_hole_punch (at_hole_punch t), at_buffers = clamp_buffers (at_buffers t)\<rparr>)"

section \<open>When a clamp panics\<close>

lemma lit_nat: "n < 2 ^ 53 \<Longrightarrow> f64_lit (of_nat n) = Fin (of_nat n)"
  by (simp add: f64_lit_def rnd64_nat)

lemma rate_lits: "f64_lit 1000 = Fin 1000" "f64_lit 50000000 = Fin 50000000"
  using lit_nat [of 1000] lit_nat [of 50000000] by simp_all

lemma clamped_min_rate:
  "x \<noteq> NaN \<Longrightarrow> \<not> f64_lt (Fin 50000000) x \<Longrightarrow>
     \<exists>a. f64_clip (Fin 1000) (Fin F64_MAX) x = Fin a \<and> 1000 \<le> a \<and> a \<le> 50000000"
  by (cases x) (auto simp: f64_clip_def F64_MAX_def)

lemma rate_knobs_None:
  "clamp_rate_knobs t = None \<longleftrightarrow>
     cg_min_rate_bps t = NaN \<or> f64_lt (Fin 50000000) (cg_min_rate_bps t) \<or> cg_max_rate_bps t = NaN"
proof (cases "cg_min_rate_bps t = NaN \<or> f64_lt (Fin 50000000) (cg_min_rate_bps t)")
  case True
  then have "\<not> f64_le (f64_clip (Fin 1000) (Fin F64_MAX) (cg_min_rate_bps t)) (Fin 50000000)"
    by (cases "cg_min_rate_bps t") (auto simp: f64_clip_def F64_MAX_def)
  with True show ?thesis by (auto simp: clamp_rate_knobs_def rate_lits f64_clamp_def Let_def)
next
  case False
  then obtain a where a: "f64_clip (Fin 1000) (Fin F64_MAX) (cg_min_rate_bps t) = Fin a" "1000 \<le> a" "a \<le> 50000000"
    using clamped_min_rate by blast
  show ?thesis
  proof (cases "cg_max_rate_bps t = NaN")
    case True
    with a False show ?thesis by (simp add: clamp_rate_knobs_def rate_lits f64_clamp_def Let_def f64_clip_def)
  next
    case False': False
    from f64_clip_in [OF this a(3)] obtain b where
      "f64_clip (Fin a) (Fin 50000000) (cg_max_rate_bps t) = Fin b" "a \<le> b" by (auto elim: fin_inE)
    with a False False' show ?thesis by (simp add: clamp_rate_knobs_def rate_lits f64_clamp_def Let_def)
  qed
qed

section \<open>A clamped tuning is a sound configuration\<close>

definition rate_knobs :: "CongestionTuning \<Rightarrow> f64 list" where
  "rate_knobs t = [cg_gain t, cg_min_decrease_factor t, cg_additive_increase_bps t, cg_rate_smoothing_alpha t,
     cg_loss_multiplicative_decrease t, cg_initial_rate_bps t, cg_delivery_anchor_factor t]"

lemma knob_lits:
  "fin_in (1 / 10) 4 (f64_lit (1 / 10))" "fin_in (1 / 10) 4 (f64_lit 4)"
  "fin_in (1 / 100) 1 (f64_lit (1 / 10))" "fin_in (1 / 100) 1 (f64_lit (9 / 10))"
  "fin_in 0 1000000 (f64_lit 4000)" "fin_in 0 1000000 (f64_lit 1000000)"
  "fin_in 0 1 (f64_lit (3 / 10))" "fin_in 0 1 (f64_lit (9 / 10))"
  "fin_in (1 / 100) 1 (f64_lit (5 / 10))" "fin_in (1 / 100) 1 (f64_lit (99 / 100))"
  "fin_in 0 1 (Fin 0)" "fin_in 0 1 (f64_lit (95 / 100))"
  by code_simp+

lemma fin_in_num: "fin_in a b x \<Longrightarrow> x \<noteq> NaN"
  by (cases x) auto

lemma clamped_nat_knobs:
  "fin_in 1 1000 (f64_of_nat (max (clamp 10 150 n) 1))" "fin_in 0 1000000 (f64_of_nat (clamp 512 (256 * 1024) m))"
  by (auto simp: f64_of_nat_exact clamp_def max_def)

lemma clamped_rates:
  assumes "x \<noteq> NaN" "y \<noteq> NaN" "z \<noteq> NaN" "\<not> f64_lt (Fin 50000000) x"
  obtains a b i where "f64_clip (Fin 1000) (Fin F64_MAX) x = Fin a" "f64_clamp (Fin a) (Fin 50000000) y = Some (Fin b)"
    "f64_clamp (Fin a) (Fin b) z = Some (Fin i)" "1000 \<le> a" "a \<le> b" "a \<le> i" "i \<le> b"
proof -
  obtain a where a: "f64_clip (Fin 1000) (Fin F64_MAX) x = Fin a" "1000 \<le> a" "a \<le> 50000000"
    using clamped_min_rate assms by blast
  from f64_clip_in [OF assms(2) a(3)] obtain b where b: "f64_clip (Fin a) (Fin 50000000) y = Fin b" "a \<le> b"
    by (auto elim: fin_inE)
  from f64_clip_in [OF assms(3) b(2)] obtain i where "f64_clip (Fin a) (Fin b) z = Fin i" "a \<le> i" "i \<le> b"
    by (auto elim: fin_inE)
  with a b that show thesis by (simp add: f64_clamp_def)
qed

lemma clamped_config_ok:
  assumes c: "clamp_congestion t = Some t'" and k: "NaN \<notin> set (rate_knobs t)"
  shows "cc_config_ok (to_background_cc_config t')"
proof -
  have "cg_min_rate_bps t \<noteq> NaN" "\<not> f64_lt (Fin 50000000) (cg_min_rate_bps t)" "cg_max_rate_bps t \<noteq> NaN"
    using c by (auto simp: clamp_congestion_def rate_knobs_None [THEN iffD2] elim: contrapos_pp)
  moreover have num: "cg_gain t \<noteq> NaN" "cg_min_decrease_factor t \<noteq> NaN" "cg_additive_increase_bps t \<noteq> NaN"
    "cg_rate_smoothing_alpha t \<noteq> NaN" "cg_loss_multiplicative_decrease t \<noteq> NaN" "cg_initial_rate_bps t \<noteq> NaN"
    "cg_delivery_anchor_factor t \<noteq> NaN"
    using k by (auto simp: rate_knobs_def)
  ultimately obtain a b i where r: "f64_clip (Fin 1000) (Fin F64_MAX) (cg_min_rate_bps t) = Fin a"
    "f64_clamp (Fin a) (Fin 50000000) (cg_max_rate_bps t) = Some (Fin b)"
    "f64_clamp (Fin a) (Fin b) (cg_initial_rate_bps t) = Some (Fin i)" "1000 \<le> a" "a \<le> b" "a \<le> i" "i \<le> b"
    using clamped_rates by metis
  note within = clip_within [OF num(1) knob_lits(1,2)] clip_within [OF num(2) knob_lits(3,4)]
    clip_within [OF num(3) knob_lits(5,6)] clip_within [OF num(5) knob_lits(7,8)] clip_within [OF num(7) knob_lits(9,10)]
    clip_within [OF num(4) knob_lits(11,12), THEN fin_in_num]
  have gain: "fin_in (1 / 10) 4 (f64_clip (f64_lit (1 / 10)) (f64_lit 4) (f64_clip (f64_lit (1 / 10)) (f64_lit 4) (cg_gain t)))"
    by (rule clip_within [OF fin_in_num [OF within(1)] knob_lits(1,2)])
  have "cg_min_rate_bps t' = Fin a" "cg_max_rate_bps t' = Fin b" "cg_initial_rate_bps t' = Fin i"
    "cg_min_decrease_factor t' = f64_clip (f64_lit (1 / 10)) (f64_lit (9 / 10)) (cg_min_decrease_factor t)"
    "cg_gain t' = f64_clip (f64_lit (1 / 10)) (f64_lit 4) (f64_clip (f64_lit (1 / 10)) (f64_lit 4) (cg_gain t))"
    "cg_additive_increase_bps t' = f64_clip (f64_lit 4000) (f64_lit 1000000) (cg_additive_increase_bps t)"
    "cg_loss_multiplicative_decrease t' = f64_clip (f64_lit (3 / 10)) (f64_lit (9 / 10)) (cg_loss_multiplicative_decrease t)"
    "cg_delivery_anchor_factor t' = f64_clip (f64_lit (5 / 10)) (f64_lit (99 / 100)) (cg_delivery_anchor_factor t)"
    "cg_rate_smoothing_alpha t' = f64_clip (Fin 0) (f64_lit (95 / 100)) (cg_rate_smoothing_alpha t)"
    "cg_burst_cap_bytes t' = clamp 512 (256 * 1024) (cg_burst_cap_bytes t)"
    "cg_target_queue_delay_ms t' = clamp 10 150 (cg_target_queue_delay_ms t)"
    using c r(1-3) by (auto simp: clamp_congestion_def clamp_rate_knobs_def Let_def rate_lits)
  then show ?thesis unfolding cc_config_ok_def to_background_cc_config_def
    using within gain clamped_nat_knobs r(4-7) by simp
qed

section \<open>Properties\<close>


lemma default_knobs: "NaN \<notin> set (rate_knobs CongestionTuning_default)"
  by code_simp

lemma default_clamps: "\<exists>t'. clamp_congestion CongestionTuning_default = Some t'"
proof -
  have "cg_min_rate_bps CongestionTuning_default \<noteq> NaN \<and> \<not> f64_lt (Fin 50000000) (cg_min_rate_bps CongestionTuning_default)
    \<and> cg_max_rate_bps CongestionTuning_default \<noteq> NaN" by code_simp
  then have "clamp_congestion CongestionTuning_default \<noteq> None"
    unfolding clamp_congestion_def rate_knobs_None by simp
  then show ?thesis by blast
qed


text \<open>
  C37. The clamp of a tuning panics exactly when the minimum rate is above fifty million or not a number, or the maximum
  rate is not a number: the fifty million that bound the maximum rate are never compared with the minimum.\<close>

theorem tuning_clamp_panics_iff:
  "AdvancedTuning_clamp t = None \<longleftrightarrow>
     cg_min_rate_bps (at_congestion t) = NaN \<or> f64_lt (Fin 50000000) (cg_min_rate_bps (at_congestion t)) \<or>
     cg_max_rate_bps (at_congestion t) = NaN"
  unfolding AdvancedTuning_clamp_def option.case_eq_if
  by (simp add: clamp_congestion_def rate_knobs_None)

text \<open>
  A clamped tuning keeps the order its users rely on: a route turns stale after a check and is evicted after that, as long as no period
  reaches the end of the 64-bit range; the retransmission bounds, the quality thresholds of failover, the punch widths and ports
  are ordered, and a sync shard fits a sync body.\<close>

theorem clamp_orders_tuning:
  assumes "AdvancedTuning_clamp t = Some t'"
    and "tm_stale_tick_secs (at_timers t) < 2 ^ 64 - 2" "tm_stale_mark_secs (at_timers t) < 2 ^ 64 - 2"
  shows "tm_stale_tick_secs (at_timers t') < tm_stale_mark_secs (at_timers t')
      \<and> tm_stale_mark_secs (at_timers t') < tm_stale_evict_secs (at_timers t')
    \<and> 0 < rt_rto_min_ms (at_reliable t') \<and> rt_rto_min_ms (at_reliable t') \<le> rt_rto_max_ms (at_reliable t')
    \<and> fo_d2r_quality_min (at_failover t') \<le> fo_r2d_quality_min (at_failover t')
    \<and> 0 < hp_wide_min_width (at_hole_punch t') \<and> hp_wide_min_width (at_hole_punch t') \<le> hp_wide_max_width (at_hole_punch t')
    \<and> 0 < hp_random_port_min (at_hole_punch t') \<and> hp_random_port_min (at_hole_punch t') \<le> hp_random_port_max (at_hole_punch t')
    \<and> 512 \<le> el_msyn_shard_budget_bytes (at_engine_limits t') \<and>
      el_msyn_shard_budget_bytes (at_engine_limits t') \<le> el_msyn_body_max (at_engine_limits t')"
proof -
  have "tm_stale_tick_secs (at_timers t') < tm_stale_mark_secs (at_timers t')"
    using assms by (auto simp: AdvancedTuning_clamp_def clamp_timers_def Let_def split: option.splits)
  moreover have "tm_stale_mark_secs (at_timers t') < tm_stale_evict_secs (at_timers t')"
    using assms by (auto simp: AdvancedTuning_clamp_def clamp_timers_def Let_def split: option.splits)
  moreover have "0 < rt_rto_min_ms (at_reliable t') \<and> rt_rto_min_ms (at_reliable t') \<le> rt_rto_max_ms (at_reliable t')"
    using assms(1) by (auto simp: AdvancedTuning_clamp_def clamp_reliable_def Let_def split: option.splits)
  moreover have "fo_d2r_quality_min (at_failover t') \<le> fo_r2d_quality_min (at_failover t')"
    using assms(1) by (auto simp: AdvancedTuning_clamp_def clamp_failover_def Let_def split: option.splits)
  moreover have "0 < hp_wide_min_width (at_hole_punch t') \<and> hp_wide_min_width (at_hole_punch t') \<le> hp_wide_max_width (at_hole_punch t')"
    using assms(1) by (auto simp: AdvancedTuning_clamp_def clamp_hole_punch_def Let_def split: option.splits prod.splits)
  moreover have "0 < hp_random_port_min (at_hole_punch t') \<and> hp_random_port_min (at_hole_punch t') \<le> hp_random_port_max (at_hole_punch t')"
    using assms(1) by (auto simp: AdvancedTuning_clamp_def clamp_hole_punch_def Let_def split: option.splits prod.splits if_splits)
  moreover have "512 \<le> el_msyn_shard_budget_bytes (at_engine_limits t') \<and>
      el_msyn_shard_budget_bytes (at_engine_limits t') \<le> el_msyn_body_max (at_engine_limits t')"
    using assms(1) by (auto simp: AdvancedTuning_clamp_def clamp_engine_limits_def clamp_def Let_def split: option.splits)
  ultimately show ?thesis by blast
qed

theorem clamp_orders_tuning_witness:
  "\<exists>t'. AdvancedTuning_clamp AdvancedTuning_default = Some t' \<and>
     tm_stale_tick_secs (at_timers t') < tm_stale_mark_secs (at_timers t') \<and>
     tm_stale_mark_secs (at_timers t') < tm_stale_evict_secs (at_timers t')"
proof -
  obtain t' where t: "AdvancedTuning_clamp AdvancedTuning_default = Some t'"
    using default_clamps by (auto simp: AdvancedTuning_clamp_def AdvancedTuning_default_def)
  have "tm_stale_tick_secs (at_timers AdvancedTuning_default) < 2 ^ 64 - 2" "tm_stale_mark_secs (at_timers AdvancedTuning_default) < 2 ^ 64 - 2"
    by (simp_all add: AdvancedTuning_default_def TimerTuning_default_def)
  from clamp_orders_tuning [OF t this] t show ?thesis by blast
qed

end
