(* ===== verification/Pacing_Config.thy ===== *)
theory Pacing_Config
  imports Background_Cc
begin

text \<open>
  Configuration of the pacing engine: \<^verbatim>\<open>src/src/net/pacing_defaults.rs\<close> and the configuration types of
  \<^verbatim>\<open>src/src/net/pacing.rs\<close> with their sanitizers. Named constants of the first file that only serve as a default or as a
  bound are written as values. A clamp with constant bounds is total; one with a configured bound panics when
  its bounds are not ordered, and the operation returns None then.
\<close>

section \<open>Effective values\<close>

datatype PaceRateMode = Pps | Bytes

definition ascii_lower :: "char \<Rightarrow> char" where
  "ascii_lower c = (if (of_char c :: nat) \<in> {65..90} then char_of ((of_char c :: nat) + 32) else c)"

definition from_config_str :: "string \<Rightarrow> PaceRateMode" where
  "from_config_str s = (if map ascii_lower s = ''bytes'' then Bytes else Pps)"

definition effective_pace_tick_us :: "int \<Rightarrow> nat" where
  "effective_pace_tick_us v = max (min (if v > 0 then nat v else 350) 1000000) 1"

definition effective_pace_target_pps :: "int \<Rightarrow> nat" where
  "effective_pace_target_pps v = clamp 100 200000 (if v > 0 then nat v else 8000)"

definition effective_pace_target_bps :: "int \<Rightarrow> int \<Rightarrow> nat" where
  "effective_pace_target_bps v pace_target_pps =
     (if v > 0 then nat v else min (effective_pace_target_pps pace_target_pps * 1300) (2 ^ 64 - 1))"

definition effective_base_max_burst :: "int \<Rightarrow> nat" where
  "effective_base_max_burst v = clamp 1 1024 (if v > 0 then nat v else 3)"

definition effective_pace_budget_cap_packets :: "f64 \<Rightarrow> f64" where
  "effective_pace_budget_cap_packets v = f64_clip (Fin 1) (Fin 4096) (if f64_lt (Fin 0) v then v else Fin 64)"

definition effective_pace_max_queue_packets :: "int \<Rightarrow> nat" where
  "effective_pace_max_queue_packets v = clamp 1 8192 (if v > 0 then nat v else 250)"

definition effective_tun_inject_queue_packets :: "int \<Rightarrow> nat" where
  "effective_tun_inject_queue_packets v = clamp 1 8192 (if v > 0 then nat v else 512)"

definition effective_tun_from_adapter_queue_packets :: "int \<Rightarrow> nat" where
  "effective_tun_from_adapter_queue_packets v = clamp 1 8192 (if v > 0 then nat v else 256)"

definition effective_reserved_bytes_per_tick :: "nat \<Rightarrow> nat" where
  "effective_reserved_bytes_per_tick v = min v 8192"

definition effective_drr_small_packet_threshold_bytes :: "nat \<Rightarrow> nat" where
  "effective_drr_small_packet_threshold_bytes v = clamp 64 512 (if v = 0 then 420 else v)"

fun is_finite :: "f64 \<Rightarrow> bool" where
  "is_finite (Fin x) = True"
| "is_finite _ = False"

definition effective_drr_rtt_scale_min :: "f64 \<Rightarrow> f32" where
  "effective_drr_rtt_scale_min v =
     f64_as_f32 (f64_clip (f64_lit (1 / 10)) (Fin 1) (if is_finite v \<and> f64_lt (Fin 0) v then v else f64_lit (5 / 10)))"

definition effective_drr_rtt_scale_max :: "f64 \<Rightarrow> f32" where
  "effective_drr_rtt_scale_max v =
     f64_as_f32 (f64_clip (Fin 1) (Fin 4) (if is_finite v \<and> f64_lt (Fin 0) v then v else f64_lit (25 / 10)))"

definition effective_shed_max_sojourn_ms :: "nat \<Rightarrow> nat" where
  "effective_shed_max_sojourn_ms v = (if v = 0 then 30 else clamp 2 500 v)"

definition effective_shed_min_fill :: "f32 \<Rightarrow> f32" where
  "effective_shed_min_fill v =
     (if is_finite v then f64_clip (f32_lit (1 / 10)) (f32_lit (95 / 100)) v else f32_lit (1 / 10))"

definition effective_shed_max_per_tick :: "nat \<Rightarrow> nat" where
  "effective_shed_max_per_tick v = (if v = 0 then 2 else clamp 1 64 v)"

section \<open>Adaptive precision drain\<close>

datatype ApdPhase = Cooldown | Alert | Drain

record ApdConfig =
  ap_enabled :: bool
  ap_high_watermark :: f32
  ap_low_watermark :: f32
  ap_ramp_max_burst :: nat
  ap_drain_max_burst :: nat
  ap_spinloop_budget_ms :: nat
  ap_drain_tick_us :: nat
  ap_confirm_ticks :: nat
  ap_cooldown_ms :: nat
  ap_drain_freeze_drr :: bool
  ap_sojourn_enabled :: bool
  ap_max_sojourn_ms :: f32
  ap_target_sojourn_ms :: f32
  ap_require_cc_headroom :: bool

definition ApdConfig_default :: ApdConfig where
  "ApdConfig_default =
     \<lparr>ap_enabled = True, ap_high_watermark = f32_lit (30 / 100), ap_low_watermark = f32_lit (2 / 100),
      ap_ramp_max_burst = 6, ap_drain_max_burst = 3, ap_spinloop_budget_ms = 8, ap_drain_tick_us = 80,
      ap_confirm_ticks = 3, ap_cooldown_ms = 2, ap_drain_freeze_drr = True, ap_sojourn_enabled = True,
      ap_max_sojourn_ms = f32_of_nat 10, ap_target_sojourn_ms = f32_of_nat 2, ap_require_cc_headroom = True\<rparr>"

definition apd_is_cap_mode :: "ApdConfig \<Rightarrow> bool" where
  "apd_is_cap_mode cfg = f64_lt (f64_abs (f32_sub (ap_high_watermark cfg) (ap_low_watermark cfg))) (f32_lit (1 / 1000000))"

definition enforce_watermark_pair :: "f32 \<Rightarrow> f32 \<Rightarrow> (f32 \<times> f32) option" where
  "enforce_watermark_pair low_wm high_wm =
     (let low = f64_clip (f32_lit (1 / 100)) (f32_lit (80 / 100)) low_wm; high = high_wm in
      if f64_lt (f64_abs (f32_sub high low)) (f32_lit (1 / 1000000))
      then let cap = f64_clip (f32_lit (20 / 100)) (f32_lit (95 / 100)) low in Some (cap, cap)
      else
        let floor_wm = f64_max (f64_max (f32_lit (20 / 100)) low) (f32_add low (f32_lit (1 / 10))) in
        case f64_clamp floor_wm (f32_lit (95 / 100)) (f64_max (f64_max high low) floor_wm) of
          None \<Rightarrow> None
        | Some high \<Rightarrow> Some (low, high))"

text \<open>The two sojourn thresholds, which both sanitizers bound in the same way.\<close>

definition bound_sojourn :: "ApdConfig \<Rightarrow> ApdConfig" where
  "bound_sojourn c =
     (let mx = f64_clip (f32_of_nat 2) (f32_of_nat 500) (ap_max_sojourn_ms c);
          tg = f64_clip (f32_of_nat 1) (f32_of_nat 200) (ap_target_sojourn_ms c);
          gap = f32_of_nat 2 in
      c\<lparr>ap_max_sojourn_ms := mx,
        ap_target_sojourn_ms := (if f64_lt mx (f32_add tg gap) then f64_max (f32_sub mx gap) (f32_of_nat 1) else tg)\<rparr>)"

definition clamp_to_user_ranges :: "nat \<Rightarrow> nat \<Rightarrow> ApdConfig \<Rightarrow> ApdConfig option" where
  "clamp_to_user_ranges base_tick_us base_burst_per_tick c0 =
     (let c = c0\<lparr>ap_low_watermark := f64_clip (f32_lit (1 / 100)) (f32_lit (80 / 100)) (ap_low_watermark c0)\<rparr>;
          pair = (if apd_is_cap_mode c
                  then let cap = f64_clip (f32_lit (1 / 100)) (f32_lit (80 / 100))
                                   (f64_clip (f32_lit (20 / 100)) (f32_lit (95 / 100)) (ap_low_watermark c)) in Some (cap, cap)
                  else enforce_watermark_pair (ap_low_watermark c) (ap_high_watermark c));
          floor_burst = max base_burst_per_tick 1 in
      case pair of
        None \<Rightarrow> None
      | Some (l, h) \<Rightarrow>
          if \<not> floor_burst \<le> 200 then None
          else
            let ramp = clamp floor_burst 200 (ap_ramp_max_burst c) in
            Some (bound_sojourn (c\<lparr>ap_low_watermark := l, ap_high_watermark := h, ap_ramp_max_burst := ramp,
              ap_drain_max_burst := clamp 1 (max ramp 1) (ap_drain_max_burst c),
              ap_spinloop_budget_ms := clamp 0 100 (ap_spinloop_budget_ms c),
              ap_drain_tick_us := min (ap_drain_tick_us c) (max base_tick_us 1),
              ap_confirm_ticks := clamp 0 10 (ap_confirm_ticks c),
              ap_cooldown_ms := clamp 0 500 (ap_cooldown_ms c)\<rparr>)))"

definition ApdConfig_sanitize :: "ApdConfig \<Rightarrow> ApdConfig option" where
  "ApdConfig_sanitize c0 =
     (let c = c0\<lparr>ap_low_watermark := f64_clip (Fin 0) (Fin 1) (ap_low_watermark c0),
                 ap_high_watermark := f64_clip (Fin 0) (Fin 1) (ap_high_watermark c0)\<rparr>;
          pair = (if apd_is_cap_mode c
               then let cap = f64_clip (f32_lit (20 / 100)) (f32_lit (95 / 100)) (f64_max (ap_low_watermark c) (ap_high_watermark c)) in
                    Some (cap, cap)
               else
                 let gap = f32_lit (1 / 10);
                     high = (if f64_lt (ap_high_watermark c) (f32_add (ap_low_watermark c) gap)
                             then f32_add (ap_low_watermark c) gap else ap_high_watermark c);
                     high = f64_clip (f32_lit (20 / 100)) (Fin 1) high in
                 map_option (\<lambda>low. (low, high)) (f64_clamp (Fin 0) (f32_sub high gap) (ap_low_watermark c)));
          ramp = max (ap_ramp_max_burst c) 1 in
      case pair of
        None \<Rightarrow> None
      | Some (low, high) \<Rightarrow>
          Some (bound_sojourn (c\<lparr>ap_low_watermark := low, ap_high_watermark := high, ap_ramp_max_burst := ramp,
            ap_drain_max_burst := min (max (ap_drain_max_burst c) 1) ramp\<rparr>)))"

definition apd_ramp_target_burst :: "f32 \<Rightarrow> nat \<Rightarrow> nat \<Rightarrow> ApdConfig \<Rightarrow> nat" where
  "apd_ramp_target_burst fill_ratio base_burst max_burst0 cfg =
     (let max_burst = max max_burst0 base_burst in
      if apd_is_cap_mode cfg then (if f64_lt (ap_high_watermark cfg) fill_ratio then max_burst else base_burst)
      else if f64_le fill_ratio (ap_low_watermark cfg) then base_burst
      else
        let range = f64_max (f32_sub (ap_high_watermark cfg) (ap_low_watermark cfg)) F32_EPSILON;
            t = f64_clip (Fin 0) (Fin 1) (f32_div (f32_sub fill_ratio (ap_low_watermark cfg)) range);
            burst = f32_add (f32_of_nat base_burst) (f32_mul t (f32_sub (f32_of_nat max_burst) (f32_of_nat base_burst))) in
        f64_as_u64 (f64_max (f64_round burst) (f32_of_nat base_burst)))"

section \<open>Shedding\<close>

record ShedConfig =
  sh_enabled :: bool
  sh_max_sojourn_ms :: f32
  sh_min_fill :: f32
  sh_max_per_tick :: nat

definition ShedConfig_default :: ShedConfig where
  "ShedConfig_default = \<lparr>sh_enabled = True, sh_max_sojourn_ms = f32_of_nat 30, sh_min_fill = f32_lit (1 / 10), sh_max_per_tick = 2\<rparr>"

definition ShedConfig_sanitize :: "ApdConfig \<Rightarrow> ShedConfig \<Rightarrow> ShedConfig" where
  "ShedConfig_sanitize apd_cfg c =
     (let mx = f64_clip (f32_of_nat 2) (f32_of_nat 500) (sh_max_sojourn_ms c) in
      c\<lparr>sh_max_sojourn_ms :=
          (if sh_enabled c \<and> ap_enabled apd_cfg \<and> ap_sojourn_enabled apd_cfg then f64_max mx (ap_max_sojourn_ms apd_cfg) else mx),
        sh_min_fill := f64_clip (f32_lit (1 / 10)) (f32_lit (95 / 100)) (sh_min_fill c),
        sh_max_per_tick := clamp 1 64 (sh_max_per_tick c)\<rparr>)"

section \<open>The engine\<close>

definition queue_split_limits :: "nat \<Rightarrow> nat \<times> nat" where
  "queue_split_limits total0 =
     (let tot = max total0 2;
          data = max (tot * 2 mod 2 ^ 64 div 3) 1;
          data = (if tot \<ge> 32 * 2 then max data 32 else data);
          data = (if data \<ge> tot then max (tot - 1) 1 else data) in
      (data, max (tot - data) 1))"

record PacingConfig =
  pc_tick_us :: nat
  pc_target_pps :: nat
  pc_base_max_burst :: nat
  pc_budget_cap_packets :: f64
  pc_max_queue_packets :: nat
  pc_max_data_queue_packets :: nat
  pc_max_control_queue_packets :: nat
  pc_max_retransmit_queue_packets :: nat
  pc_drr_quantum :: nat
  pc_drr_enabled :: bool
  pc_drr_small_packet_priority :: bool
  pc_drr_small_packet_threshold_bytes :: nat
  pc_drr_rtt_aware :: bool
  pc_drr_rtt_scale_min :: f32
  pc_drr_rtt_scale_max :: f32
  pc_min_control_reserved_bytes_per_tick :: nat
  pc_min_retransmit_reserved_bytes_per_tick :: nat
  pc_max_tick_work_us :: nat
  pc_apd :: ApdConfig
  pc_shed :: ShedConfig
  pc_background_cc :: BackgroundCcConfig
  pc_pace_rate_mode :: PaceRateMode
  pc_target_bps :: nat

definition PacingConfig_default :: PacingConfig where
  "PacingConfig_default =
     (let (d, c) = queue_split_limits 250 in
      \<lparr>pc_tick_us = 350, pc_target_pps = 8000, pc_base_max_burst = 3, pc_budget_cap_packets = Fin 64,
       pc_max_queue_packets = 250, pc_max_data_queue_packets = d, pc_max_control_queue_packets = c,
       pc_max_retransmit_queue_packets = max (c div 3) 4, pc_drr_quantum = 1500, pc_drr_enabled = True,
       pc_drr_small_packet_priority = True, pc_drr_small_packet_threshold_bytes = 420, pc_drr_rtt_aware = True,
       pc_drr_rtt_scale_min = effective_drr_rtt_scale_min (f64_lit (5 / 10)),
       pc_drr_rtt_scale_max = effective_drr_rtt_scale_max (f64_lit (25 / 10)),
       pc_min_control_reserved_bytes_per_tick = 256, pc_min_retransmit_reserved_bytes_per_tick = 256,
       pc_max_tick_work_us = 150, pc_apd = ApdConfig_default, pc_shed = ShedConfig_default,
       pc_background_cc = BackgroundCcConfig_default, pc_pace_rate_mode = Bytes, pc_target_bps = 1000000\<rparr>)"

definition MIN_DRR_QUANTUM :: nat where "MIN_DRR_QUANTUM = 1500"

text \<open>The bounds of the scale are ordered by the sanitizer below.\<close>

definition scaled_drr_quantum :: "nat \<Rightarrow> f32 \<Rightarrow> f32 \<Rightarrow> bool \<Rightarrow> f32 \<Rightarrow> f32 \<Rightarrow> nat" where
  "scaled_drr_quantum base0 peer_rtt_ms rtt_ref_ms aware scale_min scale_max =
     (let base = max base0 1 in
      if \<not> aware \<or> f64_le rtt_ref_ms (Fin 0) \<or> f64_le peer_rtt_ms (Fin 0) then max base MIN_DRR_QUANTUM
      else
        let scale = f64_clip scale_min scale_max (f32_div peer_rtt_ms rtt_ref_ms);
            q = f64_as_u64 (f64_round (f32_mul (f32_of_nat base) scale)) in
        max q MIN_DRR_QUANTUM)"

text \<open>A stable sort of numbers, which is what sorting by \<^verbatim>\<open>partial_cmp\<close> is when no sample is a NaN: the filter removes those.\<close>

fun insert_rtt :: "f32 \<Rightarrow> f32 list \<Rightarrow> f32 list" where
  "insert_rtt x [] = [x]"
| "insert_rtt x (y # ys) = (if f64_le x y then x # y # ys else y # insert_rtt x ys)"

definition median_positive_rtt :: "f32 list \<Rightarrow> f32" where
  "median_positive_rtt samples0 =
     (let samples = foldr insert_rtt (filter (f64_lt (Fin 0)) samples0) []; mid = length samples div 2 in
      if samples = [] then Fin (- 1)
      else if length samples mod 2 = 1 then samples ! mid
      else f32_mul (f32_add (samples ! (mid - 1)) (samples ! mid)) (f32_lit (5 / 10)))"

definition refresh_queue_splits :: "PacingConfig \<Rightarrow> PacingConfig" where
  "refresh_queue_splits c =
     (let (d, ctl) = queue_split_limits (pc_max_queue_packets c) in
      c\<lparr>pc_max_data_queue_packets := d, pc_max_control_queue_packets := ctl,
        pc_max_retransmit_queue_packets := max (ctl div 3) 4\<rparr>)"

definition PacingConfig_sanitize :: "PacingConfig \<Rightarrow> PacingConfig option" where
  "PacingConfig_sanitize c =
     (let mn = effective_drr_rtt_scale_min (pc_drr_rtt_scale_min c);
          mx = effective_drr_rtt_scale_max (pc_drr_rtt_scale_max c);
          c = refresh_queue_splits
            (c\<lparr>pc_drr_quantum := max (pc_drr_quantum c) MIN_DRR_QUANTUM,
               pc_drr_small_packet_threshold_bytes := clamp 64 512 (pc_drr_small_packet_threshold_bytes c),
               pc_drr_rtt_scale_min := (if f64_lt mx mn then mx else mn),
               pc_drr_rtt_scale_max := mx,
               pc_min_control_reserved_bytes_per_tick := min (pc_min_control_reserved_bytes_per_tick c) 8192,
               pc_min_retransmit_reserved_bytes_per_tick := min (pc_min_retransmit_reserved_bytes_per_tick c) 8192\<rparr>) in
      case ApdConfig_sanitize (pc_apd c) of
        None \<Rightarrow> None
      | Some apd \<Rightarrow> Some (c\<lparr>pc_apd := apd, pc_shed := ShedConfig_sanitize apd (pc_shed c)\<rparr>))"

section \<open>Sanitised configurations\<close>

lemma queue_split_sum:
  assumes "queue_split_limits n = (d, c)" and "n < 2 ^ 63"
  shows "0 < d \<and> 0 < c \<and> d + c = max n 2"
proof -
  have "max n 2 * 2 mod 2 ^ 64 = max n 2 * 2" using assms(2) by (auto simp: max_def)
  with assms show ?thesis by (auto simp: queue_split_limits_def Let_def max_def split: if_splits)
qed

lemma rnd32_num: "rnd32 x \<noteq> NaN"
  by (simp add: rnd32_def Let_def)

lemma as_f32_num: "x \<noteq> NaN \<Longrightarrow> f64_as_f32 x \<noteq> NaN"
  by (cases x) (simp_all add: f64_as_f32_def rnd32_num)

lemma clip_num: "lo \<noteq> NaN \<Longrightarrow> hi \<noteq> NaN \<Longrightarrow> x \<noteq> NaN \<Longrightarrow> f64_clip lo hi x \<noteq> NaN"
  by (simp add: f64_clip_def)

lemma lit_num: "f64_lit x \<noteq> NaN"
  by (simp add: f64_lit_def)

lemma scale_num: "effective_drr_rtt_scale_min v \<noteq> NaN" "effective_drr_rtt_scale_max v \<noteq> NaN"
  unfolding effective_drr_rtt_scale_min_def effective_drr_rtt_scale_max_def
  by (rule as_f32_num, rule clip_num; cases v; simp add: lit_num)+

lemma ApdConfig_sanitize_bursts:
  "ApdConfig_sanitize c = Some c' \<Longrightarrow> 1 \<le> ap_drain_max_burst c' \<and> ap_drain_max_burst c' \<le> ap_ramp_max_burst c'"
  by (auto simp: ApdConfig_sanitize_def bound_sojourn_def Let_def split: if_splits option.splits)

section \<open>Properties\<close>

text \<open>
  A sanitised configuration can be used without a panic: the bounds of the quantum scale and of the drain burst are ordered, the
  quantum is never below the largest packet, and the queue limits split the configured total into two non-empty
  parts.\<close>

theorem sanitized_config_usable:
  assumes "PacingConfig_sanitize c = Some c'" and "pc_max_queue_packets c < 2 ^ 63"
  shows "f64_le (pc_drr_rtt_scale_min c') (pc_drr_rtt_scale_max c') \<and> 1500 \<le> pc_drr_quantum c' \<and>
    1 \<le> ap_drain_max_burst (pc_apd c') \<and> ap_drain_max_burst (pc_apd c') \<le> ap_ramp_max_burst (pc_apd c') \<and>
    0 < pc_max_data_queue_packets c' \<and> 0 < pc_max_control_queue_packets c' \<and> 0 < pc_max_retransmit_queue_packets c' \<and>
    pc_max_data_queue_packets c' + pc_max_control_queue_packets c' = max (pc_max_queue_packets c) 2"
proof -
  obtain d ctl where q: "queue_split_limits (pc_max_queue_packets c) = (d, ctl)" by fastforce
  from assms(1) obtain a where a: "ApdConfig_sanitize (pc_apd c) = Some a" "pc_apd c' = a"
    by (auto simp: PacingConfig_sanitize_def refresh_queue_splits_def Let_def q split: option.splits)
  have sel: "pc_drr_rtt_scale_min c' = (if f64_lt (effective_drr_rtt_scale_max (pc_drr_rtt_scale_max c)) (effective_drr_rtt_scale_min (pc_drr_rtt_scale_min c))
        then effective_drr_rtt_scale_max (pc_drr_rtt_scale_max c) else effective_drr_rtt_scale_min (pc_drr_rtt_scale_min c))"
    "pc_drr_rtt_scale_max c' = effective_drr_rtt_scale_max (pc_drr_rtt_scale_max c)" "pc_drr_quantum c' = max (pc_drr_quantum c) MIN_DRR_QUANTUM"
    "pc_max_data_queue_packets c' = d" "pc_max_control_queue_packets c' = ctl" "pc_max_retransmit_queue_packets c' = max (ctl div 3) 4"
    using assms(1) a by (auto simp: PacingConfig_sanitize_def refresh_queue_splits_def Let_def q)
  have "\<not> f64_lt x x" for x by (cases x) auto
  then have "f64_le (pc_drr_rtt_scale_min c') (pc_drr_rtt_scale_max c')" unfolding sel(1,2) by (auto simp: f64_le_iff scale_num)
  then show ?thesis
    using ApdConfig_sanitize_bursts [OF a(1)] queue_split_sum [OF q assms(2)] by (simp add: a(2) sel MIN_DRR_QUANTUM_def)
qed

definition plain_config :: PacingConfig where
  "plain_config = PacingConfig_default\<lparr>pc_apd := ApdConfig_default\<lparr>ap_high_watermark := Fin (1 / 2), ap_low_watermark := Fin (1 / 2)\<rparr>\<rparr>"

lemma plain_config_sanitizes: "\<exists>c'. PacingConfig_sanitize plain_config = Some c'"
proof -
  have z: "rnd32 0 = Fin 0" "f64_abs (Fin 0) = Fin 0" by (simp_all add: rnd32_def)
  have "f64_lt (Fin 0) (f32_lit (1 / 1000000))" by code_simp
  then have "\<exists>a. ApdConfig_sanitize (pc_apd plain_config) = Some a"
    by (simp add: plain_config_def ApdConfig_sanitize_def apd_is_cap_mode_def f64_clip_def f32_sub_def f32_add_def z Let_def)
  then show ?thesis
    by (auto simp: PacingConfig_sanitize_def refresh_queue_splits_def Let_def split: prod.splits)
qed

theorem sanitized_config_usable_witness:
  "\<exists>c'. PacingConfig_sanitize plain_config = Some c' \<and> f64_le (pc_drr_rtt_scale_min c') (pc_drr_rtt_scale_max c') \<and>
    1500 \<le> pc_drr_quantum c' \<and> pc_max_data_queue_packets c' + pc_max_control_queue_packets c' = 250"
proof -
  obtain c' where c: "PacingConfig_sanitize plain_config = Some c'" using plain_config_sanitizes by blast
  have m: "pc_max_queue_packets plain_config = 250" by (simp add: plain_config_def PacingConfig_default_def Let_def split: prod.splits)
  then have "pc_max_queue_packets plain_config < 2 ^ 63" by simp
  from sanitized_config_usable [OF c this] c m show ?thesis by auto
qed

text \<open>
  A burst of more than 200 packets per tick, which the range of the setting allows up to 1024, makes the clamp of the drain
  configuration panic whatever the other settings are: its lower bound is then above its upper bound.\<close>

theorem large_burst_panics:
  assumes "200 < v" and "v \<le> 1024"
  shows "clamp_to_user_ranges tick (effective_base_max_burst v) c = None"
proof -
  have "effective_base_max_burst v = nat v" using assms by (simp add: effective_base_max_burst_def clamp_def)
  then show ?thesis using assms by (auto simp: clamp_to_user_ranges_def Let_def split: option.splits prod.splits)
qed

theorem large_burst_panics_witness: "clamp_to_user_ranges 350 (effective_base_max_burst 300) ApdConfig_default = None"
  by (rule large_burst_panics) simp_all

end
