(* ===== verification/Pacing.thy ===== *)
theory Pacing
  imports Pacing_Config
begin

text \<open>
  The pacing engine of \<^verbatim>\<open>src/src/net/pacing.rs\<close>: queues for control packets, retransmissions and the data of each peer, a send
  budget, deficit round robin over the peers and the adaptive drain. The clock readings an operation makes and the outcomes of
  its sends are arguments: an \<open>Instant::now()\<close> of the code is one argument here, and a tick takes
  a sequence of environments, one for each turn of its send loops. The map of peer queues keeps insertion order, as the
  \<^verbatim>\<open>IndexMap\<close> of the code does.
\<close>

section \<open>Data\<close>

record QueuedPacket =
  qp_pkt :: bytes
  qp_dest :: SocketAddr
  qp_enqueued_at :: instant

record QueuedData =
  qd_pkt :: bytes
  qd_enqueued_at :: instant

record PeerDataQueue =
  dq_small :: "QueuedData list"
  dq_bulk :: "QueuedData list"
  dq_deficit :: nat
  dq_consecutive_small_pops :: nat
  dq_rtt_ms :: f32
  dq_queuing_delay_ms :: f32

datatype PeerPopKind = SmallPriority | Bulk | BulkForced

datatype NextPacket = NextControl QueuedPacket | NextData bytes SocketAddr instant

datatype TickResult = Progress nat | SocketDead SocketAddr

record ApdState =
  as_phase :: ApdPhase
  as_confirm_counter :: nat
  as_drain_entered_at :: "instant option"
  as_cooldown_until :: "instant option"
  as_cfg :: ApdConfig
  as_drain_episodes :: nat
  as_drain_ms_total :: nat
  as_packets_drained :: nat
  as_drain_budget_hits :: nat
  as_last_pure_spin :: bool
  as_last_tick_us :: nat
  as_ramp_burst :: nat
  as_last_fill_ratio :: f32
  as_last_effective_burst :: nat
  as_ramp_active_ticks :: nat
  as_ramp_pinned_ticks :: nat
  as_drain_arm_fill :: nat
  as_drain_arm_sojourn :: nat
  as_last_max_sojourn_ms :: nat
  as_cc_headroom_suppressions :: nat

definition ApdState_new :: "ApdConfig \<Rightarrow> ApdState" where
  "ApdState_new cfg =
     \<lparr>as_phase = Cooldown, as_confirm_counter = 0, as_drain_entered_at = None, as_cooldown_until = None, as_cfg = cfg,
      as_drain_episodes = 0, as_drain_ms_total = 0, as_packets_drained = 0, as_drain_budget_hits = 0,
      as_last_pure_spin = False, as_last_tick_us = 0, as_ramp_burst = 0, as_last_fill_ratio = Fin 0,
      as_last_effective_burst = 0, as_ramp_active_ticks = 0, as_ramp_pinned_ticks = 0, as_drain_arm_fill = 0,
      as_drain_arm_sojourn = 0, as_last_max_sojourn_ms = 0, as_cc_headroom_suppressions = 0\<rparr>"

record PacingEngine =
  pe_config :: PacingConfig
  pe_control_q :: "QueuedPacket list"
  pe_retransmit_q :: "QueuedPacket list"
  pe_peer_queues :: "(SocketAddr, PeerDataQueue) table"
  pe_non_empty_peers :: nat
  pe_queued_packets_total :: nat
  pe_tick_seq :: nat
  pe_budget :: f64
  pe_last_tick :: instant
  pe_dropped_packets :: nat
  pe_dropped_data :: nat
  pe_dropped_control_normal :: nat
  pe_dropped_control_retransmit :: nat
  pe_consecutive_errors :: nat
  pe_interleave_counter :: nat
  pe_drr_cursor :: nat
  pe_apd :: ApdState
  pe_reserved_ctrl_sends :: nat
  pe_reserved_rtx_sends :: nat
  pe_drr_small_priority_pops :: nat
  pe_drr_bulk_force_pops :: nat
  pe_shed_sojourn :: nat
  pe_cached_rtt_ref_ms :: f32
  pe_drr_rtt_scale_applied :: nat
  pe_cc_rate_limited_events :: nat
  pe_background_cc :: BackgroundCcEngine

section \<open>Queue of a peer\<close>

definition PeerDataQueue_new :: PeerDataQueue where
  "PeerDataQueue_new = \<lparr>dq_small = [], dq_bulk = [], dq_deficit = 0, dq_consecutive_small_pops = 0,
     dq_rtt_ms = Fin (- 1), dq_queuing_delay_ms = Fin (- 1)\<rparr>"

definition is_small_packet :: "nat \<Rightarrow> bool \<Rightarrow> nat \<Rightarrow> bool" where
  "is_small_packet pkt_len priority_on threshold = (priority_on \<and> pkt_len < threshold)"

definition dq_is_empty :: "PeerDataQueue \<Rightarrow> bool" where
  "dq_is_empty q = (dq_small q = [] \<and> dq_bulk q = [])"

definition dq_len :: "PeerDataQueue \<Rightarrow> nat" where
  "dq_len q = length (dq_small q) + length (dq_bulk q)"

definition drop_oldest_for_capacity :: "PeerDataQueue \<Rightarrow> PeerDataQueue" where
  "drop_oldest_for_capacity q =
     (if dq_bulk q \<noteq> [] then q\<lparr>dq_bulk := tl (dq_bulk q)\<rparr> else q\<lparr>dq_small := tl (dq_small q)\<rparr>)"

definition push_back_classified :: "QueuedData \<Rightarrow> bool \<Rightarrow> nat \<Rightarrow> PeerDataQueue \<Rightarrow> PeerDataQueue" where
  "push_back_classified entry priority_on threshold q =
     (if is_small_packet (length (qd_pkt entry)) priority_on threshold
      then q\<lparr>dq_small := dq_small q @ [entry]\<rparr> else q\<lparr>dq_bulk := dq_bulk q @ [entry]\<rparr>)"

definition dq_push :: "bytes \<Rightarrow> instant \<Rightarrow> nat \<Rightarrow> bool \<Rightarrow> nat \<Rightarrow> PeerDataQueue \<Rightarrow> bool \<times> PeerDataQueue" where
  "dq_push pkt now max_depth priority_on threshold q =
     (let entry = \<lparr>qd_pkt = pkt, qd_enqueued_at = now\<rparr> in
      if dq_len q \<ge> max_depth then (False, push_back_classified entry priority_on threshold (drop_oldest_for_capacity q))
      else (True, push_back_classified entry priority_on threshold q))"

definition push_front_requeue :: "QueuedData \<Rightarrow> bool \<Rightarrow> nat \<Rightarrow> PeerDataQueue \<Rightarrow> PeerDataQueue" where
  "push_front_requeue entry priority_on threshold q =
     (if is_small_packet (length (qd_pkt entry)) priority_on threshold
      then q\<lparr>dq_small := entry # dq_small q\<rparr> else q\<lparr>dq_bulk := entry # dq_bulk q\<rparr>)"

definition pop_fifo_by_age :: "PeerDataQueue \<Rightarrow> QueuedData option \<times> PeerDataQueue" where
  "pop_fifo_by_age q =
     (case (dq_small q, dq_bulk q) of
        (s # ss, b # bs) \<Rightarrow>
          if qd_enqueued_at s \<le> qd_enqueued_at b then (Some s, q\<lparr>dq_small := ss\<rparr>) else (Some b, q\<lparr>dq_bulk := bs\<rparr>)
      | (s # ss, []) \<Rightarrow> (Some s, q\<lparr>dq_small := ss\<rparr>)
      | ([], b # bs) \<Rightarrow> (Some b, q\<lparr>dq_bulk := bs\<rparr>)
      | ([], []) \<Rightarrow> (None, q))"

text \<open>The age of a queued packet in milliseconds; \<^verbatim>\<open>duration_since\<close> saturates at zero.\<close>

definition sojourn_ms :: "instant \<Rightarrow> instant \<Rightarrow> f32" where
  "sojourn_ms now enqueued_at = f32_mul (as_secs_f32 (now - enqueued_at)) (Fin 1000)"

definition bulk_front_sojourn_ms :: "instant \<Rightarrow> PeerDataQueue \<Rightarrow> f32 option" where
  "bulk_front_sojourn_ms now q = (case dq_bulk q of [] \<Rightarrow> None | b # _ \<Rightarrow> Some (sojourn_ms now (qd_enqueued_at b)))"

definition bulk_hol_sojourn_ms :: "instant \<Rightarrow> PeerDataQueue \<Rightarrow> f32" where
  "bulk_hol_sojourn_ms now q = (case dq_bulk q of [] \<Rightarrow> Fin 0 | b # _ \<Rightarrow> sojourn_ms now (qd_enqueued_at b))"

definition hol_sojourn_ms :: "instant \<Rightarrow> PeerDataQueue \<Rightarrow> f32" where
  "hol_sojourn_ms now q =
     f64_max (case dq_small q of [] \<Rightarrow> Fin 0 | s # _ \<Rightarrow> sojourn_ms now (qd_enqueued_at s)) (bulk_hol_sojourn_ms now q)"

definition should_force_bulk :: "instant \<Rightarrow> PeerDataQueue \<Rightarrow> bool" where
  "should_force_bulk now q =
     (dq_bulk q \<noteq> [] \<and> (dq_consecutive_small_pops q \<ge> 8 \<or> f64_le (f32_of_nat 8) (bulk_hol_sojourn_ms now q)))"

definition pop_data :: "bool \<Rightarrow> instant \<Rightarrow> PeerDataQueue \<Rightarrow> (QueuedData \<times> PeerPopKind) option \<times> PeerDataQueue" where
  "pop_data priority_on now q =
     (if dq_is_empty q then (None, q)
      else if \<not> priority_on then
        (case pop_fifo_by_age q of (r, q) \<Rightarrow> (map_option (\<lambda>e. (e, Bulk)) r, q))
      else if should_force_bulk now q then
        (Some (hd (dq_bulk q), BulkForced), q\<lparr>dq_consecutive_small_pops := 0, dq_bulk := tl (dq_bulk q)\<rparr>)
      else if dq_small q \<noteq> [] then
        (Some (hd (dq_small q), SmallPriority),
         q\<lparr>dq_consecutive_small_pops := sat_add 8 (dq_consecutive_small_pops q) 1, dq_small := tl (dq_small q)\<rparr>)
      else
        (Some (hd (dq_bulk q), Bulk), q\<lparr>dq_consecutive_small_pops := 0, dq_bulk := tl (dq_bulk q)\<rparr>))"

definition front_len :: "bool \<Rightarrow> instant \<Rightarrow> PeerDataQueue \<Rightarrow> nat" where
  "front_len priority_on now q =
     (if dq_is_empty q then 0
      else if \<not> priority_on then
        (case (dq_small q, dq_bulk q) of
           (s # _, b # _) \<Rightarrow> if qd_enqueued_at s \<le> qd_enqueued_at b then length (qd_pkt s) else length (qd_pkt b)
         | (s # _, []) \<Rightarrow> length (qd_pkt s)
         | ([], b # _) \<Rightarrow> length (qd_pkt b)
         | ([], []) \<Rightarrow> 0)
      else if should_force_bulk now q then (case dq_bulk q of [] \<Rightarrow> 0 | b # _ \<Rightarrow> length (qd_pkt b))
      else (case dq_small q of
              s # _ \<Rightarrow> length (qd_pkt s)
            | [] \<Rightarrow> (case dq_bulk q of [] \<Rightarrow> 0 | b # _ \<Rightarrow> length (qd_pkt b))))"

section \<open>Budget, hints and counters\<close>

definition PacingEngine_new :: "instant \<Rightarrow> PacingEngine" where
  "PacingEngine_new now =
     \<lparr>pe_config = PacingConfig_default, pe_control_q = [], pe_retransmit_q = [], pe_peer_queues = [], pe_non_empty_peers = 0,
      pe_queued_packets_total = 0, pe_tick_seq = 0, pe_budget = Fin 0, pe_last_tick = now, pe_dropped_packets = 0,
      pe_dropped_data = 0, pe_dropped_control_normal = 0, pe_dropped_control_retransmit = 0, pe_consecutive_errors = 0,
      pe_interleave_counter = 0, pe_drr_cursor = 0, pe_apd = ApdState_new ApdConfig_default, pe_reserved_ctrl_sends = 0,
      pe_reserved_rtx_sends = 0, pe_drr_small_priority_pops = 0, pe_drr_bulk_force_pops = 0, pe_shed_sojourn = 0,
      pe_cached_rtt_ref_ms = Fin (- 1), pe_drr_rtt_scale_applied = 0, pe_cc_rate_limited_events = 0,
      pe_background_cc = BackgroundCcEngine_new BackgroundCcConfig_default\<rparr>"

definition budget_cap_value :: "PacingEngine \<Rightarrow> f64" where
  "budget_cap_value e =
     (case pc_pace_rate_mode (pe_config e) of
        Pps \<Rightarrow> pc_budget_cap_packets (pe_config e)
      | Bytes \<Rightarrow> f64_mul (pc_budget_cap_packets (pe_config e)) (Fin 1300))"

definition budget_has_room :: "PacingEngine \<Rightarrow> bool" where
  "budget_has_room e =
     (case pc_pace_rate_mode (pe_config e) of
        Pps \<Rightarrow> f64_le (Fin 1) (pe_budget e) | Bytes \<Rightarrow> f64_le (Fin 64) (pe_budget e))"

definition budget_consume :: "nat \<Rightarrow> PacingEngine \<Rightarrow> PacingEngine" where
  "budget_consume pkt_len e =
     e\<lparr>pe_budget := f64_sub (pe_budget e)
         (case pc_pace_rate_mode (pe_config e) of Pps \<Rightarrow> Fin 1 | Bytes \<Rightarrow> f64_of_nat pkt_len)\<rparr>"

definition set_background_cc_config :: "BackgroundCcConfig \<Rightarrow> PacingEngine \<Rightarrow> PacingEngine" where
  "set_background_cc_config cc e =
     e\<lparr>pe_config := (pe_config e)\<lparr>pc_background_cc := cc\<rparr>, pe_background_cc := bc_set_config cc (pe_background_cc e)\<rparr>"

definition pe_on_cc_sample :: "SocketAddr \<Rightarrow> f64 \<Rightarrow> f64 \<Rightarrow> PacingEngine \<Rightarrow> PacingEngine option" where
  "pe_on_cc_sample dest qd_ms loss_ewma e =
     map_option (\<lambda>b. e\<lparr>pe_background_cc := b\<rparr>) (bc_on_cc_sample dest qd_ms loss_ewma (pe_background_cc e))"

definition remove_cc_peer :: "SocketAddr \<Rightarrow> PacingEngine \<Rightarrow> PacingEngine" where
  "remove_cc_peer dest e = e\<lparr>pe_background_cc := bc_remove_peer dest (pe_background_cc e)\<rparr>"

definition background_cc_can_send :: "SocketAddr \<Rightarrow> nat \<Rightarrow> f32 \<Rightarrow> PacingEngine \<Rightarrow> bool" where
  "background_cc_can_send dest flen hol e = (flen = 0 \<or> can_send_data dest flen hol (pe_background_cc e))"

definition record_background_cc_rate_limit :: "PacingEngine \<Rightarrow> PacingEngine" where
  "record_background_cc_rate_limit e = e\<lparr>pe_cc_rate_limited_events := sat_add 64 (pe_cc_rate_limited_events e) 1\<rparr>"

definition apply_peer_hints :: "f32 option \<Rightarrow> f32 option \<Rightarrow> PeerDataQueue \<Rightarrow> PeerDataQueue" where
  "apply_peer_hints rtt qd q =
     (let q = (case rtt of Some r \<Rightarrow> if f64_lt (Fin 0) r then q\<lparr>dq_rtt_ms := r\<rparr> else q | None \<Rightarrow> q) in
      case qd of Some d \<Rightarrow> if f64_le (Fin 0) d then q\<lparr>dq_queuing_delay_ms := d\<rparr> else q | None \<Rightarrow> q)"

definition refresh_drr_rtt_ref :: "PacingEngine \<Rightarrow> PacingEngine" where
  "refresh_drr_rtt_ref e =
     (if \<not> pc_drr_rtt_aware (pe_config e) \<or> \<not> pc_drr_enabled (pe_config e) then e\<lparr>pe_cached_rtt_ref_ms := Fin (- 1)\<rparr>
      else e\<lparr>pe_cached_rtt_ref_ms :=
               median_positive_rtt (map dq_rtt_ms (filter (\<lambda>q. \<not> dq_is_empty q) (tab_vals (pe_peer_queues e))))\<rparr>)"

definition record_peer_pop_kind :: "PeerPopKind \<Rightarrow> PacingEngine \<Rightarrow> PacingEngine" where
  "record_peer_pop_kind kind e =
     (case kind of
        SmallPriority \<Rightarrow> e\<lparr>pe_drr_small_priority_pops := sat_add 64 (pe_drr_small_priority_pops e) 1\<rparr>
      | BulkForced \<Rightarrow> e\<lparr>pe_drr_bulk_force_pops := sat_add 64 (pe_drr_bulk_force_pops e) 1\<rparr>
      | Bulk \<Rightarrow> e)"

section \<open>Enqueueing\<close>

definition peer_queue :: "SocketAddr \<Rightarrow> PacingEngine \<Rightarrow> PeerDataQueue" where
  "peer_queue dest e = (case tab_get (pe_peer_queues e) dest of Some q \<Rightarrow> q | None \<Rightarrow> PeerDataQueue_new)"

definition enqueue_peer_with_hints ::
    "bytes \<Rightarrow> SocketAddr \<Rightarrow> f32 option \<Rightarrow> f32 option \<Rightarrow> instant \<Rightarrow> PacingEngine \<Rightarrow> bool \<times> PacingEngine" where
  "enqueue_peer_with_hints pkt dest rtt qd now e =
     (let cap = max (pc_max_data_queue_packets (pe_config e)) 1;
          q = apply_peer_hints rtt qd (peer_queue dest e);
          was_empty = dq_is_empty q;
          (kept, q) = dq_push pkt now cap (pc_drr_small_packet_priority (pe_config e))
                        (pc_drr_small_packet_threshold_bytes (pe_config e)) q;
          e = e\<lparr>pe_background_cc := bc_ensure_peer dest (pe_background_cc e),
                pe_peer_queues := tab_put dest q (pe_peer_queues e)\<rparr>;
          e = (if was_empty \<and> \<not> dq_is_empty q then e\<lparr>pe_non_empty_peers := sat_add 64 (pe_non_empty_peers e) 1\<rparr> else e) in
      (kept,
       if kept then e\<lparr>pe_queued_packets_total := sat_add 64 (pe_queued_packets_total e) 1\<rparr>
       else e\<lparr>pe_dropped_packets := sat_add 64 (pe_dropped_packets e) 1, pe_dropped_data := sat_add 64 (pe_dropped_data e) 1\<rparr>))"

text \<open>Each packet of a batch is stamped with a clock reading of its own.\<close>

definition try_enqueue_peer_batch ::
    "SocketAddr \<Rightarrow> (bytes \<times> instant) list \<Rightarrow> f32 option \<Rightarrow> f32 option \<Rightarrow> PacingEngine \<Rightarrow> bool \<times> PacingEngine" where
  "try_enqueue_peer_batch dest pkts rtt qd e =
     (if pkts = [] then (True, e)
      else
        let cap = max (pc_max_data_queue_packets (pe_config e)) 1;
            q = apply_peer_hints rtt qd (peer_queue dest e);
            e = e\<lparr>pe_background_cc := bc_ensure_peer dest (pe_background_cc e),
                  pe_peer_queues := tab_put dest q (pe_peer_queues e)\<rparr> in
        if dq_len q + length pkts > cap then (False, e)
        else
          let was_empty = dq_is_empty q;
              q = fold (\<lambda>(p, now). push_back_classified \<lparr>qd_pkt = p, qd_enqueued_at = now\<rparr>
                     (pc_drr_small_packet_priority (pe_config e)) (pc_drr_small_packet_threshold_bytes (pe_config e))) pkts q;
              e = e\<lparr>pe_peer_queues := tab_put dest q (pe_peer_queues e)\<rparr>;
              e = (if was_empty \<and> \<not> dq_is_empty q then e\<lparr>pe_non_empty_peers := sat_add 64 (pe_non_empty_peers e) 1\<rparr> else e) in
          (True, e\<lparr>pe_queued_packets_total := sat_add 64 (pe_queued_packets_total e) (length pkts)\<rparr>))"

fun index_of :: "'k \<Rightarrow> ('k, 'v) table \<Rightarrow> nat option" where
  "index_of k [] = None"
| "index_of k ((j, _) # t) = (if j = k then Some 0 else map_option Suc (index_of k t))"

definition pe_remove_peer :: "SocketAddr \<Rightarrow> PacingEngine \<Rightarrow> PacingEngine" where
  "pe_remove_peer dest e =
     (let e = (case index_of dest (pe_peer_queues e) of
                 None \<Rightarrow> e
               | Some idx \<Rightarrow>
                   let n = dq_len (snd (pe_peer_queues e ! idx));
                       e = (if n > 0 then e\<lparr>pe_non_empty_peers := pe_non_empty_peers e - 1,
                                           pe_queued_packets_total := pe_queued_packets_total e - n\<rparr> else e);
                       qs = tab_del dest (pe_peer_queues e);
                       cursor = (if pe_drr_cursor e > 0 \<and> idx < pe_drr_cursor e then pe_drr_cursor e - 1 else pe_drr_cursor e) in
                   e\<lparr>pe_peer_queues := qs, pe_drr_cursor := (if qs = [] then 0 else cursor mod length qs)\<rparr>) in
      e\<lparr>pe_background_cc := bc_remove_peer dest (pe_background_cc e)\<rparr>)"

text \<open>The eviction loops of the control and retransmission queues: the oldest packets go until one place is free.\<close>

definition enqueue_control_with_source :: "bytes \<Rightarrow> SocketAddr \<Rightarrow> bool \<Rightarrow> instant \<Rightarrow> PacingEngine \<Rightarrow> bool \<times> PacingEngine" where
  "enqueue_control_with_source pkt dest retransmit now e =
     (let p = \<lparr>qp_pkt = pkt, qp_dest = dest, qp_enqueued_at = now\<rparr> in
      if retransmit then
        let cap = max (pc_max_retransmit_queue_packets (pe_config e)) 1;
            k = length (pe_retransmit_q e) + 1 - cap in
        (k > 0,
         e\<lparr>pe_retransmit_q := drop k (pe_retransmit_q e) @ [p],
           pe_queued_packets_total := sat_add 64 (pe_queued_packets_total e - k) 1,
           pe_dropped_packets := sat_add 64 (pe_dropped_packets e) k,
           pe_dropped_control_retransmit := sat_add 64 (pe_dropped_control_retransmit e) k\<rparr>)
      else
        let cap = max (pc_max_control_queue_packets (pe_config e)) 1;
            k = length (pe_control_q e) + 1 - cap in
        (k > 0,
         e\<lparr>pe_interleave_counter := (if pe_control_q e = [] then 3 else pe_interleave_counter e),
           pe_control_q := drop k (pe_control_q e) @ [p],
           pe_queued_packets_total := sat_add 64 (pe_queued_packets_total e - k) 1,
           pe_dropped_packets := sat_add 64 (pe_dropped_packets e) k,
           pe_dropped_control_normal := sat_add 64 (pe_dropped_control_normal e) k\<rparr>))"

definition pe_enqueue :: "bytes \<Rightarrow> SocketAddr \<Rightarrow> bool \<Rightarrow> instant \<Rightarrow> PacingEngine \<Rightarrow> bool \<times> PacingEngine" where
  "pe_enqueue pkt dest is_control now e =
     (if is_control then (True, snd (enqueue_control_with_source pkt dest False now e))
      else enqueue_peer_with_hints pkt dest None None now e)"

section \<open>Fill ratio and pressure\<close>

text \<open>The capacity is computed in machine words.\<close>

definition queue_capacity :: "PacingEngine \<Rightarrow> nat" where
  "queue_capacity e =
     (max (pe_non_empty_peers e) 1 * pc_max_data_queue_packets (pe_config e) + pc_max_control_queue_packets (pe_config e)
      + pc_max_retransmit_queue_packets (pe_config e)) mod 2 ^ 64"

definition queue_fill_ratio :: "PacingEngine \<Rightarrow> f32" where
  "queue_fill_ratio e =
     f64_clip (Fin 0) (Fin 1) (f32_div (f32_of_nat (pe_queued_packets_total e)) (f32_of_nat (max (queue_capacity e) 1)))"

record PacingQueueSnapshot =
  qs_data_queued :: nat
  qs_control_queued :: nat
  qs_retransmit_queued :: nat
  qs_queue_capacity :: nat
  qs_fill_ratio :: f32

definition queue_snapshot :: "PacingEngine \<Rightarrow> PacingQueueSnapshot" where
  "queue_snapshot e =
     \<lparr>qs_data_queued = pe_queued_packets_total e - sat_add 64 (length (pe_control_q e)) (length (pe_retransmit_q e)),
      qs_control_queued = length (pe_control_q e), qs_retransmit_queued = length (pe_retransmit_q e),
      qs_queue_capacity = queue_capacity e, qs_fill_ratio = queue_fill_ratio e\<rparr>"

text \<open>The pass over the peers: the greatest age of a front packet, how many peers were asked, and whether one may send.\<close>

fun pressure_peers :: "bool \<Rightarrow> instant \<Rightarrow> PacingEngine \<Rightarrow> (SocketAddr \<times> PeerDataQueue) list \<Rightarrow> f32 \<times> nat \<times> bool \<Rightarrow> f32 \<times> nat \<times> bool" where
  "pressure_peers cc_needed now e [] acc = acc"
| "pressure_peers cc_needed now e ((dest, q) # qs) (max_ms, scanned, any_cc) =
     (let hol = hol_sojourn_ms now q; max_ms = f64_max max_ms hol in
      pressure_peers cc_needed now e qs
        (if \<not> cc_needed \<or> any_cc \<or> dq_is_empty q then (max_ms, scanned, any_cc)
         else (max_ms, sat_add 64 scanned 1,
               background_cc_can_send dest (front_len (pc_drr_small_packet_priority (pe_config e)) now q) hol e)))"

definition apd_pressure_scan :: "instant \<Rightarrow> PacingEngine \<Rightarrow> f32 \<times> bool" where
  "apd_pressure_scan now e =
     (let age = (\<lambda>qs m. case qs of [] \<Rightarrow> m | q # _ \<Rightarrow> f64_max m (sojourn_ms now (qp_enqueued_at q)));
          max_ms = age (pe_retransmit_q e) (age (pe_control_q e) (Fin 0));
          cc_needed = (ap_require_cc_headroom (as_cfg (pe_apd e)) \<and> bc_enabled (pc_background_cc (pe_config e)));
          (max_ms, scanned, any_cc) = pressure_peers cc_needed now e (pe_peer_queues e) (max_ms, 0, \<not> cc_needed) in
      (max_ms, if cc_needed \<and> \<not> any_cc then scanned = 0 else any_cc))"

section \<open>Shedding\<close>

definition put_queue :: "nat \<Rightarrow> PeerDataQueue \<Rightarrow> PacingEngine \<Rightarrow> PacingEngine" where
  "put_queue idx q e = e\<lparr>pe_peer_queues := (pe_peer_queues e)[idx := (fst (pe_peer_queues e ! idx), q)]\<rparr>"

definition step_cursor :: "PacingEngine \<Rightarrow> PacingEngine" where
  "step_cursor e = e\<lparr>pe_drr_cursor := (pe_drr_cursor e + 1) mod 2 ^ 64\<rparr>"

definition left_empty :: "bool \<Rightarrow> PacingEngine \<Rightarrow> PacingEngine" where
  "left_empty now_empty e = (if now_empty then e\<lparr>pe_non_empty_peers := pe_non_empty_peers e - 1\<rparr> else e)"

fun shed_loop :: "nat \<Rightarrow> nat \<Rightarrow> instant \<Rightarrow> instant \<Rightarrow> (nat \<Rightarrow> instant) \<Rightarrow> nat \<Rightarrow> PacingEngine \<Rightarrow> PacingEngine" where
  "shed_loop 0 n now deadline clk dropped e = e"
| "shed_loop (Suc k) n now deadline clk dropped e =
     (if dropped \<ge> sh_max_per_tick (pc_shed (pe_config e)) \<or> clk k \<ge> deadline then e
      else
        let idx = pe_drr_cursor e mod n; e = step_cursor e; q = snd (pe_peer_queues e ! idx) in
        case bulk_front_sojourn_ms now q of
          None \<Rightarrow> shed_loop k n now deadline clk dropped e
        | Some soj \<Rightarrow>
            if \<not> f64_lt (sh_max_sojourn_ms (pc_shed (pe_config e))) soj then shed_loop k n now deadline clk dropped e
            else
              let q = q\<lparr>dq_bulk := tl (dq_bulk q)\<rparr>;
                  e = left_empty (dq_is_empty q) (put_queue idx q e) in
              shed_loop k n now deadline clk (sat_add 32 dropped 1)
                (e\<lparr>pe_queued_packets_total := pe_queued_packets_total e - 1,
                   pe_shed_sojourn := sat_add 64 (pe_shed_sojourn e) 1,
                   pe_dropped_packets := sat_add 64 (pe_dropped_packets e) 1\<rparr>))"

definition shed_stale_bulk_rr :: "instant \<Rightarrow> instant \<Rightarrow> (nat \<Rightarrow> instant) \<Rightarrow> PacingEngine \<Rightarrow> PacingEngine" where
  "shed_stale_bulk_rr now deadline clk e =
     (if \<not> sh_enabled (pc_shed (pe_config e)) \<or> pe_non_empty_peers e = 0 \<or> f64_lt (queue_fill_ratio e) (sh_min_fill (pc_shed (pe_config e)))
      then e else shed_loop (length (pe_peer_queues e)) (length (pe_peer_queues e)) now deadline clk 0 e)"

section \<open>Choosing the next packet\<close>

definition requeue_data_at_front :: "SocketAddr \<Rightarrow> bytes \<Rightarrow> instant \<Rightarrow> PacingEngine \<Rightarrow> PacingEngine" where
  "requeue_data_at_front dest pkt enqueued_at e =
     (let q = peer_queue dest e;
          q' = push_front_requeue \<lparr>qd_pkt = pkt, qd_enqueued_at = enqueued_at\<rparr>
                 (pc_drr_small_packet_priority (pe_config e)) (pc_drr_small_packet_threshold_bytes (pe_config e)) q;
          e = e\<lparr>pe_peer_queues := tab_put dest q' (pe_peer_queues e)\<rparr> in
      if dq_is_empty q then e\<lparr>pe_non_empty_peers := sat_add 64 (pe_non_empty_peers e) 1\<rparr> else e)"

definition pop_control_for_send :: "PacingEngine \<Rightarrow> NextPacket option \<times> PacingEngine" where
  "pop_control_for_send e =
     (case pe_control_q e of
        [] \<Rightarrow> (None, e)
      | q # qs \<Rightarrow> (Some (NextControl q), e\<lparr>pe_control_q := qs, pe_queued_packets_total := pe_queued_packets_total e - 1\<rparr>))"

definition pop_retransmit_for_send :: "PacingEngine \<Rightarrow> NextPacket option \<times> PacingEngine" where
  "pop_retransmit_for_send e =
     (case pe_retransmit_q e of
        [] \<Rightarrow> (None, e)
      | q # qs \<Rightarrow> (Some (NextControl q), e\<lparr>pe_retransmit_q := qs, pe_queued_packets_total := pe_queued_packets_total e - 1\<rparr>))"

text \<open>The first packet of the control queue is old after eight milliseconds.\<close>

definition try_pop_control_interleaved :: "instant \<Rightarrow> PacingEngine \<Rightarrow> NextPacket option \<times> PacingEngine" where
  "try_pop_control_interleaved now e =
     (let ctrl_pressure = (length (pe_control_q e) * 2 \<ge> max (pc_max_control_queue_packets (pe_config e)) 1);
          ctrl_aging = (case pe_control_q e of [] \<Rightarrow> False | q # _ \<Rightarrow> now - qp_enqueued_at q \<ge> 8 * 1000000);
          ctrl_divisor = (if ctrl_pressure \<or> ctrl_aging then 2 else 4);
          e = e\<lparr>pe_interleave_counter := (pe_interleave_counter e + 1) mod 256\<rparr> in
      if pe_interleave_counter e mod ctrl_divisor = 0 then pop_control_for_send e else (None, e))"

text \<open>What all selection loops do with a packet taken from a peer.\<close>

definition data_popped :: "SocketAddr \<Rightarrow> QueuedData \<Rightarrow> PeerPopKind \<Rightarrow> bool \<Rightarrow> PacingEngine \<Rightarrow> NextPacket option \<times> PacingEngine" where
  "data_popped dest entry kind now_empty e =
     (let e = record_peer_pop_kind kind e;
          e = left_empty now_empty (e\<lparr>pe_queued_packets_total := pe_queued_packets_total e - 1\<rparr>) in
      (Some (NextData (qd_pkt entry) dest (qd_enqueued_at entry)), e))"

text \<open>The visit of a peer without deficit counters: the frozen round robin and the plain order share it.\<close>

definition visit_peer :: "instant \<Rightarrow> nat \<Rightarrow> PacingEngine \<Rightarrow> NextPacket option \<times> PacingEngine" where
  "visit_peer now idx e =
     (let (dest, q) = pe_peer_queues e ! idx;
          flen = front_len (pc_drr_small_packet_priority (pe_config e)) now q in
      if flen > 0 \<and> \<not> background_cc_can_send dest flen (hol_sojourn_ms now q) e
      then (None, record_background_cc_rate_limit e)
      else case pop_data (pc_drr_small_packet_priority (pe_config e)) now q of
        (None, q) \<Rightarrow> (None, put_queue idx q e)
      | (Some (entry, kind), q) \<Rightarrow> data_popped dest entry kind (dq_is_empty q) (put_queue idx q e))"

fun frozen_loop :: "nat \<Rightarrow> nat \<Rightarrow> instant \<Rightarrow> PacingEngine \<Rightarrow> NextPacket option \<times> PacingEngine" where
  "frozen_loop 0 n now e = (None, e)"
| "frozen_loop (Suc k) n now e =
     (let idx = pe_drr_cursor e mod n in
      case visit_peer now idx (step_cursor e) of
        (Some p, e) \<Rightarrow> (Some p, e)
      | (None, e) \<Rightarrow> frozen_loop k n now e)"

fun plain_loop :: "nat list \<Rightarrow> instant \<Rightarrow> PacingEngine \<Rightarrow> NextPacket option \<times> PacingEngine" where
  "plain_loop [] now e = (None, e)"
| "plain_loop (idx # idxs) now e =
     (case visit_peer now idx e of
        (Some p, e) \<Rightarrow> (Some p, e)
      | (None, e) \<Rightarrow> plain_loop idxs now e)"

text \<open>The quantum of a peer, and whether the round-trip time has changed it.\<close>

definition peer_quantum :: "PacingEngine \<Rightarrow> PeerDataQueue \<Rightarrow> nat \<times> bool" where
  "peer_quantum e q =
     (let c = pe_config e; base_quantum = max (pc_drr_quantum c) 1;
          quantum = scaled_drr_quantum base_quantum (dq_rtt_ms q) (pe_cached_rtt_ref_ms e) (pc_drr_rtt_aware c)
                      (pc_drr_rtt_scale_min c) (pc_drr_rtt_scale_max c) in
      (quantum, pc_drr_rtt_aware c \<and> f64_lt (Fin 0) (pe_cached_rtt_ref_ms e) \<and> f64_lt (Fin 0) (dq_rtt_ms q)
                \<and> quantum \<noteq> max base_quantum MIN_DRR_QUANTUM))"

text \<open>The visit of a peer in the deficit round robin; the number says whether its quantum was scaled.\<close>

definition drr_visit :: "instant \<Rightarrow> nat \<Rightarrow> PacingEngine \<Rightarrow> (NextPacket option \<times> PacingEngine) \<times> nat" where
  "drr_visit now idx e =
     (let (dest, q) = pe_peer_queues e ! idx; prio = pc_drr_small_packet_priority (pe_config e) in
      if dq_is_empty q then ((None, put_queue idx (q\<lparr>dq_deficit := 0\<rparr>) e), 0)
      else
        let (quantum, scaled) = peer_quantum e q;
            hit = (if scaled then 1 else 0);
            flen = front_len prio now q;
            deficit_cap = max (min (quantum * 4) (2 ^ 64 - 1)) flen;
            deficit = min (sat_add 64 (dq_deficit q) quantum) deficit_cap;
            q = q\<lparr>dq_deficit := deficit\<rparr> in
        if flen = 0 \<or> flen > deficit then ((None, put_queue idx q e), hit)
        else if \<not> background_cc_can_send dest flen (hol_sojourn_ms now q) e
        then ((None, record_background_cc_rate_limit (put_queue idx q e)), hit)
        else case pop_data prio now (q\<lparr>dq_deficit := deficit - flen\<rparr>) of
          (None, q) \<Rightarrow> ((None, put_queue idx q e), hit)
        | (Some (entry, kind), q) \<Rightarrow> (data_popped dest entry kind (dq_is_empty q) (put_queue idx q e), hit))"

fun drr_loop :: "nat \<Rightarrow> nat \<Rightarrow> instant \<Rightarrow> nat \<Rightarrow> PacingEngine \<Rightarrow> NextPacket option \<times> PacingEngine" where
  "drr_loop 0 n now hits e = (None, e\<lparr>pe_drr_rtt_scale_applied := sat_add 64 (pe_drr_rtt_scale_applied e) hits\<rparr>)"
| "drr_loop (Suc k) n now hits e =
     (let idx = pe_drr_cursor e mod n in
      case drr_visit now idx (step_cursor e) of
        ((Some p, e), _) \<Rightarrow> (Some p, e)
      | ((None, e), hit) \<Rightarrow> drr_loop k n now (sat_add 64 hits hit) e)"

text \<open>The alternatives of a selection, in order: the first that yields a packet ends it.\<close>

definition or_pop :: "NextPacket option \<times> PacingEngine \<Rightarrow> (PacingEngine \<Rightarrow> NextPacket option \<times> PacingEngine) \<Rightarrow> NextPacket option \<times> PacingEngine" where
  "or_pop r alt = (case r of (Some p, e) \<Rightarrow> (Some p, e) | (None, e) \<Rightarrow> alt e)"

definition pop_peers :: "instant \<Rightarrow> PacingEngine \<Rightarrow> NextPacket option \<times> PacingEngine" where
  "pop_peers now e =
     (let n = length (pe_peer_queues e) in
      if \<not> pc_drr_enabled (pe_config e) then plain_loop [0..<n] now e
      else if n = 0 \<or> pe_non_empty_peers e = 0 then (None, e)
      else drr_loop (n * 2) n now 0 e)"

text \<open>Retransmissions first, then interleaved control, then the peers, then the rest of the control queue.\<close>

definition pop_next :: "instant \<Rightarrow> instant \<Rightarrow> PacingEngine \<Rightarrow> NextPacket option \<times> PacingEngine" where
  "pop_next age_now now e =
     or_pop (or_pop (or_pop (pop_retransmit_for_send e) (try_pop_control_interleaved age_now)) (pop_peers now)) pop_control_for_send"

definition pop_next_apd :: "bool \<Rightarrow> instant \<Rightarrow> instant \<Rightarrow> PacingEngine \<Rightarrow> NextPacket option \<times> PacingEngine" where
  "pop_next_apd freeze_drr age_now now e =
     (if \<not> freeze_drr then pop_next age_now now e
      else or_pop (or_pop (or_pop (pop_retransmit_for_send e) (try_pop_control_interleaved age_now))
             (\<lambda>e. frozen_loop (length (pe_peer_queues e)) (length (pe_peer_queues e)) now e)) pop_control_for_send)"

section \<open>Sending\<close>

text \<open>
  The outcome of one \<^verbatim>\<open>try_send_to\<close>; the value of another error is not represented. The packets that were handed to
  the socket are collected in order.
\<close>

datatype SendOutcome = SendOk | WouldBlock | SendError

text \<open>What one turn of a send loop reads: the clock of the deadline check, the clocks of the selection, the outcome of the send.\<close>

record TurnEnv =
  tn_clock :: instant
  tn_age_clock :: instant
  tn_pop_clock :: instant
  tn_outcome :: SendOutcome

type_synonym wire = "(bytes \<times> SocketAddr) list"

definition reserved_may_send :: "nat \<Rightarrow> nat \<Rightarrow> nat \<Rightarrow> bool" where
  "reserved_may_send pkt_len remaining phase_initial =
     (if remaining = 0 then False else if remaining = phase_initial then True else pkt_len \<le> remaining)"

definition reserved_consume :: "nat \<Rightarrow> nat \<Rightarrow> nat \<Rightarrow> nat" where
  "reserved_consume remaining phase_initial pkt_len =
     (if remaining = phase_initial \<and> pkt_len > remaining then 0 else remaining - pkt_len)"

text \<open>The end of a tick by a failed send: None is success, the code's \<^verbatim>\<open>Ok(())\<close>.\<close>

definition send_failed :: "SendOutcome \<Rightarrow> SocketAddr \<Rightarrow> nat \<Rightarrow> PacingEngine \<Rightarrow> TickResult option \<times> PacingEngine" where
  "send_failed outcome dest sent e0 =
     (let e = e0\<lparr>pe_queued_packets_total := sat_add 64 (pe_queued_packets_total e0) 1\<rparr> in
      if outcome = WouldBlock then (Some (Progress sent), e)
      else
        let e = e\<lparr>pe_consecutive_errors := sat_add 32 (pe_consecutive_errors e) 1\<rparr> in
        (Some (if pe_consecutive_errors e \<ge> 5 then SocketDead dest else Progress sent), e))"

definition try_send_queued_packet ::
    "SendOutcome \<Rightarrow> QueuedPacket \<Rightarrow> bool \<Rightarrow> wire \<Rightarrow> PacingEngine \<Rightarrow> TickResult option \<times> wire \<times> PacingEngine" where
  "try_send_queued_packet outcome q retransmit sent e =
     (case outcome of
        SendOk \<Rightarrow> (None, sent @ [(qp_pkt q, qp_dest q)], budget_consume (length (qp_pkt q)) (e\<lparr>pe_consecutive_errors := 0\<rparr>))
      | _ \<Rightarrow>
          let e = (if retransmit then e\<lparr>pe_retransmit_q := q # pe_retransmit_q e\<rparr> else e\<lparr>pe_control_q := q # pe_control_q e\<rparr>);
              (r, e) = send_failed outcome (qp_dest q) (length sent) e in
          (r, sent, e))"

definition requeue_next :: "NextPacket \<Rightarrow> PacingEngine \<Rightarrow> PacingEngine" where
  "requeue_next item e =
     (case item of
        NextControl q \<Rightarrow> e\<lparr>pe_control_q := q # pe_control_q e\<rparr>
      | NextData pkt dest enqueued_at \<Rightarrow> requeue_data_at_front dest pkt enqueued_at e)"

fun next_wire :: "NextPacket \<Rightarrow> bytes \<times> SocketAddr" where
  "next_wire (NextControl q) = (qp_pkt q, qp_dest q)"
| "next_wire (NextData pkt dest _) = (pkt, dest)"

definition try_send_next_packet ::
    "SendOutcome \<Rightarrow> NextPacket \<Rightarrow> bool \<Rightarrow> wire \<Rightarrow> PacingEngine \<Rightarrow> TickResult option \<times> wire \<times> PacingEngine" where
  "try_send_next_packet outcome item count_apd_drain sent e =
     (let (pkt, dest) = next_wire item in
      case outcome of
        SendOk \<Rightarrow>
          let e = budget_consume (length pkt) (e\<lparr>pe_consecutive_errors := 0\<rparr>);
              e = (case item of
                     NextData _ _ _ \<Rightarrow> e\<lparr>pe_background_cc := consume_send_bytes dest (length pkt) (pe_background_cc e)\<rparr>
                   | NextControl _ \<Rightarrow> e);
              e = (if count_apd_drain \<and> ap_enabled (as_cfg (pe_apd e)) \<and> as_phase (pe_apd e) = Drain
                   then e\<lparr>pe_apd := (pe_apd e)\<lparr>as_packets_drained := sat_add 64 (as_packets_drained (pe_apd e)) 1\<rparr>\<rparr>
                   else e) in
          (None, sent @ [(pkt, dest)], e)
      | _ \<Rightarrow>
          let (r, e) = send_failed outcome dest (length sent) (requeue_next item e) in
          (r, sent, e))"

text \<open>
  The two reserved phases. Each turn sends one packet of at least one byte out of a finite queue; the fuel is the
  length of the queue, which a successful turn shortens.
\<close>

fun reserved_rtx_loop :: "nat \<Rightarrow> nat \<Rightarrow> nat \<Rightarrow> instant \<Rightarrow> (nat \<Rightarrow> TurnEnv) \<Rightarrow> wire \<Rightarrow> PacingEngine \<Rightarrow> TickResult option \<times> wire \<times> PacingEngine" where
  "reserved_rtx_loop 0 remaining initial deadline env sent e = (None, sent, e)"
| "reserved_rtx_loop (Suc k) remaining initial deadline env sent e =
     (if remaining = 0 \<or> tn_clock (env k) \<ge> deadline \<or> \<not> budget_has_room e then (None, sent, e)
      else case pe_retransmit_q e of
        [] \<Rightarrow> (None, sent, e)
      | q # qs \<Rightarrow>
          let pkt_len = length (qp_pkt q) in
          if pkt_len = 0 \<or> \<not> reserved_may_send pkt_len remaining initial then (None, sent, e)
          else
            let e = e\<lparr>pe_retransmit_q := qs, pe_queued_packets_total := pe_queued_packets_total e - 1\<rparr> in
            case try_send_queued_packet (tn_outcome (env k)) q True sent e of
              (Some r, sent, e) \<Rightarrow> (Some r, sent, e)
            | (None, sent, e) \<Rightarrow>
                reserved_rtx_loop k (reserved_consume remaining initial pkt_len) initial deadline env sent
                  (e\<lparr>pe_reserved_rtx_sends := sat_add 64 (pe_reserved_rtx_sends e) 1\<rparr>))"

fun reserved_ctrl_loop :: "nat \<Rightarrow> nat \<Rightarrow> nat \<Rightarrow> instant \<Rightarrow> (nat \<Rightarrow> TurnEnv) \<Rightarrow> wire \<Rightarrow> PacingEngine \<Rightarrow> TickResult option \<times> wire \<times> PacingEngine" where
  "reserved_ctrl_loop 0 remaining initial deadline env sent e = (None, sent, e)"
| "reserved_ctrl_loop (Suc k) remaining initial deadline env sent e =
     (if remaining = 0 \<or> tn_clock (env k) \<ge> deadline \<or> \<not> budget_has_room e then (None, sent, e)
      else case pe_control_q e of
        [] \<Rightarrow> (None, sent, e)
      | q # qs \<Rightarrow>
          let pkt_len = length (qp_pkt q) in
          if pkt_len = 0 \<or> \<not> reserved_may_send pkt_len remaining initial then (None, sent, e)
          else
            let e = e\<lparr>pe_control_q := qs, pe_queued_packets_total := pe_queued_packets_total e - 1\<rparr> in
            case try_send_queued_packet (tn_outcome (env k)) q False sent e of
              (Some r, sent, e) \<Rightarrow> (Some r, sent, e)
            | (None, sent, e) \<Rightarrow>
                reserved_ctrl_loop k (reserved_consume remaining initial pkt_len) initial deadline env sent
                  (e\<lparr>pe_reserved_ctrl_sends := sat_add 64 (pe_reserved_ctrl_sends e) 1\<rparr>))"

definition drain_reserved_prefix ::
    "instant \<Rightarrow> (nat \<Rightarrow> TurnEnv) \<Rightarrow> (nat \<Rightarrow> TurnEnv) \<Rightarrow> PacingEngine \<Rightarrow> TickResult option \<times> wire \<times> PacingEngine" where
  "drain_reserved_prefix deadline rtx_env ctrl_env e =
     (let rtx_initial = pc_min_retransmit_reserved_bytes_per_tick (pe_config e);
          ctrl_initial = pc_min_control_reserved_bytes_per_tick (pe_config e) in
      case reserved_rtx_loop (length (pe_retransmit_q e)) rtx_initial rtx_initial deadline rtx_env [] e of
        (Some r, sent, e) \<Rightarrow> (Some r, sent, e)
      | (None, sent, e) \<Rightarrow>
          reserved_ctrl_loop (length (pe_control_q e)) ctrl_initial ctrl_initial deadline ctrl_env sent e)"

section \<open>Adaptive drain\<close>

definition apd_decay_ramp_burst_only :: "f32 \<Rightarrow> nat \<Rightarrow> ApdState \<Rightarrow> ApdState" where
  "apd_decay_ramp_burst_only fill_ratio base_burst a =
     (let rb = (if as_ramp_burst a = 0 then base_burst else as_ramp_burst a) in
      a\<lparr>as_ramp_burst := max (rb - 1) base_burst, as_last_fill_ratio := fill_ratio\<rparr>)"

definition apd_update_ramp_burst :: "f32 \<Rightarrow> nat \<Rightarrow> ApdConfig \<Rightarrow> nat \<Rightarrow> ApdState \<Rightarrow> ApdState" where
  "apd_update_ramp_burst fill_ratio base_burst cfg ramp_ceiling a =
     (let max_burst = max ramp_ceiling base_burst;
          target = apd_ramp_target_burst fill_ratio base_burst max_burst cfg;
          rb = (if as_ramp_burst a = 0 then base_burst else as_ramp_burst a);
          rb = (if f64_lt (f32_add (as_last_fill_ratio a) F32_EPSILON) fill_ratio then target else max (rb - 1) target) in
      a\<lparr>as_ramp_burst := rb, as_last_fill_ratio := fill_ratio,
        as_ramp_active_ticks := (if rb > base_burst then sat_add 64 (as_ramp_active_ticks a) 1 else as_ramp_active_ticks a),
        as_ramp_pinned_ticks := (if rb \<ge> max_burst then sat_add 64 (as_ramp_pinned_ticks a) 1 else as_ramp_pinned_ticks a)\<rparr>)"

definition apd_ramp_pinned :: "nat \<Rightarrow> nat \<Rightarrow> ApdState \<Rightarrow> bool" where
  "apd_ramp_pinned base_burst ramp_ceiling a = (as_ramp_burst a \<ge> max ramp_ceiling base_burst)"

text \<open>A decision is the burst of the tick and whether the deficit counters are frozen.\<close>

definition apd_settle :: "nat \<Rightarrow> ApdState \<Rightarrow> (nat \<times> bool) \<times> ApdState" where
  "apd_settle base_burst a =
     (let burst = max (as_ramp_burst a) base_burst in
      ((burst, False), a\<lparr>as_last_pure_spin := False, as_last_tick_us := 0, as_last_effective_burst := burst\<rparr>))"

definition apd_exit_drain_to_cooldown :: "nat \<Rightarrow> instant \<Rightarrow> bool \<Rightarrow> instant \<Rightarrow> ApdState \<Rightarrow> (nat \<times> bool) \<times> ApdState" where
  "apd_exit_drain_to_cooldown base_burst now budget_hit clk a =
     apd_settle base_burst
       (a\<lparr>as_drain_budget_hits := (if budget_hit then sat_add 64 (as_drain_budget_hits a) 1 else as_drain_budget_hits a),
          as_drain_ms_total := (case as_drain_entered_at a of
              Some entered \<Rightarrow> sat_add 64 (as_drain_ms_total a) ((clk - entered) div 1000000)
            | None \<Rightarrow> as_drain_ms_total a),
          as_phase := Cooldown,
          as_cooldown_until := Some (now + ap_cooldown_ms (as_cfg a) * 1000000),
          as_drain_entered_at := None,
          as_confirm_counter := 0\<rparr>)"

definition apd_ramp :: "f32 \<Rightarrow> nat \<Rightarrow> nat \<Rightarrow> bool \<Rightarrow> ApdState \<Rightarrow> ApdState" where
  "apd_ramp fill_ratio base_burst ramp_ceiling suppress_cc a =
     (if suppress_cc then
        let a = apd_decay_ramp_burst_only fill_ratio base_burst a in
        a\<lparr>as_cc_headroom_suppressions := sat_add 64 (as_cc_headroom_suppressions a) 1\<rparr>
      else apd_update_ramp_burst fill_ratio base_burst (as_cfg a) ramp_ceiling a)"

definition apd_cooldown_step :: "f32 \<Rightarrow> instant \<Rightarrow> nat \<Rightarrow> nat \<Rightarrow> bool \<Rightarrow> ApdState \<Rightarrow> (nat \<times> bool) \<times> ApdState" where
  "apd_cooldown_step fill_ratio now base_burst ramp_ceiling suppress_cc a =
     (let cooldown_done = (case as_cooldown_until a of Some t \<Rightarrow> now \<ge> t | None \<Rightarrow> True);
          a = (if cooldown_done then a\<lparr>as_phase := Alert, as_confirm_counter := 0, as_cooldown_until := None\<rparr> else a) in
      apd_settle base_burst (apd_ramp fill_ratio base_burst ramp_ceiling suppress_cc a))"

definition apd_enter_drain :: "instant \<Rightarrow> bool \<Rightarrow> bool \<Rightarrow> nat \<Rightarrow> ApdState \<Rightarrow> (nat \<times> bool) \<times> ApdState" where
  "apd_enter_drain now sojourn_arm fill_arm drain_burst a =
     ((drain_burst, ap_drain_freeze_drr (as_cfg a)),
      a\<lparr>as_drain_arm_sojourn := (if sojourn_arm then sat_add 64 (as_drain_arm_sojourn a) 1 else as_drain_arm_sojourn a),
        as_drain_arm_fill := (if \<not> sojourn_arm \<and> fill_arm then sat_add 64 (as_drain_arm_fill a) 1 else as_drain_arm_fill a),
        as_phase := Drain, as_drain_entered_at := Some now,
        as_drain_episodes := sat_add 64 (as_drain_episodes a) 1,
        as_last_pure_spin := True, as_last_tick_us := ap_drain_tick_us (as_cfg a), as_last_effective_burst := drain_burst\<rparr>)"

definition apd_alert_step :: "f32 \<Rightarrow> instant \<Rightarrow> f32 \<Rightarrow> nat \<Rightarrow> nat \<Rightarrow> nat \<Rightarrow> bool \<Rightarrow> ApdState \<Rightarrow> (nat \<times> bool) \<times> ApdState" where
  "apd_alert_step fill_ratio now hol base_burst ramp_ceiling drain_burst suppress_cc a0 =
     (let cfg = as_cfg a0;
          a = apd_ramp fill_ratio base_burst ramp_ceiling suppress_cc a0;
          fill_arm = (apd_ramp_pinned base_burst ramp_ceiling a \<and> f64_lt (ap_high_watermark cfg) fill_ratio);
          sojourn_arm = (ap_sojourn_enabled cfg \<and> f64_lt (ap_max_sojourn_ms cfg) hol) in
      if (fill_arm \<or> sojourn_arm) \<and> \<not> suppress_cc then
        if ap_confirm_ticks cfg = 0 then apd_enter_drain now sojourn_arm fill_arm drain_burst a
        else
          let a = a\<lparr>as_confirm_counter := sat_add 32 (as_confirm_counter a) 1\<rparr> in
          if as_confirm_counter a \<ge> ap_confirm_ticks cfg then apd_enter_drain now sojourn_arm fill_arm drain_burst a
          else apd_settle base_burst a
      else
        apd_settle base_burst (if ap_confirm_ticks cfg > 0 then a\<lparr>as_confirm_counter := as_confirm_counter a - 1\<rparr> else a))"

definition apd_drain_step :: "f32 \<Rightarrow> instant \<Rightarrow> f32 \<Rightarrow> nat \<Rightarrow> nat \<Rightarrow> bool \<Rightarrow> (nat \<Rightarrow> instant) \<Rightarrow> ApdState \<Rightarrow> (nat \<times> bool) \<times> ApdState" where
  "apd_drain_step fill_ratio now hol base_burst drain_burst suppress_cc clk a =
     (let cfg = as_cfg a in
      if suppress_cc then
        apd_exit_drain_to_cooldown base_burst now False (clk 1)
          (a\<lparr>as_cc_headroom_suppressions := sat_add 64 (as_cc_headroom_suppressions a) 1\<rparr>)
      else
        let budget_exhausted = (ap_spinloop_budget_ms cfg > 0 \<and>
              (case as_drain_entered_at a of Some t \<Rightarrow> clk 0 - t \<ge> ap_spinloop_budget_ms cfg * 1000000 | None \<Rightarrow> False));
            fill_exit = f64_lt fill_ratio (ap_low_watermark cfg);
            sojourn_exit = (\<not> ap_sojourn_enabled cfg \<or> f64_lt hol (ap_target_sojourn_ms cfg)) in
        if budget_exhausted \<or> (fill_exit \<and> sojourn_exit)
        then apd_exit_drain_to_cooldown base_burst now budget_exhausted (clk 1) a
        else
          ((drain_burst, ap_drain_freeze_drr cfg),
           a\<lparr>as_last_pure_spin := True, as_last_tick_us := ap_drain_tick_us cfg, as_last_effective_burst := drain_burst\<rparr>))"

definition apd_step :: "f32 \<Rightarrow> instant \<Rightarrow> f32 \<Rightarrow> bool \<Rightarrow> nat \<Rightarrow> (nat \<Rightarrow> instant) \<Rightarrow> ApdState \<Rightarrow> (nat \<times> bool) \<times> ApdState" where
  "apd_step fill_ratio now hol any_cc_sendable base_burst clk a =
     (let cfg = as_cfg a;
          ramp_ceiling = max (ap_ramp_max_burst cfg) base_burst;
          drain_burst = clamp 1 ramp_ceiling (ap_drain_max_burst cfg);
          suppress_cc = (ap_require_cc_headroom cfg \<and> \<not> any_cc_sendable) in
      case as_phase a of
        Cooldown \<Rightarrow> apd_cooldown_step fill_ratio now base_burst ramp_ceiling suppress_cc a
      | Alert \<Rightarrow> apd_alert_step fill_ratio now hol base_burst ramp_ceiling drain_burst suppress_cc a
      | Drain \<Rightarrow> apd_drain_step fill_ratio now hol base_burst drain_burst suppress_cc clk a)"

section \<open>The tick\<close>

record TickEnv =
  tk_now :: instant
  tk_apd_clock :: "nat \<Rightarrow> instant"
  tk_shed_clock :: "nat \<Rightarrow> instant"
  tk_rtx :: "nat \<Rightarrow> TurnEnv"
  tk_ctrl :: "nat \<Rightarrow> TurnEnv"
  tk_burst :: "nat \<Rightarrow> TurnEnv"

fun burst_loop :: "nat \<Rightarrow> bool \<Rightarrow> instant \<Rightarrow> (nat \<Rightarrow> TurnEnv) \<Rightarrow> wire \<Rightarrow> PacingEngine \<Rightarrow> TickResult \<times> wire \<times> PacingEngine" where
  "burst_loop 0 freeze_drr deadline env sent e = (Progress (length sent), sent, e)"
| "burst_loop (Suc k) freeze_drr deadline env sent e =
     (if tn_clock (env k) \<ge> deadline \<or> \<not> budget_has_room e then (Progress (length sent), sent, e)
      else case pop_next_apd freeze_drr (tn_age_clock (env k)) (tn_pop_clock (env k)) e of
        (None, e) \<Rightarrow> (Progress (length sent), sent, e)
      | (Some item, e) \<Rightarrow>
          (case try_send_next_packet (tn_outcome (env k)) item True sent e of
             (Some r, sent, e) \<Rightarrow> (r, sent, e)
           | (None, sent, e) \<Rightarrow> burst_loop k freeze_drr deadline env sent e))"

definition tick_refill :: "instant \<Rightarrow> PacingEngine \<Rightarrow> PacingEngine" where
  "tick_refill now e0 =
     (let elapsed = as_secs_f64 (now - pe_last_tick e0);
          e = e0\<lparr>pe_last_tick := now\<rparr>;
          rate = (case pc_pace_rate_mode (pe_config e) of
                    Pps \<Rightarrow> f64_of_nat (pc_target_pps (pe_config e)) | Bytes \<Rightarrow> f64_of_nat (pc_target_bps (pe_config e)));
          e = e\<lparr>pe_budget := f64_min (f64_add (pe_budget e) (f64_mul elapsed rate)) (budget_cap_value e),
                pe_background_cc := refill_all_tokens elapsed (pe_background_cc e),
                pe_tick_seq := (pe_tick_seq e + 1) mod 2 ^ 64\<rparr> in
      if pe_tick_seq e mod 32 = 0 then refresh_drr_rtt_ref e else e)"

definition tick_decide :: "instant \<Rightarrow> (nat \<Rightarrow> instant) \<Rightarrow> PacingEngine \<Rightarrow> (nat \<times> bool) \<times> PacingEngine" where
  "tick_decide now clk e =
     (if ap_enabled (as_cfg (pe_apd e)) then
        let (hol, any_cc) = apd_pressure_scan now e;
            a = (pe_apd e)\<lparr>as_last_max_sojourn_ms := f64_as_u64 (f64_round hol)\<rparr>;
            (decision, a) = apd_step (queue_fill_ratio e) now hol any_cc (pc_base_max_burst (pe_config e)) clk a in
        (decision, e\<lparr>pe_apd := a\<rparr>)
      else ((pc_base_max_burst (pe_config e), False), e))"

definition tick_with :: "TickEnv \<Rightarrow> PacingEngine \<Rightarrow> TickResult \<times> wire \<times> PacingEngine" where
  "tick_with env e =
     (let now = tk_now env;
          deadline = now + max (pc_max_tick_work_us (pe_config e)) 100 * 1000;
          ((burst, freeze), e) = tick_decide now (tk_apd_clock env) (tick_refill now e);
          e = shed_stale_bulk_rr now deadline (tk_shed_clock env) e in
      case drain_reserved_prefix deadline (tk_rtx env) (tk_ctrl env) e of
        (Some r, sent, e) \<Rightarrow> (r, sent, e)
      | (None, sent, e) \<Rightarrow> burst_loop burst freeze deadline (tk_burst env) sent e)"

section \<open>Configuration and resets\<close>

definition reset_apd_runtime_state :: "nat \<Rightarrow> ApdState \<Rightarrow> ApdState" where
  "reset_apd_runtime_state base_burst a =
     a\<lparr>as_phase := Cooldown, as_confirm_counter := 0, as_drain_entered_at := None, as_cooldown_until := None,
       as_ramp_burst := base_burst, as_last_fill_ratio := Fin 0\<rparr>"

text \<open>The comparison of the two drain configurations is that of floating point fields: a NaN differs from itself.\<close>

definition apd_cfg_eq :: "ApdConfig \<Rightarrow> ApdConfig \<Rightarrow> bool" where
  "apd_cfg_eq a b = (a = b \<and> NaN \<notin> {ap_high_watermark a, ap_low_watermark a, ap_max_sojourn_ms a, ap_target_sojourn_ms a})"

definition pe_set_config :: "instant \<Rightarrow> PacingConfig \<Rightarrow> PacingEngine \<Rightarrow> PacingEngine option" where
  "pe_set_config now cfg0 e =
     (case PacingConfig_sanitize cfg0 of
        None \<Rightarrow> None
      | Some cfg \<Rightarrow>
          let changed = (\<not> apd_cfg_eq (as_cfg (pe_apd e)) (pc_apd cfg));
              a = (pe_apd e)\<lparr>as_cfg := pc_apd cfg, as_last_pure_spin := False, as_last_tick_us := 0\<rparr>;
              a = (if changed then reset_apd_runtime_state (pc_base_max_burst (pe_config e)) a else a) in
          Some (e\<lparr>pe_apd := a, pe_background_cc := bc_set_config (pc_background_cc cfg) (pe_background_cc e),
            pe_config := cfg, pe_last_tick := now,
            pe_budget := f64_min (pe_budget e) (pc_budget_cap_packets cfg),
            pe_consecutive_errors := 0,
            pe_non_empty_peers := length (filter (\<lambda>q. \<not> dq_is_empty q) (tab_vals (pe_peer_queues e)))\<rparr>))"

text \<open>The counters of the drain that both resets clear.\<close>

definition clear_apd_counters :: "ApdState \<Rightarrow> ApdState" where
  "clear_apd_counters a =
     a\<lparr>as_drain_episodes := 0, as_drain_ms_total := 0, as_packets_drained := 0, as_drain_budget_hits := 0,
       as_ramp_active_ticks := 0, as_ramp_pinned_ticks := 0, as_drain_arm_fill := 0, as_drain_arm_sojourn := 0,
       as_last_max_sojourn_ms := 0, as_cc_headroom_suppressions := 0\<rparr>"

definition reset_session_runtime :: "instant \<Rightarrow> PacingEngine \<Rightarrow> PacingEngine" where
  "reset_session_runtime now e =
     e\<lparr>pe_control_q := [], pe_retransmit_q := [], pe_peer_queues := [], pe_non_empty_peers := 0, pe_queued_packets_total := 0,
       pe_tick_seq := 0, pe_budget := Fin 0, pe_dropped_packets := 0, pe_dropped_data := 0, pe_dropped_control_normal := 0,
       pe_dropped_control_retransmit := 0, pe_consecutive_errors := 0, pe_interleave_counter := 0, pe_drr_cursor := 0,
       pe_reserved_ctrl_sends := 0, pe_reserved_rtx_sends := 0, pe_drr_small_priority_pops := 0, pe_drr_bulk_force_pops := 0,
       pe_shed_sojourn := 0, pe_cached_rtt_ref_ms := Fin (- 1), pe_drr_rtt_scale_applied := 0, pe_cc_rate_limited_events := 0,
       pe_background_cc := BackgroundCcEngine_new (pc_background_cc (pe_config e)),
       pe_apd := clear_apd_counters
         ((reset_apd_runtime_state (pc_base_max_burst (pe_config e)) (pe_apd e))
            \<lparr>as_last_pure_spin := False, as_last_tick_us := 0, as_last_effective_burst := pc_base_max_burst (pe_config e)\<rparr>),
       pe_last_tick := now\<rparr>"

definition reset_observability_counters :: "PacingEngine \<Rightarrow> PacingEngine" where
  "reset_observability_counters e =
     e\<lparr>pe_dropped_packets := 0, pe_dropped_data := 0, pe_dropped_control_normal := 0, pe_dropped_control_retransmit := 0,
       pe_shed_sojourn := 0, pe_drr_small_priority_pops := 0, pe_drr_bulk_force_pops := 0, pe_drr_rtt_scale_applied := 0,
       pe_cc_rate_limited_events := 0,
       pe_background_cc := (pe_background_cc e)\<lparr>be_counters := CcUpdateCounters_default\<rparr>,
       pe_apd := clear_apd_counters (pe_apd e)\<rparr>"

end
