(* ===== verification/Pacing_Inv.thy ===== *)
theory Pacing_Inv
  imports Pacing "HOL-Library.Multiset"
begin

text \<open>
  Bookkeeping of the pacing engine: the packets queued, sent and dropped add up to those enqueued, and
  the counters of the engine are exact, over every history of operations.
\<close>

section \<open>Sums over the peer table\<close>

lemma sum_list_upd:
  fixes f :: "'a \<Rightarrow> 'm::cancel_comm_monoid_add"
  shows "i < length xs \<Longrightarrow> sum_list (map f (xs[i := x])) + f (xs ! i) = sum_list (map f xs) + f x"
proof (induction xs arbitrary: i)
  case (Cons a xs)
  then show ?case by (cases i) (auto simp: ac_simps)
qed simp

definition old_part :: "('k \<times> 'v \<Rightarrow> 'm) \<Rightarrow> 'k \<Rightarrow> 'v option \<Rightarrow> 'm::comm_monoid_add" where
  "old_part f k v = (case v of Some v \<Rightarrow> f (k, v) | None \<Rightarrow> 0)"

lemma sum_list_put:
  fixes f :: "'k \<times> 'v \<Rightarrow> 'm::cancel_comm_monoid_add"
  shows "sum_list (map f (tab_put k v t)) + old_part f k (tab_get t k) = sum_list (map f t) + f (k, v)"
  by (induction t) (auto simp: old_part_def tab_put_def tab_get_def ac_simps)

lemma sum_list_del:
  fixes f :: "'k \<times> 'v \<Rightarrow> 'm::cancel_comm_monoid_add"
  shows "tab_ok t \<Longrightarrow> sum_list (map f (tab_del k t)) + old_part f k (tab_get t k) = sum_list (map f t)"
proof (induction t)
  case (Cons e t)
  obtain j w where e: "e = (j, w)" by (cases e)
  show ?case
  proof (cases "j = k")
    case True
    then have "k \<notin> fst ` set t" using Cons.prems e by (auto simp: tab_ok_def)
    then have "tab_del k t = t" by (induction t) (auto simp: tab_del_def)
    with True e show ?thesis by (simp add: old_part_def tab_get_def tab_del_def ac_simps)
  next
    case False
    with Cons e show ?thesis by (simp add: tab_ok_def tab_get_def tab_del_def ac_simps)
  qed
qed (simp add: old_part_def tab_del_def)

lemma index_of_get:
  "index_of k t = None \<longleftrightarrow> tab_get t k = None"
  "index_of k t = Some i \<Longrightarrow> i < length t \<and> tab_get t k = Some (snd (t ! i)) \<and> fst (t ! i) = k"
proof -
  show "index_of k t = None \<longleftrightarrow> tab_get t k = None" by (induction t) (auto simp: tab_get_def)
  show "index_of k t = Some i \<Longrightarrow> i < length t \<and> tab_get t k = Some (snd (t ! i)) \<and> fst (t ! i) = k"
    by (induction t arbitrary: i) (auto simp: tab_get_def split: if_splits)
qed

section \<open>What is queued\<close>

definition data_of :: "SocketAddr \<times> PeerDataQueue \<Rightarrow> (bytes \<times> SocketAddr) multiset" where
  "data_of dq = (case dq of (dest, q) \<Rightarrow> mset (map (\<lambda>d. (qd_pkt d, dest)) (dq_small q @ dq_bulk q)))"

definition busy :: "SocketAddr \<times> PeerDataQueue \<Rightarrow> nat" where
  "busy dq = (if dq_is_empty (snd dq) then 0 else 1)"

definition plain_of :: "QueuedPacket list \<Rightarrow> (bytes \<times> SocketAddr) multiset" where
  "plain_of qs = mset (map (\<lambda>q. (qp_pkt q, qp_dest q)) qs)"

definition queued :: "PacingEngine \<Rightarrow> (bytes \<times> SocketAddr) multiset" where
  "queued e = plain_of (pe_control_q e) + plain_of (pe_retransmit_q e) + sum_list (map data_of (pe_peer_queues e))"

definition busy_peers :: "PacingEngine \<Rightarrow> nat" where
  "busy_peers e = sum_list (map busy (pe_peer_queues e))"

text \<open>The books are right: one queue for each peer, exact counters, and no counter at its limit.\<close>

definition books :: "PacingEngine \<Rightarrow> bool" where
  "books e = (tab_ok (pe_peer_queues e) \<and> pe_queued_packets_total e = size (queued e) \<and> pe_non_empty_peers e = busy_peers e
     \<and> size (queued e) < 2 ^ 64 \<and> pe_dropped_packets e < 2 ^ 64)"

lemma size_data_of: "size (data_of (k, q)) = dq_len q"
  by (simp add: data_of_def dq_len_def)

lemma plain_of_simps [simp]:
  "plain_of [] = {#}" "plain_of (q # qs) = add_mset (qp_pkt q, qp_dest q) (plain_of qs)" "plain_of (qs @ rs) = plain_of qs + plain_of rs"
  by (simp_all add: plain_of_def)

lemma size_plain_of [simp]: "size (plain_of qs) = length qs"
  by (simp add: plain_of_def)

lemma empty_data: "dq_is_empty q \<longleftrightarrow> data_of (k, q) = {#}"
  by (auto simp: dq_is_empty_def data_of_def)

lemma busy_le: "busy_peers e \<le> size (queued e)"
proof -
  have "sum_list (map busy qs) \<le> size (sum_list (map data_of qs))" for qs
  proof (induction qs)
    case (Cons a qs)
    have "busy a \<le> size (data_of a)" using empty_data [of "snd a" "fst a"] by (auto simp: busy_def Suc_le_eq nonempty_has_size)
    with Cons show ?case by simp
  qed simp
  then show ?thesis by (simp add: busy_peers_def queued_def trans_le_add2)
qed

section \<open>Queue operations on the books\<close>

lemma data_of_cong: "dq_small q' = dq_small q \<Longrightarrow> dq_bulk q' = dq_bulk q \<Longrightarrow> data_of (k, q') = data_of (k, q)"
  by (simp add: data_of_def)

lemma pop_data_None: "pop_data prio now q = (None, q') \<Longrightarrow> q' = q \<and> dq_is_empty q"
  by (auto simp: pop_data_def pop_fifo_by_age_def dq_is_empty_def split: if_splits list.splits prod.splits)

lemma pop_data_Some:
  "pop_data prio now q = (Some (entry, kind), q') \<Longrightarrow> data_of (k, q) = add_mset (qd_pkt entry, k) (data_of (k, q'))"
  by (cases "dq_small q"; cases "dq_bulk q")
     (auto simp: pop_data_def pop_fifo_by_age_def dq_is_empty_def data_of_def should_force_bulk_def split: if_splits)

lemma data_of_push_back: "data_of (k, push_back_classified entry prio th q) = add_mset (qd_pkt entry, k) (data_of (k, q))"
  by (simp add: push_back_classified_def data_of_def)

lemma data_of_push_front: "data_of (k, push_front_requeue entry prio th q) = add_mset (qd_pkt entry, k) (data_of (k, q))"
  by (simp add: push_front_requeue_def data_of_def)

lemma data_of_drop_oldest:
  "0 < dq_len q \<Longrightarrow> \<exists>p. data_of (k, q) = add_mset p (data_of (k, drop_oldest_for_capacity q))"
  by (cases "dq_small q"; cases "dq_bulk q") (auto simp: drop_oldest_for_capacity_def data_of_def dq_len_def)

lemma hints_lanes [simp]:
  "dq_small (apply_peer_hints rtt qd q) = dq_small q" "dq_bulk (apply_peer_hints rtt qd q) = dq_bulk q"
  by (auto simp: apply_peer_hints_def Let_def split: option.splits)

section \<open>Steps that move nothing and steps that take one packet\<close>

definition lane :: "SocketAddr \<times> PeerDataQueue \<Rightarrow> SocketAddr \<times> QueuedData list \<times> QueuedData list" where
  "lane dq = (fst dq, dq_small (snd dq), dq_bulk (snd dq))"

definition quiet :: "PacingEngine \<Rightarrow> PacingEngine \<Rightarrow> bool" where
  "quiet e e' = (map lane (pe_peer_queues e') = map lane (pe_peer_queues e) \<and> pe_control_q e' = pe_control_q e
     \<and> pe_retransmit_q e' = pe_retransmit_q e \<and> pe_queued_packets_total e' = pe_queued_packets_total e
     \<and> pe_non_empty_peers e' = pe_non_empty_peers e \<and> pe_dropped_packets e' = pe_dropped_packets e)"

definition taken :: "PacingEngine \<Rightarrow> bytes \<times> SocketAddr \<Rightarrow> PacingEngine \<Rightarrow> bool" where
  "taken e p e' = (queued e = add_mset p (queued e') \<and> (books e \<longrightarrow> books e') \<and> pe_dropped_packets e' = pe_dropped_packets e)"

lemma quiet_refl [simp]: "quiet e e"
  by (simp add: quiet_def)

lemma quiet_trans: "quiet a b \<Longrightarrow> quiet b c \<Longrightarrow> quiet a c"
  by (simp add: quiet_def)

lemma lanes_sums:
  assumes "map lane qs = map lane rs"
  shows "sum_list (map data_of qs) = sum_list (map data_of rs)" "sum_list (map busy qs) = sum_list (map busy rs)"
    "map fst qs = map fst rs" "length qs = length rs"
proof -
  let ?d = "\<lambda>(k, s, b). mset (map (\<lambda>d. (qd_pkt d, k)) (s @ b)) :: (bytes \<times> SocketAddr) multiset"
  let ?b = "\<lambda>(k, s, b). if s = [] \<and> b = [] then 0 else 1 :: nat"
  have "map data_of xs = map ?d (map lane xs)" "map busy xs = map ?b (map lane xs)" "map fst xs = map fst (map lane xs)" for xs
    by (auto simp: data_of_def busy_def lane_def dq_is_empty_def)
  with assms show "sum_list (map data_of qs) = sum_list (map data_of rs)" "sum_list (map busy qs) = sum_list (map busy rs)"
    "map fst qs = map fst rs" by metis+
  show "length qs = length rs" using assms by (metis length_map)
qed

lemma quiet_queued: "quiet e e' \<Longrightarrow> queued e' = queued e"
  using lanes_sums(1) [of "pe_peer_queues e'" "pe_peer_queues e"] by (simp add: quiet_def queued_def)

lemma quiet_books:
  assumes "quiet e e'" "books e"
  shows "books e'"
proof -
  have l: "map lane (pe_peer_queues e') = map lane (pe_peer_queues e)" using assms(1) by (simp add: quiet_def)
  have "busy_peers e' = busy_peers e" "tab_ok (pe_peer_queues e') = tab_ok (pe_peer_queues e)"
    by (simp_all add: busy_peers_def tab_ok_def lanes_sums(2,3) [OF l])
  with assms quiet_queued [OF assms(1)] show ?thesis by (simp add: quiet_def books_def)
qed

lemma quiet_taken: "quiet e e1 \<Longrightarrow> taken e1 p e2 \<Longrightarrow> taken e p e2"
  using quiet_queued [of e e1] quiet_books [of e e1] by (simp add: taken_def quiet_def)

lemma taken_quiet: "taken e p e1 \<Longrightarrow> quiet e1 e2 \<Longrightarrow> taken e p e2"
  using quiet_queued [of e1 e2] quiet_books [of e1 e2] by (auto simp: taken_def quiet_def)

lemma put_queue_quiet:
  assumes "idx < length (pe_peer_queues e)" "dq_small q = dq_small (snd (pe_peer_queues e ! idx))"
    "dq_bulk q = dq_bulk (snd (pe_peer_queues e ! idx))"
  shows "quiet e (put_queue idx q e)"
proof -
  have "lane (fst (pe_peer_queues e ! idx), q) = map lane (pe_peer_queues e) ! idx"
    using assms by (simp add: lane_def)
  then have "map lane ((pe_peer_queues e)[idx := (fst (pe_peer_queues e ! idx), q)]) = map lane (pe_peer_queues e)"
    by (metis list_update_id map_update)
  then show ?thesis by (simp add: quiet_def put_queue_def)
qed

lemma quiet_upd [simp]:
  "quiet e (e\<lparr>pe_drr_cursor := c\<rparr>)" "quiet e (e\<lparr>pe_cc_rate_limited_events := n\<rparr>)" "quiet e (e\<lparr>pe_drr_rtt_scale_applied := n\<rparr>)"
  "quiet e (e\<lparr>pe_interleave_counter := n\<rparr>)" "quiet e (step_cursor e)" "quiet e (record_background_cc_rate_limit e)"
  by (simp_all add: quiet_def step_cursor_def record_background_cc_rate_limit_def)

lemma quiet_pop_kind [simp]: "quiet e (record_peer_pop_kind kind e)"
  by (cases kind) (simp_all add: quiet_def record_peer_pop_kind_def)

lemma left_empty_sel [simp]:
  "pe_peer_queues (left_empty b e) = pe_peer_queues e" "pe_control_q (left_empty b e) = pe_control_q e"
  "pe_retransmit_q (left_empty b e) = pe_retransmit_q e" "pe_queued_packets_total (left_empty b e) = pe_queued_packets_total e"
  "pe_dropped_packets (left_empty b e) = pe_dropped_packets e" "pe_config (left_empty b e) = pe_config e"
  "pe_non_empty_peers (left_empty b e) = pe_non_empty_peers e - (if b then 1 else 0)"
  by (simp_all add: left_empty_def)

lemma put_queue_sel [simp]:
  "pe_peer_queues (put_queue i q e) = (pe_peer_queues e)[i := (fst (pe_peer_queues e ! i), q)]"
  "pe_control_q (put_queue i q e) = pe_control_q e" "pe_retransmit_q (put_queue i q e) = pe_retransmit_q e"
  "pe_queued_packets_total (put_queue i q e) = pe_queued_packets_total e"
  "pe_dropped_packets (put_queue i q e) = pe_dropped_packets e" "pe_config (put_queue i q e) = pe_config e"
  "pe_non_empty_peers (put_queue i q e) = pe_non_empty_peers e"
  by (simp_all add: put_queue_def)

text \<open>Taking the packet of a peer: the queue of the peer loses the packet and the counters follow.\<close>

lemma peer_taken:
  assumes idx: "idx < length (pe_peer_queues e)" and at: "pe_peer_queues e ! idx = (dest, q)"
    and pop: "data_of (dest, q) = add_mset p (data_of (dest, q'))"
    and e': "pe_peer_queues e' = (pe_peer_queues e)[idx := (dest, q')]" "pe_control_q e' = pe_control_q e"
      "pe_retransmit_q e' = pe_retransmit_q e" "pe_queued_packets_total e' = pe_queued_packets_total e - 1"
      "pe_dropped_packets e' = pe_dropped_packets e" "pe_non_empty_peers e' = pe_non_empty_peers e - (if dq_is_empty q' then 1 else 0)"
  shows "taken e p e'"
proof -
  have "sum_list (map data_of (pe_peer_queues e')) + data_of (dest, q) = sum_list (map data_of (pe_peer_queues e)) + data_of (dest, q')"
    using sum_list_upd [OF idx, of data_of "(dest, q')"] by (simp only: e' at)
  then have d: "queued e = add_mset p (queued e')"
    using pop e' by (simp add: queued_def)
  have "busy_peers e' + busy (dest, q) = busy_peers e + busy (dest, q')"
    using sum_list_upd [OF idx, of busy "(dest, q')"] by (simp only: busy_peers_def e' at)
  moreover have "busy (dest, q) = 1" using empty_data [of q dest] pop by (simp add: busy_def)
  moreover have "busy (dest, q') = (if dq_is_empty q' then 0 else 1)" by (simp add: busy_def)
  ultimately have b: "busy_peers e' = busy_peers e - (if dq_is_empty q' then 1 else 0)"
    by (cases "dq_is_empty q'") simp_all
  have "map fst (pe_peer_queues e') = map fst (pe_peer_queues e)"
    unfolding e' using idx at by (metis fst_conv list_update_id map_update)
  then have "books e'" if "books e"
    using that d b e' by (simp add: books_def tab_ok_def)
  with d e' show ?thesis by (simp add: taken_def)
qed

section \<open>Choosing a packet\<close>

text \<open>The result of a selection: no packet and nothing moved, or a packet taken out of the queues.\<close>

definition picked :: "PacingEngine \<Rightarrow> NextPacket option \<times> PacingEngine \<Rightarrow> bool" where
  "picked e r = (case r of (None, e') \<Rightarrow> quiet e e' | (Some p, e') \<Rightarrow> taken e (next_wire p) e')"

lemma picked_quiet: "quiet e e1 \<Longrightarrow> picked e1 r \<Longrightarrow> picked e r"
  by (auto simp: picked_def intro: quiet_trans quiet_taken split: prod.splits option.splits)

lemma picked_None [simp]: "picked e (None, e') = quiet e e'"
  by (simp add: picked_def)

lemma picked_Some [simp]: "picked e (Some p, e') = taken e (next_wire p) e'"
  by (simp add: picked_def)

lemma picked_or:
  assumes "picked e r" and alt: "\<And>e1. quiet e e1 \<Longrightarrow> picked e1 (alt e1)"
  shows "picked e (or_pop r alt)"
proof -
  obtain p e1 where r: "r = (p, e1)" by fastforce
  show ?thesis using assms(1) picked_quiet [OF _ alt] by (cases p) (auto simp: r or_pop_def)
qed

lemma quiet_len: "quiet e e' \<Longrightarrow> length (pe_peer_queues e') = length (pe_peer_queues e)"
  unfolding quiet_def by (metis length_map)

lemma data_popped_picked:
  assumes idx: "idx < length (pe_peer_queues e)" and at: "pe_peer_queues e ! idx = (dest, q)"
    and pop: "data_of (dest, q) = add_mset (qd_pkt entry, dest) (data_of (dest, q'))"
  shows "picked e (data_popped dest entry kind (dq_is_empty q') (put_queue idx q' e))"
proof -
  let ?e = "record_peer_pop_kind kind (put_queue idx q' e)"
  have sel: "pe_peer_queues ?e = (pe_peer_queues e)[idx := (dest, q')]" "pe_control_q ?e = pe_control_q e"
    "pe_retransmit_q ?e = pe_retransmit_q e" "pe_queued_packets_total ?e = pe_queued_packets_total e"
    "pe_dropped_packets ?e = pe_dropped_packets e" "pe_non_empty_peers ?e = pe_non_empty_peers e"
    by (cases kind; simp add: record_peer_pop_kind_def at)+
  show ?thesis unfolding data_popped_def Let_def picked_def
    by (simp, rule peer_taken [OF idx at pop]) (simp_all add: sel)
qed

lemma visit_peer_picked: "idx < length (pe_peer_queues e) \<Longrightarrow> picked e (visit_peer now idx e)"
proof -
  assume idx: "idx < length (pe_peer_queues e)"
  obtain dest q where at: "pe_peer_queues e ! idx = (dest, q)" by fastforce
  obtain r q' where pop: "pop_data (pc_drr_small_packet_priority (pe_config e)) now q = (r, q')" by fastforce
  show ?thesis
  proof (cases r)
    case None
    with pop have "q' = q" using pop_data_None by blast
    with None pop at idx show ?thesis by (auto simp: visit_peer_def Let_def picked_def intro: put_queue_quiet)
  next
    case (Some ek)
    obtain entry kind where "ek = (entry, kind)" by fastforce
    with Some pop have "data_of (dest, q) = add_mset (qd_pkt entry, dest) (data_of (dest, q'))"
      using pop_data_Some by blast
    from data_popped_picked [OF idx at this] Some pop at \<open>ek = (entry, kind)\<close> show ?thesis
      by (auto simp: visit_peer_def Let_def picked_def)
  qed
qed

text \<open>The three loops share one step: a visit that picks, then the rest of the loop from where nothing moved.\<close>

lemma visit_then:
  assumes "picked e (r, e1)" "r = None \<Longrightarrow> quiet e e1 \<Longrightarrow> picked e1 rest"
  shows "picked e (case r of Some p \<Rightarrow> (Some p, e1) | None \<Rightarrow> rest)"
  using assms by (cases r) (auto intro: picked_quiet)

lemma cursor_in_range:
  "n = length (pe_peer_queues e) \<Longrightarrow> 0 < n \<Longrightarrow> pe_drr_cursor e mod n < length (pe_peer_queues (step_cursor e))"
  by (simp add: step_cursor_def)

lemma frozen_loop_picked: "n = length (pe_peer_queues e) \<Longrightarrow> 0 < n \<Longrightarrow> picked e (frozen_loop k n now e)"
proof (induction k arbitrary: e)
  case (Suc k)
  obtain r e1 where r: "visit_peer now (pe_drr_cursor e mod n) (step_cursor e) = (r, e1)" by fastforce
  have "picked e (r, e1)"
    using picked_quiet [OF quiet_upd(5) visit_peer_picked [OF cursor_in_range [OF Suc.prems], of now]] r by simp
  moreover have "picked e1 (frozen_loop k n now e1)" if "quiet e e1"
    using Suc.IH [of e1] Suc.prems quiet_len [OF that] by simp
  ultimately show ?case using visit_then [of e r e1] by (simp add: r Let_def)
qed (simp add: picked_def)

lemma plain_loop_picked: "list_all (\<lambda>i. i < length (pe_peer_queues e)) idxs \<Longrightarrow> picked e (plain_loop idxs now e)"
proof (induction idxs arbitrary: e)
  case (Cons idx idxs)
  obtain r e1 where r: "visit_peer now idx e = (r, e1)" by fastforce
  have "picked e (r, e1)" using visit_peer_picked [of idx e now] Cons.prems r by simp
  moreover have "picked e1 (plain_loop idxs now e1)" if "quiet e e1"
    using Cons.IH [of e1] Cons.prems quiet_len [OF that] by simp
  ultimately show ?case using visit_then [of e r e1] by (simp add: r Let_def)
qed (simp add: picked_def)

lemma drr_visit_picked:
  assumes idx: "idx < length (pe_peer_queues e)"
  shows "picked e (fst (drr_visit now idx e))"
proof -
  obtain dest q where at: "pe_peer_queues e ! idx = (dest, q)" by fastforce
  let ?prio = "pc_drr_small_packet_priority (pe_config e)"
  have q1: "quiet e (put_queue idx (q\<lparr>dq_deficit := d\<rparr>) e)" for d using idx at by (auto intro: put_queue_quiet)
  have q2: "picked e (None, put_queue idx q' e)" if "pop_data ?prio now (q\<lparr>dq_deficit := d\<rparr>) = (None, q')" for d q'
    using pop_data_None [OF that] q1 by (simp add: picked_def)
  have q3: "picked e (data_popped dest entry kind (dq_is_empty q') (put_queue idx q' e))"
    if "pop_data ?prio now (q\<lparr>dq_deficit := d\<rparr>) = (Some (entry, kind), q')" for d q' entry kind
    using pop_data_Some [OF that, of dest] data_of_cong [of "q\<lparr>dq_deficit := d\<rparr>" q dest] by (intro data_popped_picked [OF idx at]) simp
  have q4: "quiet e (record_background_cc_rate_limit (put_queue idx (q\<lparr>dq_deficit := d\<rparr>) e))" for d
    using q1 quiet_upd(6) quiet_trans by blast
  show ?thesis unfolding drr_visit_def Let_def at
    by (auto simp: q1 q4 split: prod.splits option.splits intro: q2 [unfolded picked_None] q3)
qed

lemma drr_loop_picked: "n = length (pe_peer_queues e) \<Longrightarrow> 0 < n \<Longrightarrow> picked e (drr_loop k n now hits e)"
proof (induction k arbitrary: e hits)
  case (Suc k)
  obtain r e1 hit where r: "drr_visit now (pe_drr_cursor e mod n) (step_cursor e) = ((r, e1), hit)" by (metis surj_pair)
  have "picked e (r, e1)"
    using picked_quiet [OF quiet_upd(5) drr_visit_picked [OF cursor_in_range [OF Suc.prems], of now]] r by simp
  moreover have "picked e1 (drr_loop k n now h e1)" if "quiet e e1" for h
    using Suc.IH [of e1] Suc.prems quiet_len [OF that] by simp
  ultimately show ?case using visit_then [of e r e1] by (simp add: r Let_def)
qed simp

lemma pop_plain_picked: "picked e (pop_control_for_send e)" "picked e (pop_retransmit_for_send e)"
  by (auto simp: pop_control_for_send_def pop_retransmit_for_send_def taken_def queued_def books_def busy_peers_def split: list.splits)

lemma pop_interleaved_picked: "picked e (try_pop_control_interleaved now e)"
  unfolding try_pop_control_interleaved_def Let_def
  by (auto intro: picked_quiet [OF quiet_upd(4) pop_plain_picked(1)])

lemma pop_peers_picked: "picked e (pop_peers now e)"
  by (auto simp: pop_peers_def Let_def list_all_iff intro: plain_loop_picked drr_loop_picked)

lemma frozen_picked: "picked e (frozen_loop (length (pe_peer_queues e)) (length (pe_peer_queues e)) now e)"
  by (cases "pe_peer_queues e = []") (auto intro: frozen_loop_picked)

lemma pop_next_apd_picked: "picked e (pop_next_apd freeze_drr age now e)"
  by (auto simp: pop_next_apd_def pop_next_def
      intro!: picked_or pop_plain_picked pop_interleaved_picked pop_peers_picked frozen_picked)

section \<open>Sending\<close>

text \<open>What a sending step did: packets left for the wire, the books stay right.\<close>

definition sends :: "PacingEngine \<Rightarrow> wire \<Rightarrow> wire \<Rightarrow> PacingEngine \<Rightarrow> bool" where
  "sends e sent sent' e' =
     ((\<exists>out. sent' = sent @ out \<and> queued e = queued e' + mset out) \<and> (books e \<longrightarrow> books e') \<and> pe_dropped_packets e' = pe_dropped_packets e)"

lemma sends_refl [simp]: "sends e sent sent e"
  by (simp add: sends_def)

lemma sends_trans: "sends e s s1 e1 \<Longrightarrow> sends e1 s1 s2 e2 \<Longrightarrow> sends e s s2 e2"
  by (fastforce simp: sends_def ac_simps)

lemma quiet_sends: "quiet e e' \<Longrightarrow> sends e sent sent e'"
  using quiet_queued [of e e'] quiet_books [of e e'] by (auto simp: sends_def quiet_def)

lemma taken_sends: "taken e p e1 \<Longrightarrow> quiet e1 e2 \<Longrightarrow> sends e sent (sent @ [p]) e2"
  using quiet_queued [of e1 e2] quiet_books [of e1 e2] by (auto simp: sends_def taken_def quiet_def)

text \<open>A packet that was taken and comes back.\<close>

definition returned :: "PacingEngine \<Rightarrow> bytes \<times> SocketAddr \<Rightarrow> PacingEngine \<Rightarrow> bool" where
  "returned e p e' = (queued e' = add_mset p (queued e) \<and> pe_dropped_packets e' = pe_dropped_packets e
     \<and> (books e \<longrightarrow> size (queued e') < 2 ^ 64 \<longrightarrow> books e'))"

lemma taken_returned: "taken e p e1 \<Longrightarrow> returned e1 p e2 \<Longrightarrow> sends e sent sent e2"
  by (auto simp: taken_def returned_def sends_def books_def)

lemma returned_quiet: "returned e p e1 \<Longrightarrow> quiet e1 e2 \<Longrightarrow> returned e p e2"
  using quiet_queued [of e1 e2] quiet_books [of e1 e2] by (auto simp: returned_def quiet_def)

lemma back_to_front:
  assumes "pe_control_q e' = q # pe_control_q e \<and> pe_retransmit_q e' = pe_retransmit_q e \<or>
      pe_retransmit_q e' = q # pe_retransmit_q e \<and> pe_control_q e' = pe_control_q e"
    and "pe_peer_queues e' = pe_peer_queues e" "pe_queued_packets_total e' = sat_add 64 (pe_queued_packets_total e) 1"
    "pe_dropped_packets e' = pe_dropped_packets e" "pe_non_empty_peers e' = pe_non_empty_peers e"
  shows "returned e (qp_pkt q, qp_dest q) e'"
proof -
  have q: "queued e' = add_mset (qp_pkt q, qp_dest q) (queued e)" using assms by (auto simp: queued_def)
  with assms show ?thesis by (auto simp: returned_def books_def busy_peers_def sat_add_def)
qed

text \<open>Replacing the queue of one peer in the table.\<close>

lemma peer_put:
  assumes e': "pe_peer_queues e' = tab_put dest q' (pe_peer_queues e)" "pe_control_q e' = pe_control_q e" "pe_retransmit_q e' = pe_retransmit_q e"
    and q: "data_of (dest, q) = data_of (dest, peer_queue dest e)"
  shows "queued e' + data_of (dest, q) = queued e + data_of (dest, q')"
    and "busy_peers e' + (if dq_is_empty q then 0 else 1) = busy_peers e + (if dq_is_empty q' then 0 else 1)"
    and "tab_ok (pe_peer_queues e) \<Longrightarrow> tab_ok (pe_peer_queues e')"
proof -
  have old: "old_part data_of dest (tab_get (pe_peer_queues e) dest) = data_of (dest, q)"
    "old_part busy dest (tab_get (pe_peer_queues e) dest) = busy (dest, q)"
    using q empty_data [of q dest] empty_data [of "peer_queue dest e" dest]
    by (auto simp: old_part_def peer_queue_def data_of_def busy_def dq_is_empty_def PeerDataQueue_new_def split: option.splits)
  show "queued e' + data_of (dest, q) = queued e + data_of (dest, q')"
    using sum_list_put [of data_of dest q' "pe_peer_queues e"] by (simp add: queued_def old e' ac_simps)
  show "busy_peers e' + (if dq_is_empty q then 0 else 1) = busy_peers e + (if dq_is_empty q' then 0 else 1)"
    using sum_list_put [of busy dest q' "pe_peer_queues e"] by (simp only: busy_peers_def old e' busy_def snd_conv)
  show "tab_ok (pe_peer_queues e')" if "tab_ok (pe_peer_queues e)" using that by (simp add: e')
qed

lemma requeue_data_returned:
  assumes e'_def: "e' = requeue_data_at_front dest pkt t e"
  shows "returned e (pkt, dest) (e'\<lparr>pe_queued_packets_total := sat_add 64 (pe_queued_packets_total e') 1\<rparr>)"
proof -
  define q where "q = peer_queue dest e"
  define q' where "q' = push_front_requeue \<lparr>qd_pkt = pkt, qd_enqueued_at = t\<rparr>
                 (pc_drr_small_packet_priority (pe_config e)) (pc_drr_small_packet_threshold_bytes (pe_config e)) q"
  let ?e = "e'\<lparr>pe_queued_packets_total := sat_add 64 (pe_queued_packets_total e') 1\<rparr>"
  have sel: "pe_peer_queues ?e = tab_put dest q' (pe_peer_queues e)" "pe_control_q ?e = pe_control_q e"
    "pe_retransmit_q ?e = pe_retransmit_q e" "pe_queued_packets_total ?e = sat_add 64 (pe_queued_packets_total e) 1"
    "pe_dropped_packets ?e = pe_dropped_packets e"
    "pe_non_empty_peers ?e = (if dq_is_empty q then sat_add 64 (pe_non_empty_peers e) 1 else pe_non_empty_peers e)"
    by (simp_all add: e'_def requeue_data_at_front_def Let_def q_def q'_def)
  have d: "data_of (dest, q') = add_mset (pkt, dest) (data_of (dest, q))" by (simp add: q'_def data_of_push_front)
  note put = peer_put [OF sel(1-3), of q, unfolded d q_def, OF refl, folded q_def]
  have qd: "queued ?e = add_mset (pkt, dest) (queued e)" using put(1) by simp
  have b: "busy_peers ?e = busy_peers e + (if dq_is_empty q then 1 else 0)"
    using put(2) empty_data [of q' dest] d by (cases "dq_is_empty q") simp_all
  have "books ?e" if "books e" "size (queued ?e) < 2 ^ 64"
  proof -
    have "busy_peers e < 2 ^ 64 - 1" using busy_le [of e] that qd by simp
    with that qd b sel put(3) show ?thesis by (auto simp: books_def sat_add_def)
  qed
  with qd sel(5) show ?thesis unfolding returned_def by blast
qed

lemma send_failed_returned:
  assumes "returned e p (e1\<lparr>pe_queued_packets_total := sat_add 64 (pe_queued_packets_total e1) 1\<rparr>)"
    and "send_failed outcome dest n e1 = (r, e2)"
  shows "returned e p e2"
proof -
  have "quiet (e1\<lparr>pe_queued_packets_total := sat_add 64 (pe_queued_packets_total e1) 1\<rparr>) e2"
    using assms(2) by (auto simp: send_failed_def Let_def quiet_def split: if_splits)
  with assms(1) returned_quiet show ?thesis by blast
qed

lemma requeue_next_returned:
  "returned e (next_wire item) ((requeue_next item e)\<lparr>pe_queued_packets_total := sat_add 64 (pe_queued_packets_total (requeue_next item e)) 1\<rparr>)"
proof (cases item)
  case (NextControl q)
  then show ?thesis by (simp add: requeue_next_def) (rule back_to_front, simp_all)
next
  case (NextData pkt dest t)
  then show ?thesis using requeue_data_returned [OF refl] by (simp add: requeue_next_def)
qed

lemma send_queued_sends:
  assumes "taken e (qp_pkt q, qp_dest q) e1" "try_send_queued_packet outcome q rtx sent e1 = (r, sent', e2)"
  shows "sends e sent sent' e2"
proof (cases "outcome = SendOk")
  case True
  with assms(2) have "sent' = sent @ [(qp_pkt q, qp_dest q)]" "quiet e1 e2"
    by (auto simp: try_send_queued_packet_def budget_consume_def quiet_def)
  with assms(1) show ?thesis by (auto intro: taken_sends)
next
  case False
  let ?f = "if rtx then e1\<lparr>pe_retransmit_q := q # pe_retransmit_q e1\<rparr> else e1\<lparr>pe_control_q := q # pe_control_q e1\<rparr>"
  have "sent' = sent" "send_failed outcome (qp_dest q) (length sent) ?f = (r, e2)"
    using assms(2) False by (auto simp: try_send_queued_packet_def Let_def split: SendOutcome.splits prod.splits)
  moreover have "returned e1 (qp_pkt q, qp_dest q) (?f\<lparr>pe_queued_packets_total := sat_add 64 (pe_queued_packets_total ?f) 1\<rparr>)"
    by (rule back_to_front) auto
  ultimately show ?thesis using assms(1) send_failed_returned taken_returned by blast
qed

lemma send_next_sends:
  assumes "taken e (next_wire item) e1" "try_send_next_packet outcome item apd sent e1 = (r, sent', e2)"
  shows "sends e sent sent' e2"
proof (cases "outcome = SendOk")
  case True
  with assms(2) have "sent' = sent @ [next_wire item]" "quiet e1 e2"
    by (auto simp: try_send_next_packet_def budget_consume_def quiet_def Let_def split: prod.splits NextPacket.splits)
  with assms(1) show ?thesis by (auto intro: taken_sends)
next
  case False
  have "sent' = sent" "send_failed outcome (snd (next_wire item)) (length sent) (requeue_next item e1) = (r, e2)"
    using assms(2) False by (auto simp: try_send_next_packet_def Let_def split: SendOutcome.splits prod.splits)
  then show ?thesis using assms(1) send_failed_returned [OF requeue_next_returned] taken_returned by blast
qed

section \<open>A tick\<close>

lemma front_taken:
  "pe_retransmit_q e = q # qs \<Longrightarrow>
     taken e (qp_pkt q, qp_dest q) (e\<lparr>pe_retransmit_q := qs, pe_queued_packets_total := pe_queued_packets_total e - 1\<rparr>)"
  "pe_control_q e = q # qs \<Longrightarrow>
     taken e (qp_pkt q, qp_dest q) (e\<lparr>pe_control_q := qs, pe_queued_packets_total := pe_queued_packets_total e - 1\<rparr>)"
  by (auto simp: taken_def queued_def books_def busy_peers_def)

lemma reserved_rtx_sends: "reserved_rtx_loop k rem init dl env sent e = (r, sent', e') \<Longrightarrow> sends e sent sent' e'"
proof (induction k arbitrary: rem sent e)
  case (Suc k)
  show ?case
  proof (cases "pe_retransmit_q e")
    case (Cons q qs)
    obtain r1 s1 e1 where t: "try_send_queued_packet (tn_outcome (env k)) q True sent
        (e\<lparr>pe_retransmit_q := qs, pe_queued_packets_total := pe_queued_packets_total e - 1\<rparr>) = (r1, s1, e1)" by (metis surj_pair)
    note s = send_queued_sends [OF front_taken(1) [OF Cons] t]
    have "sends e sent s1 (e1\<lparr>pe_reserved_rtx_sends := n\<rparr>)" for n
      by (rule sends_trans [OF s quiet_sends]) (simp add: quiet_def)
    note rest = sends_trans [OF this Suc.IH]
    from s Suc.prems Cons t show ?thesis
      by (auto simp: Let_def dest: rest split: if_splits option.splits)
  qed (use Suc.prems in \<open>auto split: if_splits\<close>)
qed simp

lemma reserved_ctrl_sends: "reserved_ctrl_loop k rem init dl env sent e = (r, sent', e') \<Longrightarrow> sends e sent sent' e'"
proof (induction k arbitrary: rem sent e)
  case (Suc k)
  show ?case
  proof (cases "pe_control_q e")
    case (Cons q qs)
    obtain r1 s1 e1 where t: "try_send_queued_packet (tn_outcome (env k)) q False sent
        (e\<lparr>pe_control_q := qs, pe_queued_packets_total := pe_queued_packets_total e - 1\<rparr>) = (r1, s1, e1)" by (metis surj_pair)
    note s = send_queued_sends [OF front_taken(2) [OF Cons] t]
    have "sends e sent s1 (e1\<lparr>pe_reserved_ctrl_sends := n\<rparr>)" for n
      by (rule sends_trans [OF s quiet_sends]) (simp add: quiet_def)
    note rest = sends_trans [OF this Suc.IH]
    from s Suc.prems Cons t show ?thesis
      by (auto simp: Let_def dest: rest split: if_splits option.splits)
  qed (use Suc.prems in \<open>auto split: if_splits\<close>)
qed simp

lemma drain_reserved_sends: "drain_reserved_prefix dl renv cenv e = (r, sent, e') \<Longrightarrow> sends e [] sent e'"
  by (auto simp: drain_reserved_prefix_def Let_def split: prod.splits option.splits
      dest!: reserved_rtx_sends reserved_ctrl_sends intro: sends_trans)

lemma burst_loop_sends: "burst_loop k fr dl env sent e = (r, sent', e') \<Longrightarrow> sends e sent sent' e'"
proof (induction k arbitrary: sent e)
  case (Suc k)
  obtain p e1 where p: "pop_next_apd fr (tn_age_clock (env k)) (tn_pop_clock (env k)) e = (p, e1)" by fastforce
  have pk: "picked e (p, e1)" using pop_next_apd_picked [of e fr "tn_age_clock (env k)" "tn_pop_clock (env k)"] p by simp
  show ?case
  proof (cases p)
    case None
    with pk Suc.prems p show ?thesis by (auto intro: quiet_sends split: if_splits)
  next
    case (Some item)
    obtain r1 s1 e2 where t: "try_send_next_packet (tn_outcome (env k)) item True sent e1 = (r1, s1, e2)" by (metis surj_pair)
    have s: "sends e sent s1 e2" using send_next_sends [OF _ t] pk Some by simp
    note rest = sends_trans [OF this Suc.IH]
    from s Suc.prems p Some t show ?thesis by (auto dest: rest split: if_splits option.splits)
  qed
qed simp

text \<open>What a step may lose: packets that are counted as dropped.\<close>

definition loses :: "PacingEngine \<Rightarrow> (bytes \<times> SocketAddr) multiset \<Rightarrow> PacingEngine \<Rightarrow> bool" where
  "loses e lost e' = (queued e = queued e' + lost \<and> (books e \<longrightarrow> books e' \<and>
     pe_dropped_packets e' = sat_add 64 (pe_dropped_packets e) (size lost)))"

lemma sat_add_sat_add: "sat_add w (sat_add w a b) c = sat_add w a (b + c)"
  by (auto simp: sat_add_def)

lemma sat_add_64_less: "sat_add 64 a b < 2 ^ 64"
  by (auto simp: sat_add_def)

lemma loses_trans: "loses e l1 e1 \<Longrightarrow> loses e1 l2 e2 \<Longrightarrow> loses e (l1 + l2) e2"
  by (auto simp: loses_def sat_add_sat_add ac_simps)

lemma quiet_loses: "quiet e e' \<Longrightarrow> loses e {#} e'"
  using quiet_queued [of e e'] quiet_books [of e e'] by (auto simp: loses_def quiet_def books_def sat_add_def)

lemma shed_step_loses:
  assumes at: "idx < length (pe_peer_queues e)" "dq_bulk (snd (pe_peer_queues e ! idx)) \<noteq> []"
    and q: "q = (snd (pe_peer_queues e ! idx))\<lparr>dq_bulk := tl (dq_bulk (snd (pe_peer_queues e ! idx)))\<rparr>"
    and e1: "e1 = left_empty (dq_is_empty q) (put_queue idx q e)"
  shows "\<exists>p. loses e {#p#} (e1\<lparr>pe_queued_packets_total := pe_queued_packets_total e1 - 1, pe_shed_sojourn := n,
           pe_dropped_packets := sat_add 64 (pe_dropped_packets e1) 1\<rparr>)"
proof -
  obtain dest q0 where at': "pe_peer_queues e ! idx = (dest, q0)" by fastforce
  obtain b bs where b: "dq_bulk q0 = b # bs" using at at' by (cases "dq_bulk q0") auto
  have "data_of (dest, q0) = add_mset (qd_pkt b, dest) (data_of (dest, q))"
    using b at' by (simp add: q data_of_def)
  then have "taken e (qd_pkt b, dest) (e1\<lparr>pe_queued_packets_total := pe_queued_packets_total e1 - 1, pe_shed_sojourn := n\<rparr>)"
    by (rule peer_taken [OF at(1) at']) (simp_all add: e1 at')
  then have "loses e {#(qd_pkt b, dest)#} (e1\<lparr>pe_queued_packets_total := pe_queued_packets_total e1 - 1, pe_shed_sojourn := n,
           pe_dropped_packets := sat_add 64 (pe_dropped_packets e1) 1\<rparr>)"
    using sat_add_64_less [of "pe_dropped_packets e" 1]
    by (simp add: taken_def loses_def queued_def books_def busy_peers_def e1)
  then show ?thesis by blast
qed

lemma shed_loop_loses: "n = length (pe_peer_queues e) \<Longrightarrow> 0 < n \<Longrightarrow> \<exists>lost. loses e lost (shed_loop k n now dl clk d e)"
proof (induction k arbitrary: e d)
  case 0
  then show ?case using quiet_loses [OF quiet_refl, of e] by auto
next
  case (Suc k)
  let ?e1 = "step_cursor e"
  let ?idx = "pe_drr_cursor e mod n"
  have q1: "loses e {#} ?e1" by (rule quiet_loses) simp
  have len1: "length (pe_peer_queues ?e1) = n" using Suc.prems by (simp add: step_cursor_def)
  have idx: "?idx < length (pe_peer_queues ?e1)" using cursor_in_range Suc.prems by simp
  have skip: "\<exists>lost. loses e lost (shed_loop k n now dl clk d' ?e1)" for d'
    using Suc.IH [of ?e1] len1 Suc.prems loses_trans [OF q1] by (metis add_0)
  define q where "q = (snd (pe_peer_queues ?e1 ! ?idx))\<lparr>dq_bulk := tl (dq_bulk (snd (pe_peer_queues ?e1 ! ?idx)))\<rparr>"
  define e2 where "e2 = left_empty (dq_is_empty q) (put_queue ?idx q ?e1)"
  define e3 where "e3 = e2\<lparr>pe_queued_packets_total := pe_queued_packets_total e2 - 1, pe_shed_sojourn := sat_add 64 (pe_shed_sojourn e2) 1,
           pe_dropped_packets := sat_add 64 (pe_dropped_packets e2) 1\<rparr>"
  have shed: "\<exists>lost. loses e lost (shed_loop k n now dl clk d' e3)" if b: "dq_bulk (snd (pe_peer_queues ?e1 ! ?idx)) \<noteq> []" for d'
  proof -
    obtain p where p: "loses ?e1 {#p#} e3" using shed_step_loses [OF idx b q_def e2_def] unfolding e3_def by blast
    have "length (pe_peer_queues e3) = n" using len1 by (simp add: e3_def e2_def)
    then obtain l where "loses e3 l (shed_loop k n now dl clk d' e3)" using Suc.IH [of e3] Suc.prems by metis
    with loses_trans [OF loses_trans [OF q1 p]] show ?thesis by blast
  qed
  show ?case
  proof (cases "bulk_front_sojourn_ms now (snd (pe_peer_queues ?e1 ! ?idx))")
    case None
    then show ?thesis using skip [of d] quiet_loses [OF quiet_refl, of e] by (auto simp: Let_def)
  next
    case (Some soj)
    then have "dq_bulk (snd (pe_peer_queues ?e1 ! ?idx)) \<noteq> []" by (auto simp: bulk_front_sojourn_ms_def)
    note s = shed [OF this]
    have eq: "shed_loop (Suc k) n now dl clk d e =
        (if d \<ge> sh_max_per_tick (pc_shed (pe_config e)) \<or> clk k \<ge> dl then e
         else if \<not> f64_lt (sh_max_sojourn_ms (pc_shed (pe_config ?e1))) soj then shed_loop k n now dl clk d ?e1
         else shed_loop k n now dl clk (sat_add 32 d 1) e3)"
      by (simp only: shed_loop.simps Let_def Some option.case q_def e2_def e3_def)
    show ?thesis unfolding eq using s skip [of d] quiet_loses [OF quiet_refl, of e] by (auto simp del: One_nat_def)
  qed
qed

lemma shed_loses: "\<exists>lost. loses e lost (shed_stale_bulk_rr now dl clk e)"
  using quiet_loses [OF quiet_refl, of e] shed_loop_loses [of "length (pe_peer_queues e)" e "length (pe_peer_queues e)" now dl clk 0]
  by (cases "pe_peer_queues e = []") (auto simp: shed_stale_bulk_rr_def)

lemma refill_quiet: "quiet e (tick_refill now e)"
  by (simp add: tick_refill_def Let_def refresh_drr_rtt_ref_def quiet_def)

lemma decide_quiet: "tick_decide now clk e = (d, e') \<Longrightarrow> quiet e e'"
  by (auto simp: tick_decide_def Let_def quiet_def split: if_splits prod.splits)

text \<open>A tick: what was queued is still queued, on the wire, or lost and counted as dropped.\<close>

lemma tick_accounts:
  assumes "tick_with env e = (r, sent, e')"
  shows "\<exists>lost. queued e = queued e' + mset sent + lost \<and>
    (books e \<longrightarrow> books e' \<and> pe_dropped_packets e' = sat_add 64 (pe_dropped_packets e) (size lost))"
proof -
  let ?now = "tk_now env" and ?dl = "tk_now env + max (pc_max_tick_work_us (pe_config e)) 100 * 1000"
  obtain burst freeze e1 where d: "tick_decide ?now (tk_apd_clock env) (tick_refill ?now e) = ((burst, freeze), e1)"
    by (metis surj_pair)
  have q1: "loses e {#} e1" using quiet_loses quiet_trans [OF refill_quiet decide_quiet [OF d]] by blast
  define e2 where "e2 = shed_stale_bulk_rr ?now ?dl (tk_shed_clock env) e1"
  obtain lost where "loses e1 lost e2" using shed_loses e2_def by blast
  with q1 have l: "loses e lost e2" using loses_trans by fastforce
  obtain r1 s1 e3 where p: "drain_reserved_prefix ?dl (tk_rtx env) (tk_ctrl env) e2 = (r1, s1, e3)" by (metis surj_pair)
  have "sends e2 [] sent e'"
  proof (cases r1)
    case None
    with assms p d have "burst_loop burst freeze ?dl (tk_burst env) s1 e3 = (r, sent, e')"
      by (simp add: tick_with_def Let_def e2_def)
    with drain_reserved_sends [OF p] burst_loop_sends sends_trans show ?thesis by blast
  next
    case (Some r')
    with assms p d have "sent = s1" "e' = e3" by (simp_all add: tick_with_def Let_def e2_def)
    with drain_reserved_sends [OF p] show ?thesis by simp
  qed
  with l show ?thesis by (intro exI [of _ lost]) (auto simp: sends_def loses_def)
qed

section \<open>Enqueueing\<close>

text \<open>What an operation does to the books: packets come in, some leave, some are lost.\<close>

definition accounts :: "PacingEngine \<Rightarrow> wire \<Rightarrow> wire \<Rightarrow> (bytes \<times> SocketAddr) multiset \<Rightarrow> PacingEngine \<Rightarrow> bool" where
  "accounts e acc sent lost e' = (queued e + mset acc = queued e' + mset sent + lost \<and>
     (books e \<longrightarrow> size (queued e) + length acc < 2 ^ 64 \<longrightarrow> books e'))"

definition counted :: "PacingEngine \<Rightarrow> (bytes \<times> SocketAddr) multiset \<Rightarrow> PacingEngine \<Rightarrow> bool" where
  "counted e lost e' = (books e \<longrightarrow> pe_dropped_packets e' = sat_add 64 (pe_dropped_packets e) (size lost))"

lemma quiet_accounts: "quiet e e' \<Longrightarrow> accounts e [] [] {#} e' \<and> counted e {#} e'"
  using quiet_loses [of e e'] by (auto simp: accounts_def counted_def loses_def)

lemma exchange:
  fixes a :: "'m::cancel_comm_monoid_add"
  assumes 1: "a' + x = a + x'" and 2: "x + p = x' + l"
  shows "a + p = a' + l"
proof -
  have "(a + p) + x' = (a + x') + p" by (simp add: ac_simps)
  also have "\<dots> = a' + (x + p)" by (simp only: 1 [symmetric] add.assoc)
  also have "\<dots> = (a' + l) + x'" by (simp only: 2) (simp add: ac_simps)
  finally show ?thesis by simp
qed

lemma push_effect:
  assumes "dq_push pkt now cap prio th q = (kept, q')" "0 < cap"
  shows "\<exists>lost. data_of (k, q) + {#(pkt, k)#} = data_of (k, q') + lost \<and> size lost = (if kept then 0 else 1) \<and> \<not> dq_is_empty q'"
proof (cases "dq_len q \<ge> cap")
  case True
  with assms obtain p where "data_of (k, q) = add_mset p (data_of (k, drop_oldest_for_capacity q))"
    using data_of_drop_oldest [of q k] by auto
  moreover have "\<not> kept" "data_of (k, q') = add_mset (pkt, k) (data_of (k, drop_oldest_for_capacity q))"
    using assms True by (auto simp: dq_push_def Let_def data_of_push_back)
  ultimately show ?thesis using empty_data [of q' k] by (intro exI [of _ "{#p#}"]) auto
next
  case False
  then have "kept" "data_of (k, q') = add_mset (pkt, k) (data_of (k, q))"
    using assms by (auto simp: dq_push_def Let_def data_of_push_back)
  then show ?thesis using empty_data [of q' k] by auto
qed

lemma enqueue_peer_accounts:
  assumes "enqueue_peer_with_hints pkt dest rtt qd now e = (kept, e')"
  shows "\<exists>lost. accounts e [(pkt, dest)] [] lost e' \<and> counted e lost e'"
proof -
  define q where "q = apply_peer_hints rtt qd (peer_queue dest e)"
  obtain kept' q' where p: "dq_push pkt now (max (pc_max_data_queue_packets (pe_config e)) 1) (pc_drr_small_packet_priority (pe_config e))
                        (pc_drr_small_packet_threshold_bytes (pe_config e)) q = (kept', q')" by fastforce
  have "0 < max (pc_max_data_queue_packets (pe_config e)) 1" by simp
  from push_effect [OF p this, of dest] obtain lost where
    l: "data_of (dest, q) + {#(pkt, dest)#} = data_of (dest, q') + lost" "size lost = (if kept' then 0 else 1)" "\<not> dq_is_empty q'" by blast
  have sel: "pe_peer_queues e' = tab_put dest q' (pe_peer_queues e)" "pe_control_q e' = pe_control_q e" "pe_retransmit_q e' = pe_retransmit_q e"
    "pe_queued_packets_total e' = (if kept' then sat_add 64 (pe_queued_packets_total e) 1 else pe_queued_packets_total e)"
    "pe_dropped_packets e' = (if kept' then pe_dropped_packets e else sat_add 64 (pe_dropped_packets e) 1)"
    "pe_non_empty_peers e' = (if dq_is_empty q then sat_add 64 (pe_non_empty_peers e) 1 else pe_non_empty_peers e)"
    using assms p l(3) by (auto simp: enqueue_peer_with_hints_def Let_def q_def)
  have "data_of (dest, q) = data_of (dest, peer_queue dest e)" by (simp add: q_def data_of_def)
  note put = peer_put [OF sel(1-3) this]
  have qd: "queued e + {#(pkt, dest)#} = queued e' + lost"
    by (rule exchange [OF put(1) l(1)])
  have b: "busy_peers e' = busy_peers e + (if dq_is_empty q then 1 else 0)"
    using put(2) l(3) by (cases "dq_is_empty q") simp_all
  have sz: "size (queued e) + 1 = size (queued e') + (if kept' then 0 else 1)"
    using arg_cong [OF qd, of size] l(2) by simp
  have "books e'" if "books e" "size (queued e) + 1 < 2 ^ 64"
  proof -
    have "busy_peers e < 2 ^ 64 - 1" using busy_le [of e] that by simp
    with that sz b sel put(3) sat_add_64_less [of "pe_dropped_packets e" 1] show ?thesis
      by (cases kept'; cases "dq_is_empty q") (auto simp: books_def sat_add_def)
  qed
  moreover have "counted e lost e'" using sel(5) l(2) by (auto simp: counted_def books_def sat_add_def)
  ultimately show ?thesis using qd by (auto simp: accounts_def)
qed

lemma data_of_batch:
  "data_of (k, fold (\<lambda>(p, now). push_back_classified \<lparr>qd_pkt = p, qd_enqueued_at = now\<rparr> prio th) pkts q) =
     data_of (k, q) + mset (map (\<lambda>(p, _). (p, k)) pkts)"
  by (induction pkts arbitrary: q) (auto simp: data_of_push_back)

lemma batch_accounts:
  assumes "try_enqueue_peer_batch dest pkts rtt qd e = (ok, e')"
  shows "accounts e (if ok then map (\<lambda>(p, _). (p, dest)) pkts else []) [] {#} e' \<and> counted e {#} e'"
proof (cases "pkts = []")
  case True
  with assms show ?thesis using quiet_accounts [of e e] by (auto simp: try_enqueue_peer_batch_def)
next
  case False
  define q where "q = apply_peer_hints rtt qd (peer_queue dest e)"
  have q: "data_of (dest, q) = data_of (dest, peer_queue dest e)" by (simp add: q_def data_of_def)
  show ?thesis
  proof (cases "dq_len q + length pkts > max (pc_max_data_queue_packets (pe_config e)) 1")
    case True
    then have sel: "\<not> ok" "pe_peer_queues e' = tab_put dest q (pe_peer_queues e)" "pe_control_q e' = pe_control_q e"
      "pe_retransmit_q e' = pe_retransmit_q e" "pe_queued_packets_total e' = pe_queued_packets_total e"
      "pe_dropped_packets e' = pe_dropped_packets e" "pe_non_empty_peers e' = pe_non_empty_peers e"
      using assms False by (auto simp: try_enqueue_peer_batch_def Let_def q_def)
    note put = peer_put [OF sel(2-4) q]
    from put sel show ?thesis by (auto simp: accounts_def counted_def books_def sat_add_def)
  next
    case fits: False
    define q' where "q' = fold (\<lambda>(p, now). push_back_classified \<lparr>qd_pkt = p, qd_enqueued_at = now\<rparr>
      (pc_drr_small_packet_priority (pe_config e)) (pc_drr_small_packet_threshold_bytes (pe_config e))) pkts q"
    have d: "data_of (dest, q') = data_of (dest, q) + mset (map (\<lambda>(p, _). (p, dest)) pkts)"
      unfolding q'_def by (rule data_of_batch)
    have ne: "\<not> dq_is_empty q'" using empty_data [of q' dest] d False by auto
    have put2: "tab_put dest q' (tab_put dest q t) = tab_put dest q' t" for t
      by (induction t) (auto simp: tab_put_def)
    have sel: "ok" "pe_peer_queues e' = tab_put dest q' (pe_peer_queues e)" "pe_control_q e' = pe_control_q e"
      "pe_retransmit_q e' = pe_retransmit_q e" "pe_queued_packets_total e' = sat_add 64 (pe_queued_packets_total e) (length pkts)"
      "pe_dropped_packets e' = pe_dropped_packets e"
      "pe_non_empty_peers e' = (if dq_is_empty q then sat_add 64 (pe_non_empty_peers e) 1 else pe_non_empty_peers e)"
      using assms False fits ne by (auto simp: try_enqueue_peer_batch_def Let_def q_def [symmetric] q'_def [symmetric] put2)
    note put = peer_put [OF sel(2-4) q]
    have qd: "queued e' = queued e + mset (map (\<lambda>(p, _). (p, dest)) pkts)"
      using exchange [OF put(1), of "mset (map (\<lambda>(p, _). (p, dest)) pkts)" "{#}"] by (simp add: d)
    have b: "busy_peers e' = busy_peers e + (if dq_is_empty q then 1 else 0)"
      using put(2) ne by (cases "dq_is_empty q") simp_all
    have "books e'" if "books e" "size (queued e) + length pkts < 2 ^ 64"
    proof -
      have "0 < length pkts" using False by simp
      then have "busy_peers e < 2 ^ 64 - 1" using busy_le [of e] that by linarith
      with that qd b sel put(3) show ?thesis by (cases "dq_is_empty q") (auto simp: books_def sat_add_def)
    qed
    with qd sel show ?thesis by (auto simp: accounts_def counted_def books_def sat_add_def)
  qed
qed

lemma plain_of_drop: "plain_of qs = plain_of (drop k qs) + plain_of (take k qs)"
  by (metis add.commute append_take_drop_id plain_of_simps(3))

lemma control_accounts:
  assumes "enqueue_control_with_source pkt dest rtx now e = (ev, e')"
  shows "\<exists>lost. accounts e [(pkt, dest)] [] lost e' \<and> counted e lost e'"
proof -
  define qs where "qs = (if rtx then pe_retransmit_q e else pe_control_q e)"
  define k where "k = length qs + 1 - max (if rtx then pc_max_retransmit_queue_packets (pe_config e) else pc_max_control_queue_packets (pe_config e)) 1"
  define other where "other = (if rtx then plain_of (pe_control_q e) else plain_of (pe_retransmit_q e)) + sum_list (map data_of (pe_peer_queues e))"
  have k: "k \<le> length qs" by (simp add: k_def)
  have q: "queued e = plain_of qs + other" "queued e' = add_mset (pkt, dest) (plain_of (drop k qs) + other)"
    "pe_queued_packets_total e' = sat_add 64 (pe_queued_packets_total e - k) 1" "pe_dropped_packets e' = sat_add 64 (pe_dropped_packets e) k"
    "pe_peer_queues e' = pe_peer_queues e" "pe_non_empty_peers e' = pe_non_empty_peers e"
    using assms by (cases rtx; auto simp: enqueue_control_with_source_def Let_def queued_def qs_def k_def other_def)+
  have s: "size (plain_of (take k qs)) = k" using k by simp
  have "queued e + {#(pkt, dest)#} = queued e' + plain_of (take k qs)" using q plain_of_drop [of qs k] by simp
  moreover have "books e'" if "books e" "size (queued e) + 1 < 2 ^ 64"
    using that q k sat_add_64_less [of "pe_dropped_packets e" k] by (auto simp: books_def busy_peers_def sat_add_def)
  ultimately show ?thesis using q(4) s by (intro exI [of _ "plain_of (take k qs)"]) (auto simp: accounts_def counted_def)
qed

lemma remove_accounts:
  assumes "books e"
  shows "\<exists>lost. accounts e [] [] lost (pe_remove_peer dest e)"
proof (cases "index_of dest (pe_peer_queues e)")
  case None
  then have "quiet e (pe_remove_peer dest e)" by (simp add: pe_remove_peer_def quiet_def)
  then show ?thesis using quiet_accounts by blast
next
  case (Some idx)
  from index_of_get(2) [OF this] obtain q where q: "tab_get (pe_peer_queues e) dest = Some q" "snd (pe_peer_queues e ! idx) = q" by simp
  let ?e = "pe_remove_peer dest e"
  have sel: "pe_peer_queues ?e = tab_del dest (pe_peer_queues e)" "pe_control_q ?e = pe_control_q e" "pe_retransmit_q ?e = pe_retransmit_q e"
    "pe_dropped_packets ?e = pe_dropped_packets e" "pe_queued_packets_total ?e = pe_queued_packets_total e - dq_len q"
    "pe_non_empty_peers ?e = pe_non_empty_peers e - (if dq_len q > 0 then 1 else 0)"
    using Some q by (auto simp: pe_remove_peer_def Let_def)
  have ok: "tab_ok (pe_peer_queues e)" using assms by (simp add: books_def)
  have d: "queued e = queued ?e + data_of (dest, q)"
    using sum_list_del [OF ok, of data_of dest] q(1) by (simp add: queued_def sel old_part_def ac_simps)
  have "busy_peers e = busy_peers ?e + busy (dest, q)"
    using sum_list_del [OF ok, of busy dest] q(1) by (simp add: busy_peers_def sel old_part_def)
  moreover have "busy (dest, q) = (if dq_len q > 0 then 1 else 0)" by (auto simp: busy_def dq_is_empty_def dq_len_def)
  ultimately have "books ?e"
    using assms d sel size_data_of [of dest q] by (auto simp: books_def)
  with d show ?thesis by (intro exI [of _ "data_of (dest, q)"]) (simp add: accounts_def)
qed

section \<open>Histories\<close>

datatype PaceOp =
    PaceData bytes SocketAddr "f32 option" "f32 option" instant
  | PaceBatch SocketAddr "(bytes \<times> instant) list" "f32 option" "f32 option"
  | PaceControl bytes SocketAddr bool instant
  | PaceRemove SocketAddr
  | PaceTick TickEnv
  | PaceConfig instant PacingConfig
  | PaceCcConfig BackgroundCcConfig
  | PaceCcSample SocketAddr f64 f64
  | PaceReset instant
  | PaceResetCounters

text \<open>A step returns the packets it accepted into the queues, those it sent, and the engine; None is a panic of the code.\<close>

fun pace_step :: "PaceOp \<Rightarrow> PacingEngine \<Rightarrow> (wire \<times> wire \<times> PacingEngine) option" where
  "pace_step (PaceData pkt dest rtt qd now) e = Some ([(pkt, dest)], [], snd (enqueue_peer_with_hints pkt dest rtt qd now e))"
| "pace_step (PaceBatch dest pkts rtt qd) e =
     (case try_enqueue_peer_batch dest pkts rtt qd e of (ok, e) \<Rightarrow> Some (if ok then map (\<lambda>(p, _). (p, dest)) pkts else [], [], e))"
| "pace_step (PaceControl pkt dest rtx now) e = Some ([(pkt, dest)], [], snd (enqueue_control_with_source pkt dest rtx now e))"
| "pace_step (PaceRemove dest) e = Some ([], [], pe_remove_peer dest e)"
| "pace_step (PaceTick env) e = (case tick_with env e of (r, sent, e) \<Rightarrow> Some ([], sent, e))"
| "pace_step (PaceConfig now cfg) e = map_option (\<lambda>e. ([], [], e)) (pe_set_config now cfg e)"
| "pace_step (PaceCcConfig cc) e = Some ([], [], set_background_cc_config cc e)"
| "pace_step (PaceCcSample dest qd loss) e = map_option (\<lambda>e. ([], [], e)) (pe_on_cc_sample dest qd loss e)"
| "pace_step (PaceReset now) e = Some ([], [], reset_session_runtime now e)"
| "pace_step PaceResetCounters e = Some ([], [], reset_observability_counters e)"

fun pace_run :: "PaceOp list \<Rightarrow> PacingEngine \<Rightarrow> (wire \<times> wire \<times> PacingEngine) option" where
  "pace_run [] e = Some ([], [], e)"
| "pace_run (op # ops) e =
     (case pace_step op e of
        None \<Rightarrow> None
      | Some (acc, sent, e) \<Rightarrow>
          (case pace_run ops e of
             None \<Rightarrow> None
           | Some (acc', sent', e) \<Rightarrow> Some (acc @ acc', sent @ sent', e)))"

text \<open>Operations that only lose packets they count.\<close>

fun counts_losses :: "PaceOp \<Rightarrow> bool" where
  "counts_losses (PaceRemove _) = False"
| "counts_losses (PaceReset _) = False"
| "counts_losses PaceResetCounters = False"
| "counts_losses _ = True"

lemma busy_filter: "length (filter (\<lambda>q. \<not> dq_is_empty q) (tab_vals t)) = sum_list (map busy t)"
  by (induction t) (auto simp: tab_vals_def busy_def)

lemma set_config_quiet: "pe_set_config now cfg e = Some e' \<Longrightarrow> books e \<Longrightarrow> quiet e e'"
  by (auto simp: pe_set_config_def Let_def quiet_def books_def busy_peers_def busy_filter split: option.splits)

lemma pace_step_accounts:
  assumes b: "books e" and st: "pace_step op e = Some (acc, sent, e')"
  shows "\<exists>lost. accounts e acc sent lost e' \<and> (if counts_losses op then counted e lost e' else True)"
proof (cases op)
  case (PaceData pkt dest rtt qd now)
  with st enqueue_peer_accounts [of pkt dest rtt qd now e] show ?thesis
    by (cases "enqueue_peer_with_hints pkt dest rtt qd now e") auto
next
  case (PaceBatch dest pkts rtt qd)
  with st batch_accounts [of dest pkts rtt qd e] show ?thesis
    by (cases "try_enqueue_peer_batch dest pkts rtt qd e") auto
next
  case (PaceControl pkt dest rtx now)
  with st control_accounts [of pkt dest rtx now e] show ?thesis
    by (cases "enqueue_control_with_source pkt dest rtx now e") auto
next
  case (PaceRemove dest)
  with st remove_accounts [OF b, of dest] show ?thesis by auto
next
  case (PaceTick env)
  obtain r s e1 where "tick_with env e = (r, s, e1)" by (metis surj_pair)
  with PaceTick st tick_accounts [OF this] b show ?thesis by (auto simp: accounts_def counted_def)
next
  case (PaceConfig now cfg)
  with st set_config_quiet [OF _ b] quiet_accounts show ?thesis by fastforce
next
  case (PaceCcConfig cc)
  then have "quiet e e'" using st by (auto simp: set_background_cc_config_def quiet_def)
  with PaceCcConfig st quiet_accounts show ?thesis by fastforce
next
  case (PaceCcSample dest qd loss)
  then have "quiet e e'" using st by (auto simp: pe_on_cc_sample_def quiet_def)
  with PaceCcSample st quiet_accounts show ?thesis by fastforce
next
  case (PaceReset now)
  then have "e' = reset_session_runtime now e" "acc = []" "sent = []" using st by auto
  with PaceReset show ?thesis
    by (intro exI [of _ "queued e"]) (simp add: accounts_def queued_def books_def busy_peers_def reset_session_runtime_def)
next
  case PaceResetCounters
  then have "e' = reset_observability_counters e" "acc = []" "sent = []" using st by auto
  with PaceResetCounters show ?thesis
    by (intro exI [of _ "{#}"]) (simp add: accounts_def queued_def books_def busy_peers_def reset_observability_counters_def)
qed

lemma pace_run_accounts:
  assumes "books e" "pace_run ops e = Some (acc, sent, e')" "size (queued e) + length acc < 2 ^ 64"
  shows "\<exists>lost. queued e + mset acc = queued e' + mset sent + lost \<and> books e' \<and>
    (if list_all counts_losses ops then pe_dropped_packets e' = sat_add 64 (pe_dropped_packets e) (size lost) else True)"
  using assms
proof (induction ops arbitrary: e acc sent)
  case Nil
  then show ?case by (auto simp: books_def sat_add_def)
next
  case (Cons op ops)
  from Cons.prems(2) obtain a1 s1 e1 a2 s2 where st: "pace_step op e = Some (a1, s1, e1)" "pace_run ops e1 = Some (a2, s2, e')"
    "acc = a1 @ a2" "sent = s1 @ s2" by (auto split: option.splits)
  obtain l1 where l1: "accounts e a1 s1 l1 e1" "if counts_losses op then counted e l1 e1 else True"
    using pace_step_accounts [OF Cons.prems(1) st(1)] by blast
  have b1: "books e1" using l1(1) Cons.prems(1,3) st(3) by (simp add: accounts_def)
  have eq: "queued e + mset a1 = queued e1 + mset s1 + l1" using l1(1) by (simp add: accounts_def)
  have "size (queued e) + length a1 = size (queued e1) + length s1 + size l1"
    using arg_cong [OF eq, of size] by simp
  then have "size (queued e1) + length a2 < 2 ^ 64"
    using Cons.prems(3) st(3) by simp
  from Cons.IH [OF b1 st(2) this] obtain l2 where l2: "queued e1 + mset a2 = queued e' + mset s2 + l2" "books e'"
    "if list_all counts_losses ops then pe_dropped_packets e' = sat_add 64 (pe_dropped_packets e1) (size l2) else True" by blast
  have "queued e + mset acc = (queued e1 + mset a2) + mset s1 + l1" using eq st(3) by (simp add: ac_simps)
  then have "queued e + mset acc = queued e' + mset sent + (l1 + l2)" using l2(1) st(4) by (simp add: ac_simps)
  moreover have "if list_all counts_losses (op # ops) then pe_dropped_packets e' = sat_add 64 (pe_dropped_packets e) (size (l1 + l2)) else True"
    using l1(2) l2(3) Cons.prems(1) by (auto simp: counted_def sat_add_sat_add)
  ultimately show ?case using l2(2) by blast
qed

lemma books_new: "books (PacingEngine_new now)" "queued (PacingEngine_new now) = {#}" "pe_dropped_packets (PacingEngine_new now) = 0"
  by (simp_all add: books_def PacingEngine_new_def queued_def busy_peers_def tab_ok_def)


definition demo_turn :: TurnEnv where
  "demo_turn = \<lparr>tn_clock = 0, tn_age_clock = 0, tn_pop_clock = 0, tn_outcome = SendOk\<rparr>"

definition demo_tick :: TickEnv where
  "demo_tick = \<lparr>tk_now = 1000000, tk_apd_clock = (\<lambda>_. 1000000), tk_shed_clock = (\<lambda>_. 1000000),
     tk_rtx = (\<lambda>_. demo_turn), tk_ctrl = (\<lambda>_. demo_turn), tk_burst = (\<lambda>_. demo_turn)\<rparr>"

definition demo_ops :: "PaceOp list" where
  "demo_ops = [PaceData [1, 2] (V4 1 2) None None 0, PaceControl [3] (V4 1 2) False 0, PaceTick demo_tick]"


end
