(* ===== verification/Pacing_Progress.thy ===== *)
theory Pacing_Progress
  imports Pacing_Inv
begin

text \<open>
  Progress of the pacing engine: when a packet is queued and no rate limit holds, the selection finds one; and what becomes
  of a packet whose send fails.
\<close>

section \<open>Progress\<close>

text \<open>No rate limits, and data packets of the sizes the engine is given: at least a byte, at most the least quantum.\<close>

definition sendable :: "PacingEngine \<Rightarrow> bool" where
  "sendable e = (\<not> bc_enabled (be_config (pe_background_cc e)) \<and>
     list_all (\<lambda>(_, s, b). list_all (\<lambda>d. 0 < length (qd_pkt d) \<and> length (qd_pkt d) \<le> MIN_DRR_QUANTUM) (s @ b)) (map lane (pe_peer_queues e)))"

lemma sendable_quiet:
  "sendable e \<Longrightarrow> quiet e e' \<Longrightarrow> pe_background_cc e' = pe_background_cc e \<Longrightarrow> sendable e'"
  by (simp add: sendable_def quiet_def)

lemma sendable_front:
  assumes "sendable e" "idx < length (pe_peer_queues e)" "pe_peer_queues e ! idx = (dest, q)" "\<not> dq_is_empty q"
  shows "0 < front_len prio now q \<and> front_len prio now q \<le> MIN_DRR_QUANTUM"
proof -
  have "lane (dest, q) \<in> set (map lane (pe_peer_queues e))" using assms(2,3) by (metis image_eqI list.set_map nth_mem)
  then have "\<forall>d \<in> set (dq_small q) \<union> set (dq_bulk q). 0 < length (qd_pkt d) \<and> length (qd_pkt d) \<le> MIN_DRR_QUANTUM"
    using assms(1) unfolding sendable_def list_all_iff by (force simp: lane_def)
  with assms(4) show ?thesis
    by (cases "dq_small q"; cases "dq_bulk q") (auto simp: front_len_def dq_is_empty_def should_force_bulk_def)
qed

lemma sendable_can_send: "sendable e \<Longrightarrow> background_cc_can_send dest n hol e"
  by (simp add: sendable_def background_cc_can_send_def can_send_data_def)

lemma pop_data_nonempty: "\<not> dq_is_empty q \<Longrightarrow> \<exists>entry kind q'. pop_data prio now q = (Some (entry, kind), q')"
  using pop_data_None [of prio now q] by (cases "pop_data prio now q"; cases "fst (pop_data prio now q)") auto

lemma data_popped_Some: "\<exists>p e'. data_popped dest entry kind em e = (Some p, e')"
  by (simp add: data_popped_def Let_def)

lemma quantum_ge: "MIN_DRR_QUANTUM \<le> fst (peer_quantum e q)"
  by (simp add: peer_quantum_def Let_def scaled_drr_quantum_def)

text \<open>A visit that yields nothing found an empty queue, and leaves the rates and the cursor alone.\<close>

lemma visit_peer_None:
  assumes "sendable e" "idx < length (pe_peer_queues e)" "visit_peer now idx e = (None, e')"
  shows "dq_is_empty (snd (pe_peer_queues e ! idx)) \<and> pe_background_cc e' = pe_background_cc e \<and> pe_drr_cursor e' = pe_drr_cursor e"
proof -
  obtain dest q where at: "pe_peer_queues e ! idx = (dest, q)" by fastforce
  show ?thesis
  proof (cases "dq_is_empty q")
    case True
    then have "pop_data prio now q = (None, q)" "front_len prio now q = 0" for prio by (simp_all add: pop_data_def front_len_def)
    with assms(3) at True show ?thesis by (auto simp: visit_peer_def Let_def put_queue_def)
  next
    case False
    with assms at sendable_can_send [OF assms(1)] pop_data_nonempty [OF False, of "pc_drr_small_packet_priority (pe_config e)" now]
    show ?thesis by (auto simp: visit_peer_def Let_def data_popped_def)
  qed
qed

lemma drr_visit_None:
  assumes "sendable e" "idx < length (pe_peer_queues e)" "drr_visit now idx e = ((None, e'), hit)"
  shows "dq_is_empty (snd (pe_peer_queues e ! idx)) \<and> pe_background_cc e' = pe_background_cc e \<and> pe_drr_cursor e' = pe_drr_cursor e"
proof -
  obtain dest q where at: "pe_peer_queues e ! idx = (dest, q)" by fastforce
  show ?thesis
  proof (cases "dq_is_empty q")
    case True
    with assms(3) at show ?thesis by (auto simp: drr_visit_def Let_def put_queue_def)
  next
    case False
    let ?prio = "pc_drr_small_packet_priority (pe_config e)"
    obtain quantum scaled where pq: "peer_quantum e q = (quantum, scaled)" by fastforce
    define flen where "flen = front_len ?prio now q"
    have f: "0 < flen" "flen \<le> MIN_DRR_QUANTUM" using sendable_front [OF assms(1,2) at False] by (auto simp: flen_def)
    have "flen \<le> quantum" using f quantum_ge [of e q] pq by simp
    define d where "d = min (sat_add 64 (dq_deficit q) quantum) (max (min (quantum * 4) (2 ^ 64 - 1)) flen)"
    have "flen \<le> d"
      using f \<open>flen \<le> quantum\<close> by (auto simp: d_def sat_add_def MIN_DRR_QUANTUM_def)
    moreover obtain entry kind q' where "pop_data ?prio now (q\<lparr>dq_deficit := d - flen\<rparr>) = (Some (entry, kind), q')"
      using pop_data_nonempty [of "q\<lparr>dq_deficit := d - flen\<rparr>" ?prio now] False by (auto simp: dq_is_empty_def)
    ultimately show ?thesis
      using assms(3) at False f sendable_can_send [OF assms(1)]
      unfolding drr_visit_def Let_def at prod.case pq flen_def [symmetric] d_def [symmetric]
      by (simp add: data_popped_def Let_def)
  qed
qed

text \<open>A loop that yields nothing has found every peer it visited empty.\<close>

lemma step_cursor_sel [simp]:
  "pe_peer_queues (step_cursor e) = pe_peer_queues e" "pe_background_cc (step_cursor e) = pe_background_cc e"
  "pe_config (step_cursor e) = pe_config e"
  by (simp_all add: step_cursor_def)

lemma quiet_empty:
  assumes "quiet e e'" "i < length (pe_peer_queues e)"
  shows "dq_is_empty (snd (pe_peer_queues e' ! i)) = dq_is_empty (snd (pe_peer_queues e ! i))"
proof -
  have "lane (pe_peer_queues e' ! i) = lane (pe_peer_queues e ! i)"
    using assms quiet_len [OF assms(1)] unfolding quiet_def by (metis nth_map)
  then show ?thesis by (simp add: lane_def dq_is_empty_def)
qed

lemma all_visited:
  assumes "dq_is_empty (snd (pe_peer_queues e ! (c mod n)))" "quiet e e1" "n = length (pe_peer_queues e)" "0 < n"
    and "list_all (\<lambda>i. dq_is_empty (snd (pe_peer_queues e1 ! ((c + 1 + i) mod n)))) [0..<k]"
  shows "list_all (\<lambda>i. dq_is_empty (snd (pe_peer_queues e ! ((c + i) mod n)))) [0..<Suc k]"
  unfolding list_all_iff
proof
  fix i assume i: "i \<in> set [0..<Suc k]"
  show "dq_is_empty (snd (pe_peer_queues e ! ((c + i) mod n)))"
  proof (cases i)
    case (Suc j)
    with i have "j \<in> set [0..<k]" by auto
    with assms(5) have "dq_is_empty (snd (pe_peer_queues e1 ! ((c + 1 + j) mod n)))" unfolding list_all_iff by blast
    then have "dq_is_empty (snd (pe_peer_queues e1 ! ((c + i) mod n)))" using Suc by simp
    then show ?thesis using quiet_empty [OF assms(2), of "(c + i) mod n"] assms(3,4) by simp
  qed (use assms(1) in simp)
qed

lemma drr_loop_None:
  "sendable e \<Longrightarrow> n = length (pe_peer_queues e) \<Longrightarrow> 0 < n \<Longrightarrow> pe_drr_cursor e + k < 2 ^ 64 \<Longrightarrow>
     drr_loop k n now hits e = (None, e') \<Longrightarrow>
     list_all (\<lambda>i. dq_is_empty (snd (pe_peer_queues e ! ((pe_drr_cursor e + i) mod n)))) [0..<k]"
proof (induction k arbitrary: e hits)
  case (Suc k)
  let ?e = "step_cursor e" and ?idx = "pe_drr_cursor e mod n"
  obtain r e1 hit where r: "drr_visit now ?idx ?e = ((r, e1), hit)" by (metis surj_pair)
  with Suc.prems have "r = None" and rest: "drr_loop k n now (sat_add 64 hits hit) e1 = (None, e')"
    by (auto simp: Let_def split: option.splits)
  have idx: "?idx < length (pe_peer_queues ?e)" using Suc.prems by simp
  have s: "sendable ?e" using sendable_quiet [OF Suc.prems(1) quiet_upd(5)] by simp
  have r: "drr_visit now ?idx ?e = ((None, e1), hit)" using r \<open>r = None\<close> by simp
  have v: "dq_is_empty (snd (pe_peer_queues e ! ?idx))" "pe_background_cc e1 = pe_background_cc e" "pe_drr_cursor e1 = pe_drr_cursor ?e"
    using drr_visit_None [OF s idx r] unfolding step_cursor_sel by blast+
  have "quiet ?e e1" using drr_visit_picked [OF idx, of now] unfolding r by simp
  then have q: "quiet e e1" by (rule quiet_trans [OF quiet_upd(5)])
  have c: "pe_drr_cursor e1 = pe_drr_cursor e + 1" using v(3) Suc.prems(4) by (simp add: step_cursor_def)
  have "list_all (\<lambda>i. dq_is_empty (snd (pe_peer_queues e1 ! ((pe_drr_cursor e1 + i) mod n)))) [0..<k]"
  proof (rule Suc.IH [OF sendable_quiet [OF Suc.prems(1) q v(2)] _ Suc.prems(3) _ rest])
    show "n = length (pe_peer_queues e1)" using Suc.prems(2) quiet_len [OF q] by simp
    show "pe_drr_cursor e1 + k < 2 ^ 64" using Suc.prems(4) c by simp
  qed
  then show ?case unfolding c by (rule all_visited [OF v(1) q Suc.prems(2,3)])
qed simp

lemma frozen_loop_None:
  "sendable e \<Longrightarrow> n = length (pe_peer_queues e) \<Longrightarrow> 0 < n \<Longrightarrow> pe_drr_cursor e + k < 2 ^ 64 \<Longrightarrow>
     frozen_loop k n now e = (None, e') \<Longrightarrow>
     list_all (\<lambda>i. dq_is_empty (snd (pe_peer_queues e ! ((pe_drr_cursor e + i) mod n)))) [0..<k]"
proof (induction k arbitrary: e)
  case (Suc k)
  let ?e = "step_cursor e" and ?idx = "pe_drr_cursor e mod n"
  obtain r e1 where r: "visit_peer now ?idx ?e = (r, e1)" by (metis surj_pair)
  with Suc.prems have "r = None" and rest: "frozen_loop k n now e1 = (None, e')"
    by (auto simp: Let_def split: option.splits)
  have idx: "?idx < length (pe_peer_queues ?e)" using Suc.prems by simp
  have s: "sendable ?e" using sendable_quiet [OF Suc.prems(1) quiet_upd(5)] by simp
  have r: "visit_peer now ?idx ?e = (None, e1)" using r \<open>r = None\<close> by simp
  have v: "dq_is_empty (snd (pe_peer_queues e ! ?idx))" "pe_background_cc e1 = pe_background_cc e" "pe_drr_cursor e1 = pe_drr_cursor ?e"
    using visit_peer_None [OF s idx r] unfolding step_cursor_sel by blast+
  have "quiet ?e e1" using visit_peer_picked [OF idx, of now] unfolding r by simp
  then have q: "quiet e e1" by (rule quiet_trans [OF quiet_upd(5)])
  have c: "pe_drr_cursor e1 = pe_drr_cursor e + 1" using v(3) Suc.prems(4) by (simp add: step_cursor_def)
  have "list_all (\<lambda>i. dq_is_empty (snd (pe_peer_queues e1 ! ((pe_drr_cursor e1 + i) mod n)))) [0..<k]"
  proof (rule Suc.IH [OF sendable_quiet [OF Suc.prems(1) q v(2)] _ Suc.prems(3) _ rest])
    show "n = length (pe_peer_queues e1)" using Suc.prems(2) quiet_len [OF q] by simp
    show "pe_drr_cursor e1 + k < 2 ^ 64" using Suc.prems(4) c by simp
  qed
  then show ?case unfolding c by (rule all_visited [OF v(1) q Suc.prems(2,3)])
qed simp

lemma plain_loop_None:
  "sendable e \<Longrightarrow> list_all (\<lambda>i. i < length (pe_peer_queues e)) idxs \<Longrightarrow> plain_loop idxs now e = (None, e') \<Longrightarrow>
     list_all (\<lambda>i. dq_is_empty (snd (pe_peer_queues e ! i))) idxs"
proof (induction idxs arbitrary: e)
  case (Cons idx idxs)
  obtain r e1 where r: "visit_peer now idx e = (r, e1)" by (metis surj_pair)
  with Cons.prems have "r = None" and rest: "plain_loop idxs now e1 = (None, e')" by (auto split: option.splits)
  have idx: "idx < length (pe_peer_queues e)" using Cons.prems by simp
  from visit_peer_None [OF Cons.prems(1) idx] r \<open>r = None\<close> have v: "dq_is_empty (snd (pe_peer_queues e ! idx))"
    "pe_background_cc e1 = pe_background_cc e" by auto
  have q: "quiet e e1" using visit_peer_picked [OF idx, of now] r \<open>r = None\<close> by simp
  have "list_all (\<lambda>i. dq_is_empty (snd (pe_peer_queues e1 ! i))) idxs"
    using Cons.IH [OF sendable_quiet [OF Cons.prems(1) q v(2)] _ rest] Cons.prems(2) quiet_len [OF q] by simp
  with v(1) Cons.prems(2) quiet_empty [OF q] show ?case by (auto simp: list_all_iff)
qed simp

lemma round_covers:
  fixes c n k j :: nat
  assumes "list_all (\<lambda>i. P ((c + i) mod n)) [0..<k]" "n \<le> k" "j < n"
  shows "P j"
proof -
  define i where "i = (j + (n - c mod n)) mod n"
  have "i < k" using assms(2,3) by (simp add: i_def order_less_le_trans [of _ n])
  have "(c + i) mod n = (c mod n + (j + (n - c mod n))) mod n" unfolding i_def by (simp add: mod_simps)
  also have "c mod n + (j + (n - c mod n)) = j + n" using mod_less_divisor [of n c] assms(3) by linarith
  also have "(j + n) mod n = j" using assms(3) by simp
  finally show ?thesis using assms(1) \<open>i < k\<close> by (auto simp: list_all_iff)
qed

definition no_data :: "PacingEngine \<Rightarrow> bool" where
  "no_data e = list_all (\<lambda>dq. dq_is_empty (snd dq)) (pe_peer_queues e)"

lemma no_data_nth: "(\<And>j. j < length (pe_peer_queues e) \<Longrightarrow> dq_is_empty (snd (pe_peer_queues e ! j))) \<Longrightarrow> no_data e"
  by (simp add: no_data_def list_all_length)

lemma no_data_sum: "no_data e \<Longrightarrow> sum_list (map data_of (pe_peer_queues e)) = {#}"
proof -
  have "list_all (\<lambda>dq. dq_is_empty (snd dq)) qs \<Longrightarrow> sum_list (map data_of qs) = {#}" for qs
    by (induction qs) (auto simp: dq_is_empty_def data_of_def)
  then show "no_data e \<Longrightarrow> sum_list (map data_of (pe_peer_queues e)) = {#}" by (simp add: no_data_def)
qed

lemma no_data_busy: "busy_peers e = 0 \<Longrightarrow> no_data e"
  by (auto simp: busy_peers_def no_data_def list_all_iff busy_def split: if_splits)

lemma pop_peers_None:
  assumes "books e" "sendable e" "pe_drr_cursor e + 2 * length (pe_peer_queues e) < 2 ^ 64" "pop_peers now e = (None, e')"
  shows "no_data e"
proof (cases "pc_drr_enabled (pe_config e)")
  case False
  with assms(4) have "plain_loop [0..<length (pe_peer_queues e)] now e = (None, e')" by (simp add: pop_peers_def Let_def)
  from plain_loop_None [OF assms(2) _ this] show ?thesis by (auto simp: list_all_iff intro: no_data_nth)
next
  case True
  show ?thesis
  proof (cases "length (pe_peer_queues e) = 0 \<or> pe_non_empty_peers e = 0")
    case True
    with assms(1) show ?thesis by (auto simp: books_def intro: no_data_busy no_data_nth)
  next
    case False
    let ?n = "length (pe_peer_queues e)"
    have "drr_loop (?n * 2) ?n now 0 e = (None, e')" using assms(4) True False by (simp add: pop_peers_def Let_def)
    moreover have "0 < ?n" "pe_drr_cursor e + ?n * 2 < 2 ^ 64" using False assms(3) by (simp_all add: mult.commute)
    ultimately have "list_all (\<lambda>i. dq_is_empty (snd (pe_peer_queues e ! ((pe_drr_cursor e + i) mod ?n)))) [0..<?n * 2]"
      using drr_loop_None [OF assms(2) refl] by blast
    then show ?thesis using round_covers [where P = "\<lambda>j. dq_is_empty (snd (pe_peer_queues e ! j))"] by (intro no_data_nth) force
  qed
qed

lemma frozen_None:
  assumes "sendable e" "pe_drr_cursor e + 2 * length (pe_peer_queues e) < 2 ^ 64"
    and "frozen_loop (length (pe_peer_queues e)) (length (pe_peer_queues e)) now e = (None, e')"
  shows "no_data e"
proof (cases "pe_peer_queues e = []")
  case False
  let ?n = "length (pe_peer_queues e)"
  have "0 < ?n" "pe_drr_cursor e + ?n < 2 ^ 64" using False assms(2) by simp_all
  then have "list_all (\<lambda>i. dq_is_empty (snd (pe_peer_queues e ! ((pe_drr_cursor e + i) mod ?n)))) [0..<?n]"
    using frozen_loop_None [OF assms(1) refl _ _ assms(3)] by blast
  then show ?thesis using round_covers [where P = "\<lambda>j. dq_is_empty (snd (pe_peer_queues e ! j))"] by (intro no_data_nth) force
qed (simp add: no_data_def)

lemma or_pop_None: "or_pop r alt = (None, e') \<Longrightarrow> (\<And>e1. r = (None, e1) \<Longrightarrow> alt e1 = (None, e') \<Longrightarrow> P) \<Longrightarrow> P"
  by (auto simp: or_pop_def split: prod.splits option.splits)

lemma no_data_quiet: "quiet e e' \<Longrightarrow> no_data e' = no_data e"
  using quiet_empty [of e e'] quiet_len [of e e'] by (auto simp: no_data_def list_all_length)

lemma interleaved_None:
  assumes "try_pop_control_interleaved age e = (None, e')"
  shows "quiet e e' \<and> pe_drr_cursor e' = pe_drr_cursor e \<and> pe_background_cc e' = pe_background_cc e"
proof -
  have "quiet e e'" using pop_interleaved_picked [of e age] assms by simp
  with assms show ?thesis
    by (auto simp: try_pop_control_interleaved_def pop_control_for_send_def Let_def split: if_splits list.splits)
qed

lemma pop_next_apd_None:
  assumes "books e" "sendable e" "pe_drr_cursor e + 2 * length (pe_peer_queues e) < 2 ^ 64" "pop_next_apd freeze age now e = (None, e')"
  shows "queued e = {#}"
proof -
  define peers where "peers = (if freeze then (\<lambda>e. frozen_loop (length (pe_peer_queues e)) (length (pe_peer_queues e)) now e) else pop_peers now)"
  have eq: "pop_next_apd freeze age now e =
      or_pop (or_pop (or_pop (pop_retransmit_for_send e) (try_pop_control_interleaved age)) peers) pop_control_for_send"
    by (simp add: pop_next_apd_def pop_next_def peers_def)
  obtain e1 e2 e3 where p: "pop_retransmit_for_send e = (None, e1)" "try_pop_control_interleaved age e1 = (None, e2)"
    "peers e2 = (None, e3)" "pop_control_for_send e3 = (None, e')"
    using assms(4) unfolding eq by (elim or_pop_None) (rule that)
  have 1: "e1 = e" "pe_retransmit_q e = []" using p(1) by (auto simp: pop_retransmit_for_send_def split: list.splits)
  note 2 = interleaved_None [OF p(2), unfolded 1(1)]
  have s: "books e2" "sendable e2" "pe_drr_cursor e2 + 2 * length (pe_peer_queues e2) < 2 ^ 64"
    using 2 quiet_books [OF _ assms(1)] sendable_quiet [OF assms(2)] quiet_len [of e e2] assms(3) by simp_all
  have "no_data e2"
  proof (cases freeze)
    case True
    then show ?thesis using frozen_None [OF s(2,3)] p(3) by (simp add: peers_def)
  next
    case False
    then show ?thesis using pop_peers_None [OF s] p(3) by (simp add: peers_def)
  qed
  then have nd: "no_data e" using no_data_quiet 2 by blast
  have "picked e2 (peers e2)" using pop_peers_picked frozen_picked by (simp add: peers_def)
  then have "quiet e e3" using p(3) 2 quiet_trans [of e e2 e3] by simp
  moreover have "pe_control_q e3 = []" using p(4) by (auto simp: pop_control_for_send_def split: list.splits)
  ultimately have "pe_control_q e = []" by (simp add: quiet_def)
  with 1(2) no_data_sum [OF nd] show ?thesis by (simp add: queued_def)
qed

section \<open>Properties\<close>

text \<open>
  C7. The engine is work conserving: with the rate controller off and data packets of at most the least quantum, whenever a packet
  is queued the selection returns one, in the deficit round robin, in the plain order and in the frozen order
  alike, whatever the deficits, the ages and the clock readings are.\<close>

theorem pacing_work_conserving:
  assumes "books e" and "sendable e" and "pe_drr_cursor e + 2 * length (pe_peer_queues e) < 2 ^ 64" and "queued e \<noteq> {#}"
  shows "\<exists>p e'. pop_next_apd freeze age now e = (Some p, e') \<and> queued e = add_mset (next_wire p) (queued e')"
proof -
  obtain r e' where r: "pop_next_apd freeze age now e = (r, e')" by fastforce
  with pop_next_apd_None [OF assms(1-3)] assms(4) obtain p where "r = Some p" by (cases r) auto
  with r pop_next_apd_picked [of e freeze age now] show ?thesis by (auto simp: taken_def)
qed

definition one_packet :: PacingEngine where
  "one_packet = snd (enqueue_peer_with_hints [1, 2] (V4 1 2) None None 0 (PacingEngine_new 0))"

lemma one_packet_state:
  "books one_packet" "queued one_packet = {#([1, 2], V4 1 2)#}" "sendable one_packet" "pe_drr_cursor one_packet = 0"
  "length (pe_peer_queues one_packet) = 1"
  by (simp_all add: one_packet_def enqueue_peer_with_hints_def PacingEngine_new_def peer_queue_def tab_get_def tab_put_def PeerDataQueue_new_def
      dq_push_def dq_len_def push_back_classified_def apply_peer_hints_def dq_is_empty_def books_def queued_def busy_peers_def busy_def
      data_of_def sendable_def lane_def tab_ok_def BackgroundCcEngine_new_def BackgroundCcConfig_default_def bc_ensure_peer_def
      MIN_DRR_QUANTUM_def sat_add_def is_small_packet_def Let_def split: if_splits)

theorem pacing_work_conserving_witness:
  "\<exists>p e'. pop_next_apd False 0 0 one_packet = (Some p, e') \<and> {#([1, 2], V4 1 2)#} = add_mset (next_wire p) (queued e')"
  using pacing_work_conserving [of one_packet False 0 0] one_packet_state by simp

text \<open>
  A retransmission that the burst phase selects and that the socket does not take goes back to the front of the control queue and
  not of the retransmission queue it came from: it loses its priority over control and data.\<close>

theorem failed_retransmission_becomes_control:
  assumes "pe_retransmit_q e = q # qs" and "budget_has_room e" and "tn_clock (env k) < deadline" and "tn_outcome (env k) = WouldBlock"
  shows "\<exists>e'. burst_loop (Suc k) freeze deadline env sent e = (Progress (length sent), sent, e') \<and>
    pe_control_q e' = q # pe_control_q e \<and> pe_retransmit_q e' = qs"
  using assms
  by (simp add: pop_next_apd_def pop_next_def or_pop_def pop_retransmit_for_send_def try_send_next_packet_def send_failed_def
      requeue_next_def Let_def)

definition one_retransmission :: PacingEngine where
  "one_retransmission = (PacingEngine_new 0)
     \<lparr>pe_retransmit_q := [\<lparr>qp_pkt = [7], qp_dest = V4 1 2, qp_enqueued_at = 0\<rparr>], pe_budget := Fin 1000\<rparr>"

theorem failed_retransmission_becomes_control_witness:
  "\<exists>e'. burst_loop 1 False 5 (\<lambda>_. demo_turn\<lparr>tn_outcome := WouldBlock\<rparr>) [] one_retransmission = (Progress 0, [], e') \<and>
    pe_control_q e' = [\<lparr>qp_pkt = [7], qp_dest = V4 1 2, qp_enqueued_at = 0\<rparr>] \<and> pe_retransmit_q e' = []"
proof -
  have "pe_retransmit_q one_retransmission = [\<lparr>qp_pkt = [7], qp_dest = V4 1 2, qp_enqueued_at = 0\<rparr>]"
    "budget_has_room one_retransmission" "pe_control_q one_retransmission = []"
    by (simp_all add: one_retransmission_def budget_has_room_def PacingEngine_new_def PacingConfig_default_def Let_def split: prod.splits)
  with failed_retransmission_becomes_control [of one_retransmission _ "[]" "\<lambda>_. demo_turn\<lparr>tn_outcome := WouldBlock\<rparr>" 0 5 False "[]"]
  show ?thesis by (simp add: demo_turn_def)
qed

end
