(* ===== verification/Stun.thy ===== *)
theory Stun
  imports Net_Addr
begin

text \<open>
  \<^verbatim>\<open>src/src/nat/stun.rs\<close>: the binding request and the scan of a binding response for a mapped address, and
  \<^verbatim>\<open>src/src/nat/ice.rs\<close>: the candidates made of it. The random transaction id is an argument. The scan is a loop over
  the attributes with an offset into the datagram; it terminates because the offset grows.
\<close>

section \<open>Requests and responses\<close>

record PublicEndpoint =
  pu_ip :: string
  pu_port :: u16

definition STUN_MAGIC :: u32 where "STUN_MAGIC = 0x2112A442"

definition build_binding_request :: "bytes \<Rightarrow> bytes \<times> bytes" where
  "build_binding_request txn = ([0, 1, 0, 0] @ u32_to_be STUN_MAGIC @ txn, txn)"

definition mapped_address :: "u16 \<Rightarrow> bytes \<Rightarrow> PublicEndpoint option" where
  "mapped_address attr_type data =
     (if (attr_type = 0x0020 \<or> attr_type = 0x0001) \<and> length data \<ge> 8 \<and> data ! 1 = 1 then
        let port = u16_from_be [data ! 2, data ! 3];
            ip_bytes = [data ! 4, data ! 5, data ! 6, data ! 7];
            (port, ip_bytes) =
              (if attr_type = 0x0020
               then (port XOR ucast (drop_bit 16 STUN_MAGIC), map2 (XOR) ip_bytes (u32_to_be STUN_MAGIC))
               else (port, ip_bytes)) in
        Some \<lparr>pu_ip = show_octets ip_bytes, pu_port = port\<rparr>
      else None)"

definition pad4 :: "nat \<Rightarrow> nat" where
  "pad4 n = (if n mod 4 \<noteq> 0 then n + (4 - n mod 4) else n)"

lemma pad4_ge: "n \<le> pad4 n"
  unfolding pad4_def by presburger

function stun_attrs :: "bytes \<Rightarrow> nat \<Rightarrow> nat \<Rightarrow> PublicEndpoint option" where
  "stun_attrs buf stop offset =
     (if offset + 4 \<le> stop then
        let attr_type = u16_from_be [buf ! offset, buf ! (offset + 1)];
            attr_len = unat (u16_from_be [buf ! (offset + 2), buf ! (offset + 3)]);
            offset = offset + 4 in
        if offset + attr_len > stop then None
        else case mapped_address attr_type (take attr_len (drop offset buf)) of
          Some ep \<Rightarrow> Some ep
        | None \<Rightarrow> stun_attrs buf stop (pad4 (offset + attr_len))
      else None)"
  by pat_completeness auto

termination
proof (relation "measure (\<lambda>(_, stop, offset). stop - offset)", goal_cases)
  case (2 buf stop offset t l o')
  have "o' + l \<le> pad4 (o' + l)" by (rule pad4_ge)
  with 2 show ?case by simp
qed simp

declare stun_attrs.simps [simp del]

definition parse_stun_response :: "bytes \<Rightarrow> bytes list \<Rightarrow> PublicEndpoint option" where
  "parse_stun_response buf txns =
     (if length buf < 20 \<or> buf ! 0 \<noteq> 1 \<or> buf ! 1 \<noteq> 1 \<or> u32_from_be (take 4 (drop 4 buf)) \<noteq> STUN_MAGIC then None
      else if take 12 (drop 8 buf) \<notin> set txns then None
      else
        let msg_len = unat (u16_from_be [buf ! 2, buf ! 3]) in
        stun_attrs buf (min (20 + msg_len) (length buf)) 20)"

record IceCandidate =
  ic_ip :: string
  ic_port :: u16
  ic_kind :: string

definition gather_candidates :: "string \<Rightarrow> u16 \<Rightarrow> PublicEndpoint option \<Rightarrow> (string \<times> u16) option \<Rightarrow> IceCandidate list" where
  "gather_candidates local_ip local_port stun upnp =
     [\<lparr>ic_ip = local_ip, ic_port = local_port, ic_kind = ''host''\<rparr>]
     @ (case stun of Some s \<Rightarrow> [\<lparr>ic_ip = pu_ip s, ic_port = pu_port s, ic_kind = ''srflx''\<rparr>] | None \<Rightarrow> [])
     @ (case upnp of Some (ip, port) \<Rightarrow> [\<lparr>ic_ip = ip, ic_port = port, ic_kind = ''upnp''\<rparr>] | None \<Rightarrow> [])"

section \<open>Servers\<close>

text \<open>An attribute as a server writes it: type, length, value, padding to a multiple of four bytes.\<close>

definition attr_bytes :: "u16 \<times> bytes \<Rightarrow> bytes" where
  "attr_bytes = (\<lambda>(t, v). u16_to_be t @ u16_to_be (word_of_nat (length v)) @ v @ replicate (pad4 (length v) - length v) 0)"

definition xor_mapped :: "u32 \<Rightarrow> u16 \<Rightarrow> u16 \<times> bytes" where
  "xor_mapped ip port =
     (0x0020, [0, 1] @ u16_to_be (port XOR ucast (drop_bit 16 STUN_MAGIC)) @ map2 (XOR) (octets ip) (u32_to_be STUN_MAGIC))"

definition binding_response :: "bytes \<Rightarrow> (u16 \<times> bytes) list \<Rightarrow> bytes" where
  "binding_response txn attrs =
     (let body = concat (map attr_bytes attrs) in
      [1, 1] @ u16_to_be (word_of_nat (length body)) @ u32_to_be STUN_MAGIC @ txn @ body)"

section \<open>The scan finds the address\<close>

lemma pad4_mod: "pad4 n mod 4 = 0"
proof (cases "n mod 4 = 0")
  case False
  have "n + (4 - n mod 4) = 4 * (n div 4) + 4" using False by presburger
  with False show ?thesis by (simp add: pad4_def)
qed (simp add: pad4_def)

lemma pad4_add: "a mod 4 = 0 \<Longrightarrow> pad4 (a + n) = a + pad4 n"
  by (auto simp: pad4_def mod_add_left_eq [of a 4 n, symmetric] mod_add_eq [of a 4 n, symmetric])

lemma length_attr_bytes: "length (attr_bytes (t, v)) = 4 + pad4 (length v)"
  using pad4_ge [of "length v"] by (simp add: attr_bytes_def wire_simps)

lemma list8E: "length xs = 8 \<Longrightarrow> \<exists>a b c d e f g h. xs = [a, b, c, d, e, f, g, h]"
  by (auto simp: numeral_eq_Suc length_Suc_conv)

definition skipped :: "u16 \<times> bytes \<Rightarrow> bool" where
  "skipped a = (fst a \<noteq> 0x0020 \<and> fst a \<noteq> 0x0001 \<and> length (snd a) < 2 ^ 16)"

lemma mapped_address_skipped: "skipped (t, v) \<Longrightarrow> mapped_address t v = None"
  by (simp add: mapped_address_def skipped_def)

lemma word_xor_cancel: "(a XOR b) XOR b = a" for a b :: "'a::len word"
  by (simp add: xor.assoc)

lemma mapped_address_xor: "mapped_address 0x0020 (snd (xor_mapped ip port)) = Some \<lparr>pu_ip = show_ipv4 ip, pu_port = port\<rparr>"
proof -
  obtain a b c d where o: "octets ip = [a, b, c, d]" using list_len4E length_octets by blast
  obtain m n p q where m: "u32_to_be STUN_MAGIC = [m, n, p, q]"
    using list_len4E [of "u32_to_be STUN_MAGIC"] by (auto simp: wire_simps)
  let ?x = "port XOR ucast (drop_bit 16 STUN_MAGIC)"
  obtain x y where x: "u16_to_be ?x = [x, y]"
    using length_Suc_conv [of "u16_to_be ?x" 1] by (auto simp: wire_simps length_Suc_conv numeral_eq_Suc)
  have "u16_from_be [x, y] = ?x" using x word_coding_roundtrip(4) [of ?x] by simp
  with o m x show ?thesis
    by (simp add: mapped_address_def xor_mapped_def word_xor_cancel show_ipv4_def numeral_eq_Suc)
qed

text \<open>One turn of the loop on a datagram that has an attribute at the offset.\<close>

lemma stun_attrs_step:
  assumes "buf = pre @ attr_bytes (t, v) @ rest" and "offset = length pre" and "offset mod 4 = 0" and "length v < 2 ^ 16"
    and "offset + length (attr_bytes (t, v)) \<le> stop"
  shows "stun_attrs buf stop offset =
    (case mapped_address t v of Some ep \<Rightarrow> Some ep | None \<Rightarrow> stun_attrs buf stop (offset + length (attr_bytes (t, v))))"
proof -
  obtain t0 t1 where t: "u16_to_be t = [t0, t1]"
    using length_Suc_conv [of "u16_to_be t" 1] by (auto simp: wire_simps length_Suc_conv numeral_eq_Suc)
  let ?l = "word_of_nat (length v) :: u16"
  obtain l0 l1 where l: "u16_to_be ?l = [l0, l1]"
    using length_Suc_conv [of "u16_to_be ?l" 1] by (auto simp: wire_simps length_Suc_conv numeral_eq_Suc)
  have nth: "buf ! offset = t0" "buf ! (offset + 1) = t1" "buf ! (offset + 2) = l0" "buf ! (offset + 3) = l1"
    using assms(1,2) t l by (simp_all add: attr_bytes_def nth_append)
  have ty: "u16_from_be [t0, t1] = t" using word_coding_roundtrip(4) [of t] t by simp
  have len: "unat (u16_from_be [l0, l1]) = length v"
    using word_coding_roundtrip(4) [of ?l] l assms(4) by (simp add: unat_of_nat)
  have data: "take (length v) (drop (offset + 4) buf) = v"
    using assms(1,2) t l by (simp add: attr_bytes_def)
  have le: "offset + 4 \<le> stop" "offset + 4 + length v \<le> stop"
    using assms(5) pad4_ge [of "length v"] by (simp_all add: length_attr_bytes)
  have next': "pad4 (offset + 4 + length v) = offset + length (attr_bytes (t, v))"
  proof -
    have "(offset + 4) mod 4 = 0" using assms(3) by presburger
    from pad4_add [OF this] show ?thesis by (simp add: length_attr_bytes)
  qed
  show ?thesis
    using nth ty len data le next' by (subst stun_attrs.simps) (cases "mapped_address t v"; simp add: Let_def)
qed

lemma stun_attrs_scan:
  assumes "list_all skipped attrs" and "buf = pre @ concat (map attr_bytes attrs) @ attr_bytes (xor_mapped ip port) @ rest"
    and "length pre mod 4 = 0" and "length pre + length (concat (map attr_bytes attrs) @ attr_bytes (xor_mapped ip port)) \<le> stop"
  shows "stun_attrs buf stop (length pre) = Some \<lparr>pu_ip = show_ipv4 ip, pu_port = port\<rparr>"
  using assms
proof (induction attrs arbitrary: pre)
  case Nil
  have "length (snd (xor_mapped ip port)) < 2 ^ 16" by (simp add: xor_mapped_def wire_simps)
  moreover have xm: "attr_bytes (0x0020, snd (xor_mapped ip port)) = attr_bytes (xor_mapped ip port)"
    by (simp add: xor_mapped_def)
  ultimately show ?case
    using Nil stun_attrs_step [of buf pre "0x0020" "snd (xor_mapped ip port)" rest "length pre" stop]
    by (simp add: mapped_address_xor)
next
  case (Cons a attrs)
  obtain t v where a: "a = (t, v)" by fastforce
  let ?rest = "concat (map attr_bytes attrs) @ attr_bytes (xor_mapped ip port) @ rest"
  have sk: "skipped (t, v)" using Cons.prems(1) a by simp
  have "stun_attrs buf stop (length pre) = stun_attrs buf stop (length (pre @ attr_bytes a))"
    using stun_attrs_step [of buf pre t v ?rest "length pre" stop] Cons.prems sk a
    by (simp add: mapped_address_skipped skipped_def)
  also have "\<dots> = Some \<lparr>pu_ip = show_ipv4 ip, pu_port = port\<rparr>"
  proof (rule Cons.IH)
    have "(4 + pad4 (length v)) mod 4 = 0" using pad4_mod [of "length v"] by presburger
    then show "length (pre @ attr_bytes a) mod 4 = 0"
      using Cons.prems(3) a by (simp add: length_attr_bytes mod_add_eq [symmetric] del: mod_add_self1)
  qed (use Cons.prems a in auto)
  finally show ?case .
qed

section \<open>Properties\<close>

text \<open>
  C29. A STUN answer gives the mapped address: a response to an outstanding transaction that carries an
  XOR-MAPPED-ADDRESS after any attributes of other types parses to exactly that address and port. A response to
  no outstanding transaction is ignored, whatever it holds.
\<close>

theorem stun_finds_mapped_address:
  assumes "length txn = 12" and "list_all skipped attrs" and "length (concat (map attr_bytes attrs)) + 12 + length tail < 2 ^ 16"
  shows "parse_stun_response (binding_response txn (attrs @ [xor_mapped ip port]) @ tail) txns =
     (if txn \<in> set txns then Some \<lparr>pu_ip = show_ipv4 ip, pu_port = port\<rparr> else None)"
proof -
  let ?body = "concat (map attr_bytes attrs) @ attr_bytes (xor_mapped ip port)"
  let ?len = "word_of_nat (length ?body) :: u16"
  let ?buf = "binding_response txn (attrs @ [xor_mapped ip port]) @ tail"
  let ?pre = "[1, 1] @ u16_to_be ?len @ u32_to_be STUN_MAGIC @ txn"
  have x: "length (attr_bytes (xor_mapped ip port)) = 12"
    by (simp add: xor_mapped_def length_attr_bytes wire_simps pad4_def)
  have buf: "?buf = ?pre @ ?body @ tail" by (simp add: binding_response_def Let_def)
  have pre: "length ?pre = 20" using assms(1) by (simp add: wire_simps)
  obtain l0 l1 where l: "u16_to_be ?len = [l0, l1]"
    using length_Suc_conv [of "u16_to_be ?len" 1] by (auto simp: wire_simps length_Suc_conv numeral_eq_Suc)
  have "length ?body < 2 ^ 16" using assms(3) x by simp
  then have "unat ?len = length ?body" by (simp only: unat_of_nat) simp
  then have "unat (u16_from_be [l0, l1]) = length ?body"
    using word_coding_roundtrip(4) [of ?len] unfolding l by (simp only:)
  moreover have "?buf ! 2 = l0" "?buf ! 3 = l1" "?buf ! 0 = 1" "?buf ! 1 = 1"
    using buf l by (simp_all add: numeral_eq_Suc)
  moreover have "u32_from_be (take 4 (drop 4 ?buf)) = STUN_MAGIC" "take 12 (drop 8 ?buf) = txn" "20 \<le> length ?buf"
    using buf l assms(1) by (simp_all add: wire_simps)
  moreover have "stun_attrs ?buf (min (20 + length ?body) (length ?buf)) 20 = Some \<lparr>pu_ip = show_ipv4 ip, pu_port = port\<rparr>"
    using stun_attrs_scan [OF assms(2), of ?buf ?pre ip port tail "min (20 + length ?body) (length ?buf)"] buf pre by simp
  ultimately show ?thesis by (simp add: parse_stun_response_def Let_def)
qed

theorem stun_finds_mapped_address_witness:
  "parse_stun_response (binding_response (replicate 12 7) ([(0x8022, [65, 66, 67])] @ [xor_mapped 3405803781 54321]) @ []) [replicate 12 7]
     = Some \<lparr>pu_ip = show_ipv4 3405803781, pu_port = 54321\<rparr>"
proof -
  have "list_all skipped [(0x8022, [65, 66, 67])]" by (simp add: skipped_def)
  moreover have "length (concat (map attr_bytes [(0x8022, [65, 66, 67])])) + 12 + length ([] :: bytes) < 2 ^ 16"
    by (simp add: length_attr_bytes pad4_def)
  ultimately show ?thesis
    using stun_finds_mapped_address [of "replicate 12 7" "[(0x8022, [65, 66, 67])]" "[]" 3405803781 54321 "[replicate 12 7]"]
    by simp
qed

end
