(* ===== verification/Bcast.thy ===== *)
theory Bcast
  imports Prelude
begin

text \<open>
  \<^verbatim>\<open>src/src/bcast.rs\<close>: the filter that passes a broadcast on only once. A packet is reduced to a 128-bit key; the keys
  of the last two seconds, at most 4096 of them, are remembered in a set and in a queue by age. The keyed hash of
  the standard library (\<^verbatim>\<open>RandomState\<close>) is a parameter: a function of the sequence of values fed to a hasher. An
  operation reads the clock twice, for the eviction and for the new entry.
\<close>

section \<open>Keys\<close>

datatype hash_item = HBytes bytes | HLen nat

type_synonym hasher = "hash_item list \<Rightarrow> u64"

text \<open>What both hashers of \<^verbatim>\<open>make_key\<close> are fed after their own tag.\<close>

definition key_items :: "bytes \<Rightarrow> hash_item list" where
  "key_items packet =
     (let prefix = min (length packet) 128;
          head =
            (if prefix \<ge> 20 then
               [HBytes ((take 20 packet)[8 := 0, 10 := 0, 11 := 0])]
               @ (if prefix > 20 then [HBytes (drop 20 (take prefix packet))] else [])
             else
               let short = take prefix packet;
                   short = (if prefix > 8 then short[8 := 0] else short);
                   short = (if prefix > 11 then short[10 := 0, 11 := 0] else short) in
               [HBytes short]);
          tail = (if length packet > 128 then [HBytes (drop (length packet - 32) packet)] else []) in
      head @ tail @ [HLen (length packet)])"

definition make_key :: "hasher \<Rightarrow> bytes \<Rightarrow> u128" where
  "make_key h packet =
     (let hi = ucast (h (HBytes (ascii ''mint-bcast-key-a'') # key_items packet));
          lo = ucast (word_rotl 13 (h (HBytes (ascii ''mint-bcast-key-b'') # key_items packet))) in
      push_bit 64 hi OR lo)"

definition make_scoped_key :: "hasher \<Rightarrow> bytes \<Rightarrow> bytes \<Rightarrow> u128" where
  "make_scoped_key h scope packet =
     (let key = make_key h packet;
          mixed = h [HBytes (ascii ''mint-bcast-scope''), HBytes scope] * 0x9E3779B185EBCA87;
          scope_key = push_bit 64 (ucast mixed) OR ucast (word_rotl 17 mixed) in
      word_rotl 29 key XOR scope_key)"

section \<open>The filter\<close>

record BroadcastDeduplicator =
  bd_seen :: "u128 list"
  bd_timeline :: "(instant \<times> u128) list"

definition BCAST_TTL :: duration where "BCAST_TTL = from_millis 2000"
definition MAX_CACHE :: nat where "MAX_CACHE = 4096"

definition bd_new :: BroadcastDeduplicator where
  "bd_new = \<lparr>bd_seen = [], bd_timeline = []\<rparr>"

fun evict_front :: "instant \<Rightarrow> u128 list \<Rightarrow> (instant \<times> u128) list \<Rightarrow> u128 list \<times> (instant \<times> u128) list" where
  "evict_front now seen [] = (seen, [])"
| "evict_front now seen ((t, key) # rest) =
     (if duration_since now t < BCAST_TTL then (seen, (t, key) # rest)
      else evict_front now (removeAll key seen) rest)"

definition bd_evict :: "instant \<Rightarrow> BroadcastDeduplicator \<Rightarrow> BroadcastDeduplicator" where
  "bd_evict now d =
     (let (seen, timeline) = evict_front now (bd_seen d) (bd_timeline d) in \<lparr>bd_seen = seen, bd_timeline = timeline\<rparr>)"

text \<open>What \<^verbatim>\<open>is_fresh\<close> and \<^verbatim>\<open>is_fresh_scoped\<close> do with their key.\<close>

definition note_key :: "instant \<Rightarrow> instant \<Rightarrow> u128 \<Rightarrow> BroadcastDeduplicator \<Rightarrow> bool \<times> BroadcastDeduplicator" where
  "note_key now now' key d0 =
     (let d = bd_evict now d0 in
      if key \<in> set (bd_seen d) then (False, d)
      else
        let d = d\<lparr>bd_seen := List.insert key (bd_seen d), bd_timeline := bd_timeline d @ [(now', key)]\<rparr>;
            d = (if length (bd_timeline d) > MAX_CACHE then
                   (case bd_timeline d of
                      (_, old) # rest \<Rightarrow> d\<lparr>bd_timeline := rest, bd_seen := removeAll old (bd_seen d)\<rparr>
                    | [] \<Rightarrow> d)
                 else d) in
        (True, d))"

definition is_fresh :: "hasher \<Rightarrow> instant \<Rightarrow> instant \<Rightarrow> bytes \<Rightarrow> BroadcastDeduplicator \<Rightarrow> bool \<times> BroadcastDeduplicator" where
  "is_fresh h now now' packet d = note_key now now' (make_key h packet) d"

definition is_fresh_scoped :: "hasher \<Rightarrow> instant \<Rightarrow> instant \<Rightarrow> bytes \<Rightarrow> bytes \<Rightarrow> BroadcastDeduplicator \<Rightarrow> bool \<times> BroadcastDeduplicator" where
  "is_fresh_scoped h now now' scope packet d = note_key now now' (make_scoped_key h scope packet) d"

text \<open>A run of the filter: the clock readings of each packet and the packet with its scope, if it has one.\<close>

fun bd_run :: "hasher \<Rightarrow> (instant \<times> instant \<times> bytes option \<times> bytes) list \<Rightarrow> BroadcastDeduplicator \<Rightarrow> bool list" where
  "bd_run h [] d = []"
| "bd_run h ((now, now', scope, packet) # as) d =
     (case (case scope of None \<Rightarrow> is_fresh h now now' packet d | Some s \<Rightarrow> is_fresh_scoped h now now' s packet d) of
        (fresh, d) \<Rightarrow> fresh # bd_run h as d)"

section \<open>The specification\<close>

definition packet_key :: "hasher \<Rightarrow> bytes option \<Rightarrow> bytes \<Rightarrow> u128" where
  "packet_key h scope packet = (case scope of None \<Rightarrow> make_key h packet | Some s \<Rightarrow> make_scoped_key h s packet)"

definition last_n :: "nat \<Rightarrow> 'a list \<Rightarrow> 'a list" where
  "last_n n xs = drop (length xs - n) xs"

definition young :: "instant \<Rightarrow> instant \<times> u128 \<Rightarrow> bool" where
  "young now = (\<lambda>(t, _). duration_since now t < BCAST_TTL)"

text \<open>A packet passes unless its key is among the last 4096 that passed and passed less than two seconds ago.\<close>

fun pass_run :: "hasher \<Rightarrow> (instant \<times> instant \<times> bytes option \<times> bytes) list \<Rightarrow> (instant \<times> u128) list \<Rightarrow> bool list" where
  "pass_run h [] passed = []"
| "pass_run h ((now, now', scope, packet) # as) passed =
     (let k = packet_key h scope packet;
          fresh = (k \<notin> snd ` set (filter (young now) (last_n MAX_CACHE passed))) in
      fresh # pass_run h as (if fresh then passed @ [(now', k)] else passed))"

fun clock_ok :: "instant \<Rightarrow> (instant \<times> instant \<times> bytes option \<times> bytes) list \<Rightarrow> bool" where
  "clock_ok t [] = True"
| "clock_ok t ((now, now', _) # as) = (t \<le> now \<and> now \<le> now' \<and> clock_ok now' as)"

section \<open>The filter refines the specification\<close>

definition bd_refines :: "instant \<Rightarrow> (instant \<times> u128) list \<Rightarrow> BroadcastDeduplicator \<Rightarrow> bool" where
  "bd_refines clock passed d =
     (sorted (map fst passed) \<and> (\<forall>(t, _) \<in> set passed. t \<le> clock)
      \<and> (\<exists>old. last_n MAX_CACHE passed = old @ bd_timeline d \<and> list_all (\<lambda>e. \<not> young clock e) old)
      \<and> set (bd_seen d) = snd ` set (bd_timeline d) \<and> distinct (map snd (bd_timeline d)))"

lemma young_antimono: "young later e \<Longrightarrow> now \<le> later \<Longrightarrow> young now e"
  by (auto simp: young_def duration_since_def)

lemma evict_front_split:
  assumes "distinct (map snd q)" and "set seen = snd ` set q"
  shows "snd (evict_front now seen q) = dropWhile (\<lambda>e. \<not> young now e) q
    \<and> set (fst (evict_front now seen q)) = snd ` set (dropWhile (\<lambda>e. \<not> young now e) q)"
  using assms
proof (induction q arbitrary: seen)
  case (Cons e q)
  obtain t k where e: "e = (t, k)" by fastforce
  show ?case
  proof (cases "young now e")
    case True
    with Cons.prems e show ?thesis by (simp add: young_def)
  next
    case False
    have "set (removeAll k seen) = snd ` set q" using Cons.prems e by auto
    with Cons.IH [of "removeAll k seen"] Cons.prems e False show ?thesis by (simp add: young_def)
  qed
qed simp

lemma dropWhile_old:
  "sorted (map fst q) \<Longrightarrow> dropWhile (\<lambda>e. \<not> young now e) q = filter (young now) q"
proof (induction q)
  case (Cons e q)
  show ?case
  proof (cases "young now e")
    case True
    have "list_all (young now) q"
      using Cons.prems True by (auto simp: list_all_iff young_def duration_since_def)
    then show ?thesis using True by (simp add: filter_id_conv list_all_iff)
  qed (use Cons in simp)
qed simp

lemma last_n_snoc: "last_n n (xs @ [x]) = (if n = 0 then [] else if length xs < n then last_n n xs @ [x] else tl (last_n n xs) @ [x])"
  by (auto simp: last_n_def Suc_diff_le drop_Suc tl_drop)

lemma length_last_n: "length (last_n n xs) = min n (length xs)"
  by (simp add: last_n_def)

lemma sorted_last_n: "sorted (map fst xs) \<Longrightarrow> sorted (map fst (last_n n xs))"
  by (simp add: last_n_def drop_map [symmetric] sorted_wrt_drop)

lemma evicted:
  assumes "bd_refines clock passed d" and "clock \<le> now"
  shows "bd_timeline (bd_evict now d) = filter (young now) (last_n MAX_CACHE passed)
    \<and> set (bd_seen (bd_evict now d)) = snd ` set (bd_timeline (bd_evict now d))
    \<and> bd_refines now passed (bd_evict now d)"
proof -
  from assms(1) obtain old where old: "last_n MAX_CACHE passed = old @ bd_timeline d" "list_all (\<lambda>e. \<not> young clock e) old"
    and srt: "sorted (map fst passed)" and seen: "set (bd_seen d) = snd ` set (bd_timeline d)" "distinct (map snd (bd_timeline d))"
    and le: "\<forall>(t, _) \<in> set passed. t \<le> clock"
    by (auto simp: bd_refines_def)
  have "sorted (map fst (bd_timeline d))"
    using sorted_last_n [OF srt, of MAX_CACHE] old(1) by (simp add: sorted_append)
  note dw = dropWhile_old [OF this, of now]
  have none: "filter (young now) old = []"
    using old(2) young_antimono [OF _ assms(2)] by (auto simp: filter_empty_conv list_all_iff)
  have tl: "bd_timeline (bd_evict now d) = filter (young now) (bd_timeline d)"
    "set (bd_seen (bd_evict now d)) = snd ` set (bd_timeline (bd_evict now d))"
    using evict_front_split [OF seen(2,1), of now] dw by (auto simp: bd_evict_def case_prod_unfold Let_def)
  have f: "filter (young now) (last_n MAX_CACHE passed) = bd_timeline (bd_evict now d)" using old(1) none tl(1) by simp
  have "bd_timeline d = takeWhile (\<lambda>e. \<not> young now e) (bd_timeline d) @ bd_timeline (bd_evict now d)"
    using tl(1) dw takeWhile_dropWhile_id [of "\<lambda>e. \<not> young now e" "bd_timeline d"] by simp
  then have split: "last_n MAX_CACHE passed = (old @ takeWhile (\<lambda>e. \<not> young now e) (bd_timeline d)) @ bd_timeline (bd_evict now d)"
    using old(1) by simp
  have "list_all (\<lambda>e. \<not> young now e) (old @ takeWhile (\<lambda>e. \<not> young now e) (bd_timeline d))"
    using none by (auto simp: filter_empty_conv list_all_iff dest: set_takeWhileD)
  moreover have "distinct (map snd (bd_timeline (bd_evict now d)))"
    using seen(2) tl(1) by (simp add: distinct_map_filter)
  moreover have "\<forall>(t, _) \<in> set passed. t \<le> now" using le assms(2) by fastforce
  ultimately have "bd_refines now passed (bd_evict now d)"
    unfolding bd_refines_def using srt split tl(2) by blast
  with f tl(2) show ?thesis by simp
qed

lemma refines_push:
  assumes "bd_refines now passed d" and "now \<le> now'" and "key \<notin> set (bd_seen d)"
  shows "bd_refines now' (passed @ [(now', key)])
    (let d = d\<lparr>bd_seen := List.insert key (bd_seen d), bd_timeline := bd_timeline d @ [(now', key)]\<rparr> in
     if length (bd_timeline d) > MAX_CACHE then
       (case bd_timeline d of
          (_, old) # rest \<Rightarrow> d\<lparr>bd_timeline := rest, bd_seen := removeAll old (bd_seen d)\<rparr>
        | [] \<Rightarrow> d)
     else d)"
proof -
  from assms(1) obtain old where old: "last_n MAX_CACHE passed = old @ bd_timeline d" "list_all (\<lambda>e. \<not> young now e) old"
    and srt: "sorted (map fst passed)" and seen: "set (bd_seen d) = snd ` set (bd_timeline d)" "distinct (map snd (bd_timeline d))"
    and le: "\<forall>(t, _) \<in> set passed. t \<le> now"
    by (auto simp: bd_refines_def)
  have base: "sorted (map fst (passed @ [(now', key)]))" "\<forall>(t, _) \<in> set (passed @ [(now', key)]). t \<le> now'"
    using srt le assms(2) by (force simp: sorted_append)+
  have old': "list_all (\<lambda>e. \<not> young now' e) old" "list_all (\<lambda>e. \<not> young now' e) (tl old)"
    using old(2) young_antimono [OF _ assms(2)] by (cases old; fastforce simp: list_all_iff)+
  have key: "key \<notin> snd ` set (bd_timeline d)" using assms(3) seen(1) by simp
  have len: "length old + length (bd_timeline d) = min MAX_CACHE (length passed)"
    using length_last_n [of MAX_CACHE passed] old(1) by simp
  have pos: "MAX_CACHE \<noteq> 0" by (simp add: MAX_CACHE_def)
  show ?thesis
  proof (cases "length (bd_timeline d @ [(now', key)]) > MAX_CACHE")
    case False
    have "\<exists>old'. last_n MAX_CACHE (passed @ [(now', key)]) = old' @ bd_timeline d @ [(now', key)] \<and> list_all (\<lambda>e. \<not> young now' e) old'"
    proof (cases "length passed < MAX_CACHE")
      case True
      then show ?thesis using old(1) old'(1) pos by (simp add: last_n_snoc)
    next
      case full: False
      with False len have "old \<noteq> []" by auto
      then show ?thesis using full old(1) old'(2) pos by (simp add: last_n_snoc)
    qed
    with False base seen key show ?thesis by (simp add: bd_refines_def Let_def)
  next
    case True
    then have "MAX_CACHE \<le> length (bd_timeline d)" by simp
    with len have "length old = 0" "length (bd_timeline d) = MAX_CACHE" "\<not> length passed < MAX_CACHE" by linarith+
    then have e: "old = []" "length (bd_timeline d) = MAX_CACHE" "\<not> length passed < MAX_CACHE" by auto
    then obtain t k rest where tl: "bd_timeline d = (t, k) # rest" using pos by (cases "bd_timeline d") auto
    have "last_n MAX_CACHE (passed @ [(now', key)]) = rest @ [(now', key)]"
      using e old(1) pos tl by (simp add: last_n_snoc)
    moreover have "set (removeAll k (List.insert key (bd_seen d))) = snd ` set (rest @ [(now', key)])"
      using seen key tl by auto
    moreover have "distinct (map snd (rest @ [(now', key)]))" using seen(2) key tl by auto
    ultimately show ?thesis using True base tl by (simp add: bd_refines_def Let_def)
  qed
qed

lemma note_key_refines:
  assumes "bd_refines clock passed d" and "clock \<le> now" and "now \<le> now'" and "note_key now now' key d = (fresh, d')"
  shows "fresh = (key \<notin> snd ` set (filter (young now) (last_n MAX_CACHE passed)))
    \<and> bd_refines now' (if fresh then passed @ [(now', key)] else passed) d'"
proof -
  note ev = evicted [OF assms(1,2)]
  have mem: "key \<in> set (bd_seen (bd_evict now d)) \<longleftrightarrow> key \<in> snd ` set (filter (young now) (last_n MAX_CACHE passed))"
    using ev by simp
  show ?thesis
  proof (cases "key \<in> set (bd_seen (bd_evict now d))")
    case True
    then have "fresh = False" "d' = bd_evict now d" using assms(4) by (simp_all add: note_key_def)
    moreover have "bd_refines now' passed (bd_evict now d)"
      using ev assms(3) young_antimono [OF _ assms(3)] unfolding bd_refines_def by (fastforce simp: list_all_iff)
    ultimately show ?thesis using mem True by simp
  next
    case False
    with refines_push [of now passed "bd_evict now d" now' key] ev assms(3,4) mem show ?thesis
      by (auto simp: note_key_def Let_def)
  qed
qed

lemma bd_run_refines: "bd_refines clock passed d \<Longrightarrow> clock_ok clock as \<Longrightarrow> bd_run h as d = pass_run h as passed"
proof (induction as arbitrary: clock passed d)
  case (Cons a as)
  obtain now now' scope packet where a: "a = (now, now', scope, packet)" by (metis prod.exhaust)
  obtain fresh d' where nk: "note_key now now' (packet_key h scope packet) d = (fresh, d')" by fastforce
  have step: "(case scope of None \<Rightarrow> is_fresh h now now' packet d | Some s \<Rightarrow> is_fresh_scoped h now now' s packet d) = (fresh, d')"
    using nk by (cases scope) (simp_all add: packet_key_def is_fresh_def is_fresh_scoped_def)
  have ck: "clock \<le> now" "now \<le> now'" "clock_ok now' as" using Cons.prems(2) a by simp_all
  note r = note_key_refines [OF Cons.prems(1) ck(1,2) nk]
  with Cons.IH [OF r [THEN conjunct2] ck(3)] step show ?case unfolding a by (simp add: Let_def)
qed simp

section \<open>Keys ignore what routers change\<close>

text \<open>Two packets that differ at most in the hop count and the header checksum.\<close>

definition same_but_hops :: "bytes \<Rightarrow> bytes \<Rightarrow> bool" where
  "same_but_hops p q = (length p = length q \<and> list_all (\<lambda>i. i \<in> {8, 10, 11} \<or> p ! i = q ! i) [0..<length p])"

lemma same_but_hops_nth: "same_but_hops p q \<Longrightarrow> i < length p \<Longrightarrow> i \<notin> {8, 10, 11} \<Longrightarrow> p ! i = q ! i"
  by (auto simp: same_but_hops_def list_all_iff)

lemma masked_eq:
  assumes "same_but_hops p q"
  shows "(take n p)[8 := 0, 10 := 0, 11 := 0] = (take n q)[8 := 0, 10 := 0, 11 := 0]"
proof (rule nth_equalityI)
  fix i
  assume "i < length ((take n p)[8 := 0, 10 := 0, 11 := 0])"
  then show "(take n p)[8 := 0, 10 := 0, 11 := 0] ! i = (take n q)[8 := 0, 10 := 0, 11 := 0] ! i"
    using same_but_hops_nth [OF assms, of i] assms
    by (cases "i \<in> {8, 10, 11}") (auto simp: same_but_hops_def nth_list_update)
qed (use assms in \<open>simp add: same_but_hops_def\<close>)

lemma drop_eq:
  assumes "same_but_hops p q" and "12 \<le> n"
  shows "drop n p = drop n q"
proof (rule nth_equalityI)
  fix i
  assume "i < length (drop n p)"
  with assms(2) same_but_hops_nth [OF assms(1), of "n + i"] assms(1) show "drop n p ! i = drop n q ! i"
    by (simp add: same_but_hops_def)
qed (use assms in \<open>simp add: same_but_hops_def\<close>)

lemma key_items_hops:
  assumes "same_but_hops p q" and "12 \<le> length p"
  shows "key_items p = key_items q"
proof -
  have len: "length q = length p" using assms(1) by (simp add: same_but_hops_def)
  have sub: "drop 20 (take m p) = drop 20 (take m q)" for m
    using drop_eq [OF assms(1), of 20] by (simp add: drop_take)
  show ?thesis
  proof (cases "20 \<le> length p")
    case True
    have "drop (length p - 32) p = drop (length p - 32) q" if "128 < length p"
      using drop_eq [OF assms(1), of "length p - 32"] that by simp
    with True len sub masked_eq [OF assms(1), of 20] drop_eq [OF assms(1), of 20] show ?thesis by (simp add: key_items_def Let_def)
  next
    case False
    with assms(2) len masked_eq [OF assms(1), of "length p"] show ?thesis by (simp add: key_items_def Let_def)
  qed
qed

section \<open>Properties\<close>

text \<open>
  C15. The broadcast filter does what it promises: over every run with a clock that does not go back, a packet is
  passed on exactly if its key is not among the last 4096 keys passed on in the past two seconds. Packets of at
  least twelve bytes that differ only in the hop count and the header checksum have the same key, with and without a scope.
\<close>

theorem broadcast_passes_once:
  assumes "clock_ok 0 arrivals" and "same_but_hops p q" and "12 \<le> length p"
  shows "bd_run h arrivals bd_new = pass_run h arrivals [] \<and> packet_key h scope p = packet_key h scope q"
proof
  have "bd_refines 0 [] bd_new" by (simp add: bd_refines_def bd_new_def last_n_def)
  from bd_run_refines [OF this assms(1)] show "bd_run h arrivals bd_new = pass_run h arrivals []" .
  show "packet_key h scope p = packet_key h scope q"
    using key_items_hops [OF assms(2,3)] by (simp add: packet_key_def make_key_def make_scoped_key_def split: option.splits)
qed

definition sample_hash :: hasher where
  "sample_hash items = word_of_nat (sum_list (map (\<lambda>i. case i of HBytes bs \<Rightarrow> sum_list (map unat bs) | HLen n \<Rightarrow> n) items))"

definition hop_packet :: "u8 \<Rightarrow> bytes" where
  "hop_packet hops = (replicate 20 1)[8 := hops]"

theorem broadcast_passes_once_witness:
  "bd_run sample_hash [(0, 1, None, hop_packet 9), (2, 3, None, hop_packet 8)] bd_new
     = pass_run sample_hash [(0, 1, None, hop_packet 9), (2, 3, None, hop_packet 8)] []
   \<and> pass_run sample_hash [(0, 1, None, hop_packet 9), (2, 3, None, hop_packet 8)] [] = [True, False]"
proof -
  have same: "same_but_hops (hop_packet 9) (hop_packet 8)"
    by (auto simp: same_but_hops_def hop_packet_def list_all_iff nth_list_update)
  have len: "12 \<le> length (hop_packet 9)" by (simp add: hop_packet_def)
  have clk: "clock_ok 0 [(0, 1, None, hop_packet 9), (2, 3, None, hop_packet 8)]" by simp
  note p = broadcast_passes_once [OF clk same len, of sample_hash None]
  then have "packet_key sample_hash None (hop_packet 9) = packet_key sample_hash None (hop_packet 8)" by simp
  then have "pass_run sample_hash [(0, 1, None, hop_packet 9), (2, 3, None, hop_packet 8)] [] = [True, False]"
    by (simp add: last_n_def MAX_CACHE_def young_def duration_since_def BCAST_TTL_def from_millis_def)
  with p show ?thesis by simp
qed

end
