(* ===== verification/Tracker.thy ===== *)
theory Tracker
  imports Net_Addr
begin

text \<open>
  \<^verbatim>\<open>src/src/nat/tracker.rs\<close>: the BitTorrent tracker protocol that peers of a room find each other with. UDP
  requests and responses, tracker URLs, the HTTP request target, the head of an HTTP response and the bencoded
  announce body. Byte strings are lists; the position of the bencode parser in its input is the rest of the
  input. The parser is recursive: its first argument is the number of nested calls the stack has room for, and running
  out of them is the error \<open>StackOverflow\<close>. The transport (\<^verbatim>\<open>http_tracker_announce\<close>) is not modelled. A number whose
  text is not UTF-8 and one that is no number are the same error here.
\<close>

section \<open>Text\<close>

fun split_once :: "char \<Rightarrow> string \<Rightarrow> (string \<times> string) option" where
  "split_once c [] = None"
| "split_once c (x # xs) =
     (if x = c then Some ([], xs) else map_option (\<lambda>(a, b). (x # a, b)) (split_once c xs))"

definition rsplit_once :: "char \<Rightarrow> string \<Rightarrow> (string \<times> string) option" where
  "rsplit_once c s = map_option (\<lambda>(a, b). (rev b, rev a)) (split_once c (rev s))"

definition strip_prefix :: "string \<Rightarrow> string \<Rightarrow> string option" where
  "strip_prefix p s = (if take (length p) s = p then Some (drop (length p) s) else None)"

text \<open>\<^verbatim>\<open>str::parse\<close> for unsigned and signed integers: an optional sign, then at least one digit.\<close>

definition parse_digits :: "string \<Rightarrow> nat option" where
  "parse_digits s = (if s = [] \<or> \<not> list_all is_digit s then None else Some (digits_val s))"

definition parse_unsigned :: "nat \<Rightarrow> string \<Rightarrow> nat option" where
  "parse_unsigned w s =
     (case parse_digits (case s of c # r \<Rightarrow> if c = CHR ''+'' then r else s | [] \<Rightarrow> []) of
        Some n \<Rightarrow> if n < 2 ^ w then Some n else None
      | None \<Rightarrow> None)"

definition parse_i64 :: "string \<Rightarrow> int option" where
  "parse_i64 s =
     (case s of
        c # r \<Rightarrow>
          if c = CHR ''-'' then
            (case parse_digits r of Some n \<Rightarrow> if n \<le> 2 ^ 63 then Some (- int n) else None | None \<Rightarrow> None)
          else map_option int (parse_unsigned 63 s)
      | [] \<Rightarrow> None)"

definition show_int :: "int \<Rightarrow> string" where
  "show_int n = (if n < 0 then CHR ''-'' # show_nat (nat (- n)) else show_nat (nat n))"

definition text_of :: "bytes \<Rightarrow> string" where
  "text_of bs = map (\<lambda>b. char_of (unat b)) bs"

section \<open>UDP requests and responses\<close>

definition CONNECT_MAGIC :: u64 where "CONNECT_MAGIC = 0x41727101980"
definition COMPACT_PEER_LEN :: nat where "COMPACT_PEER_LEN = 6"
definition ANNOUNCE_HEADER_LEN :: nat where "ANNOUNCE_HEADER_LEN = 20"
definition MAX_PEERS_PER_RESPONSE :: nat where "MAX_PEERS_PER_RESPONSE = 512"
definition MAX_HTTP_ANNOUNCE_BODY :: nat where "MAX_HTTP_ANNOUNCE_BODY = 128 * 1024"

datatype tracker_error =
    TooShort | UnexpectedAction | TransactionMismatch | MalformedPeers | TooManyPeers
  | Truncated | BadInt | BadList | BadDict | DictKey | BadBytes | BadLen | TruncatedBytes | BadTag | StackOverflow
  | NotADict | TrackerFailure "bytes option" | NonCompactPeers | MissingInterval | InvalidInterval
  | NoHeaderEnd | BadStatusLine | Status nat | BodyTooLarge

definition build_connect_request :: "bytes \<Rightarrow> bytes" where
  "build_connect_request txn = u64_to_be CONNECT_MAGIC @ u32_to_be 0 @ txn"

definition parse_connect_response :: "bytes \<Rightarrow> bytes \<Rightarrow> tracker_error + u64" where
  "parse_connect_response buf expected_txn =
     (if length buf < 16 then Inl TooShort
      else if u32_from_be (take 4 buf) \<noteq> 0 then Inl UnexpectedAction
      else if take 4 (drop 4 buf) \<noteq> expected_txn then Inl TransactionMismatch
      else Inr (u64_from_be (take 8 (drop 8 buf))))"

definition build_announce_request :: "u64 \<Rightarrow> bytes \<Rightarrow> bytes \<Rightarrow> bytes \<Rightarrow> u16 \<Rightarrow> u32 \<Rightarrow> bytes" where
  "build_announce_request connection_id txn info_hash peer_id port num_want =
     u64_to_be connection_id @ u32_to_be 1 @ txn @ info_hash @ peer_id @ replicate 24 0
     @ u32_to_be 0 @ u32_to_be 0 @ u32_to_be 0 @ u32_to_be num_want @ u16_to_be port"

fun chunks6 :: "bytes \<Rightarrow> bytes list" where
  "chunks6 (a # b # c # d # e # f # rest) = [a, b, c, d, e, f] # chunks6 rest"
| "chunks6 _ = []"

definition compact_peer :: "bytes \<Rightarrow> SocketAddr option" where
  "compact_peer chunk =
     (let port = u16_from_be (drop 4 chunk) in
      if port = 0 then None else Some (V4 (from_octets (take 4 chunk)) port))"

definition parse_compact_peers :: "bytes \<Rightarrow> tracker_error + SocketAddr list" where
  "parse_compact_peers peer_bytes =
     (if length peer_bytes mod COMPACT_PEER_LEN \<noteq> 0 then Inl MalformedPeers
      else if length peer_bytes div COMPACT_PEER_LEN > MAX_PEERS_PER_RESPONSE then Inl TooManyPeers
      else Inr (List.map_filter compact_peer (chunks6 peer_bytes)))"

definition parse_announce_response :: "bytes \<Rightarrow> bytes \<Rightarrow> tracker_error + (u32 \<times> SocketAddr list)" where
  "parse_announce_response buf expected_txn =
     (if length buf < ANNOUNCE_HEADER_LEN then Inl TooShort
      else if u32_from_be (take 4 buf) \<noteq> 1 then Inl UnexpectedAction
      else if take 4 (drop 4 buf) \<noteq> expected_txn then Inl TransactionMismatch
      else case parse_compact_peers (drop ANNOUNCE_HEADER_LEN buf) of
        Inl e \<Rightarrow> Inl e
      | Inr peers \<Rightarrow> Inr (u32_from_be (take 4 (drop 8 buf)), peers))"

section \<open>Tracker URLs and request targets\<close>

datatype TrackerScheme = Udp | Http | Https

record TrackerEndpoint =
  te_scheme :: TrackerScheme
  te_host :: string
  te_port :: u16
  te_path :: string

definition url_scheme :: "string \<Rightarrow> (TrackerScheme \<times> string) option" where
  "url_scheme url =
     (case strip_prefix ''udp://'' url of
        Some r \<Rightarrow> Some (Udp, r)
      | None \<Rightarrow>
          (case strip_prefix ''http://'' url of
             Some r \<Rightarrow> Some (Http, r)
           | None \<Rightarrow> map_option (Pair Https) (strip_prefix ''https://'' url)))"

definition host_port :: "TrackerScheme \<Rightarrow> string \<Rightarrow> (string \<times> u16) option" where
  "host_port scheme authority =
     (case rsplit_once CHR '':'' authority of
        Some (h, p) \<Rightarrow>
          (case parse_unsigned 16 p of
             None \<Rightarrow> None
           | Some port \<Rightarrow> if h = [] \<or> port = 0 then None else Some (h, word_of_nat port))
      | None \<Rightarrow>
          (case scheme of
             Http \<Rightarrow> Some (authority, 80) | Https \<Rightarrow> Some (authority, 443) | Udp \<Rightarrow> None))"

definition parse_tracker_endpoint :: "string \<Rightarrow> TrackerEndpoint option" where
  "parse_tracker_endpoint url =
     (case url_scheme url of
        None \<Rightarrow> None
      | Some (scheme, rest) \<Rightarrow>
          let (authority, path_raw) = (case split_once CHR ''/'' rest of Some p \<Rightarrow> p | None \<Rightarrow> (rest, [])) in
          if authority = [] \<or> hd authority = CHR ''['' then None
          else case host_port scheme authority of
            None \<Rightarrow> None
          | Some (host, port) \<Rightarrow>
              let path = (if path_raw = [] then ''/announce''
                          else CHR ''/'' # (case split_once CHR ''?'' path_raw of Some (p, _) \<Rightarrow> p | None \<Rightarrow> path_raw)) in
              Some \<lparr>te_scheme = scheme, te_host = host, te_port = port, te_path = path\<rparr>)"

definition parse_tracker_url :: "string \<Rightarrow> (string \<times> u16) option" where
  "parse_tracker_url url =
     (case parse_tracker_endpoint url of
        None \<Rightarrow> None
      | Some ep \<Rightarrow> if te_scheme ep \<noteq> Udp then None else Some (te_host ep, te_port ep))"

definition unreserved :: "u8 \<Rightarrow> bool" where
  "unreserved b = (0x41 \<le> b \<and> b \<le> 0x5A \<or> 0x61 \<le> b \<and> b \<le> 0x7A \<or> 0x30 \<le> b \<and> b \<le> 0x39
     \<or> b = 0x2D \<or> b = 0x5F \<or> b = 0x2E \<or> b = 0x7E)"

definition hex_digit :: "nat \<Rightarrow> char" where
  "hex_digit n = char_of (if n < 10 then 48 + n else 55 + n)"

definition percent_byte :: "u8 \<Rightarrow> string" where
  "percent_byte b =
     (if unreserved b then [char_of (unat b)] else [CHR ''%'', hex_digit (unat b div 16), hex_digit (unat b mod 16)])"

definition percent_encode_bytes :: "bytes \<Rightarrow> string" where
  "percent_encode_bytes bs = concat (map percent_byte bs)"

definition build_http_announce_request_target :: "string \<Rightarrow> bytes \<Rightarrow> bytes \<Rightarrow> u16 \<Rightarrow> int \<Rightarrow> string" where
  "build_http_announce_request_target path info_hash peer_id port num_want =
     (if path = [] then ''/announce'' else path)
     @ ''?info_hash='' @ percent_encode_bytes info_hash @ ''&peer_id='' @ percent_encode_bytes peer_id
     @ ''&port='' @ show_nat (unat port) @ ''&uploaded=0&downloaded=0&left=0&compact=1&numwant='' @ show_int num_want"

definition peer_id_from_room_and_node :: "bytes \<Rightarrow> bytes \<Rightarrow> bytes" where
  "peer_id_from_room_and_node room_id nib =
     (let n = min (length nib) 20 in map2 (XOR) (take n room_id) (take n nib) @ drop n room_id)"

section \<open>Bencode\<close>

datatype BVal = BInt int | BBytes bytes | BList "BVal list" | BDict "(bytes \<times> BVal) list"

abbreviation byte_i :: u8 where "byte_i \<equiv> 0x69"
abbreviation byte_l :: u8 where "byte_l \<equiv> 0x6C"
abbreviation byte_d :: u8 where "byte_d \<equiv> 0x64"
abbreviation byte_e :: u8 where "byte_e \<equiv> 0x65"
abbreviation byte_colon :: u8 where "byte_colon \<equiv> 0x3A"

definition bencode_int :: "bytes \<Rightarrow> tracker_error + (BVal \<times> bytes)" where
  "bencode_int rest =
     (case dropWhile (\<lambda>b. b \<noteq> byte_e) rest of
        [] \<Rightarrow> Inl BadInt
      | _ # after \<Rightarrow>
          (case parse_i64 (text_of (takeWhile (\<lambda>b. b \<noteq> byte_e) rest)) of
             None \<Rightarrow> Inl BadInt
           | Some n \<Rightarrow> Inr (BInt n, after)))"

definition bencode_bytes :: "bytes \<Rightarrow> tracker_error + (BVal \<times> bytes)" where
  "bencode_bytes data =
     (case dropWhile (\<lambda>b. b \<noteq> byte_colon) data of
        [] \<Rightarrow> Inl BadBytes
      | _ # after \<Rightarrow>
          (case parse_unsigned 64 (text_of (takeWhile (\<lambda>b. b \<noteq> byte_colon) data)) of
             None \<Rightarrow> Inl BadLen
           | Some len \<Rightarrow>
               if length after < len then Inl TruncatedBytes
               else Inr (BBytes (take len after), drop len after)))"

text \<open>
  The loops over the items of a list and the entries of a dictionary carry a bound on their turns: every turn
  consumes a byte, so the length of the input is enough.
\<close>

fun parse_bencode :: "nat \<Rightarrow> bytes \<Rightarrow> tracker_error + (BVal \<times> bytes)"
  and parse_items :: "nat \<Rightarrow> nat \<Rightarrow> bytes \<Rightarrow> tracker_error + (BVal list \<times> bytes)"
  and parse_entries :: "nat \<Rightarrow> nat \<Rightarrow> bytes \<Rightarrow> tracker_error + ((bytes \<times> BVal) list \<times> bytes)" where
  "parse_bencode 0 data = Inl StackOverflow"
| "parse_bencode (Suc d) data =
     (case data of
        [] \<Rightarrow> Inl Truncated
      | b # rest \<Rightarrow>
          if b = byte_i then bencode_int rest
          else if b = byte_l then
            (case parse_items d (length rest) rest of
               Inl e \<Rightarrow> Inl e
             | Inr (items, []) \<Rightarrow> Inl BadList
             | Inr (items, _ # after) \<Rightarrow> Inr (BList items, after))
          else if b = byte_d then
            (case parse_entries d (length rest) rest of
               Inl e \<Rightarrow> Inl e
             | Inr (entries, []) \<Rightarrow> Inl BadDict
             | Inr (entries, _ # after) \<Rightarrow> Inr (BDict entries, after))
          else if 0x30 \<le> b \<and> b \<le> 0x39 then bencode_bytes data
          else Inl BadTag)"
| "parse_items d 0 data = Inr ([], data)"
| "parse_items d (Suc k) data =
     (case data of
        [] \<Rightarrow> Inr ([], [])
      | b # _ \<Rightarrow>
          if b = byte_e then Inr ([], data)
          else case parse_bencode d data of
            Inl e \<Rightarrow> Inl e
          | Inr (v, rest) \<Rightarrow>
              (case parse_items d k rest of Inl e \<Rightarrow> Inl e | Inr (vs, r) \<Rightarrow> Inr (v # vs, r)))"
| "parse_entries d 0 data = Inr ([], data)"
| "parse_entries d (Suc k) data =
     (case data of
        [] \<Rightarrow> Inr ([], [])
      | b # _ \<Rightarrow>
          if b = byte_e then Inr ([], data)
          else case parse_bencode d data of
            Inl e \<Rightarrow> Inl e
          | Inr (BBytes key, rest) \<Rightarrow>
              (case parse_bencode d rest of
                 Inl e \<Rightarrow> Inl e
               | Inr (v, rest) \<Rightarrow>
                   (case parse_entries d k rest of Inl e \<Rightarrow> Inl e | Inr (vs, r) \<Rightarrow> Inr ((key, v) # vs, r)))
          | Inr (_, rest) \<Rightarrow> Inl DictKey)"

section \<open>HTTP responses\<close>

text \<open>One turn of the loop over the entries of the announce body: the interval and the peers found so far.\<close>

definition announce_entry :: "bytes \<times> BVal \<Rightarrow> int option \<times> bytes option \<Rightarrow> tracker_error + (int option \<times> bytes option)" where
  "announce_entry = (\<lambda>(k, v) (interval, peers).
     if k = ascii ''interval'' \<or> k = ascii ''min interval'' then
       (case v of
          BInt n \<Rightarrow> Inr (if interval = None \<or> k = ascii ''interval'' then Some n else interval, peers)
        | _ \<Rightarrow> Inr (interval, peers))
     else if k = ascii ''peers'' then
       (case v of BBytes b \<Rightarrow> Inr (interval, Some b) | _ \<Rightarrow> Inl NonCompactPeers)
     else Inr (interval, peers))"

fun announce_entries :: "(bytes \<times> BVal) list \<Rightarrow> int option \<times> bytes option \<Rightarrow> tracker_error + (int option \<times> bytes option)" where
  "announce_entries [] acc = Inr acc"
| "announce_entries (e # es) acc = (case announce_entry e acc of Inl x \<Rightarrow> Inl x | Inr acc \<Rightarrow> announce_entries es acc)"

definition parse_http_announce_body :: "nat \<Rightarrow> bytes \<Rightarrow> tracker_error + (u32 \<times> SocketAddr list)" where
  "parse_http_announce_body stack body =
     (case parse_bencode stack body of
        Inl e \<Rightarrow> Inl e
      | Inr (BDict entries, _) \<Rightarrow>
          (case find (\<lambda>(k, _). k = ascii ''failure reason'') entries of
             Some (_, v) \<Rightarrow> Inl (TrackerFailure (case v of BBytes b \<Rightarrow> Some b | _ \<Rightarrow> None))
           | None \<Rightarrow>
               (case announce_entries entries (None, None) of
                  Inl e \<Rightarrow> Inl e
                | Inr (None, _) \<Rightarrow> Inl MissingInterval
                | Inr (Some interval, peers) \<Rightarrow>
                    if interval < 0 \<or> interval \<ge> 2 ^ 32 then Inl InvalidInterval
                    else case parse_compact_peers (case peers of Some b \<Rightarrow> b | None \<Rightarrow> []) of
                      Inl e \<Rightarrow> Inl e
                    | Inr ps \<Rightarrow> Inr (word_of_int interval, ps)))
      | Inr _ \<Rightarrow> Inl NotADict)"

text \<open>The position of the first blank line.\<close>

fun header_end :: "bytes \<Rightarrow> nat option" where
  "header_end [] = None"
| "header_end (b # bs) = (if take 4 (b # bs) = [13, 10, 13, 10] then Some 0 else map_option Suc (header_end bs))"

definition strip_cr :: "bytes \<Rightarrow> bytes" where
  "strip_cr line = (if line \<noteq> [] \<and> last line = 13 then butlast line else line)"

fun split_bytes :: "u8 \<Rightarrow> bytes \<Rightarrow> bytes list" where
  "split_bytes c [] = [[]]"
| "split_bytes c (x # xs) =
     (if x = c then [] # split_bytes c xs
      else case split_bytes c xs of [] \<Rightarrow> [[x]] | p # ps \<Rightarrow> (x # p) # ps)"

definition split_http_body :: "bytes \<Rightarrow> tracker_error + bytes" where
  "split_http_body raw =
     (case header_end raw of
        None \<Rightarrow> Inl NoHeaderEnd
      | Some sep \<Rightarrow>
          let headers = take sep raw; body = drop (sep + 4) raw;
              status_line = strip_cr (hd (split_bytes 10 headers)) in
          (case split_bytes 32 status_line of
             _ # c # _ \<Rightarrow>
               (case parse_unsigned 16 (text_of c) of
                  None \<Rightarrow> Inl BadStatusLine
                | Some code \<Rightarrow>
                    if code < 200 \<or> code \<ge> 300 then Inl (Status code)
                    else if length body > MAX_HTTP_ANNOUNCE_BODY then Inl BodyTooLarge
                    else Inr body)
           | _ \<Rightarrow> Inl BadStatusLine))"

section \<open>Numbers as text\<close>

lemma text_of_ascii [simp]: "text_of (ascii s) = s"
proof -
  have "char_of (unat (word_of_nat (of_char c) :: u8)) = c" for c
    by (simp add: unat_of_nat)
  then show ?thesis by (simp add: text_of_def ascii_def comp_def)
qed

lemma parse_digits_show [simp]: "parse_digits (show_nat n) = Some n"
  by (simp add: parse_digits_def show_nat_digits digits_val_show_nat)

lemma hd_show_nat: "is_digit (hd (show_nat n))"
  using show_nat_digits [of n] show_nat_nonempty [of n] by (cases "show_nat n") auto

lemma parse_unsigned_digits: "s \<noteq> [] \<Longrightarrow> list_all is_digit s \<Longrightarrow>
    parse_unsigned w s = (if digits_val s < 2 ^ w then Some (digits_val s) else None)"
  by (cases s) (auto simp: parse_unsigned_def parse_digits_def is_digit_def)

lemma parse_unsigned_show [simp]: "parse_unsigned w (show_nat n) = (if n < 2 ^ w then Some n else None)"
  by (simp add: parse_unsigned_digits show_nat_digits digits_val_show_nat)

lemma parse_i64_show: "- (2 ^ 63) \<le> n \<Longrightarrow> n < 2 ^ 63 \<Longrightarrow> parse_i64 (show_int n) = Some n"
proof (cases "n < 0")
  case True
  assume "- (2 ^ 63) \<le> n"
  with True show ?thesis by (auto simp: parse_i64_def show_int_def nat_le_iff)
next
  case False
  assume *: "n < 2 ^ 63"
  have "hd (show_nat (nat n)) \<noteq> CHR ''-''"
    using hd_show_nat [of "nat n"] by (auto simp: is_digit_def)
  with False * show ?thesis
    using parse_unsigned_show [of 63 "nat n"] show_nat_nonempty [of "nat n"]
    by (cases "show_nat (nat n)") (auto simp: parse_i64_def show_int_def)
qed

lemma ascii_mem: "w \<in> set (ascii s) \<Longrightarrow> \<exists>c \<in> set s. w = word_of_nat (of_char c)"
  by (auto simp: ascii_def)

lemma digit_word:
  assumes "is_digit c"
  shows "(word_of_nat (of_char c) :: u8) \<noteq> byte_e" "(word_of_nat (of_char c) :: u8) \<noteq> byte_colon"
    "0x30 \<le> (word_of_nat (of_char c) :: u8)" "(word_of_nat (of_char c) :: u8) \<le> 0x39"
  using assms by (auto simp: is_digit_def word_unat_eq_iff word_le_nat_alt unat_of_nat)

lemma scan_ascii:
  assumes "\<forall>c \<in> set s. (word_of_nat (of_char c) :: u8) \<noteq> stop"
  shows "takeWhile (\<lambda>b. b \<noteq> stop) (ascii s @ stop # rest) = ascii s"
    "dropWhile (\<lambda>b. b \<noteq> stop) (ascii s @ stop # rest) = stop # rest"
  using assms by (induction s) (auto simp: ascii_def)

section \<open>Printing bencode\<close>

fun bencode :: "BVal \<Rightarrow> bytes" where
  "bencode (BInt n) = byte_i # ascii (show_int n) @ [byte_e]"
| "bencode (BBytes b) = ascii (show_nat (length b)) @ byte_colon # b"
| "bencode (BList vs) = byte_l # concat (map bencode vs) @ [byte_e]"
| "bencode (BDict es) =
     byte_d # concat (map (\<lambda>(k, v). ascii (show_nat (length k)) @ byte_colon # k @ bencode v) es) @ [byte_e]"

fun bdepth :: "BVal \<Rightarrow> nat" where
  "bdepth (BInt n) = 1"
| "bdepth (BBytes b) = 1"
| "bdepth (BList vs) = Suc (fold max (map bdepth vs) 0)"
| "bdepth (BDict es) = Suc (fold max (map (\<lambda>(k, v). bdepth v) es) 0)"

fun bval_ok :: "BVal \<Rightarrow> bool" where
  "bval_ok (BInt n) = (- (2 ^ 63) \<le> n \<and> n < 2 ^ 63)"
| "bval_ok (BBytes b) = (length b < 2 ^ 64)"
| "bval_ok (BList vs) = list_all bval_ok vs"
| "bval_ok (BDict es) = list_all (\<lambda>(k, v). length k < 2 ^ 64 \<and> bval_ok v) es"

lemma fold_max_le: "(fold max xs a \<le> d) = (a \<le> d \<and> (\<forall>x \<in> set xs. x \<le> d))" for d :: nat
  by (induction xs arbitrary: a) auto

lemma bdepth_pos [simp]: "0 < bdepth v"
  by (cases v) auto

lemma show_int_chars: "c \<in> set (show_int n) \<Longrightarrow> is_digit c \<or> c = CHR ''-''"
  using show_nat_digits by (auto simp: show_int_def list_all_iff split: if_splits)

lemma show_nat_head: "\<exists>b bs. ascii (show_nat n) = b # bs \<and> 0x30 \<le> b \<and> b \<le> 0x39"
  using show_nat_nonempty [of n] hd_show_nat [of n] digit_word(3,4) by (cases "show_nat n") (auto simp: ascii_def)

lemma bencode_int_print:
  assumes "- (2 ^ 63) \<le> n" and "n < 2 ^ 63"
  shows "bencode_int (ascii (show_int n) @ byte_e # rest) = Inr (BInt n, rest)"
proof -
  have "(word_of_nat (of_char c) :: u8) \<noteq> byte_e" if "c \<in> set (show_int n)" for c
    using show_int_chars [OF that] digit_word(1) by auto
  then have "\<forall>c \<in> set (show_int n). (word_of_nat (of_char c) :: u8) \<noteq> byte_e" by blast
  with assms show ?thesis by (simp add: bencode_int_def scan_ascii parse_i64_show)
qed

lemma bencode_bytes_print:
  assumes "length b < 2 ^ 64"
  shows "bencode_bytes (ascii (show_nat (length b)) @ byte_colon # b @ rest) = Inr (BBytes b, rest)"
proof -
  have "\<forall>c \<in> set (show_nat (length b)). (word_of_nat (of_char c) :: u8) \<noteq> byte_colon"
    using digit_word(2) show_nat_digits [of "length b"] by (auto simp: list_all_iff)
  with assms show ?thesis by (simp add: bencode_bytes_def scan_ascii)
qed

lemma parse_bytes_print:
  assumes "length b < 2 ^ 64" and "0 < d"
  shows "parse_bencode d (ascii (show_nat (length b)) @ byte_colon # b @ rest) = Inr (BBytes b, rest)"
proof -
  from show_nat_head obtain x xs where x: "ascii (show_nat (length b)) = x # xs" "0x30 \<le> x" "x \<le> 0x39" by blast
  then have "x \<noteq> byte_i" "x \<noteq> byte_l" "x \<noteq> byte_d" by (auto simp: word_le_nat_alt)
  with assms x bencode_bytes_print [OF assms(1), of rest] show ?thesis by (cases d) (simp_all)
qed

lemma bencode_head: "\<exists>b bs. bencode v = b # bs \<and> b \<noteq> byte_e"
proof (cases v)
  case (BBytes b)
  from show_nat_head obtain x xs where "ascii (show_nat (length b)) = x # xs" "0x30 \<le> x" "x \<le> 0x39" by blast
  then show ?thesis using BBytes by (auto simp: word_le_nat_alt)
qed auto

lemma parse_items_print:
  assumes "\<And>v rest. v \<in> set vs \<Longrightarrow> parse_bencode d (bencode v @ rest) = Inr (v, rest)" and "length vs \<le> k"
  shows "parse_items d k (concat (map bencode vs) @ byte_e # rest) = Inr (vs, byte_e # rest)"
  using assms
proof (induction vs arbitrary: k)
  case Nil
  then show ?case by (cases k) simp_all
next
  case (Cons v vs)
  from bencode_head obtain b bs where b: "bencode v = b # bs" "b \<noteq> byte_e" by blast
  from Cons.prems(2) obtain k' where k: "k = Suc k'" "length vs \<le> k'" by (cases k) auto
  have "parse_bencode d (bencode v @ concat (map bencode vs) @ byte_e # rest) = Inr (v, concat (map bencode vs) @ byte_e # rest)"
    using Cons.prems(1) by simp
  moreover have "parse_items d k' (concat (map bencode vs) @ byte_e # rest) = Inr (vs, byte_e # rest)"
    using Cons k by simp
  ultimately show ?case using b k by simp
qed

lemma parse_entries_print:
  assumes "\<And>e rest. e \<in> set es \<Longrightarrow> parse_bencode d (bencode (snd e) @ rest) = Inr (snd e, rest)"
    and "\<forall>e \<in> set es. length (fst e) < 2 ^ 64" and "0 < d" and "length es \<le> k"
  shows "parse_entries d k (concat (map (\<lambda>(k, v). ascii (show_nat (length k)) @ byte_colon # k @ bencode v) es) @ byte_e # rest)
    = Inr (es, byte_e # rest)"
  using assms
proof (induction es arbitrary: k)
  case Nil
  then show ?case by (cases k) simp_all
next
  case (Cons e es)
  obtain key v where e: "e = (key, v)" by fastforce
  define tail where "tail = concat (map (\<lambda>(k, v). ascii (show_nat (length k)) @ byte_colon # k @ bencode v) es) @ byte_e # rest"
  from show_nat_head obtain x xs where x: "ascii (show_nat (length key)) = x # xs" "0x30 \<le> x" "x \<le> 0x39" by blast
  then have xe: "x \<noteq> byte_e" by (auto simp: word_le_nat_alt)
  from Cons.prems(4) obtain k' where k: "k = Suc k'" "length es \<le> k'" by (cases k) auto
  have 1: "parse_bencode d (ascii (show_nat (length key)) @ byte_colon # key @ bencode v @ tail) = Inr (BBytes key, bencode v @ tail)"
    using Cons.prems(2,3) e parse_bytes_print by simp
  have 2: "parse_bencode d (bencode v @ tail) = Inr (v, tail)" using Cons.prems(1) e by fastforce
  have 3: "parse_entries d k' tail = Inr (es, byte_e # rest)"
    unfolding tail_def using Cons.prems k by (intro Cons.IH) auto
  show ?case using 1 2 3 x xe e k by (simp flip: tail_def)
qed

lemma parse_print: "bval_ok v \<Longrightarrow> bdepth v \<le> d \<Longrightarrow> parse_bencode d (bencode v @ rest) = Inr (v, rest)"
proof (induction v arbitrary: d rest)
  case (BInt n)
  then show ?case by (cases d) (simp_all add: bencode_int_print)
next
  case (BBytes b)
  then show ?case using parse_bytes_print [of b d rest] by simp
next
  case (BList vs)
  then obtain d' where d: "d = Suc d'" "\<forall>v \<in> set vs. bdepth v \<le> d'" by (cases d) (auto simp: fold_max_le)
  have "length vs \<le> length (concat (map bencode vs) @ byte_e # rest)"
  proof (induction vs)
    case (Cons v vs)
    then show ?case using bencode_head [of v] by auto
  qed simp
  then have "parse_items d' (length (concat (map bencode vs) @ byte_e # rest)) (concat (map bencode vs) @ byte_e # rest) = Inr (vs, byte_e # rest)"
    using BList d by (intro parse_items_print) (auto simp: list_all_iff)
  with d show ?case by simp
next
  case (BDict es)
  let ?body = "concat (map (\<lambda>(k, v). ascii (show_nat (length k)) @ byte_colon # k @ bencode v) es) @ byte_e # rest"
  from BDict obtain d' where d: "d = Suc d'" "\<forall>e \<in> set es. bdepth (snd e) \<le> d'"
    by (cases d) (auto simp: fold_max_le case_prod_unfold)
  show ?case
  proof (cases "es = []")
    case True
    then show ?thesis using d by (cases d') simp_all
  next
    case False
    then obtain e where "e \<in> set es" by (cases es) auto
    with d bdepth_pos [of "snd e"] have "0 < d'" by (metis order_less_le_trans)
    moreover have "length es \<le> length ?body"
      by (induction es) auto
    moreover have "parse_bencode d' (bencode (snd e) @ r) = Inr (snd e, r)" if "e \<in> set es" for e r
    proof -
      from that BDict.prems(1) have "bval_ok (snd e)" by (auto simp: list_all_iff)
      moreover from that d(2) have "bdepth (snd e) \<le> d'" by blast
      ultimately show ?thesis using BDict.IH [of e "snd e"] that by (simp add: snds.simps)
    qed
    ultimately have "parse_entries d' (length ?body) ?body = Inr (es, byte_e # rest)"
      using BDict.prems(1) by (intro parse_entries_print) (auto simp: list_all_iff)
    with d show ?thesis by simp
  qed
qed

section \<open>Progress and depth of the parser\<close>

lemma bencode_int_shorter: "bencode_int rest = Inr (v, r) \<Longrightarrow> length r < length rest"
  using length_dropWhile_le [of "\<lambda>b. b \<noteq> byte_e" rest]
  by (auto simp: bencode_int_def split: list.splits option.splits)

lemma bencode_bytes_shorter: "bencode_bytes data = Inr (v, r) \<Longrightarrow> length r < length data"
  using length_dropWhile_le [of "\<lambda>b. b \<noteq> byte_colon" data]
  by (auto simp: bencode_bytes_def split: list.splits option.splits if_splits)

lemma parse_shorter:
  "parse_bencode d data = Inr (v, r) \<Longrightarrow> length r < length data"
  "parse_items d k data = Inr (vs, r) \<Longrightarrow> length r \<le> length data"
  "parse_entries d k data = Inr (es, r) \<Longrightarrow> length r \<le> length data"
proof (induction d data and d k data and d k data arbitrary: v r and vs r and es r
    rule: parse_bencode_parse_items_parse_entries.induct)
  case (2 d data)
  then show ?case
    by (fastforce split: list.splits sum.splits prod.splits if_splits dest: bencode_int_shorter bencode_bytes_shorter)
next
  case (4 d k data)
  then show ?case
    by (fastforce split: list.splits sum.splits prod.splits if_splits)
next
  case (6 d k data)
  then show ?case
    by (fastforce split: list.splits sum.splits prod.splits if_splits BVal.splits)
qed simp_all

lemma bencode_leaf_errors [simp]:
  "bencode_int rest \<noteq> Inl StackOverflow" "bencode_bytes data \<noteq> Inl StackOverflow"
  by (auto simp: bencode_int_def bencode_bytes_def split: list.splits option.splits)

lemma enough_stack:
  "length data < d \<Longrightarrow> parse_bencode d data \<noteq> Inl StackOverflow"
  "length data < d \<Longrightarrow> parse_items d k data \<noteq> Inl StackOverflow"
  "length data < d \<Longrightarrow> parse_entries d k data \<noteq> Inl StackOverflow"
proof (induction d data and d k data and d k data rule: parse_bencode_parse_items_parse_entries.induct)
  case (2 d data)
  then show ?case by (auto split: list.splits sum.splits)
next
  case (4 d k data)
  show ?case
  proof (cases data)
    case (Cons b bs)
    show ?thesis
    proof (cases "parse_bencode d data")
      case (Inr vr)
      then obtain v r where vr: "parse_bencode d data = Inr (v, r)" by (cases vr) auto
      with parse_shorter(1) [OF vr] 4 Cons show ?thesis by (auto split: sum.splits)
    qed (use 4 Cons in auto)
  qed simp
next
  case (6 d k data)
  show ?case
  proof (cases "data = [] \<or> hd data = byte_e")
    case True
    then show ?thesis by (cases data) auto
  next
    case False
    then obtain b bs where data: "data = b # bs" "b \<noteq> byte_e" by (cases data) auto
    show ?thesis
    proof (cases "\<exists>key r. parse_bencode d data = Inr (BBytes key, r)")
      case True
      then obtain key r where kr: "parse_bencode d data = Inr (BBytes key, r)" by blast
      have r: "length r < d" using parse_shorter(1) [OF kr] 6(4) by simp
      show ?thesis
      proof (cases "parse_bencode d r")
        case (Inl e)
        with 6(2) [of b bs "(BBytes key, r)" "BBytes key" r key] data kr r show ?thesis by auto
      next
        case (Inr vr)
        then obtain v r' where vr: "parse_bencode d r = Inr (v, r')" by (cases vr) auto
        have r': "length r' < d" using parse_shorter(1) [OF vr] r by simp
        with 6(3) [of b bs "(BBytes key, r)" "BBytes key" r key "(v, r')" v r'] data kr vr show ?thesis
          by (auto split: sum.splits)
      qed
    next
      case False
      with 6(1,4) data show ?thesis by (auto split: sum.splits BVal.splits)
    qed
  qed
qed simp_all

text \<open>The loops end because the input does or because they are at an end mark, never because of their bound.\<close>

lemma items_finish: "parse_items d k data = Inr (vs, r) \<Longrightarrow> length data \<le> k \<Longrightarrow> r = [] \<or> hd r = byte_e"
proof (induction k arbitrary: data vs)
  case (Suc k)
  show ?case
  proof (cases "data = [] \<or> hd data = byte_e")
    case True
    with Suc.prems show ?thesis by (cases data) auto
  next
    case False
    with Suc.prems obtain v r1 vs1 where "parse_bencode d data = Inr (v, r1)" "parse_items d k r1 = Inr (vs1, r)"
      by (cases data) (auto split: sum.splits)
    with parse_shorter(1) [of d data v r1] Suc.IH [of r1 vs1] Suc.prems show ?thesis by simp
  qed
qed simp

lemma entries_finish: "parse_entries d k data = Inr (es, r) \<Longrightarrow> length data \<le> k \<Longrightarrow> r = [] \<or> hd r = byte_e"
proof (induction k arbitrary: data es)
  case (Suc k)
  show ?case
  proof (cases "data = [] \<or> hd data = byte_e")
    case True
    with Suc.prems show ?thesis by (cases data) auto
  next
    case False
    with Suc.prems obtain key r1 v r2 es1 where "parse_bencode d data = Inr (BBytes key, r1)"
      "parse_bencode d r1 = Inr (v, r2)" "parse_entries d k r2 = Inr (es1, r)"
      by (cases data) (auto split: sum.splits BVal.splits)
    with parse_shorter(1) [of d data _ r1] parse_shorter(1) [of d r1 v r2] Suc.IH [of r2 es1] Suc.prems show ?thesis
      by fastforce
  qed
qed simp

lemma nested_lists_overflow: "d < n \<Longrightarrow> parse_bencode d (replicate n byte_l) = Inl StackOverflow"
proof (induction d arbitrary: n)
  case (Suc d)
  then obtain m where n: "n = Suc (Suc m)" "d < Suc m" by (cases n; cases "n - 1") auto
  with Suc.IH [OF n(2)] have "parse_items d (length (replicate (Suc m) byte_l)) (replicate (Suc m) byte_l) = Inl StackOverflow"
    by simp
  with n(1) show ?case by simp
qed simp

section \<open>Peers\<close>

fun compact_bytes :: "SocketAddr \<Rightarrow> bytes" where
  "compact_bytes (V4 ip port) = octets ip @ u16_to_be port"
| "compact_bytes (V6 _ _ _ _) = []"

definition compactable :: "SocketAddr \<Rightarrow> bool" where
  "compactable p = (is_ipv4 p \<and> sa_port p \<noteq> 0)"

lemma chunks6_append: "length c = 6 \<Longrightarrow> chunks6 (c @ rest) = c # chunks6 rest"
  by (auto simp: numeral_eq_Suc length_Suc_conv)

lemma compact_peer_compact: "compactable p \<Longrightarrow> length (compact_bytes p) = 6 \<and> compact_peer (compact_bytes p) = Some p"
  by (cases p) (auto simp: compactable_def is_ipv4_def compact_peer_def Let_def wire_simps)

lemma chunks6_compact:
  "list_all compactable ps \<Longrightarrow> List.map_filter compact_peer (chunks6 (concat (map compact_bytes ps))) = ps
     \<and> length (concat (map compact_bytes ps)) = 6 * length ps"
  by (induction ps) (auto simp: List.map_filter_simps chunks6_append compact_peer_compact)

lemma parse_compact_peers_compact:
  "list_all compactable ps \<Longrightarrow> length ps \<le> MAX_PEERS_PER_RESPONSE \<Longrightarrow>
     parse_compact_peers (concat (map compact_bytes ps)) = Inr ps"
  using chunks6_compact [of ps] by (simp add: parse_compact_peers_def COMPACT_PEER_LEN_def)

lemma length_chunks6: "length (chunks6 bs) = length bs div 6"
  by (induction bs rule: chunks6.induct) simp_all

lemma compact_peer_Some: "compact_peer c = Some p \<Longrightarrow> compactable p"
  by (auto simp: compact_peer_def compactable_def is_ipv4_def Let_def split: if_splits)

lemma map_filter_props:
  "length (List.map_filter f xs) \<le> length xs" "y \<in> set (List.map_filter f xs) \<Longrightarrow> \<exists>x. f x = Some y"
  by (induction xs) (auto simp: List.map_filter_simps split: option.splits)

lemma parse_compact_peers_ok:
  assumes "parse_compact_peers bs = Inr ps"
  shows "length ps \<le> 512 \<and> list_all compactable ps"
proof -
  have ps: "ps = List.map_filter compact_peer (chunks6 bs)" "length bs div 6 \<le> 512"
    using assms by (auto simp: parse_compact_peers_def COMPACT_PEER_LEN_def MAX_PEERS_PER_RESPONSE_def split: if_splits)
  have "length ps \<le> 512"
    using map_filter_props(1) [of compact_peer "chunks6 bs"] ps length_chunks6 [of bs] by simp
  moreover have "list_all compactable ps"
    using map_filter_props(2) compact_peer_Some ps(1) by (fastforce simp: list_all_iff)
  ultimately show ?thesis ..
qed

lemma parse_announce_response_ok:
  "parse_announce_response buf txn = Inr (interval, ps) \<Longrightarrow> length ps \<le> 512 \<and> list_all compactable ps"
  by (auto simp: parse_announce_response_def parse_compact_peers_ok split: if_splits sum.splits)

lemma parse_http_announce_body_ok:
  "parse_http_announce_body stack body = Inr (interval, ps) \<Longrightarrow> length ps \<le> 512 \<and> list_all compactable ps"
  by (auto simp: parse_http_announce_body_def parse_compact_peers_ok split: if_splits sum.splits BVal.splits option.splits)

section \<open>Text of a URL\<close>

lemma split_once_append: "c \<notin> set a \<Longrightarrow> split_once c (a @ c # b) = Some (a, b)"
  by (induction a) auto

lemma split_once_None: "split_once c s = None \<longleftrightarrow> c \<notin> set s"
  by (induction s) auto

lemma split_once_Some: "split_once c s = Some (a, b) \<Longrightarrow> s = a @ c # b \<and> c \<notin> set a"
  by (induction s arbitrary: a) (auto split: if_splits)

lemma rsplit_once_append: "c \<notin> set b \<Longrightarrow> rsplit_once c (a @ c # b) = Some (a, b)"
  using split_once_append [of c "rev b" "rev a"] by (simp add: rsplit_once_def)

lemma rsplit_once_Some: "rsplit_once c s = Some (a, b) \<Longrightarrow> s = a @ c # b"
proof -
  assume "rsplit_once c s = Some (a, b)"
  then have "split_once c (rev s) = Some (rev b, rev a)" by (auto simp: rsplit_once_def)
  from split_once_Some [OF this] have "rev s = rev b @ c # rev a" by simp
  then have "rev (rev s) = a @ c # b" by simp
  then show ?thesis by simp
qed

definition scheme_text :: "TrackerScheme \<Rightarrow> string" where
  "scheme_text sc = (case sc of Udp \<Rightarrow> ''udp://'' | Http \<Rightarrow> ''http://'' | Https \<Rightarrow> ''https://'')"

definition show_endpoint :: "TrackerEndpoint \<Rightarrow> string" where
  "show_endpoint ep = scheme_text (te_scheme ep) @ te_host ep @ '':'' @ show_nat (unat (te_port ep)) @ te_path ep"

definition endpoint_ok :: "TrackerEndpoint \<Rightarrow> bool" where
  "endpoint_ok ep = (te_host ep \<noteq> [] \<and> CHR ''/'' \<notin> set (te_host ep) \<and> hd (te_host ep) \<noteq> CHR ''['' \<and> te_port ep \<noteq> 0
     \<and> te_path ep \<noteq> [] \<and> hd (te_path ep) = CHR ''/'' \<and> CHR ''?'' \<notin> set (te_path ep))"

lemma url_scheme_text: "url_scheme (scheme_text sc @ rest) = Some (sc, rest)"
  by (cases sc) (simp_all add: scheme_text_def url_scheme_def strip_prefix_def)

lemma digits_no: "list_all is_digit s \<Longrightarrow> \<not> is_digit c \<Longrightarrow> c \<notin> set s"
  by (auto simp: list_all_iff)

lemma host_port_text:
  assumes "h \<noteq> []" and "port \<noteq> 0"
  shows "host_port sc (h @ '':'' @ show_nat (unat port)) = Some (h, port)"
proof -
  have "CHR '':'' \<notin> set (show_nat (unat port))" by (rule digits_no [OF show_nat_digits]) (simp add: is_digit_def)
  then have "rsplit_once CHR '':'' (h @ '':'' @ show_nat (unat port)) = Some (h, show_nat (unat port))"
    using rsplit_once_append by simp
  moreover have "unat port < 2 ^ 16" using unat_bound [of port] by simp
  moreover have "unat port \<noteq> 0" using assms(2) by (simp add: unat_eq_0)
  ultimately show ?thesis using assms by (simp add: host_port_def)
qed

lemma parse_show_endpoint:
  assumes "endpoint_ok ep" and "te_path ep \<noteq> ''/''"
  shows "parse_tracker_endpoint (show_endpoint ep) = Some ep"
proof -
  from assms obtain p where p: "te_path ep = CHR ''/'' # p" "p \<noteq> []" "CHR ''?'' \<notin> set p"
    by (cases "te_path ep") (auto simp: endpoint_ok_def)
  let ?auth = "te_host ep @ '':'' @ show_nat (unat (te_port ep))"
  have "CHR ''/'' \<notin> set (show_nat (unat (te_port ep)))" by (rule digits_no [OF show_nat_digits]) (simp add: is_digit_def)
  then have "split_once CHR ''/'' (?auth @ te_path ep) = Some (?auth, p)"
    using split_once_append [of "CHR ''/''" ?auth p] assms(1) p by (simp add: endpoint_ok_def)
  moreover have "?auth \<noteq> []" "hd ?auth \<noteq> CHR ''[''" using assms(1) by (auto simp: endpoint_ok_def)
  moreover have "host_port (te_scheme ep) ?auth = Some (te_host ep, te_port ep)"
    using host_port_text assms(1) by (simp add: endpoint_ok_def)
  moreover have "split_once CHR ''?'' p = None" using p by (simp add: split_once_None)
  moreover have "url_scheme (show_endpoint ep) = Some (te_scheme ep, ?auth @ te_path ep)"
    using url_scheme_text by (simp add: show_endpoint_def)
  ultimately show ?thesis using p by (simp add: parse_tracker_endpoint_def Let_def)
qed

lemma host_port_Some:
  assumes "host_port sc auth = Some (h, port)" and "auth \<noteq> []"
  shows "h \<noteq> [] \<and> port \<noteq> 0 \<and> set h \<subseteq> set auth \<and> hd h = hd auth"
proof (cases "rsplit_once CHR '':'' auth")
  case None
  with assms show ?thesis by (auto simp: host_port_def split: TrackerScheme.splits)
next
  case (Some hp)
  then obtain p where hp: "hp = (h, p)" using assms(1) by (cases hp) (auto simp: host_port_def split: option.splits if_splits)
  with Some assms(1) obtain n where n: "parse_unsigned 16 p = Some n" "h \<noteq> []" "n \<noteq> 0" "port = word_of_nat n"
    by (auto simp: host_port_def split: option.splits if_splits)
  have "n < 2 ^ 16" using n(1) by (auto simp: parse_unsigned_def split: option.splits if_splits)
  then have "unat port = n" using n(4) by (simp add: unat_of_nat)
  with n(3) have "port \<noteq> 0" by auto
  with rsplit_once_Some [of "CHR '':''" auth h p] Some hp n(2) show ?thesis by auto
qed

lemma parsed_endpoint_ok:
  assumes "parse_tracker_endpoint url = Some ep"
  shows "endpoint_ok ep"
proof -
  from assms obtain sc rest where sc: "url_scheme url = Some (sc, rest)"
    by (auto simp: parse_tracker_endpoint_def split: option.splits)
  obtain auth raw where ar: "(case split_once CHR ''/'' rest of Some p \<Rightarrow> p | None \<Rightarrow> (rest, [])) = (auth, raw)" by fastforce
  have slash: "CHR ''/'' \<notin> set auth"
    using ar split_once_Some [of "CHR ''/''" rest auth raw] split_once_None [of "CHR ''/''" rest]
    by (auto split: option.splits)
  from assms sc ar obtain h port where hp: "host_port sc auth = Some (h, port)" "auth \<noteq> []" "hd auth \<noteq> CHR ''[''"
    and ep: "ep = \<lparr>te_scheme = sc, te_host = h, te_port = port, te_path = (if raw = [] then ''/announce''
                          else CHR ''/'' # (case split_once CHR ''?'' raw of Some (p, _) \<Rightarrow> p | None \<Rightarrow> raw))\<rparr>"
    by (auto simp: parse_tracker_endpoint_def Let_def split: option.splits if_splits)
  have "CHR ''?'' \<notin> set (te_path ep)"
    using split_once_Some [of "CHR ''?''" raw] split_once_None [of "CHR ''?''" raw]
    by (auto simp: ep split: option.splits)
  with host_port_Some [OF hp(1,2)] hp(3) slash show ?thesis by (auto simp: endpoint_ok_def ep)
qed

section \<open>Percent encoding\<close>

fun hex_val :: "char \<Rightarrow> nat" where
  "hex_val c = (let n = of_char c in if n < 58 then n - 48 else n - 55)"

fun percent_decode :: "string \<Rightarrow> bytes" where
  "percent_decode [] = []"
| "percent_decode (c # cs) =
     (if c = CHR ''%'' then
        (case cs of a # b # rest \<Rightarrow> word_of_nat (16 * hex_val a + hex_val b) # percent_decode rest | _ \<Rightarrow> [])
      else word_of_nat (of_char c) # percent_decode cs)"

lemma hex_val_digit: "n < 16 \<Longrightarrow> hex_val (hex_digit n) = n"
  by (simp add: hex_digit_def Let_def)

lemma percent_decode_byte: "percent_decode (percent_byte b @ rest) = b # percent_decode rest"
proof (cases "unreserved b")
  case True
  have "char_of (unat b) \<noteq> CHR ''%''"
  proof
    assume "char_of (unat b) = CHR ''%''"
    then have "(of_char (char_of (unat b)) :: nat) = of_char CHR ''%''" by simp
    then have "unat b = 37" using unat_bound [of b] by simp
    with True show False by (simp add: unreserved_def word_le_nat_alt word_unat_eq_iff)
  qed
  with True show ?thesis using unat_bound [of b] by (simp add: percent_byte_def)
next
  case False
  have "unat b < 256" using unat_bound [of b] by simp
  then have "unat b div 16 < 16" by simp
  moreover have "(word_of_nat (16 * (unat b div 16) + unat b mod 16) :: u8) = b"
    unfolding mult_div_mod_eq by simp
  ultimately show ?thesis using False by (simp add: percent_byte_def hex_val_digit del: hex_val.simps of_nat_add of_nat_mult)
qed

lemma percent_decode_encode: "percent_decode (percent_encode_bytes bs) = bs"
  by (induction bs) (simp_all add: percent_encode_bytes_def percent_decode_byte)

section \<open>Properties\<close>

text \<open>
  C23. The bencode parser reads back what a tracker prints: for every value whose integers fit 64 bits and every
  rest of the input, parsing the printed value gives the value and leaves the rest, when the stack holds as
  many calls as the value is deep. Every parse that succeeds has consumed input, and the loops over items and
  entries end at an end mark or at the end of the input, not by the bound of the model on their turns.
\<close>

theorem bencode_roundtrip:
  "(bval_ok v \<and> bdepth v \<le> d \<longrightarrow> parse_bencode d (bencode v @ rest) = Inr (v, rest))
   \<and> (parse_bencode d data = Inr (w, r) \<longrightarrow> length r < length data)
   \<and> (parse_items d (length data) data = Inr (ws, r) \<longrightarrow> r = [] \<or> hd r = byte_e)
   \<and> (parse_entries d (length data) data = Inr (es, r) \<longrightarrow> r = [] \<or> hd r = byte_e)"
  using parse_print parse_shorter(1) items_finish entries_finish by blast

definition sample_bval :: BVal where
  "sample_bval = BDict [(ascii ''interval'', BInt (-5)), (ascii ''peers'', BList [BBytes [1, 2], BList []])]"

theorem bencode_roundtrip_witness:
  "bval_ok sample_bval \<and> bdepth sample_bval = 3
   \<and> parse_bencode 3 (bencode sample_bval @ [7]) = Inr (sample_bval, [7])
   \<and> length [7 :: u8] < length (bencode sample_bval @ [7])
   \<and> parse_items 2 (length (bencode (BInt 1) @ [byte_e])) (bencode (BInt 1) @ [byte_e]) = Inr ([BInt 1], [byte_e])
   \<and> (if ([byte_e] = ([] :: bytes)) then False else hd [byte_e] = byte_e)
   \<and> parse_entries 2 (length [byte_e]) [byte_e] = Inr ([], [byte_e])"
proof -
  have ok: "bval_ok sample_bval" "bdepth sample_bval = 3" by (simp_all add: sample_bval_def)
  then have 1: "parse_bencode 3 (bencode sample_bval @ [7]) = Inr (sample_bval, [7])"
    using bencode_roundtrip [of sample_bval 3 "[7]"] by simp
  moreover have "length [7 :: u8] < length (bencode sample_bval @ [7])"
    using bencode_roundtrip [of sample_bval 3 "[7]" "bencode sample_bval @ [7]" sample_bval "[7]"] 1 by blast
  moreover have "parse_items 2 (length (bencode (BInt 1) @ [byte_e])) (bencode (BInt 1) @ [byte_e]) = Inr ([BInt 1], [byte_e])"
    by code_simp
  ultimately show ?thesis using ok by simp
qed



text \<open>
  C27. HTTP and UDP trackers that report the same interval and the same peers are understood alike: the
  bencoded body of the one and the datagram of the other both parse to exactly that interval and those peers.
  Whatever a tracker sends, an accepted answer has at most 512 peers, all of them IPv4 with a port.
\<close>

theorem tracker_answers_agree:
  assumes "list_all compactable ps" and "length ps \<le> 512" and "2 \<le> stack" and "length txn = 4" and "length counts = 8"
  shows "parse_announce_response (u32_to_be 1 @ txn @ u32_to_be interval @ counts @ concat (map compact_bytes ps)) txn = Inr (interval, ps)
   \<and> parse_http_announce_body stack (bencode (BDict [(ascii ''interval'', BInt (uint interval)), (ascii ''peers'', BBytes (concat (map compact_bytes ps)))]))
       = Inr (interval, ps)
   \<and> (parse_announce_response buf txn' = Inr (i, qs) \<or> parse_http_announce_body n body = Inr (i, qs)
       \<longrightarrow> length qs \<le> 512 \<and> list_all compactable qs)"
proof (intro conjI impI)
  have peers: "parse_compact_peers (concat (map compact_bytes ps)) = Inr ps"
    using parse_compact_peers_compact [OF assms(1)] assms(2) by (simp add: MAX_PEERS_PER_RESPONSE_def)
  show "parse_announce_response (u32_to_be 1 @ txn @ u32_to_be interval @ counts @ concat (map compact_bytes ps)) txn = Inr (interval, ps)"
    using assms(4,5) peers by (simp add: parse_announce_response_def ANNOUNCE_HEADER_LEN_def wire_simps)
  let ?v = "BDict [(ascii ''interval'', BInt (uint interval)), (ascii ''peers'', BBytes (concat (map compact_bytes ps)))]"
  have "uint interval < 2 ^ 32" using uint_bounded [of interval] by simp
  then have i: "0 \<le> uint interval" "uint interval < 2 ^ 32" "uint interval < 2 ^ 63" by simp_all
  have "length (concat (map compact_bytes ps)) < 2 ^ 64" using chunks6_compact [OF assms(1)] assms(2) by simp
  moreover have "- (2 ^ 63) \<le> uint interval" by (rule order_trans [OF _ i(1)]) simp
  ultimately have "bval_ok ?v" using i(3) by simp
  moreover have "bdepth ?v \<le> stack" using assms(3) by simp
  ultimately have parsed: "parse_bencode stack (bencode ?v) = Inr (?v, [])" using parse_print [of ?v stack "[]"] by simp
  have "announce_entries [(ascii ''interval'', BInt (uint interval)), (ascii ''peers'', BBytes (concat (map compact_bytes ps)))] (None, None)
      = Inr (Some (uint interval), Some (concat (map compact_bytes ps)))"
    by (simp add: announce_entry_def ascii_def)
  with parsed peers i show "parse_http_announce_body stack (bencode ?v) = Inr (interval, ps)"
    unfolding parse_http_announce_body_def by (simp add: ascii_def del: bencode.simps)
next
  assume "parse_announce_response buf txn' = Inr (i, qs) \<or> parse_http_announce_body n body = Inr (i, qs)"
  then have "length qs \<le> 512 \<and> list_all compactable qs"
    using parse_announce_response_ok parse_http_announce_body_ok by blast
  then show "length qs \<le> 512" "list_all compactable qs" by auto
qed

theorem tracker_answers_agree_witness:
  "list_all compactable [V4 167772161 6881]
   \<and> parse_announce_response (u32_to_be 1 @ [1, 2, 3, 4] @ u32_to_be 1800 @ [0, 0, 0, 1, 0, 0, 0, 1] @ concat (map compact_bytes [V4 167772161 6881])) [1, 2, 3, 4]
       = Inr (1800, [V4 167772161 6881])
   \<and> parse_http_announce_body 2 (bencode (BDict [(ascii ''interval'', BInt (uint (1800 :: u32))), (ascii ''peers'', BBytes (concat (map compact_bytes [V4 167772161 6881])))]))
       = Inr (1800, [V4 167772161 6881])
   \<and> length [V4 167772161 6881] \<le> 512"
proof -
  have "list_all compactable [V4 167772161 6881]" by (simp add: compactable_def is_ipv4_def)
  moreover from this have "parse_announce_response (u32_to_be 1 @ [1, 2, 3, 4] @ u32_to_be 1800 @ [0, 0, 0, 1, 0, 0, 0, 1] @ concat (map compact_bytes [V4 167772161 6881])) [1, 2, 3, 4]
       = Inr (1800, [V4 167772161 6881])
    \<and> parse_http_announce_body 2 (bencode (BDict [(ascii ''interval'', BInt (uint (1800 :: u32))), (ascii ''peers'', BBytes (concat (map compact_bytes [V4 167772161 6881])))]))
       = Inr (1800, [V4 167772161 6881])"
    using tracker_answers_agree [of "[V4 167772161 6881]" 2 "[1, 2, 3, 4]" "[0, 0, 0, 1, 0, 0, 0, 1]" 1800 "[]" "[]" 0 "[]" 0 "[]"] by simp
  ultimately show ?thesis by simp
qed

text \<open>
  Tracker URLs: an endpoint that the parser returns has a host without a slash, a non-zero port and an absolute
  path without a query, and its canonical text \<^verbatim>\<open>scheme://host:port/path\<close> parses to the same endpoint again, except
  where the path is the bare root, which reads as the default path.
\<close>

theorem tracker_url_canonical:
  "(parse_tracker_endpoint url = Some ep \<longrightarrow>
      endpoint_ok ep \<and> (te_path ep \<noteq> ''/'' \<longrightarrow> parse_tracker_endpoint (show_endpoint ep) = Some ep))
   \<and> (endpoint_ok ep' \<and> te_path ep' \<noteq> ''/'' \<longrightarrow> parse_tracker_endpoint (show_endpoint ep') = Some ep')"
  using parsed_endpoint_ok parse_show_endpoint by blast

definition sample_endpoint :: TrackerEndpoint where
  "sample_endpoint = \<lparr>te_scheme = Http, te_host = ''tr.example'', te_port = 80, te_path = ''/ann''\<rparr>"

theorem tracker_url_canonical_witness:
  "parse_tracker_endpoint ''http://tr.example/ann?x=1'' = Some sample_endpoint
   \<and> parse_tracker_endpoint (show_endpoint sample_endpoint) = Some sample_endpoint
   \<and> endpoint_ok sample_endpoint"
proof -
  have 1: "parse_tracker_endpoint ''http://tr.example/ann?x=1'' = Some sample_endpoint" by code_simp
  moreover have "te_path sample_endpoint \<noteq> ''/''" by (simp add: sample_endpoint_def)
  ultimately show ?thesis
    using tracker_url_canonical [of "''http://tr.example/ann?x=1''" sample_endpoint sample_endpoint] by simp
qed

end
