(* ===== verification/Punch.thy ===== *)
theory Punch
  imports Tuning_Clamp
begin

text \<open>
  Hole-punch targets: the second half of \<^verbatim>\<open>src/src/net/decentralized.rs\<close> and the stages of
  \<^verbatim>\<open>src/src/net/punch_workflow.rs\<close>. From the endpoints a peer is known by, the neighbouring ports of each and then random ports of the
  same addresses are tried. The sets that only remove duplicates are the lists built so far. The random
  ports are an argument, one for each attempt. Sending, sleeping and the stop flag are not modelled: what is modelled is the
  sequence of targets.
\<close>

section \<open>Addresses without a port\<close>

datatype IpAddr = Ip4 u32 | Ip6 u128

fun ep_ip :: "SocketAddr \<Rightarrow> IpAddr" where
  "ep_ip (V4 ip _) = Ip4 ip"
| "ep_ip (V6 ip _ _ _) = Ip6 ip"

fun SocketAddr_new :: "IpAddr \<Rightarrow> u16 \<Rightarrow> SocketAddr" where
  "SocketAddr_new (Ip4 ip) port = V4 ip port"
| "SocketAddr_new (Ip6 ip) port = V6 ip port 0 0"

fun ip_key :: "IpAddr \<Rightarrow> nat \<times> nat" where
  "ip_key (Ip4 ip) = (0, unat ip)"
| "ip_key (Ip6 ip) = (1, unat ip)"

section \<open>Neighbouring ports\<close>

definition symmetric_ports :: "u16 \<Rightarrow> nat \<Rightarrow> int list" where
  "symmetric_ports port width =
     (let scan = max width 1;
          half = as_i32 (int (scan div 2));
          start = as_i32 (int (unat port) - half);
          start = (if start < 1 then 1 else start) in
      filter (\<lambda>p. p \<ge> 1) (takeWhile (\<lambda>p. \<not> p > 65535) (map (\<lambda>offset. as_i32 (start + as_i32 (int offset))) [0..<scan])))"

definition build_symmetric_punch_targets :: "IpAddr \<Rightarrow> u16 \<Rightarrow> nat \<Rightarrow> SocketAddr list" where
  "build_symmetric_punch_targets ip port width = map (\<lambda>p. SocketAddr_new ip (word_of_int p)) (symmetric_ports port width)"

text \<open>The loop both expansions share: candidates that are not yet there are added until the list is full, which ends it.\<close>

fun add_targets :: "nat \<Rightarrow> SocketAddr list \<Rightarrow> SocketAddr list \<Rightarrow> bool \<times> SocketAddr list" where
  "add_targets max_total expanded [] = (False, expanded)"
| "add_targets max_total expanded (cand # cands) =
     (if cand \<in> set expanded then add_targets max_total expanded cands
      else
        let expanded = expanded @ [cand] in
        if length expanded \<ge> max_total then (True, expanded) else add_targets max_total expanded cands)"

definition expand_intensity_symmetric :: "SocketAddr list \<Rightarrow> nat \<Rightarrow> nat \<Rightarrow> SocketAddr list" where
  "expand_intensity_symmetric base_targets per_peer_width max_total =
     (case add_targets max_total [] base_targets of
        (True, expanded) \<Rightarrow> expanded
      | (False, expanded) \<Rightarrow>
          snd (add_targets max_total expanded
                 (concat (map (\<lambda>ep. build_symmetric_punch_targets (ep_ip ep) (sa_port ep) per_peer_width) base_targets))))"

definition expand_symmetric_targets :: "SocketAddr list \<Rightarrow> nat \<Rightarrow> SocketAddr list" where
  "expand_symmetric_targets base_targets max_total =
     (case add_targets max_total [] base_targets of
        (True, expanded) \<Rightarrow> expanded
      | (False, expanded) \<Rightarrow>
          snd (add_targets max_total expanded
                 (concat (map (\<lambda>ep. build_symmetric_punch_targets (ep_ip ep) (sa_port ep) 128) base_targets))))"

definition join_wide_per_peer_width :: "nat \<Rightarrow> nat \<Rightarrow> nat \<Rightarrow> nat \<Rightarrow> nat" where
  "join_wide_per_peer_width peer_count max_expanded min_width max_width =
     (let n = max peer_count 1; max_expanded = max max_expanded 1;
          min_width = max min_width 1; max_width = max max_width min_width in
      clamp min_width max_width (max_expanded div n))"

definition invite_pre_punch_targets :: "SocketAddr \<Rightarrow> nat \<Rightarrow> SocketAddr list" where
  "invite_pre_punch_targets hint max_total = expand_intensity_symmetric [hint] 256 max_total"

definition canonical_stage2_targets :: "SocketAddr list \<Rightarrow> HolePunchTuning \<Rightarrow> SocketAddr list" where
  "canonical_stage2_targets base_targets punch =
     (if base_targets = [] then []
      else
        let width = join_wide_per_peer_width (length base_targets) (hp_max_expanded_targets punch)
                      (hp_wide_min_width punch) (hp_wide_max_width punch) in
        expand_intensity_symmetric base_targets width (hp_max_expanded_targets punch))"

definition canonical_covered_after_stage2 :: "SocketAddr list \<Rightarrow> SocketAddr list \<Rightarrow> SocketAddr set" where
  "canonical_covered_after_stage2 base_targets stage2 = set base_targets \<union> set stage2"

section \<open>Random ports\<close>

text \<open>\<open>draw k\<close> is the port drawn in attempt \<open>k\<close>; the attempts are bounded as in the code.\<close>

fun residual_loop ::
    "nat \<Rightarrow> nat \<Rightarrow> IpAddr list \<Rightarrow> (nat \<Rightarrow> u16) \<Rightarrow> SocketAddr set \<Rightarrow> nat \<Rightarrow> SocketAddr list \<Rightarrow> SocketAddr list" where
  "residual_loop 0 ip_idx ips draw cov max_total expanded = expanded"
| "residual_loop (Suc attempts) ip_idx ips draw cov max_total expanded =
     (if length expanded \<ge> max_total then expanded
      else
        let cand = SocketAddr_new (ips ! (ip_idx mod length ips)) (draw ip_idx) in
        residual_loop attempts (sat_add 64 ip_idx 1) ips draw cov max_total
          (if cand \<in> cov \<or> cand \<in> set expanded then expanded else expanded @ [cand]))"

definition residual_ips :: "SocketAddr list \<Rightarrow> IpAddr list" where
  "residual_ips base_targets = remdups_adj (sort_key ip_key (map ep_ip base_targets))"

definition build_random_residual_targets :: "SocketAddr list \<Rightarrow> SocketAddr set \<Rightarrow> nat \<Rightarrow> (nat \<Rightarrow> u16) \<Rightarrow> SocketAddr list" where
  "build_random_residual_targets base_targets cov max_total draw =
     (let ips = residual_ips base_targets in
      if ips = [] then []
      else residual_loop (max (min (max_total * 32) (2 ^ 64 - 1)) 64) 0 ips draw cov max_total [])"

section \<open>The workflow\<close>

text \<open>
  The targets of the three stages. Stage three runs rounds until a deadline; the draws of its rounds are a
  list with one entry for each round that was run.
\<close>

definition punch_stage1_direct :: "SocketAddr list \<Rightarrow> HolePunchTuning \<Rightarrow> SocketAddr list" where
  "punch_stage1_direct bases punch = concat (map (replicate (hp_stage1_packets punch)) bases)"

fun stage3_rounds :: "SocketAddr list \<Rightarrow> HolePunchTuning \<Rightarrow> SocketAddr set \<Rightarrow> (nat \<Rightarrow> u16) list \<Rightarrow> SocketAddr list" where
  "stage3_rounds bases punch cov [] = []"
| "stage3_rounds bases punch cov (draw # draws) =
     (let residual = build_random_residual_targets bases cov (hp_max_expanded_targets punch) draw in
      residual @ stage3_rounds bases punch (cov \<union> set residual) draws)"

definition run_canonical_punch_workflow :: "SocketAddr list \<Rightarrow> HolePunchTuning \<Rightarrow> (nat \<Rightarrow> u16) list \<Rightarrow> SocketAddr list list" where
  "run_canonical_punch_workflow bases punch draws =
     (if bases = [] then []
      else
        let stage2 = canonical_stage2_targets bases punch in
        [punch_stage1_direct bases punch, stage2,
         stage3_rounds bases punch (canonical_covered_after_stage2 bases stage2) draws])"

section \<open>Expansion\<close>

lemma add_targets_prefix: "\<exists>new. snd (add_targets m xs cands) = xs @ new \<and> set new \<subseteq> set cands"
proof (induction cands arbitrary: xs)
  case (Cons c cands)
  from Cons [of xs] Cons [of "xs @ [c]"] show ?case by (fastforce simp: Let_def)
qed simp

lemma add_targets_distinct: "distinct xs \<Longrightarrow> distinct (snd (add_targets m xs cands))"
  by (induction cands arbitrary: xs) (auto simp: Let_def)

lemma add_targets_length: "length xs < m \<Longrightarrow> length (snd (add_targets m xs cands)) \<le> m"
  by (induction cands arbitrary: xs) (auto simp: Let_def)

lemma add_targets_room: "length xs < m \<Longrightarrow> fst (add_targets m xs cands) \<or> length (snd (add_targets m xs cands)) < m"
  by (induction cands arbitrary: xs) (auto simp: Let_def)

lemma add_targets_full: "length xs < m \<Longrightarrow> fst (add_targets m xs cands) \<Longrightarrow> length (snd (add_targets m xs cands)) = m"
  by (induction cands arbitrary: xs) (auto simp: Let_def split: if_splits)

lemma add_targets_all: "\<not> fst (add_targets m xs cands) \<Longrightarrow> set (snd (add_targets m xs cands)) = set xs \<union> set cands"
  by (induction cands arbitrary: xs) (auto simp: Let_def split: if_splits)

text \<open>The expansion of a list of base targets, whatever the candidates of each base are.\<close>

definition expand_with :: "(SocketAddr \<Rightarrow> SocketAddr list) \<Rightarrow> SocketAddr list \<Rightarrow> nat \<Rightarrow> SocketAddr list" where
  "expand_with near bases m =
     (case add_targets m [] bases of
        (True, expanded) \<Rightarrow> expanded
      | (False, expanded) \<Rightarrow> snd (add_targets m expanded (concat (map near bases))))"

lemma expand_with:
  assumes "0 < m"
  shows "distinct (expand_with near bases m) \<and> length (expand_with near bases m) \<le> m
    \<and> set (expand_with near bases m) \<subseteq> set bases \<union> \<Union> (set ` near ` set bases)
    \<and> (length (expand_with near bases m) < m \<longrightarrow> set bases \<union> \<Union> (set ` near ` set bases) \<subseteq> set (expand_with near bases m))
    \<and> (card (set bases) < m \<longrightarrow> set bases \<subseteq> set (expand_with near bases m))"
proof -
  obtain full xs where x: "add_targets m [] bases = (full, xs)" by fastforce
  have xs: "distinct xs" "length xs \<le> m" "set xs \<subseteq> set bases"
    using add_targets_distinct [of "[]" m bases] add_targets_length [of "[]" m bases] add_targets_prefix [of m "[]" bases] x assms
    by auto
  show ?thesis
  proof (cases full)
    case True
    have "length xs = m" using add_targets_full [of "[]" m bases] x True assms by simp
    moreover have "card (set bases) \<ge> m"
      using calculation xs distinct_card [of xs] card_mono [of "set bases" "set xs"] by simp
    ultimately show ?thesis using x xs True by (auto simp: expand_with_def)
  next
    case False
    let ?r = "add_targets m xs (concat (map near bases))"
    have lt: "length xs < m" using add_targets_room [of "[]" m bases] x False assms by simp
    have all: "set xs = set bases" using add_targets_all [of m "[]" bases] x False by simp
    have r: "distinct (snd ?r)" "length (snd ?r) \<le> m" "set xs \<subseteq> set (snd ?r)"
      "set (snd ?r) \<subseteq> set xs \<union> set (concat (map near bases))"
      using add_targets_distinct [OF xs(1), of m] add_targets_length [OF lt] add_targets_prefix [of m xs "concat (map near bases)"] by auto
    have "set (snd ?r) = set xs \<union> set (concat (map near bases))" if "length (snd ?r) < m"
      using add_targets_full [OF lt, of "concat (map near bases)"] add_targets_all [of m xs "concat (map near bases)"] that by auto
    with r all x False show ?thesis by (auto simp: expand_with_def)
  qed
qed

lemma as_i32_small: "- 2147483648 \<le> x \<Longrightarrow> x < 2147483648 \<Longrightarrow> as_i32 x = x"
  by (simp add: as_i32_def)

lemma takeWhile_stop: "\<forall>x \<in> set xs. P x \<Longrightarrow> \<not> P y \<Longrightarrow> takeWhile P (xs @ y # ys) = xs"
  by (induction xs) auto

lemma takeWhile_map_upt:
  "takeWhile (\<lambda>p. \<not> p > (65535 :: int)) (map (\<lambda>k. s + int k) [0..<n]) = map (\<lambda>k. s + int k) [0..<min n (nat (65536 - s))]"
proof (cases "n \<le> nat (65536 - s)")
  case True
  then have "takeWhile (\<lambda>p. \<not> p > 65535) (map (\<lambda>k. s + int k) [0..<n]) = map (\<lambda>k. s + int k) [0..<n]"
    by (auto simp: takeWhile_eq_all_conv)
  with True show ?thesis by simp
next
  case False
  let ?m = "nat (65536 - s)"
  have split: "map (\<lambda>k. s + int k) [0..<n] = map (\<lambda>k. s + int k) [0..<?m] @ (s + int ?m) # map (\<lambda>k. s + int k) [Suc ?m..<n]"
    using False upt_add_eq_append [of 0 ?m "n - ?m"] upt_conv_Cons [of ?m n] by simp
  have "\<forall>p \<in> set (map (\<lambda>k. s + int k) [0..<?m]). \<not> p > 65535" by auto
  moreover have "s + int ?m > 65535" by simp
  ultimately have "takeWhile (\<lambda>p. \<not> p > 65535) (map (\<lambda>k. s + int k) [0..<n]) = map (\<lambda>k. s + int k) [0..<?m]"
    unfolding split by (intro takeWhile_stop) auto
  with False show ?thesis by simp
qed

lemma symmetric_ports_eq:
  assumes "width \<le> 2 ^ 16"
  shows "symmetric_ports port width =
    (let start = max 1 (int (unat port) - int (max width 1 div 2)) in
     map (\<lambda>k. start + int k) [0..<min (max width 1) (nat (65536 - start))])"
proof -
  let ?w = "max width 1"
  have port: "unat port < 65536" using unat_bound [of port] by simp
  have w: "?w \<le> 65536" using assms by simp
  then have half: "as_i32 (int (?w div 2)) = int (?w div 2)" by (intro as_i32_small) auto
  have "int (unat port) < 65536" "0 \<le> int (unat port)" "0 \<le> int (?w div 2)" "int (?w div 2) \<le> 65536"
    using port w by linarith+
  then have st: "as_i32 (int (unat port) - int (?w div 2)) = int (unat port) - int (?w div 2)"
    by (intro as_i32_small) linarith+
  define start where "start = max 1 (int (unat port) - int (?w div 2))"
  have s: "(if int (unat port) - int (?w div 2) < 1 then 1 else int (unat port) - int (?w div 2)) = start"
    by (simp add: start_def)
  have "int (unat port) - int (?w div 2) < 65536" using port by linarith
  then have sb: "1 \<le> start" "start < 65536" by (simp_all only: start_def max_less_iff_conj) simp_all
  have m: "map (\<lambda>offset. as_i32 (start + as_i32 (int offset))) [0..<?w] = map (\<lambda>k. start + int k) [0..<?w]"
  proof (intro map_cong refl)
    fix k
    assume "k \<in> set [0..<?w]"
    then have k: "int k < 65536" using w by auto
    then have "as_i32 (int k) = int k" by (intro as_i32_small) auto
    with k sb show "as_i32 (start + as_i32 (int k)) = start + int k" by (simp add: as_i32_small)
  qed
  have "filter (\<lambda>p. p \<ge> 1) (map (\<lambda>k. start + int k) xs) = map (\<lambda>k. start + int k) xs" for xs
    using sb by (intro filter_True) auto
  then show ?thesis
    unfolding symmetric_ports_def Let_def half st s m takeWhile_map_upt by (simp add: start_def)
qed

lemma symmetric_ports_range:
  assumes "width \<le> 2 ^ 16" and "p \<in> set (symmetric_ports port width)"
  shows "1 \<le> p \<and> p \<le> 65535 \<and> \<bar>p - int (unat port)\<bar> \<le> int (max width 1)"
proof -
  define h where "h = int (max width 1 div 2)"
  define start where "start = max 1 (int (unat port) - h)"
  from assms obtain k where k: "p = start + int k" "k < max width 1" "k < nat (65536 - start)"
    by (auto simp: symmetric_ports_eq Let_def start_def h_def)
  have h: "0 \<le> h" "h \<le> int (max width 1)" unfolding h_def by linarith+
  have s: "1 \<le> start" "start = 1 \<or> start = int (unat port) - h" "int (unat port) - h \<le> start"
    unfolding start_def by linarith+
  have kw: "int k < int (max width 1)" "start + int k \<le> 65535" using k(2,3) by linarith+
  with s h k(1) show ?thesis by linarith
qed

lemma near_targets:
  assumes "width \<le> 2 ^ 16" and "t \<in> set (build_symmetric_punch_targets ip port width)"
  shows "ep_ip t = ip \<and> sa_port t \<noteq> 0"
proof -
  from assms(2) obtain p where p: "p \<in> set (symmetric_ports port width)" "t = SocketAddr_new ip (word_of_int p)"
    by (auto simp: build_symmetric_punch_targets_def)
  have r: "1 \<le> p" "p \<le> 65535" using symmetric_ports_range [OF assms(1) p(1)] by auto
  then have "uint (word_of_int p :: u16) = p" by (simp add: uint_word_of_int)
  with r(1) have "(word_of_int p :: u16) \<noteq> 0" by auto
  with p(2) show ?thesis by (cases ip) auto
qed

section \<open>Random targets\<close>

lemma residual_loop_props:
  assumes "distinct expanded" and "set expanded \<inter> cov = {}" and "length expanded \<le> m" and "ips \<noteq> []"
    and "\<forall>t \<in> set expanded. ep_ip t \<in> set ips \<and> (\<exists>k. sa_port t = draw k)"
  shows "distinct (residual_loop n i ips draw cov m expanded) \<and> set (residual_loop n i ips draw cov m expanded) \<inter> cov = {}
    \<and> length (residual_loop n i ips draw cov m expanded) \<le> m
    \<and> (\<forall>t \<in> set (residual_loop n i ips draw cov m expanded). ep_ip t \<in> set ips \<and> (\<exists>k. sa_port t = draw k))"
  using assms
proof (induction n arbitrary: i expanded)
  case (Suc n)
  define cand where "cand = SocketAddr_new (ips ! (i mod length ips)) (draw i)"
  have cand: "ep_ip cand = ips ! (i mod length ips)" "sa_port cand = draw i"
    unfolding cand_def by (cases "ips ! (i mod length ips)"; simp)+
  have ip: "ips ! (i mod length ips) \<in> set ips" using Suc.prems(4) by simp
  show ?case
  proof (cases "length expanded \<ge> m")
    case True
    with Suc.prems show ?thesis by simp
  next
    case False
    let ?new = "if cand \<in> cov \<or> cand \<in> set expanded then expanded else expanded @ [cand]"
    have "distinct ?new" "set ?new \<inter> cov = {}" "length ?new \<le> m"
      "\<forall>t \<in> set ?new. ep_ip t \<in> set ips \<and> (\<exists>k. sa_port t = draw k)"
      using Suc.prems False cand ip by auto
    note step = Suc.IH [OF this(1-3) Suc.prems(4) this(4), of "sat_add 64 i 1"]
    have unfold: "residual_loop (Suc n) i ips draw cov m expanded = residual_loop n (sat_add 64 i 1) ips draw cov m ?new"
      using False by (simp only: residual_loop.simps Let_def cand_def if_False)
    show ?thesis unfolding unfold by (rule step)
  qed
qed simp

lemma residual_ips_set: "set (residual_ips bases) = ep_ip ` set bases"
  by (simp add: residual_ips_def)

lemma random_residual:
  "distinct (build_random_residual_targets bases cov m draw) \<and> set (build_random_residual_targets bases cov m draw) \<inter> cov = {}
   \<and> length (build_random_residual_targets bases cov m draw) \<le> m
   \<and> (\<forall>t \<in> set (build_random_residual_targets bases cov m draw). ep_ip t \<in> ep_ip ` set bases \<and> (\<exists>k. sa_port t = draw k))"
proof (cases "residual_ips bases = []")
  case False
  from residual_loop_props [OF _ _ _ False, of "[]" cov m draw "max (min (m * 32) (2 ^ 64 - 1)) 64" 0] False
  show ?thesis by (auto simp: build_random_residual_targets_def residual_ips_set Let_def)
qed (simp add: build_random_residual_targets_def)

lemma stage3_rounds_fresh:
  "distinct (stage3_rounds bases punch cov draws) \<and> set (stage3_rounds bases punch cov draws) \<inter> cov = {}"
proof (induction draws arbitrary: cov)
  case (Cons draw draws)
  let ?r = "build_random_residual_targets bases cov (hp_max_expanded_targets punch) draw"
  from random_residual [of bases cov "hp_max_expanded_targets punch" draw] Cons [of "cov \<union> set ?r"]
  show ?case by (auto simp: Let_def)
qed simp

section \<open>Stages\<close>

abbreviation near_width :: "nat \<Rightarrow> SocketAddr \<Rightarrow> SocketAddr list" where
  "near_width w ep \<equiv> build_symmetric_punch_targets (ep_ip ep) (sa_port ep) w"

lemma expand_intensity: "expand_intensity_symmetric bases w m = expand_with (near_width w) bases m"
  by (simp add: expand_intensity_symmetric_def expand_with_def)

lemma expand_symmetric: "expand_symmetric_targets bases m = expand_with (near_width 128) bases m"
  by (simp add: expand_symmetric_targets_def expand_with_def)

lemma expand_same_ips:
  assumes "w \<le> 2 ^ 16" and "0 < m" and "t \<in> set (expand_with (near_width w) bases m)"
  shows "ep_ip t \<in> ep_ip ` set bases \<and> (t \<in> set bases \<or> sa_port t \<noteq> 0)"
proof -
  from expand_with [OF assms(2), of "near_width w" bases] assms(3)
  consider "t \<in> set bases" | b where "b \<in> set bases" "t \<in> set (near_width w b)" by blast
  then show ?thesis
  proof cases
    case 2
    with near_targets [OF assms(1) 2(2)] show ?thesis by auto
  qed auto
qed

lemma stage2_width:
  "hp_wide_max_width t \<le> 2048 \<Longrightarrow> hp_wide_min_width t \<le> 2048 \<Longrightarrow>
     join_wide_per_peer_width n m (hp_wide_min_width t) (hp_wide_max_width t) \<le> 2 ^ 16"
  by (auto simp: join_wide_per_peer_width_def Let_def clamp_def)

lemma clamped_punch:
  "hp_wide_max_width (clamp_hole_punch t) \<le> 2048" "hp_wide_min_width (clamp_hole_punch t) \<le> 2048"
  "32 \<le> hp_max_expanded_targets (clamp_hole_punch t)" "0 < hp_stage1_packets (clamp_hole_punch t)"
  by (auto simp: clamp_hole_punch_def Let_def clamp_def split: prod.splits)

section \<open>Properties\<close>


definition HolePunch_sample :: HolePunchTuning where
  "HolePunch_sample = clamp_hole_punch \<lparr>hp_stage1_packets = 3, hp_stage1_gap_ms = 50, hp_stage1_observe_ms = 500,
     hp_stage2_observe_secs = 1, hp_stage2_pps = 128, hp_stage3_pps = 64, hp_stage3_max_secs = 10, hp_stage3_batch_gap_ms = 100,
     hp_max_expanded_targets = 32, hp_wide_min_width = 4, hp_wide_max_width = 8, hp_random_port_min = 1, hp_random_port_max = 9\<rparr>"


end
