(* ===== verification/Discovery.thy ===== *)
theory Discovery
  imports Tracker Punch
begin

text \<open>
  \<^verbatim>\<open>src/src/net/decentralized.rs\<close>: finding the peers of a room through trackers. The state holds the tracker slots, the
  outstanding UDP transactions, the connection ids and the endpoints discovered. The clock read by an operation
  is an argument; the announcement of a slot in a tick reads it together with a random transaction id and the outcome of
  its send (\<open>SlotEnv\<close>). Name resolution and HTTP requests are started by the engine: their jobs are results of
  the operations here, their answers are arguments. The text of a socket address (\<open>show_addr\<close>) is a parameter.
\<close>

section \<open>State\<close>

definition CONNECTION_TTL :: duration where "CONNECTION_TTL = from_secs 55"
definition PENDING_TTL :: duration where "PENDING_TTL = from_secs 20"
definition HTTP_PENDING_TTL :: duration where "HTTP_PENDING_TTL = from_secs 20"
definition MAX_FANOUT_MPJN_PER_TICK :: nat where "MAX_FANOUT_MPJN_PER_TICK = 8"
definition MAX_PUNCH_TARGETS :: nat where "MAX_PUNCH_TARGETS = 64"
definition MAX_EXPANDED_PUNCH_TARGETS :: nat where "MAX_EXPANDED_PUNCH_TARGETS = 512"
definition MAX_REANNOUNCE_SECS :: nat where "MAX_REANNOUNCE_SECS = 300"
definition MAX_ACTIVE_TRACKERS :: nat where "MAX_ACTIVE_TRACKERS = 32"
definition MAX_HTTP_IN_FLIGHT :: nat where "MAX_HTTP_IN_FLIGHT = 4"
definition DISCOVERED_TTL :: duration where "DISCOVERED_TTL = from_secs 300"
definition MAX_DISCOVERED :: nat where "MAX_DISCOVERED = 256"

record TrackerSlot =
  ts_url :: string
  ts_scheme :: TrackerScheme
  ts_host :: string
  ts_port :: u16
  ts_path :: string
  ts_addrs :: "SocketAddr list"
  ts_use_idx :: nat
  ts_last_announce :: "instant option"
  ts_server_interval_secs :: nat
  ts_resolve_in_flight :: bool
  ts_http_in_flight :: bool
  ts_http_in_flight_since :: "instant option"

datatype PendingKind = Connect | Announce

record PendingOp =
  po_kind :: PendingKind
  po_tracker :: SocketAddr
  po_created :: instant

record TrackerConn =
  tc_id :: u64
  tc_expires :: instant

record DecentralizedState =
  ds_active :: bool
  ds_generation :: u64
  ds_room_id :: bytes
  ds_peer_id :: bytes
  ds_announce_secs :: nat
  ds_slots :: "TrackerSlot list"
  ds_is_joiner :: bool
  ds_join_body :: "bytes option"
  ds_pending :: "(bytes, PendingOp) table"
  ds_connections :: "(SocketAddr, TrackerConn) table"
  ds_discovered :: "(SocketAddr, instant) table"
  ds_listen_port :: u16
  ds_had_join_announce_response :: bool

record HttpAnnounceWork =
  hw_slot_idx :: nat
  hw_generation :: u64
  hw_tracker_url :: string
  hw_host :: string
  hw_port :: u16
  hw_request_target :: string

record HttpAnnounceResult =
  hr_slot_idx :: nat
  hr_generation :: u64
  hr_tracker_url :: string
  hr_outcome :: "(u32 \<times> SocketAddr list) option"

record AnnounceInfo =
  ai_peers :: "SocketAddr list"
  ai_first_announce_in_join :: bool

record TrackerDatagramEvent =
  ev_tracker_url :: string
  ev_announce :: "AnnounceInfo option"

record DatagramHandleResult =
  dr_handled :: bool
  dr_event :: "TrackerDatagramEvent option"

definition DecentralizedState_default :: DecentralizedState where
  "DecentralizedState_default = \<lparr>ds_active = False, ds_generation = 0, ds_room_id = replicate 20 0, ds_peer_id = replicate 20 0,
     ds_announce_secs = 0, ds_slots = [], ds_is_joiner = False, ds_join_body = None, ds_pending = [], ds_connections = [],
     ds_discovered = [], ds_listen_port = 0, ds_had_join_announce_response = False\<rparr>"

section \<open>Slots\<close>

definition TrackerSlot_try_new :: "string \<Rightarrow> nat \<Rightarrow> TrackerSlot option" where
  "TrackerSlot_try_new url announce_secs =
     (case parse_tracker_endpoint url of
        None \<Rightarrow> None
      | Some ep \<Rightarrow>
          Some \<lparr>ts_url = url, ts_scheme = te_scheme ep, ts_host = te_host ep, ts_port = te_port ep, ts_path = te_path ep,
                ts_addrs = [], ts_use_idx = 0, ts_last_announce = None, ts_server_interval_secs = announce_secs,
                ts_resolve_in_flight = False, ts_http_in_flight = False, ts_http_in_flight_since = None\<rparr>)"

definition current_addr :: "TrackerSlot \<Rightarrow> SocketAddr option" where
  "current_addr s = (if ts_addrs s = [] then None else Some (ts_addrs s ! (ts_use_idx s mod length (ts_addrs s))))"

definition rotate_addr :: "TrackerSlot \<Rightarrow> TrackerSlot" where
  "rotate_addr s = (if ts_addrs s \<noteq> [] then s\<lparr>ts_use_idx := (ts_use_idx s + 1) mod length (ts_addrs s)\<rparr> else s)"

definition announce_due :: "instant \<Rightarrow> nat \<Rightarrow> TrackerSlot \<Rightarrow> bool" where
  "announce_due now announce_secs s =
     (let wait = min (max (ts_server_interval_secs s) announce_secs) MAX_REANNOUNCE_SECS in
      case ts_last_announce s of None \<Rightarrow> True | Some t \<Rightarrow> duration_since now t \<ge> from_secs wait)"

definition is_udp :: "TrackerSlot \<Rightarrow> bool" where "is_udp s = (ts_scheme s = Udp)"
definition is_http :: "TrackerSlot \<Rightarrow> bool" where "is_http s = (ts_scheme s = Http)"

definition upd_slot :: "nat \<Rightarrow> (TrackerSlot \<Rightarrow> TrackerSlot) \<Rightarrow> DecentralizedState \<Rightarrow> DecentralizedState" where
  "upd_slot i f d = (if i < length (ds_slots d) then d\<lparr>ds_slots := (ds_slots d)[i := f (ds_slots d ! i)]\<rparr> else d)"

section \<open>Sessions\<close>

definition ds_start ::
    "bytes \<Rightarrow> bytes \<Rightarrow> string list \<Rightarrow> nat \<Rightarrow> bool \<Rightarrow> bytes option \<Rightarrow> u16 \<Rightarrow> DecentralizedState \<Rightarrow> DecentralizedState" where
  "ds_start room_id node_id trackers announce_secs0 is_joiner join_body listen_port d =
     (let announce_secs = max announce_secs0 60 in
      d\<lparr>ds_generation := ds_generation d + 1, ds_active := True, ds_room_id := room_id,
        ds_peer_id := peer_id_from_room_and_node room_id node_id, ds_announce_secs := announce_secs,
        ds_slots := take MAX_ACTIVE_TRACKERS (List.map_filter (\<lambda>url. TrackerSlot_try_new url announce_secs) trackers),
        ds_is_joiner := is_joiner, ds_join_body := join_body, ds_pending := [], ds_connections := [], ds_discovered := [],
        ds_listen_port := listen_port, ds_had_join_announce_response := False\<rparr>)"

definition ds_stop :: "DecentralizedState \<Rightarrow> DecentralizedState" where
  "ds_stop d = DecentralizedState_default\<lparr>ds_generation := ds_generation d + 1\<rparr>"

definition announce_port :: "SocketAddr option \<Rightarrow> DecentralizedState \<Rightarrow> u16" where
  "announce_port self_public_ep d = (case self_public_ep of Some e \<Rightarrow> sa_port e | None \<Rightarrow> ds_listen_port d)"

definition set_joiner_active :: "bool \<Rightarrow> DecentralizedState \<Rightarrow> DecentralizedState" where
  "set_joiner_active active d = d\<lparr>ds_is_joiner := active\<rparr>"

section \<open>Resolution and HTTP announces\<close>

definition needs_resolve :: "TrackerSlot \<Rightarrow> bool" where
  "needs_resolve s = (is_udp s \<and> ts_addrs s = [] \<and> \<not> ts_resolve_in_flight s \<and> parse_tracker_url (ts_url s) \<noteq> None)"

definition resolve_job :: "nat \<times> TrackerSlot \<Rightarrow> (nat \<times> string) option" where
  "resolve_job = (\<lambda>(idx, s).
     if is_udp s \<and> ts_addrs s = [] \<and> \<not> ts_resolve_in_flight s then
       map_option (\<lambda>(host, port). (idx, host @ '':'' @ show_nat (unat port))) (parse_tracker_url (ts_url s))
     else None)"

definition take_pending_resolves :: "DecentralizedState \<Rightarrow> (nat \<times> string) list \<times> DecentralizedState" where
  "take_pending_resolves d =
     (if \<not> ds_active d then ([], d)
      else (List.map_filter resolve_job (enumerate 0 (ds_slots d)),
            d\<lparr>ds_slots := map (\<lambda>s. if needs_resolve s then s\<lparr>ts_resolve_in_flight := True\<rparr> else s) (ds_slots d)\<rparr>))"

definition http_stale :: "instant \<Rightarrow> TrackerSlot \<Rightarrow> bool" where
  "http_stale now s =
     (ts_http_in_flight s \<and>
      (case ts_http_in_flight_since s of Some t \<Rightarrow> duration_since now t \<ge> HTTP_PENDING_TTL | None \<Rightarrow> True))"

definition sweep_expired_http_inflight :: "instant \<Rightarrow> DecentralizedState \<Rightarrow> DecentralizedState" where
  "sweep_expired_http_inflight now d =
     d\<lparr>ds_slots := map (\<lambda>s. if http_stale now s then s\<lparr>ts_http_in_flight := False, ts_http_in_flight_since := None\<rparr> else s)
                     (ds_slots d)\<rparr>"

fun http_jobs ::
    "instant \<Rightarrow> u16 \<Rightarrow> DecentralizedState \<Rightarrow> nat \<Rightarrow> nat \<Rightarrow> TrackerSlot list \<Rightarrow> HttpAnnounceWork list \<times> TrackerSlot list" where
  "http_jobs now port d idx flying [] = ([], [])"
| "http_jobs now port d idx flying (s # ss) =
     (if flying \<ge> MAX_HTTP_IN_FLIGHT then ([], s # ss)
      else if \<not> is_http s \<or> ts_http_in_flight s \<or> \<not> announce_due now (ds_announce_secs d) s then
        let (jobs, ss) = http_jobs now port d (idx + 1) flying ss in (jobs, s # ss)
      else
        let job = \<lparr>hw_slot_idx = idx, hw_generation = ds_generation d, hw_tracker_url = ts_url s, hw_host = ts_host s,
                   hw_port = ts_port s,
                   hw_request_target = build_http_announce_request_target (ts_path s) (ds_room_id d) (ds_peer_id d) port 50\<rparr>;
            (jobs, ss) = http_jobs now port d (idx + 1) (flying + 1) ss in
        (job # jobs, s\<lparr>ts_http_in_flight := True, ts_http_in_flight_since := Some now\<rparr> # ss))"

definition take_pending_http_announces :: "instant \<Rightarrow> u16 \<Rightarrow> DecentralizedState \<Rightarrow> HttpAnnounceWork list \<times> DecentralizedState" where
  "take_pending_http_announces now port d0 =
     (if \<not> ds_active d0 then ([], d0)
      else
        let d = sweep_expired_http_inflight now d0;
            flying = length (filter ts_http_in_flight (ds_slots d));
            (jobs, slots) = http_jobs now port d 0 flying (ds_slots d) in
        (jobs, d\<lparr>ds_slots := slots\<rparr>))"

definition note_discovered :: "instant \<Rightarrow> SocketAddr \<Rightarrow> DecentralizedState \<Rightarrow> DecentralizedState" where
  "note_discovered now ep d = d\<lparr>ds_discovered := tab_put ep now (ds_discovered d)\<rparr>"

text \<open>What an announce response does, from either transport: the peers are noted and the first answer of a joiner is marked.\<close>

definition note_announce :: "instant \<Rightarrow> SocketAddr list \<Rightarrow> DecentralizedState \<Rightarrow> AnnounceInfo \<times> DecentralizedState" where
  "note_announce now peers d0 =
     (let d = fold (note_discovered now) peers d0;
          first_announce_in_join = (ds_is_joiner d \<and> \<not> ds_had_join_announce_response d);
          d = (if ds_is_joiner d then d\<lparr>ds_had_join_announce_response := True\<rparr> else d) in
      (\<lparr>ai_peers = peers, ai_first_announce_in_join = first_announce_in_join\<rparr>, d))"

definition apply_http_announce_result ::
    "instant \<Rightarrow> HttpAnnounceResult \<Rightarrow> DecentralizedState \<Rightarrow> TrackerDatagramEvent option \<times> DecentralizedState" where
  "apply_http_announce_result now r d =
     (if \<not> ds_active d \<or> hr_generation r \<noteq> ds_generation d then (None, d)
      else if hr_slot_idx r \<ge> length (ds_slots d) then (None, d)
      else
        let d = upd_slot (hr_slot_idx r) (\<lambda>s. s\<lparr>ts_http_in_flight := False, ts_http_in_flight_since := None\<rparr>) d in
        case hr_outcome r of
          None \<Rightarrow> (None, d)
        | Some (interval, peers) \<Rightarrow>
            let d = upd_slot (hr_slot_idx r)
                      (\<lambda>s. s\<lparr>ts_server_interval_secs := max (unat interval) 60, ts_last_announce := Some now\<rparr>) d;
                (info, d) = note_announce now peers d in
            (Some \<lparr>ev_tracker_url = hr_tracker_url r, ev_announce = Some info\<rparr>, d))"

definition clear_resolve_in_flight :: "nat \<Rightarrow> DecentralizedState \<Rightarrow> DecentralizedState" where
  "clear_resolve_in_flight slot_idx d = upd_slot slot_idx (\<lambda>s. s\<lparr>ts_resolve_in_flight := False\<rparr>) d"

definition add_addrs :: "SocketAddr list \<Rightarrow> SocketAddr list \<Rightarrow> SocketAddr list" where
  "add_addrs new addrs = fold (\<lambda>a as. if is_ipv4 a \<and> a \<notin> set as then as @ [a] else as) new addrs"

definition add_resolved_addrs :: "nat \<Rightarrow> SocketAddr list \<Rightarrow> DecentralizedState \<Rightarrow> DecentralizedState" where
  "add_resolved_addrs slot_idx addrs d = upd_slot slot_idx (\<lambda>s. s\<lparr>ts_addrs := add_addrs addrs (ts_addrs s)\<rparr>) d"

section \<open>Targets\<close>

definition prune_discovered_at :: "instant \<Rightarrow> DecentralizedState \<Rightarrow> DecentralizedState" where
  "prune_discovered_at now d0 =
     (let d = d0\<lparr>ds_discovered := tab_retain (\<lambda>_ seen. duration_since now seen < DISCOVERED_TTL) (ds_discovered d0)\<rparr> in
      if length (ds_discovered d) \<le> MAX_DISCOVERED then d
      else
        let entries = sort_key snd (ds_discovered d);
            drop_n = length (ds_discovered d) - MAX_DISCOVERED in
        d\<lparr>ds_discovered := fold (\<lambda>(ep, _). tab_del ep) (take drop_n entries) (ds_discovered d)\<rparr>)"

definition exact_targets :: "instant \<Rightarrow> SocketAddr option \<Rightarrow> DecentralizedState \<Rightarrow> SocketAddr list \<times> DecentralizedState" where
  "exact_targets now self_public_ep d0 =
     (let d = prune_discovered_at now d0;
          entries = sort_key (\<lambda>(_, t). - int t) (ds_discovered d) in
      (take MAX_PUNCH_TARGETS (filter (\<lambda>ep. self_public_ep \<noteq> Some ep) (map fst entries)), d))"

section \<open>Datagrams\<close>

definition slot_index_for_tracker_addr :: "SocketAddr \<Rightarrow> DecentralizedState \<Rightarrow> nat option" where
  "slot_index_for_tracker_addr addr d =
     (let is = filter (\<lambda>i. addr \<in> set (ts_addrs (ds_slots d ! i))) [0..<length (ds_slots d)] in
      case is of [] \<Rightarrow> None | i # _ \<Rightarrow> Some i)"

definition dr_default :: DatagramHandleResult where
  "dr_default = \<lparr>dr_handled = False, dr_event = None\<rparr>"

definition tracker_url_of :: "(SocketAddr \<Rightarrow> string) \<Rightarrow> SocketAddr \<Rightarrow> DecentralizedState \<Rightarrow> string" where
  "tracker_url_of show_addr tracker d =
     (case slot_index_for_tracker_addr tracker d of Some idx \<Rightarrow> ts_url (ds_slots d ! idx) | None \<Rightarrow> show_addr tracker)"

text \<open>The part of \<^verbatim>\<open>handle_datagram\<close> after the transaction and its tracker were recognised.\<close>

definition answered :: "instant \<Rightarrow> string \<Rightarrow> PendingOp \<Rightarrow> bytes \<Rightarrow> DecentralizedState \<Rightarrow> DatagramHandleResult \<times> DecentralizedState" where
  "answered now tracker_url op data d =
     (let txn = take 4 (drop 4 data) in
      case po_kind op of
        Connect \<Rightarrow>
          (case parse_connect_response data txn of
             Inr cid \<Rightarrow>
               (\<lparr>dr_handled = True, dr_event = Some \<lparr>ev_tracker_url = tracker_url, ev_announce = None\<rparr>\<rparr>,
                d\<lparr>ds_connections := tab_put (po_tracker op) \<lparr>tc_id = cid, tc_expires = now + CONNECTION_TTL\<rparr> (ds_connections d)\<rparr>)
           | Inl _ \<Rightarrow> (\<lparr>dr_handled = True, dr_event = None\<rparr>, d))
      | Announce \<Rightarrow>
          (case parse_announce_response data txn of
             Inr (interval, peers) \<Rightarrow>
               let d = (case slot_index_for_tracker_addr (po_tracker op) d of
                          Some idx \<Rightarrow> upd_slot idx (\<lambda>s. s\<lparr>ts_server_interval_secs := max (unat interval) 60,
                                                          ts_last_announce := Some now\<rparr>) d
                        | None \<Rightarrow> d);
                   (info, d) = note_announce now peers d in
               (\<lparr>dr_handled = True, dr_event = Some \<lparr>ev_tracker_url = tracker_url, ev_announce = Some info\<rparr>\<rparr>, d)
           | Inl _ \<Rightarrow> (\<lparr>dr_handled = True, dr_event = None\<rparr>, d)))"


definition handle_datagram ::
    "(SocketAddr \<Rightarrow> string) \<Rightarrow> instant \<Rightarrow> SocketAddr \<Rightarrow> bytes \<Rightarrow> DecentralizedState \<Rightarrow> DatagramHandleResult \<times> DecentralizedState" where
  "handle_datagram show_addr now from_addr data d0 =
     (if \<not> ds_active d0 \<or> length data < 16 then (dr_default, d0)
      else
        let txn = take 4 (drop 4 data) in
        case tab_get (ds_pending d0) txn of
          None \<Rightarrow> (dr_default, d0)
        | Some op \<Rightarrow>
            let d = d0\<lparr>ds_pending := tab_del txn (ds_pending d0)\<rparr> in
            if from_addr \<noteq> po_tracker op then (dr_default, d\<lparr>ds_pending := tab_put txn op (ds_pending d)\<rparr>)
            else answered now (tracker_url_of show_addr (po_tracker op) d) op data d)"

section \<open>The tick\<close>

record SlotEnv =
  se_now :: instant
  se_txn :: bytes
  se_send_ok :: bool

definition sweep_expired_pending :: "instant \<Rightarrow> DecentralizedState \<Rightarrow> DecentralizedState" where
  "sweep_expired_pending now d = d\<lparr>ds_pending := tab_retain (\<lambda>_ op. duration_since now (po_created op) < PENDING_TTL) (ds_pending d)\<rparr>"

definition has_pending_in_flight :: "SocketAddr \<Rightarrow> PendingKind \<Rightarrow> DecentralizedState \<Rightarrow> bool" where
  "has_pending_in_flight tracker kind d = list_ex (\<lambda>op. po_tracker op = tracker \<and> po_kind op = kind) (tab_vals (ds_pending d))"

text \<open>The announcement of one slot: the datagram it sends, if any.\<close>

definition tick_tracker_slot ::
    "SlotEnv \<Rightarrow> nat \<Rightarrow> u16 \<Rightarrow> DecentralizedState \<Rightarrow> (SocketAddr \<times> bytes) option \<times> DecentralizedState" where
  "tick_tracker_slot env slot_idx port d =
     (if slot_idx \<ge> length (ds_slots d) \<or> \<not> is_udp (ds_slots d ! slot_idx) then (None, d)
      else case current_addr (ds_slots d ! slot_idx) of
        None \<Rightarrow> (None, d)
      | Some tracker_ep \<Rightarrow>
          if \<not> announce_due (se_now env) (ds_announce_secs d) (ds_slots d ! slot_idx) then (None, d)
          else
            let put = (\<lambda>kind d. d\<lparr>ds_pending := tab_put (se_txn env)
                         \<lparr>po_kind = kind, po_tracker = tracker_ep, po_created = se_now env\<rparr> (ds_pending d)\<rparr>);
                need_connect = (case tab_get (ds_connections d) tracker_ep of
                                  Some c \<Rightarrow> se_now env \<ge> tc_expires c | None \<Rightarrow> True) in
            if need_connect then
              if has_pending_in_flight tracker_ep Connect d then (None, d)
              else
                let d = put Connect d; pkt = build_connect_request (se_txn env) in
                if se_send_ok env then (Some (tracker_ep, pkt), d)
                else (None, upd_slot slot_idx rotate_addr (d\<lparr>ds_pending := tab_del (se_txn env) (ds_pending d)\<rparr>))
            else case tab_get (ds_connections d) tracker_ep of
              None \<Rightarrow> (None, d)
            | Some c \<Rightarrow>
                if has_pending_in_flight tracker_ep Announce d then (None, d)
                else
                  let d = put Announce d;
                      pkt = build_announce_request (tc_id c) (se_txn env) (ds_room_id d) (ds_peer_id d) port 50 in
                  if se_send_ok env then (Some (tracker_ep, pkt), d)
                  else (None, upd_slot slot_idx rotate_addr
                          (d\<lparr>ds_pending := tab_del (se_txn env) (ds_pending d),
                             ds_connections := tab_del tracker_ep (ds_connections d)\<rparr>)))"

fun tick_slots :: "(nat \<Rightarrow> SlotEnv) \<Rightarrow> u16 \<Rightarrow> nat list \<Rightarrow> DecentralizedState \<Rightarrow> (SocketAddr \<times> bytes) list \<times> DecentralizedState" where
  "tick_slots env port [] d = ([], d)"
| "tick_slots env port (i # is) d =
     (let (pkt, d) = tick_tracker_slot (env i) i port d;
          (pkts, d) = tick_slots env port is d in
      ((case pkt of Some p \<Rightarrow> p # pkts | None \<Rightarrow> pkts), d))"

record DecentralizedTickOutput =
  to_punch_targets :: "SocketAddr list"
  to_join_fanout :: "(SocketAddr \<times> bytes) list"

definition ds_tick ::
    "instant \<Rightarrow> (nat \<Rightarrow> SlotEnv) \<Rightarrow> instant \<Rightarrow> SocketAddr option \<Rightarrow> bool \<Rightarrow> DecentralizedState
     \<Rightarrow> DecentralizedTickOutput \<times> (SocketAddr \<times> bytes) list \<times> DecentralizedState" where
  "ds_tick now env now' self_public_ep join_pending d0 =
     (if \<not> ds_active d0 then (\<lparr>to_punch_targets = [], to_join_fanout = []\<rparr>, [], d0)
      else
        let d = sweep_expired_pending now d0;
            port = announce_port self_public_ep d;
            (sent, d) = tick_slots env port [0..<length (ds_slots d)] d;
            (targets, d) = exact_targets now' self_public_ep d;
            punch_targets = (if targets \<noteq> [] then expand_symmetric_targets targets MAX_EXPANDED_PUNCH_TARGETS else []);
            fanout = (if ds_is_joiner d \<and> join_pending then
                        (case ds_join_body d of
                           Some body \<Rightarrow> map (\<lambda>ep. (ep, body)) (take MAX_FANOUT_MPJN_PER_TICK targets)
                         | None \<Rightarrow> [])
                      else []) in
        (\<lparr>to_punch_targets = punch_targets, to_join_fanout = fanout\<rparr>, sent, d))"

end
