(* ===== verification/Discovery_Inv.thy ===== *)
theory Discovery_Inv
  imports Discovery
begin

text \<open>
  Properties of peer discovery: bounded state over every history, who can answer a transaction, what becomes of
  answers to an earlier session, and the way from an announcement to punch targets.
\<close>

section \<open>Histories\<close>

text \<open>
  The operations as the engine calls them: the answer to an HTTP job is the body received, if any, parsed
  with the stack of the task; a resolution is added and its mark cleared.
\<close>

datatype ds_op =
    OpStart bytes bytes "string list" nat bool "bytes option" u16
  | OpStop
  | OpJoiner bool
  | OpResolves
  | OpResolved nat "SocketAddr list"
  | OpHttpJobs instant u16
  | OpHttpAnswer instant nat nat u64 string "bytes option"
  | OpDatagram instant SocketAddr bytes
  | OpTick instant "nat \<Rightarrow> SlotEnv" instant "SocketAddr option" bool

definition http_outcome :: "nat \<Rightarrow> bytes option \<Rightarrow> (u32 \<times> SocketAddr list) option" where
  "http_outcome stack raw =
     (case raw of
        None \<Rightarrow> None
      | Some body \<Rightarrow> (case parse_http_announce_body stack body of Inl _ \<Rightarrow> None | Inr r \<Rightarrow> Some r))"

fun ds_step :: "(SocketAddr \<Rightarrow> string) \<Rightarrow> ds_op \<Rightarrow> DecentralizedState \<Rightarrow> DecentralizedState" where
  "ds_step show_addr (OpStart room node trackers secs joiner body port) d = ds_start room node trackers secs joiner body port d"
| "ds_step show_addr OpStop d = ds_stop d"
| "ds_step show_addr (OpJoiner active) d = set_joiner_active active d"
| "ds_step show_addr OpResolves d = snd (take_pending_resolves d)"
| "ds_step show_addr (OpResolved i addrs) d = clear_resolve_in_flight i (add_resolved_addrs i addrs d)"
| "ds_step show_addr (OpHttpJobs now port) d = snd (take_pending_http_announces now port d)"
| "ds_step show_addr (OpHttpAnswer now stack i gen url raw) d =
     snd (apply_http_announce_result now
       \<lparr>hr_slot_idx = i, hr_generation = gen, hr_tracker_url = url, hr_outcome = http_outcome stack raw\<rparr> d)"
| "ds_step show_addr (OpDatagram now from_addr data) d = snd (handle_datagram show_addr now from_addr data d)"
| "ds_step show_addr (OpTick now env now' self pending) d = snd (snd (ds_tick now env now' self pending d))"

section \<open>The invariant\<close>

definition slot_ok :: "TrackerSlot \<Rightarrow> bool" where
  "slot_ok s = (distinct (ts_addrs s) \<and> list_all is_ipv4 (ts_addrs s) \<and> (ts_http_in_flight s \<longrightarrow> is_http s))"

definition slots_ok :: "TrackerSlot list \<Rightarrow> bool" where
  "slots_ok ss = (length ss \<le> MAX_ACTIVE_TRACKERS \<and> list_all slot_ok ss \<and> length (filter ts_http_in_flight ss) \<le> MAX_HTTP_IN_FLIGHT)"

definition owned :: "TrackerSlot list \<Rightarrow> SocketAddr \<Rightarrow> bool" where
  "owned ss a = list_ex (\<lambda>s. is_udp s \<and> a \<in> set (ts_addrs s)) ss"

definition ds_inv :: "DecentralizedState \<Rightarrow> bool" where
  "ds_inv d =
     (slots_ok (ds_slots d) \<and> tab_ok (ds_pending d) \<and> tab_ok (ds_connections d) \<and> tab_ok (ds_discovered d)
      \<and> (\<forall>k op. tab_get (ds_pending d) k = Some op \<longrightarrow> owned (ds_slots d) (po_tracker op))
      \<and> (\<forall>a c. tab_get (ds_connections d) a = Some c \<longrightarrow> owned (ds_slots d) a)
      \<and> (\<forall>a t. tab_get (ds_discovered d) a = Some t \<longrightarrow> compactable a))"

text \<open>A slot after an operation that starts no HTTP request: the same scheme, no address less.\<close>

definition slot_le :: "TrackerSlot \<Rightarrow> TrackerSlot \<Rightarrow> bool" where
  "slot_le s s' = (ts_scheme s' = ts_scheme s \<and> set (ts_addrs s) \<subseteq> set (ts_addrs s')
     \<and> (slot_ok s \<longrightarrow> slot_ok s') \<and> (ts_http_in_flight s' \<longrightarrow> ts_http_in_flight s))"

lemma filter_length_mono: "list_all2 (\<lambda>x y. P y \<longrightarrow> P x) xs ys \<Longrightarrow> length (filter P ys) \<le> length (filter P xs)"
  by (induction rule: list_all2_induct) auto

lemma slot_le_refl [simp]: "slot_le s s"
  by (simp add: slot_le_def)

lemma list_all2_upd: "(\<And>x. R x x) \<Longrightarrow> R (xs ! i) y \<Longrightarrow> list_all2 R xs (xs[i := y])"
  by (cases "i < length xs") (auto simp: list_all2_conv_all_nth nth_list_update)

lemma slots_ok_le:
  assumes "slots_ok ss" and "list_all2 slot_le ss ss'"
  shows "slots_ok ss'"
proof -
  have "length ss' = length ss" using list_all2_lengthD [OF assms(2)] by simp
  moreover have "list_all slot_ok ss'"
  proof -
    have "slot_ok (ss' ! i)" if "i < length ss'" for i
      using assms that by (simp add: slots_ok_def slot_le_def list_all_length list_all2_conv_all_nth)
    then show ?thesis by (simp add: list_all_length)
  qed
  moreover have "length (filter ts_http_in_flight ss') \<le> length (filter ts_http_in_flight ss)"
    by (rule filter_length_mono, rule list_all2_mono [OF assms(2)]) (simp add: slot_le_def)
  ultimately show ?thesis using assms(1) by (simp add: slots_ok_def)
qed

lemma owned_le:
  assumes "owned ss a" and "list_all2 (\<lambda>s s'. ts_scheme s' = ts_scheme s \<and> set (ts_addrs s) \<subseteq> set (ts_addrs s')) ss ss'"
  shows "owned ss' a"
proof -
  from assms(1) obtain s where "s \<in> set ss" "is_udp s" "a \<in> set (ts_addrs s)"
    by (auto simp: owned_def list_ex_iff)
  then obtain i where i: "i < length ss" "is_udp (ss ! i)" "a \<in> set (ts_addrs (ss ! i))"
    by (metis in_set_conv_nth)
  with assms(2) have "i < length ss'" "is_udp (ss' ! i)" "a \<in> set (ts_addrs (ss' ! i))"
    by (auto simp: list_all2_conv_all_nth is_udp_def)
  then show ?thesis by (auto simp: owned_def list_ex_iff)
qed

lemma inv_slots:
  assumes "ds_inv d" and "slots_ok ss"
    and "list_all2 (\<lambda>s s'. ts_scheme s' = ts_scheme s \<and> set (ts_addrs s) \<subseteq> set (ts_addrs s')) (ds_slots d) ss"
  shows "ds_inv (d\<lparr>ds_slots := ss\<rparr>)"
  using assms owned_le [OF _ assms(3)] by (auto simp: ds_inv_def)

lemma inv_slots_le:
  assumes "ds_inv d" and "list_all2 slot_le (ds_slots d) ss"
  shows "ds_inv (d\<lparr>ds_slots := ss\<rparr>)"
proof (rule inv_slots [OF assms(1)])
  show "slots_ok ss" using slots_ok_le [OF _ assms(2)] assms(1) by (simp add: ds_inv_def)
  show "list_all2 (\<lambda>s s'. ts_scheme s' = ts_scheme s \<and> set (ts_addrs s) \<subseteq> set (ts_addrs s')) (ds_slots d) ss"
    by (rule list_all2_mono [OF assms(2)]) (simp add: slot_le_def)
qed

lemma inv_upd_slot: "ds_inv d \<Longrightarrow> (\<And>s. slot_le s (f s)) \<Longrightarrow> ds_inv (upd_slot i f d)"
  by (auto simp: upd_slot_def intro!: inv_slots_le list_all2_upd)

lemma inv_map_slots: "ds_inv d \<Longrightarrow> (\<And>s. slot_le s (f s)) \<Longrightarrow> ds_inv (d\<lparr>ds_slots := map f (ds_slots d)\<rparr>)"
  by (auto simp: list_all2_conv_all_nth intro!: inv_slots_le)

lemma slot_le_flags [simp]:
  "slot_le s (s\<lparr>ts_resolve_in_flight := b\<rparr>)" "slot_le s (s\<lparr>ts_http_in_flight := False, ts_http_in_flight_since := x\<rparr>)"
  "slot_le s (s\<lparr>ts_server_interval_secs := n, ts_last_announce := t\<rparr>)" "slot_le s (rotate_addr s)"
  by (auto simp: slot_le_def slot_ok_def is_http_def rotate_addr_def)

lemma add_addrs_mono: "set as \<subseteq> set (add_addrs new as)"
  unfolding add_addrs_def by (induction new arbitrary: as) fastforce+

lemma add_addrs_ok:
  "distinct as \<Longrightarrow> list_all is_ipv4 as \<Longrightarrow> distinct (add_addrs new as) \<and> list_all is_ipv4 (add_addrs new as)"
  unfolding add_addrs_def by (induction new arbitrary: as) auto

lemma slot_le_addrs [simp]: "slot_le s (s\<lparr>ts_addrs := add_addrs new (ts_addrs s)\<rparr>)"
  using add_addrs_mono add_addrs_ok by (auto simp: slot_le_def slot_ok_def is_http_def)

section \<open>Every operation keeps the invariant\<close>

lemma try_new_ok: "TrackerSlot_try_new url secs = Some s \<Longrightarrow> slot_ok s \<and> \<not> ts_http_in_flight s"
  by (auto simp: TrackerSlot_try_new_def slot_ok_def split: option.splits)

lemma start_inv: "ds_inv (ds_start room node trackers secs joiner body port d)"
proof -
  let ?ss = "take MAX_ACTIVE_TRACKERS (List.map_filter (\<lambda>url. TrackerSlot_try_new url (max secs 60)) trackers)"
  have *: "slot_ok s \<and> \<not> ts_http_in_flight s" if "s \<in> set ?ss" for s
  proof -
    from in_set_takeD [OF that] have "\<exists>url. TrackerSlot_try_new url (max secs 60) = Some s" by (rule map_filter_props(2))
    then show ?thesis using try_new_ok by blast
  qed
  then have "filter ts_http_in_flight ?ss = []" by (simp add: filter_empty_conv)
  with * have "slots_ok ?ss" by (simp add: slots_ok_def list_all_iff)
  then show ?thesis by (simp add: ds_inv_def ds_start_def Let_def)
qed

lemma default_inv_gen: "ds_inv (DecentralizedState_default\<lparr>ds_generation := g\<rparr>)"
  by (simp add: ds_inv_def DecentralizedState_default_def slots_ok_def)

lemma default_inv [simp]: "ds_inv DecentralizedState_default"
  by (simp add: ds_inv_def DecentralizedState_default_def slots_ok_def)

lemma resolves_inv: "ds_inv d \<Longrightarrow> ds_inv (snd (take_pending_resolves d))"
  by (auto simp: take_pending_resolves_def intro!: inv_map_slots)

lemma resolved_inv: "ds_inv d \<Longrightarrow> ds_inv (clear_resolve_in_flight i (add_resolved_addrs i addrs d))"
  by (simp add: clear_resolve_in_flight_def add_resolved_addrs_def inv_upd_slot)

lemma http_jobs_slots:
  assumes "http_jobs now port d idx n ss = (jobs, ss')" and "list_all slot_ok ss"
  shows "length ss' = length ss \<and> list_all slot_ok ss'
    \<and> list_all2 (\<lambda>s s'. ts_scheme s' = ts_scheme s \<and> set (ts_addrs s) \<subseteq> set (ts_addrs s')) ss ss'
    \<and> length (filter ts_http_in_flight ss') = length (filter ts_http_in_flight ss) + length jobs
    \<and> (n \<le> MAX_HTTP_IN_FLIGHT \<longrightarrow> n + length jobs \<le> MAX_HTTP_IN_FLIGHT)"
  using assms
proof (induction now port d idx n ss arbitrary: jobs ss' rule: http_jobs.induct)
  case (2 now port d idx n s ss)
  show ?case
  proof (cases "n \<ge> MAX_HTTP_IN_FLIGHT")
    case True
    with 2(3) have "jobs = []" "ss' = s # ss" by simp_all
    with 2(4) show ?thesis by (simp add: list_all2_refl)
  next
    case low: False
    show ?thesis
    proof (cases "\<not> is_http s \<or> ts_http_in_flight s \<or> \<not> announce_due now (ds_announce_secs d) s")
      case True
      obtain js rs where r: "http_jobs now port d (idx + 1) n ss = (js, rs)" by fastforce
      have ok: "list_all slot_ok ss" using 2(4) by simp
      from 2(3) low True r have eq: "jobs = js" "ss' = s # rs" by simp_all
      from 2(1) [OF low True r ok] 2(4) show ?thesis unfolding eq by simp
    next
      case False
      obtain js rs where r: "http_jobs now port d (idx + 1) (n + 1) ss = (js, rs)" by fastforce
      have ok: "list_all slot_ok ss" using 2(4) by simp
      have sok: "slot_ok (s\<lparr>ts_http_in_flight := True, ts_http_in_flight_since := Some now\<rparr>)"
        using 2(4) False by (simp add: slot_ok_def is_http_def)
      from 2(3) low False r have eq: "length jobs = Suc (length js)"
        "ss' = s\<lparr>ts_http_in_flight := True, ts_http_in_flight_since := Some now\<rparr> # rs" by auto
      from 2(2) [OF low False refl r ok] low False sok show ?thesis unfolding eq by simp
    qed
  qed
qed simp

lemma http_jobs_inv: "ds_inv d \<Longrightarrow> ds_inv (snd (take_pending_http_announces now port d))"
proof -
  assume inv: "ds_inv d"
  define d1 where "d1 = sweep_expired_http_inflight now d"
  have inv1: "ds_inv d1" unfolding d1_def sweep_expired_http_inflight_def by (rule inv_map_slots [OF inv]) simp
  then have ok: "list_all slot_ok (ds_slots d1)" "slots_ok (ds_slots d1)" by (simp_all add: ds_inv_def slots_ok_def)
  let ?n = "length (filter ts_http_in_flight (ds_slots d1))"
  obtain jobs ss where j: "http_jobs now port d1 0 ?n (ds_slots d1) = (jobs, ss)" by fastforce
  note h = http_jobs_slots [OF j ok(1)]
  with ok(2) have "slots_ok ss" by (simp add: slots_ok_def)
  with h inv_slots [OF inv1] have "ds_inv (d1\<lparr>ds_slots := ss\<rparr>)" by blast
  with inv j show ?thesis by (simp add: take_pending_http_announces_def d1_def [symmetric] Let_def)
qed

lemma fold_note_discovered:
  "fold (note_discovered now) peers d = d\<lparr>ds_discovered := fold (\<lambda>ep. tab_put ep now) peers (ds_discovered d)\<rparr>"
  by (induction peers arbitrary: d) (simp_all add: note_discovered_def)

lemma fold_put_discovered:
  "tab_ok t \<Longrightarrow> tab_ok (fold (\<lambda>ep. tab_put ep now) peers t)
     \<and> tab_get (fold (\<lambda>ep. tab_put ep now) peers t) a = (if a \<in> set peers then Some now else tab_get t a)"
  by (induction peers arbitrary: t) (auto simp: tab_get_put)

lemma note_announce_inv:
  assumes "ds_inv d" and "list_all compactable peers"
  shows "ds_inv (snd (note_announce now peers d))"
  using assms fold_put_discovered [of "ds_discovered d" now peers]
  by (auto simp: note_announce_def fold_note_discovered ds_inv_def list_all_iff Let_def split: if_splits)

lemma http_outcome_ok: "http_outcome stack raw = Some (interval, peers) \<Longrightarrow> list_all compactable peers"
  using parse_http_announce_body_ok by (auto simp: http_outcome_def split: option.splits sum.splits)

lemma http_answer_inv:
  assumes "ds_inv d" and "\<And>interval peers. hr_outcome r = Some (interval, peers) \<Longrightarrow> list_all compactable peers"
  shows "ds_inv (snd (apply_http_announce_result now r d))"
  using assms
  by (auto simp: apply_http_announce_result_def Let_def case_prod_unfold split: option.splits
      intro!: note_announce_inv inv_upd_slot)

lemma inv_pending_del: "ds_inv d \<Longrightarrow> ds_inv (d\<lparr>ds_pending := tab_del k (ds_pending d)\<rparr>)"
  by (auto simp: ds_inv_def tab_get_del split: if_splits)

lemma inv_pending_put: "ds_inv d \<Longrightarrow> owned (ds_slots d) (po_tracker op) \<Longrightarrow> ds_inv (d\<lparr>ds_pending := tab_put k op (ds_pending d)\<rparr>)"
  by (auto simp: ds_inv_def tab_get_put split: if_splits)

lemma inv_conn_put: "ds_inv d \<Longrightarrow> owned (ds_slots d) a \<Longrightarrow> ds_inv (d\<lparr>ds_connections := tab_put a c (ds_connections d)\<rparr>)"
  by (auto simp: ds_inv_def tab_get_put split: if_splits)

lemma inv_conn_del: "ds_inv d \<Longrightarrow> ds_inv (d\<lparr>ds_connections := tab_del a (ds_connections d)\<rparr>)"
  by (auto simp: ds_inv_def tab_get_del split: if_splits)

lemma datagram_inv: "ds_inv d \<Longrightarrow> ds_inv (snd (handle_datagram show_addr now from_addr data d))"
proof -
  assume inv: "ds_inv d"
  let ?txn = "take 4 (drop 4 data)"
  show ?thesis
  proof (cases "\<not> ds_active d \<or> length data < 16 \<or> tab_get (ds_pending d) ?txn = None")
    case True
    with inv show ?thesis by (auto simp: handle_datagram_def Let_def split: option.splits)
  next
    case False
    then obtain op where op: "tab_get (ds_pending d) ?txn = Some op" by auto
    define d1 where "d1 = d\<lparr>ds_pending := tab_del ?txn (ds_pending d)\<rparr>"
    have inv1: "ds_inv d1" unfolding d1_def by (rule inv_pending_del [OF inv])
    have own: "owned (ds_slots d1) (po_tracker op)" using inv op by (simp add: ds_inv_def d1_def)
    have put: "ds_inv (d1\<lparr>ds_pending := tab_put ?txn op (ds_pending d1)\<rparr>)" by (rule inv_pending_put [OF inv1 own])
    have conn: "ds_inv (d1\<lparr>ds_connections := tab_put (po_tracker op) c (ds_connections d1)\<rparr>)" for c
      by (rule inv_conn_put [OF inv1 own])
    have slot: "ds_inv (upd_slot idx (\<lambda>s. s\<lparr>ts_server_interval_secs := n, ts_last_announce := Some now\<rparr>) d1)" for idx n
      by (rule inv_upd_slot [OF inv1]) simp
    have ann: "ds_inv (snd (note_announce now peers d2))"
      if "parse_announce_response data ?txn = Inr (interval, peers)" "ds_inv d2" for interval peers d2
      using note_announce_inv [OF that(2)] parse_announce_response_ok [OF that(1)] by blast
    have hd: "handle_datagram show_addr now from_addr data d =
        (if from_addr \<noteq> po_tracker op then (dr_default, d1\<lparr>ds_pending := tab_put ?txn op (ds_pending d1)\<rparr>)
         else answered now (tracker_url_of show_addr (po_tracker op) d1) op data d1)"
      using False op by (simp add: handle_datagram_def d1_def Let_def)
    have "ds_inv (snd (answered now url op data d1))" for url
    proof (cases "po_kind op")
      case Connect
      then show ?thesis using inv1 conn by (cases "parse_connect_response data ?txn") (simp_all add: answered_def Let_def)
    next
      case Announce
      show ?thesis
      proof (cases "parse_announce_response data ?txn")
        case (Inl e)
        with Announce inv1 show ?thesis by (simp add: answered_def Let_def)
      next
        case (Inr ip)
        obtain interval peers where ip: "ip = (interval, peers)" by fastforce
        show ?thesis
        proof (cases "slot_index_for_tracker_addr (po_tracker op) d1")
          case None
          with Announce Inr ip ann [OF _ inv1] show ?thesis by (simp add: answered_def Let_def case_prod_unfold)
        next
          case (Some idx)
          with Announce Inr ip ann [OF _ slot] show ?thesis by (simp add: answered_def Let_def case_prod_unfold)
        qed
      qed
    qed
    with put hd show ?thesis by simp
  qed
qed

lemma current_owned:
  assumes "i < length (ds_slots d)" and "is_udp (ds_slots d ! i)" and "current_addr (ds_slots d ! i) = Some a"
  shows "owned (ds_slots d) a"
proof -
  have "a \<in> set (ts_addrs (ds_slots d ! i))"
    using assms(3) by (auto simp: current_addr_def split: if_splits)
  with assms(1,2) show ?thesis by (auto simp: owned_def list_ex_iff)
qed

text \<open>The two requests a slot can send, with their failure.\<close>

definition request :: "SlotEnv \<Rightarrow> nat \<Rightarrow> SocketAddr \<Rightarrow> PendingKind \<Rightarrow> bytes \<Rightarrow> DecentralizedState \<Rightarrow> (SocketAddr \<times> bytes) option \<times> DecentralizedState" where
  "request env i a kind pkt d =
     (let d1 = d\<lparr>ds_pending := tab_put (se_txn env) \<lparr>po_kind = kind, po_tracker = a, po_created = se_now env\<rparr> (ds_pending d)\<rparr> in
      if se_send_ok env then (Some (a, pkt), d1)
      else
        let d2 = d1\<lparr>ds_pending := tab_del (se_txn env) (ds_pending d1)\<rparr> in
        (None, upd_slot i rotate_addr
           (case kind of Connect \<Rightarrow> d2 | Announce \<Rightarrow> d2\<lparr>ds_connections := tab_del a (ds_connections d2)\<rparr>)))"

lemma tick_tracker_slot_cases:
  obtains "tick_tracker_slot env i port d = (None, d)"
  | a kind pkt where "i < length (ds_slots d)" "is_udp (ds_slots d ! i)" "current_addr (ds_slots d ! i) = Some a"
      "tick_tracker_slot env i port d = request env i a kind pkt d"
proof (cases "i < length (ds_slots d) \<and> is_udp (ds_slots d ! i)")
  case False
  then have "tick_tracker_slot env i port d = (None, d)" by (auto simp: tick_tracker_slot_def)
  then show thesis by (rule that(1))
next
  case idx: True
  show thesis
  proof (cases "current_addr (ds_slots d ! i)")
    case None
    with idx have "tick_tracker_slot env i port d = (None, d)" by (simp add: tick_tracker_slot_def)
    then show thesis by (rule that(1))
  next
    case (Some a)
    show thesis
    proof (cases "announce_due (se_now env) (ds_announce_secs d) (ds_slots d ! i)")
      case False
      with idx Some have "tick_tracker_slot env i port d = (None, d)" by (simp add: tick_tracker_slot_def)
      then show thesis by (rule that(1))
    next
      case due: True
      define need where "need = (case tab_get (ds_connections d) a of Some c \<Rightarrow> se_now env \<ge> tc_expires c | None \<Rightarrow> True)"
      show thesis
      proof (cases need)
        case True
        then have "tick_tracker_slot env i port d =
            (if has_pending_in_flight a Connect d then (None, d) else request env i a Connect (build_connect_request (se_txn env)) d)"
          using idx Some due by (simp add: tick_tracker_slot_def request_def need_def Let_def)
        then show thesis using that idx Some by (cases "has_pending_in_flight a Connect d") auto
      next
        case False
        then obtain c where c: "tab_get (ds_connections d) a = Some c" "\<not> se_now env \<ge> tc_expires c"
          by (auto simp: need_def split: option.splits)
        then have "tick_tracker_slot env i port d =
            (if has_pending_in_flight a Announce d then (None, d)
             else request env i a Announce (build_announce_request (tc_id c) (se_txn env) (ds_room_id d) (ds_peer_id d) port 50) d)"
          using idx Some due by (simp add: tick_tracker_slot_def request_def Let_def)
        then show thesis using that idx Some by (cases "has_pending_in_flight a Announce d") auto
      qed
    qed
  qed
qed

lemma request_inv:
  assumes "ds_inv d" and "owned (ds_slots d) a"
  shows "ds_inv (snd (request env i a kind pkt d))"
proof -
  define d1 where "d1 = d\<lparr>ds_pending := tab_put (se_txn env) \<lparr>po_kind = kind, po_tracker = a, po_created = se_now env\<rparr> (ds_pending d)\<rparr>"
  have 1: "ds_inv d1" unfolding d1_def by (rule inv_pending_put) (simp_all add: assms)
  define d2 where "d2 = d1\<lparr>ds_pending := tab_del (se_txn env) (ds_pending d1)\<rparr>"
  have 2: "ds_inv d2" unfolding d2_def by (rule inv_pending_del [OF 1])
  have "ds_inv (upd_slot i rotate_addr d2)" "ds_inv (upd_slot i rotate_addr (d2\<lparr>ds_connections := tab_del a (ds_connections d2)\<rparr>))"
    by (rule inv_upd_slot; simp add: 2 inv_conn_del)+
  with 1 show ?thesis by (cases kind) (simp_all add: request_def d1_def d2_def Let_def)
qed

lemma tick_slot_inv: "ds_inv d \<Longrightarrow> ds_inv (snd (tick_tracker_slot env i port d))"
proof (rule tick_tracker_slot_cases [of env i port d])
  fix a kind pkt
  assume a: "ds_inv d" "i < length (ds_slots d)" "is_udp (ds_slots d ! i)" "current_addr (ds_slots d ! i) = Some a"
    "tick_tracker_slot env i port d = request env i a kind pkt d"
  from request_inv [OF a(1) current_owned [OF a(2-4)]] a(5) show ?thesis by simp
qed simp

lemma request_sent: "fst (request env i a kind pkt d) = Some (b, p) \<Longrightarrow> b = a"
  by (auto simp: request_def Let_def split: if_splits)

lemma owned_ipv4: "ds_inv d \<Longrightarrow> owned (ds_slots d) a \<Longrightarrow> is_ipv4 a"
  by (auto simp: ds_inv_def slots_ok_def slot_ok_def owned_def list_ex_iff list_all_iff)

lemma tick_slot_sent: "ds_inv d \<Longrightarrow> fst (tick_tracker_slot env i port d) = Some (a, p) \<Longrightarrow> is_ipv4 a"
proof (rule tick_tracker_slot_cases [of env i port d])
  fix b kind pkt
  assume a: "ds_inv d" "i < length (ds_slots d)" "is_udp (ds_slots d ! i)" "current_addr (ds_slots d ! i) = Some b"
    "tick_tracker_slot env i port d = request env i b kind pkt d" "fst (tick_tracker_slot env i port d) = Some (a, p)"
  then have "a = b" using request_sent by simp
  with a owned_ipv4 current_owned show "is_ipv4 a" by blast
qed simp

lemma tick_slots_inv:
  "ds_inv d \<Longrightarrow> ds_inv (snd (tick_slots env port is d))
     \<and> list_all (\<lambda>(a, _). is_ipv4 a) (fst (tick_slots env port is d)) \<and> length (fst (tick_slots env port is d)) \<le> length is"
proof (induction "is" arbitrary: d)
  case (Cons i "is")
  obtain pkt d1 where 1: "tick_tracker_slot (env i) i port d = (pkt, d1)" by fastforce
  obtain pkts d2 where 2: "tick_slots env port is d1 = (pkts, d2)" by fastforce
  have "ds_inv d1" using tick_slot_inv [OF Cons.prems, of "env i" i port] 1 by simp
  from Cons.IH [OF this] 2 tick_slot_sent [OF Cons.prems, of "env i" i port] 1 show ?case
    by (auto split: option.splits)
qed simp

lemma sweep_pending_inv: "ds_inv d \<Longrightarrow> ds_inv (sweep_expired_pending now d)"
  by (auto simp: ds_inv_def sweep_expired_pending_def tab_get_retain split: option.splits if_splits)

section \<open>Discovered endpoints\<close>

lemma fold_tab_del_ok: "tab_ok t \<Longrightarrow> tab_ok (fold (\<lambda>(ep, _). tab_del ep) es t)"
  by (induction es arbitrary: t) (simp_all add: case_prod_unfold)

lemma fold_tab_del_get: "tab_get (fold (\<lambda>(ep, _). tab_del ep) es t) a = (if a \<in> fst ` set es then None else tab_get t a)"
  by (induction es arbitrary: t) (simp_all add: tab_get_del case_prod_unfold)

lemma fold_tab_del_length:
  "tab_ok t \<Longrightarrow> distinct (map fst es) \<Longrightarrow> \<forall>(ep, x) \<in> set es. tab_get t ep \<noteq> None \<Longrightarrow>
     length (fold (\<lambda>(ep, _). tab_del ep) es t) + length es = length t"
proof (induction es arbitrary: t)
  case (Cons e es)
  obtain ep x where e: "e = (ep, x)" by fastforce
  then obtain v where v: "tab_get t ep = Some v" using Cons.prems(3) by auto
  have "\<forall>(ep', x) \<in> set es. tab_get (tab_del ep t) ep' \<noteq> None"
    using Cons.prems(2,3) e by (force simp: tab_get_del)
  with Cons.IH [of "tab_del ep t"] Cons.prems(1,2) e length_tab_del [OF Cons.prems(1) v] show ?case by simp
qed simp

lemma distinct_fst_sort: "tab_ok t \<Longrightarrow> distinct (map fst (sort_key f t))"
proof -
  assume "tab_ok t"
  moreover have "mset (map fst (sort_key f t)) = mset (map fst t)" by simp
  ultimately show ?thesis unfolding tab_ok_def by (metis mset_eq_imp_distinct_iff)
qed

lemma prune_discovered:
  assumes "tab_ok (ds_discovered d)"
  shows "length (ds_discovered (prune_discovered_at now d)) \<le> MAX_DISCOVERED
    \<and> tab_ok (ds_discovered (prune_discovered_at now d))
    \<and> (\<forall>a t. tab_get (ds_discovered (prune_discovered_at now d)) a = Some t \<longrightarrow>
          tab_get (ds_discovered d) a = Some t \<and> duration_since now t < DISCOVERED_TTL)"
proof -
  define t where "t = tab_retain (\<lambda>_ seen. duration_since now seen < DISCOVERED_TTL) (ds_discovered d)"
  have ok: "tab_ok t" unfolding t_def using assms by simp
  have get: "tab_get (ds_discovered d) a = Some v \<and> duration_since now v < DISCOVERED_TTL" if "tab_get t a = Some v" for a v
    using that assms by (auto simp: t_def tab_get_retain split: option.splits if_splits)
  show ?thesis
  proof (cases "length t \<le> MAX_DISCOVERED")
    case True
    with ok get show ?thesis by (simp add: prune_discovered_at_def t_def [symmetric] Let_def)
  next
    case False
    let ?es = "take (length t - MAX_DISCOVERED) (sort_key snd t)"
    from distinct_fst_sort [OF ok, of snd] have d: "distinct (map fst ?es)" by (simp add: take_map [symmetric])
    have m: "\<forall>(ep, x) \<in> set ?es. tab_get t ep \<noteq> None"
      using tab_mem_get [OF ok] by (auto dest!: in_set_takeD)
    have "length (fold (\<lambda>(ep, _). tab_del ep) ?es t) \<le> MAX_DISCOVERED"
      using fold_tab_del_length [OF ok d m] False by simp
    moreover have "ds_discovered (prune_discovered_at now d) = fold (\<lambda>(ep, _). tab_del ep) ?es t"
      using False by (simp add: prune_discovered_at_def t_def [symmetric] Let_def)
    moreover have "tab_get (ds_discovered d) a = Some v \<and> duration_since now v < DISCOVERED_TTL"
      if "tab_get (fold (\<lambda>(ep, _). tab_del ep) ?es t) a = Some v" for a v
      using that get unfolding fold_tab_del_get by (simp split: if_splits)
    ultimately show ?thesis using fold_tab_del_ok [OF ok, of ?es] by simp
  qed
qed

lemma prune_inv:
  assumes "ds_inv d"
  shows "ds_inv (prune_discovered_at now d)"
proof -
  have "\<exists>t. prune_discovered_at now d = d\<lparr>ds_discovered := t\<rparr>"
    by (simp add: prune_discovered_at_def Let_def) blast
  then obtain t where t: "prune_discovered_at now d = d\<lparr>ds_discovered := t\<rparr>" ..
  with prune_discovered [of d now] assms show ?thesis by (auto simp: ds_inv_def)
qed

lemma exact_targets_props:
  assumes "ds_inv d" and "exact_targets now self d = (ts, d')"
  shows "ds_inv d' \<and> length (ds_discovered d') \<le> 256 \<and> length ts \<le> 64 \<and> distinct ts \<and> list_all compactable ts
    \<and> (\<forall>a \<in> set ts. self \<noteq> Some a \<and> (\<exists>t. tab_get (ds_discovered d) a = Some t \<and> duration_since now t < DISCOVERED_TTL))"
proof -
  define p where "p = prune_discovered_at now d"
  have ok: "tab_ok (ds_discovered d)" using assms(1) by (simp add: ds_inv_def)
  note pr = prune_discovered [OF ok, of now, folded p_def]
  have inv: "ds_inv p" unfolding p_def by (rule prune_inv [OF assms(1)])
  let ?es = "sort_key (\<lambda>(_, t). - int t) (ds_discovered p)"
  have d': "d' = p" and ts: "ts = take MAX_PUNCH_TARGETS (filter (\<lambda>ep. self \<noteq> Some ep) (map fst ?es))"
    using assms(2) by (auto simp: exact_targets_def p_def Let_def)
  have dist: "distinct (map fst ?es)" using pr distinct_fst_sort by blast
  have "distinct ts" unfolding ts by (rule distinct_take [OF distinct_filter [OF dist]])
  moreover have mem: "self \<noteq> Some a \<and> (\<exists>t. tab_get (ds_discovered p) a = Some t)" if "a \<in> set ts" for a
    using in_set_takeD [OF that [unfolded ts]] pr tab_mem_get by fastforce
  moreover have "length ts \<le> 64" by (simp add: ts MAX_PUNCH_TARGETS_def)
  moreover have "list_all compactable ts"
    using mem inv by (auto simp: list_all_iff ds_inv_def)
  moreover have "\<exists>t. tab_get (ds_discovered d) a = Some t \<and> duration_since now t < DISCOVERED_TTL" if "a \<in> set ts" for a
    using mem [OF that] pr by blast
  ultimately show ?thesis using inv pr d' by (simp add: MAX_DISCOVERED_def)
qed

lemma request_discovered: "ds_discovered (snd (request env i a kind pkt d)) = ds_discovered d"
  by (simp add: request_def upd_slot_def Let_def split: PendingKind.splits)

lemma tick_slots_discovered: "ds_discovered (snd (tick_slots env port is d)) = ds_discovered d"
proof (induction "is" arbitrary: d)
  case (Cons i "is")
  have "ds_discovered (snd (tick_tracker_slot (env i) i port d)) = ds_discovered d"
    by (rule tick_tracker_slot_cases [of "env i" i port d]) (simp_all add: request_discovered)
  with Cons show ?case by (simp add: case_prod_unfold Let_def)
qed simp

lemma punch_targets_props:
  assumes "list_all compactable ts" and "length ts \<le> 64"
  defines "pt \<equiv> (if ts \<noteq> [] then expand_symmetric_targets ts MAX_EXPANDED_PUNCH_TARGETS else [])"
  shows "distinct pt \<and> length pt \<le> 512 \<and> list_all (\<lambda>t. is_ipv4 t \<and> sa_port t \<noteq> 0) pt \<and> set ts \<subseteq> set pt"
proof (cases "ts = []")
  case False
  have m: "(0 :: nat) < 512" by simp
  have pt: "pt = expand_with (near_width 128) ts 512"
    using False by (simp add: pt_def expand_symmetric MAX_EXPANDED_PUNCH_TARGETS_def)
  note e = expand_with [OF m, of "near_width 128" ts, folded pt]
  have "card (set ts) < 512" using card_length [of ts] assms(2) by simp
  moreover have "is_ipv4 t \<and> sa_port t \<noteq> 0" if "t \<in> set pt" for t
  proof -
    from expand_same_ips [of 128 512 t ts] that pt have t: "ep_ip t \<in> ep_ip ` set ts" "t \<in> set ts \<or> sa_port t \<noteq> 0" by simp_all
    from t(1) obtain b where b: "b \<in> set ts" "ep_ip t = ep_ip b" by auto
    with assms(1) have "is_ipv4 b" by (auto simp: list_all_iff compactable_def)
    with b(2) have "is_ipv4 t" by (cases t; cases b) (simp_all add: is_ipv4_def)
    with t(2) assms(1) show ?thesis by (auto simp: list_all_iff compactable_def)
  qed
  ultimately show ?thesis using e by (auto simp: list_all_iff)
qed (simp add: pt_def)

lemma tick_inv: "ds_inv d \<Longrightarrow> ds_inv (snd (snd (ds_tick now env now' self pending d)))"
proof -
  assume inv: "ds_inv d"
  define d1 where "d1 = sweep_expired_pending now d"
  obtain sent d2 where 2: "tick_slots env (announce_port self d1) [0..<length (ds_slots d1)] d1 = (sent, d2)" by fastforce
  have "ds_inv d1" unfolding d1_def by (rule sweep_pending_inv [OF inv])
  from tick_slots_inv [OF this, of env "announce_port self d1" "[0..<length (ds_slots d1)]"] 2 have "ds_inv d2" by simp
  moreover obtain ts d3 where 3: "exact_targets now' self d2 = (ts, d3)" by fastforce
  ultimately have "ds_inv d3" using exact_targets_props by blast
  with inv 2 3 show ?thesis by (simp add: ds_tick_def d1_def [symmetric] Let_def)
qed

lemma ds_step_inv: "ds_inv d \<Longrightarrow> ds_inv (ds_step show_addr op d)"
proof (cases op)
  case (OpHttpAnswer now stack i gen url raw)
  have "ds_inv d \<Longrightarrow> ds_inv (snd (apply_http_announce_result now
      \<lparr>hr_slot_idx = i, hr_generation = gen, hr_tracker_url = url, hr_outcome = http_outcome stack raw\<rparr> d))"
    by (erule http_answer_inv) (simp add: http_outcome_ok)
  then show "ds_inv d \<Longrightarrow> ?thesis" unfolding OpHttpAnswer by simp
next
  case (OpJoiner b)
  then show "ds_inv d \<Longrightarrow> ?thesis" by (simp add: ds_inv_def set_joiner_active_def)
qed (simp_all add: start_inv ds_stop_def default_inv_gen resolves_inv resolved_inv http_jobs_inv datagram_inv tick_inv)

interpretation discovery: invariant_machine "ds_step show_addr" ds_inv
  by unfold_locales (rule ds_step_inv)

section \<open>Answers and sessions\<close>

lemma handle_known:
  assumes "ds_active d" and "16 \<le> length data" and "tab_get (ds_pending d) (take 4 (drop 4 data)) = Some op" and "from_addr = po_tracker op"
  shows "handle_datagram show_addr now from_addr data d =
    (let d1 = d\<lparr>ds_pending := tab_del (take 4 (drop 4 data)) (ds_pending d)\<rparr> in
     answered now (tracker_url_of show_addr from_addr d1) op data d1)"
  using assms by (simp add: handle_datagram_def Let_def)

lemma note_announce_fields [simp]:
  "ds_pending (snd (note_announce now ps d)) = ds_pending d" "ds_active (snd (note_announce now ps d)) = ds_active d"
  "ds_connections (snd (note_announce now ps d)) = ds_connections d" "ds_slots (snd (note_announce now ps d)) = ds_slots d"
  "ds_generation (snd (note_announce now ps d)) = ds_generation d" "ds_announce_secs (snd (note_announce now ps d)) = ds_announce_secs d"
  "ds_room_id (snd (note_announce now ps d)) = ds_room_id d" "ds_peer_id (snd (note_announce now ps d)) = ds_peer_id d"
  "ds_discovered (snd (note_announce now ps d)) = fold (\<lambda>ep. tab_put ep now) ps (ds_discovered d)"
  by (simp_all add: note_announce_def fold_note_discovered Let_def)

lemma upd_slot_fields [simp]:
  "ds_pending (upd_slot i f d) = ds_pending d" "ds_active (upd_slot i f d) = ds_active d"
  "ds_connections (upd_slot i f d) = ds_connections d" "ds_generation (upd_slot i f d) = ds_generation d"
  "ds_announce_secs (upd_slot i f d) = ds_announce_secs d" "length (ds_slots (upd_slot i f d)) = length (ds_slots d)"
  "ds_discovered (upd_slot i f d) = ds_discovered d" "ds_room_id (upd_slot i f d) = ds_room_id d"
  "ds_peer_id (upd_slot i f d) = ds_peer_id d"
  by (simp_all add: upd_slot_def)

lemma answered_fields [simp]:
  "ds_pending (snd (answered now url op data d)) = ds_pending d" "ds_generation (snd (answered now url op data d)) = ds_generation d"
  by (simp_all add: answered_def Let_def case_prod_unfold split: PendingKind.splits sum.splits option.splits)


text \<open>
  C18. Only the tracker that was asked can answer, and only once: a datagram that does not carry an outstanding
  transaction, or comes from another address than the request went to, is not handled and changes nothing that can be
  looked up; and a datagram that was handled is not handled when it is replayed.
\<close>

theorem tracker_answers_authenticated:
  assumes "handle_datagram show_addr now from_addr data d = (r, d')"
  shows "(case tab_get (ds_pending d) (take 4 (drop 4 data)) of
            None \<Rightarrow> r = dr_default \<and> d' = d
          | Some op \<Rightarrow>
              if from_addr = po_tracker op then True
              else r = dr_default \<and> d'\<lparr>ds_pending := ds_pending d\<rparr> = d \<and> tab_get (ds_pending d') = tab_get (ds_pending d))
    \<and> (if dr_handled r then fst (handle_datagram show_addr later other data d') = dr_default else True)"
proof -
  let ?txn = "take 4 (drop 4 data)"
  show ?thesis
  proof (cases "\<not> ds_active d \<or> length data < 16")
    case True
    then have "r = dr_default" "d' = d" using assms by (auto simp: handle_datagram_def)
    then show ?thesis by (simp add: dr_default_def split: option.splits)
  next
    case False
    show ?thesis
    proof (cases "tab_get (ds_pending d) ?txn")
      case None
      then have "r = dr_default" "d' = d" using assms False by (auto simp: handle_datagram_def Let_def)
      then show ?thesis using None by (simp add: dr_default_def)
    next
      case (Some op)
      show ?thesis
      proof (cases "from_addr = po_tracker op")
        case True
        define d1 where "d1 = d\<lparr>ds_pending := tab_del ?txn (ds_pending d)\<rparr>"
        have "(r, d') = answered now (tracker_url_of show_addr from_addr d1) op data d1"
          using assms False Some True handle_known [of d data op from_addr show_addr now] by (simp add: d1_def Let_def)
        then have "d' = snd (answered now (tracker_url_of show_addr from_addr d1) op data d1)" by (metis snd_conv)
        then have "tab_get (ds_pending d') ?txn = None" by (simp add: d1_def tab_get_del)
        then have "fst (handle_datagram show_addr later other data d') = dr_default" by (simp add: handle_datagram_def Let_def)
        with Some True show ?thesis by simp
      next
        case ne: False
        with assms False Some have r: "r = dr_default"
          "d' = d\<lparr>ds_pending := tab_put ?txn op (tab_del ?txn (ds_pending d))\<rparr>"
          by (auto simp: handle_datagram_def Let_def)
        have "tab_get (ds_pending d') = tab_get (ds_pending d)"
          using Some by (auto simp: r(2) tab_get_put tab_get_del)
        with r ne Some show ?thesis by (simp add: dr_default_def)
      qed
    qed
  qed
qed

text \<open>One session with one UDP tracker whose address is known and a connect request outstanding.\<close>

definition sample_session :: DecentralizedState where
  "sample_session = (ds_start (replicate 20 7) [] [''udp://tr.example:6969''] 60 True None 7878 DecentralizedState_default)
     \<lparr>ds_pending := [([1, 2, 3, 4], \<lparr>po_kind = Connect, po_tracker = V4 5 6969, po_created = 0\<rparr>)]\<rparr>"

theorem tracker_answers_authenticated_witness:
  "\<exists>d'. handle_datagram (\<lambda>_. []) 1 (V4 6 6969) [0, 0, 0, 0, 1, 2, 3, 4, 9, 9, 9, 9, 9, 9, 9, 9] sample_session = (dr_default, d')
     \<and> tab_get (ds_pending d') = tab_get (ds_pending sample_session)"
proof -
  let ?data = "[0, 0, 0, 0, 1, 2, 3, 4, 9, 9, 9, 9, 9, 9, 9, 9] :: bytes"
  obtain r d' where h: "handle_datagram (\<lambda>_. []) 1 (V4 6 6969) ?data sample_session = (r, d')" by fastforce
  have "tab_get (ds_pending sample_session) (take 4 (drop 4 ?data)) = Some \<lparr>po_kind = Connect, po_tracker = V4 5 6969, po_created = 0\<rparr>"
    by (simp add: sample_session_def tab_get_def)
  with tracker_answers_authenticated [OF h, of 2 "V4 6 6969"] h show ?thesis by simp
qed

section \<open>Sessions\<close>

fun restarts :: "ds_op list \<Rightarrow> nat" where
  "restarts [] = 0"
| "restarts (OpStart _ _ _ _ _ _ _ # ops) = Suc (restarts ops)"
| "restarts (OpStop # ops) = Suc (restarts ops)"
| "restarts (_ # ops) = restarts ops"

lemma request_generation: "ds_generation (snd (request env i a kind pkt d)) = ds_generation d"
  by (simp add: request_def upd_slot_def Let_def split: PendingKind.splits)

lemma tick_slots_generation: "ds_generation (snd (tick_slots env port is d)) = ds_generation d"
proof (induction "is" arbitrary: d)
  case (Cons i "is")
  have "ds_generation (snd (tick_tracker_slot (env i) i port d)) = ds_generation d"
    by (rule tick_tracker_slot_cases [of "env i" i port d]) (simp_all add: request_generation)
  with Cons show ?case by (simp add: case_prod_unfold Let_def)
qed simp

lemma exact_targets_generation: "ds_generation (snd (exact_targets now self d)) = ds_generation d"
  by (simp add: exact_targets_def prune_discovered_at_def Let_def)

lemma tick_generation: "ds_generation (snd (snd (ds_tick now env now' self pending d))) = ds_generation d"
  using tick_slots_generation [of env "announce_port self (sweep_expired_pending now d)" "[0..<length (ds_slots (sweep_expired_pending now d))]" "sweep_expired_pending now d"]
    exact_targets_generation [of now' self]
  by (simp add: ds_tick_def case_prod_unfold Let_def sweep_expired_pending_def)

lemma ds_step_generation:
  "ds_generation (ds_step show_addr op d) = ds_generation d + of_nat (restarts [op])"
proof (cases op)
  case (OpDatagram now from_addr data)
  then show ?thesis by (simp add: handle_datagram_def Let_def split: option.splits)
next
  case (OpTick now env now' self pending)
  then show ?thesis by (simp add: tick_generation)
qed (simp_all add: ds_start_def ds_stop_def set_joiner_active_def take_pending_resolves_def clear_resolve_in_flight_def
    add_resolved_addrs_def take_pending_http_announces_def sweep_expired_http_inflight_def apply_http_announce_result_def
    case_prod_unfold Let_def split: option.splits)

lemma restarts_Cons: "restarts (op # ops) = restarts [op] + restarts ops"
  by (cases op) simp_all

lemma run_generation: "ds_generation (fold (ds_step show_addr) ops d) = ds_generation d + of_nat (restarts ops)"
proof (induction ops arbitrary: d)
  case (Cons op ops)
  then show ?case using ds_step_generation [of show_addr op d] restarts_Cons [of op ops] by (simp add: add.assoc)
qed simp

lemma http_jobs_generation:
  "job \<in> set (fst (http_jobs now port d idx n ss)) \<Longrightarrow> hw_generation job = ds_generation d"
proof (induction now port d idx n ss rule: http_jobs.induct)
  case (2 now port d idx n s ss)
  then show ?case by (auto simp: case_prod_unfold Let_def split: if_splits)
qed simp

text \<open>
  C36. An HTTP answer belongs to its session: once the session was restarted or stopped (less than \<open>2\<^sup>6\<^sup>4\<close> times), the
  answer to a request of the old session changes nothing, whatever it holds and whatever happened meanwhile.
\<close>

theorem old_http_answer_ignored:
  assumes "take_pending_http_announces now port d = (jobs, d1)" and "job \<in> set jobs"
    and "0 < restarts ops" and "restarts ops < 2 ^ 64" and "hr_generation r = hw_generation job"
  shows "apply_http_announce_result later r (fold (ds_step show_addr) ops d1) = (None, fold (ds_step show_addr) ops d1)"
proof -
  have "ds_generation d1 = ds_generation d"
    using assms(1) by (auto simp: take_pending_http_announces_def sweep_expired_http_inflight_def case_prod_unfold Let_def split: if_splits)
  moreover have "hw_generation job = ds_generation d"
    using assms(1,2) http_jobs_generation
    by (fastforce simp: take_pending_http_announces_def sweep_expired_http_inflight_def case_prod_unfold Let_def split: if_splits)
  moreover have "(of_nat (restarts ops) :: u64) \<noteq> 0"
  proof
    assume "(of_nat (restarts ops) :: u64) = 0"
    then have "unat (of_nat (restarts ops) :: u64) = 0" by simp
    then show False using assms(3,4) by (simp add: unat_of_nat)
  qed
  ultimately have "hr_generation r \<noteq> ds_generation (fold (ds_step show_addr) ops d1)"
    using assms(5) run_generation [of show_addr ops d1] by simp
  then show ?thesis by (simp add: apply_http_announce_result_def)
qed

definition http_session :: DecentralizedState where
  "http_session = ds_start (replicate 20 7) [] [''http://tr.example/ann''] 60 True None 7878 DecentralizedState_default"

theorem old_http_answer_ignored_witness:
  "\<exists>job jobs d1. take_pending_http_announces 0 80 http_session = (job # jobs, d1)
     \<and> apply_http_announce_result 5 \<lparr>hr_slot_idx = 0, hr_generation = hw_generation job, hr_tracker_url = [], hr_outcome = Some (60, [V4 1 1])\<rparr>
         (fold (ds_step (\<lambda>_. [])) [OpStop] d1) = (None, fold (ds_step (\<lambda>_. [])) [OpStop] d1)"
proof -
  have "fst (take_pending_http_announces 0 80 http_session) \<noteq> []" by code_simp
  then obtain job jobs d1 where j: "take_pending_http_announces 0 80 http_session = (job # jobs, d1)"
    by (cases "take_pending_http_announces 0 80 http_session"; cases "fst (take_pending_http_announces 0 80 http_session)") auto
  have "apply_http_announce_result 5 \<lparr>hr_slot_idx = 0, hr_generation = hw_generation job, hr_tracker_url = [], hr_outcome = Some (60, [V4 1 1])\<rparr>
      (fold (ds_step (\<lambda>_. [])) [OpStop] d1) = (None, fold (ds_step (\<lambda>_. [])) [OpStop] d1)"
    by (rule old_http_answer_ignored [OF j, of job]) simp_all
  with j show ?thesis by blast
qed

text \<open>
  C39. A resolution does not belong to its session: when a session with another tracker is started while the name of
  the first tracker is being resolved, the late answer is added to the new slot of the same index. The slot of the new
  tracker then has the address of the old one and announces the new room there.
\<close>

theorem late_resolution_crosses_sessions:
  assumes "parse_tracker_url old_url = Some (host, port)" and "parse_tracker_url new_url = Some (host', port')"
    and "d1 = ds_start room node [old_url] secs joiner body lp d"
    and "take_pending_resolves d1 = (jobs, d2)"
    and "d3 = ds_step show_addr (OpResolved 0 [V4 ip p]) (ds_start room' node' [new_url] secs' joiner' body' lp' d2)"
    and "se_send_ok env"
  shows "jobs = [(0, host @ '':'' @ show_nat (unat port))]
    \<and> (case ds_slots d3 of [s] \<Rightarrow> ts_url s = new_url \<and> current_addr s = Some (V4 ip p) | _ \<Rightarrow> False)
    \<and> fst (tick_tracker_slot env 0 lp' d3) = Some (V4 ip p, build_connect_request (se_txn env))"
proof -
  obtain ep where ep: "parse_tracker_endpoint old_url = Some ep" "te_scheme ep = Udp" "te_host ep = host" "te_port ep = port"
    using assms(1) by (auto simp: parse_tracker_url_def split: option.splits if_splits)
  obtain ep' where ep': "parse_tracker_endpoint new_url = Some ep'" "te_scheme ep' = Udp"
    using assms(2) by (auto simp: parse_tracker_url_def split: option.splits if_splits)
  have "jobs = [(0, host @ '':'' @ show_nat (unat port))]"
    using assms(1,3,4) ep
    by (auto simp: ds_start_def take_pending_resolves_def TrackerSlot_try_new_def resolve_job_def is_udp_def
        MAX_ACTIVE_TRACKERS_def List.map_filter_simps Let_def)
  moreover obtain s where s: "ds_slots d3 = [s]" "ts_url s = new_url" "ts_addrs s = [V4 ip p]" "ts_scheme s = Udp" "ts_last_announce s = None"
      "ds_connections d3 = []" "ds_pending d3 = []"
    using assms(5) ep'
    by (auto simp: ds_start_def TrackerSlot_try_new_def add_resolved_addrs_def clear_resolve_in_flight_def upd_slot_def
        add_addrs_def is_ipv4_def MAX_ACTIVE_TRACKERS_def List.map_filter_simps Let_def)
  moreover have "current_addr s = Some (V4 ip p)" using s(3) by (simp add: current_addr_def)
  moreover have "fst (tick_tracker_slot env 0 lp' d3) = Some (V4 ip p, build_connect_request (se_txn env))"
    using s assms(6) by (simp add: tick_tracker_slot_def current_addr_def is_udp_def announce_due_def has_pending_in_flight_def tab_vals_def Let_def)
  ultimately show ?thesis by simp
qed

theorem late_resolution_crosses_sessions_witness:
  "fst (tick_tracker_slot \<lparr>se_now = 9, se_txn = [1, 2, 3, 4], se_send_ok = True\<rparr> 0 7878
      (ds_step (\<lambda>_. []) (OpResolved 0 [V4 77 6969])
        (ds_start [] [] [''udp://new.example:1''] 60 True None 7878
          (snd (take_pending_resolves (ds_start [] [] [''udp://old.example:6969''] 60 True None 7878 DecentralizedState_default))))))
    = Some (V4 77 6969, build_connect_request [1, 2, 3, 4])"
proof -
  have old: "parse_tracker_url ''udp://old.example:6969'' = Some (''old.example'', 6969)" by code_simp
  have new: "parse_tracker_url ''udp://new.example:1'' = Some (''new.example'', 1)" by code_simp
  obtain jobs d2 where j: "take_pending_resolves (ds_start [] [] [''udp://old.example:6969''] 60 True None 7878 DecentralizedState_default) = (jobs, d2)"
    by fastforce
  from late_resolution_crosses_sessions [OF old new refl j refl, of "\<lparr>se_now = 9, se_txn = [1, 2, 3, 4], se_send_ok = True\<rparr>"] j
  show ?thesis by simp
qed

section \<open>From an announcement to targets\<close>

lemma tick_connect:
  assumes "i < length (ds_slots d)" and "is_udp (ds_slots d ! i)" and "current_addr (ds_slots d ! i) = Some a"
    and "announce_due (se_now env) (ds_announce_secs d) (ds_slots d ! i)" and "tab_get (ds_connections d) a = None"
    and "\<not> has_pending_in_flight a Connect d" and "se_send_ok env"
  shows "tick_tracker_slot env i port d = (Some (a, build_connect_request (se_txn env)),
    d\<lparr>ds_pending := tab_put (se_txn env) \<lparr>po_kind = Connect, po_tracker = a, po_created = se_now env\<rparr> (ds_pending d)\<rparr>)"
  using assms by (simp add: tick_tracker_slot_def Let_def)

lemma tick_announce:
  assumes "i < length (ds_slots d)" and "is_udp (ds_slots d ! i)" and "current_addr (ds_slots d ! i) = Some a"
    and "announce_due (se_now env) (ds_announce_secs d) (ds_slots d ! i)" and "tab_get (ds_connections d) a = Some c"
    and "se_now env < tc_expires c" and "\<not> has_pending_in_flight a Announce d" and "se_send_ok env"
  shows "tick_tracker_slot env i port d =
    (Some (a, build_announce_request (tc_id c) (se_txn env) (ds_room_id d) (ds_peer_id d) port 50),
     d\<lparr>ds_pending := tab_put (se_txn env) \<lparr>po_kind = Announce, po_tracker = a, po_created = se_now env\<rparr> (ds_pending d)\<rparr>)"
  using assms by (simp add: tick_tracker_slot_def Let_def)

lemma connect_answer:
  assumes "ds_active d" and "length txn = 4"
    and "tab_get (ds_pending d) txn = Some \<lparr>po_kind = Connect, po_tracker = a, po_created = t\<rparr>"
  shows "handle_datagram show_addr now a (u32_to_be 0 @ txn @ u64_to_be cid) d =
    (\<lparr>dr_handled = True, dr_event = Some \<lparr>ev_tracker_url = tracker_url_of show_addr a d, ev_announce = None\<rparr>\<rparr>,
     d\<lparr>ds_pending := tab_del txn (ds_pending d),
       ds_connections := tab_put a \<lparr>tc_id = cid, tc_expires = now + CONNECTION_TTL\<rparr> (ds_connections d)\<rparr>)"
proof -
  have "parse_connect_response (u32_to_be 0 @ txn @ u64_to_be cid) txn = Inr cid"
    using assms(2) by (simp add: parse_connect_response_def wire_simps)
  moreover have "tracker_url_of show_addr a (d\<lparr>ds_pending := p\<rparr>) = tracker_url_of show_addr a d" for p
    by (simp add: tracker_url_of_def slot_index_for_tracker_addr_def split: option.splits)
  ultimately show ?thesis
    using assms by (simp add: handle_datagram_def answered_def wire_simps Let_def)
qed

lemma announce_answer:
  assumes "ds_active d" and "length txn = 4" and "length counts = 8" and "list_all compactable ps" and "length ps \<le> 512"
    and "tab_get (ds_pending d) txn = Some \<lparr>po_kind = Announce, po_tracker = a, po_created = t\<rparr>"
    and "slot_index_for_tracker_addr a d = Some i" and "i < length (ds_slots d)" and "tab_ok (ds_discovered d)"
    and "handle_datagram show_addr now a (u32_to_be 1 @ txn @ u32_to_be interval @ counts @ concat (map compact_bytes ps)) d = (r, d')"
  shows "(\<exists>first. dr_event r = Some \<lparr>ev_tracker_url = ts_url (ds_slots d ! i), ev_announce = Some \<lparr>ai_peers = ps, ai_first_announce_in_join = first\<rparr>\<rparr>)
    \<and> (\<forall>p. tab_get (ds_discovered d') p = (if p \<in> set ps then Some now else tab_get (ds_discovered d) p))
    \<and> ds_slots d' ! i = (ds_slots d ! i)\<lparr>ts_server_interval_secs := max (unat interval) 60, ts_last_announce := Some now\<rparr>
    \<and> ds_announce_secs d' = ds_announce_secs d"
proof -
  let ?data = "u32_to_be 1 @ txn @ u32_to_be interval @ counts @ concat (map compact_bytes ps)"
  have pc: "parse_compact_peers (concat (map compact_bytes ps)) = Inr ps"
    using parse_compact_peers_compact [OF assms(4)] assms(5) by (simp add: MAX_PEERS_PER_RESPONSE_def)
  have parse: "parse_announce_response ?data txn = Inr (interval, ps)"
    using assms(2,3) pc by (simp add: parse_announce_response_def ANNOUNCE_HEADER_LEN_def wire_simps)
  have txn: "take 4 (drop 4 ?data) = txn" "\<not> length ?data < 16" using assms(2,3) by (simp_all add: wire_simps)
  define d1 where "d1 = d\<lparr>ds_pending := tab_del txn (ds_pending d)\<rparr>"
  define d2 where "d2 = upd_slot i (\<lambda>s. s\<lparr>ts_server_interval_secs := max (unat interval) 60, ts_last_announce := Some now\<rparr>) d1"
  have idx: "slot_index_for_tracker_addr a d1 = Some i" using assms(7) by (simp add: slot_index_for_tracker_addr_def d1_def)
  have "(r, d') = answered now (tracker_url_of show_addr a d1) \<lparr>po_kind = Announce, po_tracker = a, po_created = t\<rparr> ?data d1"
    using assms(1,6,10) txn by (simp add: handle_datagram_def d1_def Let_def)
  also have "\<dots> = (\<lparr>dr_handled = True, dr_event = Some \<lparr>ev_tracker_url = tracker_url_of show_addr a d1, ev_announce = Some (fst (note_announce now ps d2))\<rparr>\<rparr>,
      snd (note_announce now ps d2))"
    using idx parse txn(1) by (simp add: answered_def d2_def Let_def case_prod_unfold)
  finally have r: "r = \<lparr>dr_handled = True, dr_event = Some \<lparr>ev_tracker_url = tracker_url_of show_addr a d1, ev_announce = Some (fst (note_announce now ps d2))\<rparr>\<rparr>"
    and d': "d' = snd (note_announce now ps d2)" by simp_all
  have "tracker_url_of show_addr a d1 = ts_url (ds_slots d ! i)" using idx by (simp add: tracker_url_of_def d1_def)
  moreover have "\<exists>first. fst (note_announce now ps d2) = \<lparr>ai_peers = ps, ai_first_announce_in_join = first\<rparr>"
    by (simp add: note_announce_def Let_def)
  moreover have "ds_slots d2 ! i = (ds_slots d ! i)\<lparr>ts_server_interval_secs := max (unat interval) 60, ts_last_announce := Some now\<rparr>"
    using assms(8) by (simp add: d2_def upd_slot_def d1_def)
  moreover have "tab_get (fold (\<lambda>ep. tab_put ep now) ps (ds_discovered d2)) p = (if p \<in> set ps then Some now else tab_get (ds_discovered d) p)" for p
    using fold_put_discovered [OF assms(9), of now ps p] by (simp add: d2_def d1_def)
  ultimately show ?thesis using r d' by (auto simp: d2_def d1_def)
qed


definition udp_session :: DecentralizedState where
  "udp_session = ds_step (\<lambda>_. []) (OpResolved 0 [V4 5 6969])
     (ds_start (replicate 20 7) [] [''udp://tr.example:6969''] 60 True None 7878 DecentralizedState_default)"


text \<open>
  A slot that shares its tracker's address with an earlier slot gets no credit for an answer: the announcement is
  noted at the first slot with the address, so the later one stays due.
\<close>

lemma shared_address_not_credited:
  assumes "slot_index_for_tracker_addr a d = Some j" and "j \<noteq> i"
  shows "ds_slots (snd (handle_datagram show_addr now a data d)) ! i = ds_slots d ! i"
proof -
  have same: "slot_index_for_tracker_addr a (d\<lparr>ds_pending := p\<rparr>) = Some j" for p
    using assms(1) by (simp add: slot_index_for_tracker_addr_def)
  have "ds_slots (snd (answered now url op data (d\<lparr>ds_pending := p\<rparr>))) ! i = ds_slots d ! i" if "po_tracker op = a" for url op p
    using assms(2) same [of p] that
    by (simp add: answered_def upd_slot_def Let_def case_prod_unfold split: PendingKind.splits sum.splits)
  then show ?thesis by (simp add: handle_datagram_def Let_def split: option.splits)
qed

end
