(* ===== verification/Size_Loss.thy ===== *)
theory Size_Loss
  imports Pmtud Crypto
begin

text \<open>
  \<^verbatim>\<open>src/src/net/size_loss.rs\<close>: receive rates by frame size and the wire loss of each peer, in binary64 arithmetic. Path-MTU
  discovery reads the health of large frames from it, adaptive parity the loss. A virtual address is the key of the
  table.
\<close>

section \<open>Loss\<close>

definition WIRE_LOSS_DECAY :: f64 where "WIRE_LOSS_DECAY = f64_lit (98 / 100)"
definition EWMA_ALPHA :: f64 where "EWMA_ALPHA = f64_lit (2 / 10)"
definition WARM_COMMITS :: nat where "WARM_COMMITS = 64"
definition WARM_MIN_COMMITS :: nat where "WARM_MIN_COMMITS = 8"
definition WARM_AGE :: duration where "WARM_AGE = from_secs 3"
definition LARGE_ALIVE_RATE :: f64 where "LARGE_ALIVE_RATE = Fin 2"
definition LARGE_COLLAPSED_LARGE_MAX :: f64 where "LARGE_COLLAPSED_LARGE_MAX = Fin (1 / 2)"
definition LARGE_COLLAPSED_SMALL_MIN :: f64 where "LARGE_COLLAPSED_SMALL_MIN = Fin 2"
definition LARGE_ALIVE_MEMORY :: duration where "LARGE_ALIVE_MEMORY = from_secs 10"
definition TX_OFFER_RECENT :: duration where "TX_OFFER_RECENT = from_secs 1"
definition GAP_CLAMP :: nat where "GAP_CLAMP = 64"
definition RATE_TICK :: duration where "RATE_TICK = from_millis 100"

record WireLossEwma =
  wl_lost_w :: f64
  wl_got_w :: f64

definition WireLossEwma_default :: WireLossEwma where
  "WireLossEwma_default = \<lparr>wl_lost_w = Fin 0, wl_got_w = Fin 0\<rparr>"

definition wire_note :: "nat \<Rightarrow> nat \<Rightarrow> WireLossEwma \<Rightarrow> WireLossEwma" where
  "wire_note lost got w =
     (if lost = 0 \<and> got = 0 then w
      else \<lparr>wl_lost_w = f64_add (f64_mul (wl_lost_w w) WIRE_LOSS_DECAY) (f64_of_nat lost),
            wl_got_w = f64_add (f64_mul (wl_got_w w) WIRE_LOSS_DECAY) (f64_of_nat got)\<rparr>)"

definition wire_rate :: "WireLossEwma \<Rightarrow> f64" where
  "wire_rate w =
     (let denom = f64_add (wl_lost_w w) (wl_got_w w) in
      if f64_lt denom (Fin 1) then Fin 0 else f64_clip (Fin 0) (Fin 1) (f64_div (wl_lost_w w) denom))"

section \<open>Rates by size\<close>

record Bucket =
  bk_rate :: f64
  bk_pending :: nat
  bk_last_tick :: instant

definition Bucket_new :: "instant \<Rightarrow> Bucket" where
  "Bucket_new now = \<lparr>bk_rate = Fin 0, bk_pending = 0, bk_last_tick = now\<rparr>"

definition bucket_flush :: "instant \<Rightarrow> Bucket \<Rightarrow> Bucket" where
  "bucket_flush now b =
     (let elapsed = duration_since now (bk_last_tick b) in
      if elapsed < RATE_TICK then b
      else
        let secs = f64_max (as_secs_f64 elapsed) (f64_lit (1 / 1000));
            sample = f64_div (f64_of_nat (bk_pending b)) secs;
            rate = (if bk_rate b = Fin 0 \<and> bk_pending b = 0 then Fin 0
                    else f64_add (f64_mul EWMA_ALPHA sample) (f64_mul (f64_sub (Fin 1) EWMA_ALPHA) (bk_rate b))) in
        \<lparr>bk_rate = rate, bk_pending = 0, bk_last_tick = now\<rparr>)"

definition bucket_note :: "instant \<Rightarrow> Bucket \<Rightarrow> Bucket" where
  "bucket_note now b = (let b = bucket_flush now b in b\<lparr>bk_pending := sat_add 64 (bk_pending b) 1\<rparr>)"

definition bucket_note_n :: "nat \<Rightarrow> instant \<Rightarrow> Bucket \<Rightarrow> Bucket" where
  "bucket_note_n n now b =
     (if n = 0 then b else let b = bucket_flush now b in b\<lparr>bk_pending := sat_add 64 (bk_pending b) n\<rparr>)"

definition bucket_index :: "nat \<Rightarrow> nat" where
  "bucket_index frame_len = (if frame_len \<le> 600 then 0 else if frame_len \<le> 1000 then 1 else if frame_len \<le> 1300 then 2 else 3)"

record VipTracker =
  vt_buckets :: "Bucket list"
  vt_created_at :: instant
  vt_commits :: nat
  vt_last_large_alive_at :: "instant option"
  vt_last_tx_offer_at :: "instant option"
  vt_encrypted_seen :: bool
  vt_wire_loss :: WireLossEwma

definition VipTracker_new :: "instant \<Rightarrow> VipTracker" where
  "VipTracker_new now = \<lparr>vt_buckets = replicate 4 (Bucket_new now), vt_created_at = now, vt_commits = 0,
     vt_last_large_alive_at = None, vt_last_tx_offer_at = None, vt_encrypted_seen = False, vt_wire_loss = WireLossEwma_default\<rparr>"

definition tracker_warm :: "instant \<Rightarrow> VipTracker \<Rightarrow> bool" where
  "tracker_warm now t =
     (vt_commits t \<ge> WARM_COMMITS
      \<or> duration_since now (vt_created_at t) \<ge> WARM_AGE \<and> vt_commits t \<ge> WARM_MIN_COMMITS)"

definition flush_all :: "instant \<Rightarrow> VipTracker \<Rightarrow> VipTracker" where
  "flush_all now t = t\<lparr>vt_buckets := map (bucket_flush now) (vt_buckets t)\<rparr>"

definition large_rate :: "VipTracker \<Rightarrow> f64" where
  "large_rate t = f64_add (bk_rate (vt_buckets t ! 2)) (bk_rate (vt_buckets t ! 3))"

definition small_rate :: "VipTracker \<Rightarrow> f64" where
  "small_rate t = bk_rate (vt_buckets t ! 0)"

definition recently :: "duration \<Rightarrow> instant \<Rightarrow> instant option \<Rightarrow> bool" where
  "recently d now t = (case t of Some t \<Rightarrow> duration_since now t \<le> d | None \<Rightarrow> False)"

definition tracker_health :: "instant \<Rightarrow> VipTracker \<Rightarrow> SizeHealth \<times> VipTracker" where
  "tracker_health now t0 =
     (let t = flush_all now t0;
          warm = tracker_warm now t;
          large = large_rate t;
          large_alive = (warm \<and> f64_le LARGE_ALIVE_RATE large);
          t = (if large_alive then t\<lparr>vt_last_large_alive_at := Some now\<rparr> else t);
          had_large = recently LARGE_ALIVE_MEMORY now (vt_last_large_alive_at t);
          tx_offer = recently TX_OFFER_RECENT now (vt_last_tx_offer_at t);
          large_collapsed = (warm \<and> vt_encrypted_seen t \<and> had_large \<and> f64_lt large LARGE_COLLAPSED_LARGE_MAX
            \<and> f64_le LARGE_COLLAPSED_SMALL_MIN (small_rate t) \<and> tx_offer) in
      (\<lparr>sh_warm = warm, sh_large_alive = large_alive, sh_large_collapsed = large_collapsed\<rparr>, t))"

section \<open>The table\<close>

type_synonym SizeLossTable = "(u32, VipTracker) table"

definition sl_entry :: "u32 \<Rightarrow> instant \<Rightarrow> SizeLossTable \<Rightarrow> VipTracker" where
  "sl_entry vip now m = (case tab_get m vip of Some t \<Rightarrow> t | None \<Rightarrow> VipTracker_new now)"

definition note_rx :: "u32 \<Rightarrow> nat \<Rightarrow> instant \<Rightarrow> SizeLossTable \<Rightarrow> SizeLossTable" where
  "note_rx vip frame_len now m =
     (let t = sl_entry vip now m; t = t\<lparr>vt_commits := sat_add 64 (vt_commits t) 1\<rparr>; i = bucket_index frame_len in
      tab_put vip (t\<lparr>vt_buckets := (vt_buckets t)[i := bucket_note now (vt_buckets t ! i)]\<rparr>) m)"

definition note_encrypted_commit :: "u32 \<Rightarrow> nat \<Rightarrow> nat \<Rightarrow> instant \<Rightarrow> SizeLossTable \<Rightarrow> SizeLossTable" where
  "note_encrypted_commit vip frame_len gap now m =
     (let t = sl_entry vip now m;
          t = t\<lparr>vt_encrypted_seen := True, vt_commits := sat_add 64 (vt_commits t) 1\<rparr>;
          idx = bucket_index frame_len;
          b = bucket_note now (vt_buckets t ! idx);
          g = min gap GAP_CLAMP;
          b = (if g > 0 then bucket_note_n g now b else b) in
      tab_put vip (t\<lparr>vt_buckets := (vt_buckets t)[idx := b]\<rparr>) m)"

definition note_wire_obs :: "u32 \<Rightarrow> nat \<Rightarrow> nat \<Rightarrow> instant \<Rightarrow> SizeLossTable \<Rightarrow> SizeLossTable" where
  "note_wire_obs vip lost got now m =
     (if lost = 0 \<and> got = 0 then m
      else let t = sl_entry vip now m in tab_put vip (t\<lparr>vt_wire_loss := wire_note lost got (vt_wire_loss t)\<rparr>) m)"

definition loss_ewma :: "u32 \<Rightarrow> SizeLossTable \<Rightarrow> f64" where
  "loss_ewma vip m = (case tab_get m vip of Some t \<Rightarrow> wire_rate (vt_wire_loss t) | None \<Rightarrow> Fin 0)"

definition note_tx_offer :: "u32 \<Rightarrow> nat \<Rightarrow> instant \<Rightarrow> SizeLossTable \<Rightarrow> SizeLossTable" where
  "note_tx_offer vip frame_len now m =
     (if frame_len \<le> 1000 then m
      else let t = sl_entry vip now m in tab_put vip (t\<lparr>vt_last_tx_offer_at := Some now\<rparr>) m)"

definition sl_health :: "u32 \<Rightarrow> instant \<Rightarrow> SizeLossTable \<Rightarrow> SizeHealth \<times> SizeLossTable" where
  "sl_health vip now m =
     (case tab_get m vip of
        Some t \<Rightarrow> (let (h, t) = tracker_health now t in (h, tab_put vip t m))
      | None \<Rightarrow> (\<lparr>sh_warm = False, sh_large_alive = False, sh_large_collapsed = False\<rparr>, m))"

definition remove_vip :: "u32 \<Rightarrow> SizeLossTable \<Rightarrow> SizeLossTable" where
  "remove_vip vip m = tab_del vip m"

definition sl_clear :: "SizeLossTable \<Rightarrow> SizeLossTable" where
  "sl_clear m = []"

text \<open>The gap a counter leaves to the top of the replay window it is about to be committed to.\<close>

definition replay_gap :: "u64 option \<Rightarrow> u64 \<Rightarrow> nat" where
  "replay_gap tp counter =
     (case tp of Some t \<Rightarrow> if counter > t then min (unat (counter - t - 1)) GAP_CLAMP else 0 | None \<Rightarrow> 0)"

section \<open>The loss is a fraction\<close>

definition weight_ok :: "f64 \<Rightarrow> bool" where
  "weight_ok = fin_in 0 (2 ^ 70)"

lemma decay: "\<exists>c. WIRE_LOSS_DECAY = Fin c \<and> 0 \<le> c \<and> c \<le> 981 / 1000"
proof -
  have "case WIRE_LOSS_DECAY of Fin c \<Rightarrow> 0 \<le> c \<and> c \<le> 981 / 1000 | _ \<Rightarrow> False" by code_simp
  then show ?thesis by (auto split: f64.splits)
qed

lemma weight_note:
  assumes "weight_ok w" and "n < 2 ^ 64"
  shows "weight_ok (f64_add (f64_mul w WIRE_LOSS_DECAY) (f64_of_nat n))"
proof -
  obtain x where x: "w = Fin x" "0 \<le> x" "x \<le> 2 ^ 70" using assms(1) by (auto simp: weight_ok_def elim: fin_inE)
  obtain c where c: "WIRE_LOSS_DECAY = Fin c" "0 \<le> c" "c \<le> 981 / 1000" using decay by blast
  have xc: "0 \<le> x * c" using x c by simp
  have xc': "x * c \<le> 2 ^ 70 * (981 / 1000)" using x c by (intro mult_mono) simp_all
  then have "x * c \<le> 2 ^ 1000" by (rule order_trans) simp
  from rnd64_upper [OF xc this] have "fin_in 0 (x * c * (1 + 1 / 2 ^ 53) + 1 / 2 ^ 53) (f64_mul w WIRE_LOSS_DECAY)"
    unfolding x(1) c(1) f64_mul.simps .
  then obtain y where y: "f64_mul w WIRE_LOSS_DECAY = Fin y" "0 \<le> y" "y \<le> x * c * (1 + 1 / 2 ^ 53) + 1 / 2 ^ 53"
    by (rule fin_inE)
  have n: "(of_nat n :: rat) \<le> 2 ^ 64" using assms(2) by (metis less_imp_le of_nat_le_iff of_nat_numeral of_nat_power)
  then have "(of_nat n :: rat) \<le> 2 ^ 1000" by (rule order_trans) simp
  from rnd64_upper [OF of_nat_0_le_iff this] have "fin_in 0 (of_nat n * (1 + 1 / 2 ^ 53) + 1 / 2 ^ 53) (f64_of_nat n)"
    unfolding f64_of_nat_def .
  then obtain z where z: "f64_of_nat n = Fin z" "0 \<le> z" "z \<le> of_nat n * (1 + 1 / 2 ^ 53) + 1 / 2 ^ 53"
    by (rule fin_inE)
  have y': "y \<le> 2 ^ 70 * (982 / 1000)"
  proof -
    have "x * c * (1 + 1 / 2 ^ 53) \<le> 2 ^ 70 * (981 / 1000) * (1 + 1 / 2 ^ 53)" using xc' by (intro mult_right_mono) auto
    with y(3) have "y \<le> 2 ^ 70 * (981 / 1000) * (1 + 1 / 2 ^ 53) + 1 / 2 ^ 53" by linarith
    also have "\<dots> \<le> 2 ^ 70 * (982 / 1000)" by simp
    finally show ?thesis .
  qed
  have z': "z \<le> 2 ^ 70 * (16 / 1000)"
  proof -
    have "of_nat n * (1 + 1 / 2 ^ 53) \<le> (2 :: rat) ^ 64 * (1 + 1 / 2 ^ 53)" using n by (intro mult_right_mono) auto
    with z(3) have "z \<le> 2 ^ 64 * (1 + 1 / 2 ^ 53) + 1 / 2 ^ 53" by linarith
    also have "\<dots> \<le> 2 ^ 70 * (16 / 1000)" by simp
    finally show ?thesis .
  qed
  have s: "0 \<le> y + z" "y + z \<le> 2 ^ 70 * (998 / 1000)" using y(2) z(2) y' z' by linarith+
  from s(2) have "y + z \<le> 2 ^ 1000" by (rule order_trans) simp
  from rnd64_upper [OF s(1) this] obtain v where v: "rnd64 (y + z) = Fin v" "0 \<le> v" "v \<le> (y + z) * (1 + 1 / 2 ^ 53) + 1 / 2 ^ 53"
    by (rule fin_inE)
  have "(y + z) * (1 + 1 / 2 ^ 53) \<le> 2 ^ 70 * (998 / 1000) * (1 + 1 / 2 ^ 53)" using s by (intro mult_right_mono) auto
  with v(3) have "v \<le> 2 ^ 70 * (998 / 1000) * (1 + 1 / 2 ^ 53) + 1 / 2 ^ 53" by linarith
  also have "\<dots> \<le> 2 ^ 70" by simp
  finally show ?thesis using v y z by (simp add: weight_ok_def)
qed

definition wire_ok :: "WireLossEwma \<Rightarrow> bool" where
  "wire_ok w = (weight_ok (wl_lost_w w) \<and> weight_ok (wl_got_w w))"

lemma wire_note_ok: "wire_ok w \<Longrightarrow> lost < 2 ^ 64 \<Longrightarrow> got < 2 ^ 64 \<Longrightarrow> wire_ok (wire_note lost got w)"
  by (simp add: wire_ok_def wire_note_def weight_note)

lemma wire_rate_fraction:
  assumes "wire_ok w"
  shows "fin_in 0 1 (wire_rate w)"
proof -
  obtain x y where w: "wl_lost_w w = Fin x" "0 \<le> x" "x \<le> 2 ^ 70" "wl_got_w w = Fin y" "0 \<le> y" "y \<le> 2 ^ 70"
    using assms by (auto simp: wire_ok_def weight_ok_def elim!: fin_inE)
  have s: "0 \<le> x + y" "x + y \<le> 2 ^ 71" using w by simp_all
  from s(2) have "x + y \<le> 2 ^ 1000" by (rule order_trans) simp
  from rnd64_upper [OF s(1) this] obtain d where d: "rnd64 (x + y) = Fin d" by (rule fin_inE)
  show ?thesis
  proof (cases "d < 1")
    case True
    with w d show ?thesis by (simp add: wire_rate_def)
  next
    case False
    then have "f64_div (Fin x) (Fin d) \<noteq> NaN" by simp
    from f64_clip_in [OF this, of 0 1] False w d show ?thesis by (simp add: wire_rate_def)
  qed
qed

section \<open>Histories\<close>

datatype sl_op =
    SlRx u32 nat instant
  | SlCommit u32 nat nat instant
  | SlWire u32 nat nat instant
  | SlTx u32 nat instant
  | SlHealth u32 instant
  | SlRemove u32
  | SlClear

fun sl_step :: "sl_op \<Rightarrow> SizeLossTable \<Rightarrow> SizeLossTable" where
  "sl_step (SlRx vip len now) m = note_rx vip len now m"
| "sl_step (SlCommit vip len gap now) m = note_encrypted_commit vip len gap now m"
| "sl_step (SlWire vip lost got now) m = note_wire_obs vip lost got now m"
| "sl_step (SlTx vip len now) m = note_tx_offer vip len now m"
| "sl_step (SlHealth vip now) m = snd (sl_health vip now m)"
| "sl_step (SlRemove vip) m = remove_vip vip m"
| "sl_step SlClear m = sl_clear m"

fun counts_u64 :: "sl_op \<Rightarrow> bool" where
  "counts_u64 (SlWire vip lost got now) = (lost < 2 ^ 64 \<and> got < 2 ^ 64)"
| "counts_u64 _ = True"

text \<open>The moments at which large frames were reported alive, and at which a large frame was offered for sending.\<close>

fun alive_at :: "sl_op list \<Rightarrow> SizeLossTable \<Rightarrow> (u32 \<times> instant) list" where
  "alive_at [] m = []"
| "alive_at (op # ops) m =
     (case op of SlHealth vip now \<Rightarrow> if sh_large_alive (fst (sl_health vip now m)) then [(vip, now)] else [] | _ \<Rightarrow> [])
     @ alive_at ops (sl_step op m)"

fun offered_at :: "sl_op list \<Rightarrow> (u32 \<times> instant) list" where
  "offered_at [] = []"
| "offered_at (op # ops) = (case op of SlTx vip len now \<Rightarrow> if len > 1000 then [(vip, now)] else [] | _ \<Rightarrow> []) @ offered_at ops"

definition sl_inv :: "(u32 \<times> instant) set \<Rightarrow> (u32 \<times> instant) set \<Rightarrow> SizeLossTable \<Rightarrow> bool" where
  "sl_inv alive offered m =
     (\<forall>vip t. tab_get m vip = Some t \<longrightarrow>
        wire_ok (vt_wire_loss t)
        \<and> (\<forall>u. vt_last_large_alive_at t = Some u \<longrightarrow> (vip, u) \<in> alive)
        \<and> (\<forall>u. vt_last_tx_offer_at t = Some u \<longrightarrow> (vip, u) \<in> offered))"

lemma sl_inv_mono: "sl_inv a b m \<Longrightarrow> a \<subseteq> a' \<Longrightarrow> b \<subseteq> b' \<Longrightarrow> sl_inv a' b' m"
  by (fastforce simp: sl_inv_def)

lemma default_wire_ok: "wire_ok WireLossEwma_default"
  by (simp add: wire_ok_def weight_ok_def WireLossEwma_default_def)

lemma entry_inv:
  assumes "sl_inv a b m"
  shows "wire_ok (vt_wire_loss (sl_entry vip now m))"
    "vt_last_large_alive_at (sl_entry vip now m) = Some u \<Longrightarrow> (vip, u) \<in> a"
    "vt_last_tx_offer_at (sl_entry vip now m) = Some u \<Longrightarrow> (vip, u) \<in> b"
  using assms default_wire_ok by (auto simp: sl_inv_def sl_entry_def VipTracker_new_def split: option.splits)

lemma put_inv:
  assumes "sl_inv a b m" and "wire_ok (vt_wire_loss t)"
    and "\<And>u. vt_last_large_alive_at t = Some u \<Longrightarrow> (vip, u) \<in> a" and "\<And>u. vt_last_tx_offer_at t = Some u \<Longrightarrow> (vip, u) \<in> b"
  shows "sl_inv a b (tab_put vip t m)"
  using assms by (auto simp: sl_inv_def tab_get_put)

lemma health_fields:
  assumes "tracker_health now t = (h, t')"
  shows "vt_wire_loss t' = vt_wire_loss t" "vt_last_tx_offer_at t' = vt_last_tx_offer_at t"
    "vt_last_large_alive_at t' = (if sh_large_alive h then Some now else vt_last_large_alive_at t)"
  using assms by (auto simp: tracker_health_def flush_all_def Let_def)

lemma sl_step_inv:
  assumes "sl_inv a b m" and "counts_u64 op"
  shows "sl_inv (a \<union> set (alive_at [op] m)) (b \<union> set (offered_at [op])) (sl_step op m)"
proof -
  have mono: "sl_inv (a \<union> set (alive_at [op] m)) (b \<union> set (offered_at [op])) m" by (rule sl_inv_mono [OF assms(1)]) auto
  note e = entry_inv [OF mono]
  show ?thesis
  proof (cases op)
    case (SlRx vip len now)
    have "sl_inv (a \<union> set (alive_at [op] m)) (b \<union> set (offered_at [op])) (note_rx vip len now m)"
      unfolding note_rx_def Let_def by (rule put_inv [OF mono]) (use e in auto)
    with SlRx show ?thesis by simp
  next
    case (SlCommit vip len gap now)
    have "sl_inv (a \<union> set (alive_at [op] m)) (b \<union> set (offered_at [op])) (note_encrypted_commit vip len gap now m)"
      unfolding note_encrypted_commit_def Let_def by (rule put_inv [OF mono]) (use e in auto)
    with SlCommit show ?thesis by simp
  next
    case (SlWire vip lost got now)
    have "sl_inv (a \<union> set (alive_at [op] m)) (b \<union> set (offered_at [op]))
      (tab_put vip ((sl_entry vip now m)\<lparr>vt_wire_loss := wire_note lost got (vt_wire_loss (sl_entry vip now m))\<rparr>) m)"
      using e wire_note_ok [OF e(1)] assms(2) SlWire by (intro put_inv [OF mono]) auto
    with mono SlWire show ?thesis by (simp add: note_wire_obs_def Let_def)
  next
    case (SlTx vip len now)
    have "sl_inv (a \<union> set (alive_at [op] m)) (b \<union> set (offered_at [op]))
      (tab_put vip ((sl_entry vip now m)\<lparr>vt_last_tx_offer_at := Some now\<rparr>) m)" if "1000 < len"
      using e SlTx that by (intro put_inv [OF mono]) auto
    with mono SlTx show ?thesis by (auto simp: note_tx_offer_def Let_def)
  next
    case (SlHealth vip now)
    show ?thesis
    proof (cases "tab_get m vip")
      case None
      with mono SlHealth show ?thesis by (simp add: sl_health_def)
    next
      case (Some t)
      obtain h t' where h: "tracker_health now t = (h, t')" by fastforce
      have alive: "sh_large_alive h \<Longrightarrow> (vip, now) \<in> set (alive_at [op] m)" using SlHealth Some h by (simp add: sl_health_def)
      have "sl_inv (a \<union> set (alive_at [op] m)) (b \<union> set (offered_at [op])) (tab_put vip t' m)"
        using mono Some alive health_fields [OF h] by (intro put_inv [OF mono]) (auto simp: sl_inv_def split: if_splits)
      with SlHealth Some h show ?thesis by (simp add: sl_health_def)
    qed
  next
    case (SlRemove vip)
    then show ?thesis using mono by (auto simp: remove_vip_def sl_inv_def tab_get_del)
  next
    case SlClear
    then show ?thesis by (simp add: sl_clear_def sl_inv_def)
  qed
qed

lemma sl_run_inv:
  "sl_inv a b m \<Longrightarrow> list_all counts_u64 ops \<Longrightarrow> sl_inv (a \<union> set (alive_at ops m)) (b \<union> set (offered_at ops)) (fold sl_step ops m)"
proof (induction ops arbitrary: a b m)
  case (Cons op ops)
  have c: "counts_u64 op" "list_all counts_u64 ops" using Cons.prems(2) by simp_all
  from Cons.IH [OF sl_step_inv [OF Cons.prems(1) c(1)] c(2)] show ?case by (simp add: Un_assoc)
qed simp

section \<open>Properties\<close>

text \<open>
  C33. The loss estimate is a fraction: after any history of observations, whatever counts they carry, the loss reported for
  an address is a number between 0 and 1, never infinite and never a NaN.
\<close>

theorem wire_loss_is_fraction:
  assumes "list_all counts_u64 ops"
  shows "fin_in 0 1 (loss_ewma vip (fold sl_step ops []))"
proof -
  have "sl_inv {} {} []" by (simp add: sl_inv_def)
  from sl_run_inv [OF this assms] have "sl_inv (set (alive_at ops [])) (set (offered_at ops)) (fold sl_step ops [])" by simp
  then show ?thesis
    by (cases "tab_get (fold sl_step ops []) vip") (auto simp: loss_ewma_def sl_inv_def wire_rate_fraction)
qed

theorem wire_loss_is_fraction_witness:
  "fin_in 0 1 (loss_ewma 7 (fold sl_step [SlWire 7 (2 ^ 64 - 1) (2 ^ 64 - 1) 0, SlWire 7 1 0 5] []))"
  by (rule wire_loss_is_fraction) simp

lemma not_both: "f64_le LARGE_ALIVE_RATE x \<Longrightarrow> f64_lt x LARGE_COLLAPSED_LARGE_MAX \<Longrightarrow> False"
  by (cases x) (simp_all add: LARGE_ALIVE_RATE_def LARGE_COLLAPSED_LARGE_MAX_def)

text \<open>
  A collapse of large frames is reported only on evidence: when the health of an address says so, frames of more than
  1000 bytes were reported alive for it at most ten seconds earlier, one was offered for sending at most a second
  earlier, and large frames are not at the same time reported alive.
\<close>

lemma collapse_needs_evidence:
  assumes "list_all counts_u64 ops" and "h = fst (sl_health vip now (fold sl_step ops []))" and "sh_large_collapsed h"
  shows "sh_warm h \<and> \<not> sh_large_alive h
    \<and> (\<exists>t. (vip, t) \<in> set (alive_at ops []) \<and> duration_since now t \<le> from_secs 10)
    \<and> (\<exists>t. (vip, t) \<in> set (offered_at ops) \<and> duration_since now t \<le> from_secs 1)"
proof -
  let ?m = "fold sl_step ops []"
  have "sl_inv {} {} []" by (simp add: sl_inv_def)
  from sl_run_inv [OF this assms(1)] have inv: "sl_inv (set (alive_at ops [])) (set (offered_at ops)) ?m" by simp
  from assms(2,3) obtain t where t: "tab_get ?m vip = Some t" by (cases "tab_get ?m vip") (simp_all add: sl_health_def)
  obtain h' t' where h: "tracker_health now t = (h', t')" by fastforce
  with assms(2) t have hh: "h' = h" by (simp add: sl_health_def)
  have c: "sh_warm h" "recently LARGE_ALIVE_MEMORY now (vt_last_large_alive_at t')" "recently TX_OFFER_RECENT now (vt_last_tx_offer_at t')"
    "\<not> sh_large_alive h"
    using h hh assms(3) not_both by (auto simp: tracker_health_def Let_def split: if_splits)
  have f: "vt_last_large_alive_at t' = vt_last_large_alive_at t" "vt_last_tx_offer_at t' = vt_last_tx_offer_at t"
    using health_fields [OF h] c(4) hh by simp_all
  have "\<exists>u. (vip, u) \<in> set (alive_at ops []) \<and> duration_since now u \<le> from_secs 10"
  proof -
    from c(2) f(1) obtain u where u: "vt_last_large_alive_at t = Some u" "duration_since now u \<le> LARGE_ALIVE_MEMORY"
      by (auto simp: recently_def split: option.splits)
    with inv t have "(vip, u) \<in> set (alive_at ops [])" by (simp add: sl_inv_def)
    with u(2) show ?thesis unfolding LARGE_ALIVE_MEMORY_def by blast
  qed
  moreover have "\<exists>u. (vip, u) \<in> set (offered_at ops) \<and> duration_since now u \<le> from_secs 1"
  proof -
    from c(3) f(2) obtain u where u: "vt_last_tx_offer_at t = Some u" "duration_since now u \<le> TX_OFFER_RECENT"
      by (auto simp: recently_def split: option.splits)
    with inv t have "(vip, u) \<in> set (offered_at ops)" by (simp add: sl_inv_def)
    with u(2) show ?thesis unfolding TX_OFFER_RECENT_def by blast
  qed
  ultimately show ?thesis using c by blast
qed

end
