(* ===== verification/Spec2Isabelle.thy ===== *)
theory Spec2Isabelle
  imports Packet Net_Addr Crypto Pmtud_Inv Reliable_Inv Claim_Gossip Fec_Tx Fec_Decoder Msyn Tuning_Clamp Pacing_Progress
    Stun Bcast Discovery_Inv Size_Loss
begin

text \<open>
  Verification of the Mint ConnectUnit overlay network.
\<close>

section \<open>Route synchronisation from table to table\<close>

definition table_view :: "(SocketAddr \<Rightarrow> string) \<Rightarrow> RoutingTable \<Rightarrow> string \<Rightarrow> (string \<times> string) option" where
  "table_view show_addr rt = (\<lambda>v. map_option (\<lambda>e. (show_addr (re_endpoint e), re_node_id e)) (tab_get (rt_table rt) v))"

definition put_route :: "MsynRouteItem \<Rightarrow> (string \<Rightarrow> (string \<times> string) option) \<Rightarrow> string \<Rightarrow> (string \<times> string) option" where
  "put_route r m = m(mi_vip r \<mapsto> (mi_ep r, mi_node_id r))"

definition apply_epoch :: "string list \<Rightarrow> MsynRouteItem list \<Rightarrow> (string \<Rightarrow> (string \<times> string) option) \<Rightarrow> string \<Rightarrow> (string \<times> string) option" where
  "apply_epoch gone routes view =
     fold put_route routes (fold (\<lambda>v m. m(v := None)) gone view)"

definition tombstone_revisions :: "RoutingTable \<Rightarrow> (string \<times> u64) list" where
  "tombstone_revisions rt = map (\<lambda>(v, rv, _). (v, rv)) (rt_tombstones rt)"

definition delta_routes :: "(SocketAddr \<Rightarrow> string) \<Rightarrow> u64 \<Rightarrow> RoutingTable \<Rightarrow> MsynRouteItem list" where
  "delta_routes show_addr r rt = map (from_sync_row show_addr) (filter (\<lambda>row. sr_last_modified_revision row > r) (sync_snapshot rt))"

lemma fold_remove: "fold (\<lambda>v m. m(v := None)) gone view v = (if v \<in> set gone then None else view v)"
  by (induction gone arbitrary: view) auto

lemma fold_routes_other: "v \<notin> mi_vip ` set routes \<Longrightarrow> fold put_route routes view v = view v"
  by (induction routes arbitrary: view) (auto simp: put_route_def)

lemma fold_routes_mem:
  "distinct (map mi_vip routes) \<Longrightarrow> r \<in> set routes \<Longrightarrow>
     fold put_route routes view (mi_vip r) = Some (mi_ep r, mi_node_id r)"
proof (induction routes arbitrary: view)
  case (Cons a routes)
  show ?case
  proof (cases "r = a")
    case True
    with Cons.prems show ?thesis by (simp add: fold_routes_other) (simp add: put_route_def)
  qed (use Cons in simp)
qed simp

lemma delta_routes_vips:
  assumes "tab_ok (rt_table rt)"
  shows "distinct (map mi_vip (delta_routes show_addr r rt))"
    "(\<exists>x \<in> set (delta_routes show_addr r rt). mi_vip x = v) \<longleftrightarrow> (\<exists>e. tab_get (rt_table rt) v = Some e \<and> r < re_last_modified_revision e)"
    "tab_get (rt_table rt) v = Some e \<Longrightarrow> r < re_last_modified_revision e \<Longrightarrow>
       \<lparr>mi_vip = v, mi_ep = show_addr (re_endpoint e), mi_node_id = re_node_id e\<rparr> \<in> set (delta_routes show_addr r rt)"
proof -
  have "map mi_vip (delta_routes show_addr r rt) = map fst (filter (\<lambda>(_, e). r < re_last_modified_revision e) (rt_table rt))"
    by (simp add: delta_routes_def sync_snapshot_def from_sync_row_def filter_map o_def case_prod_unfold)
  then show "distinct (map mi_vip (delta_routes show_addr r rt))"
    using tab_ok_filter [OF assms, of "\<lambda>(_, e). r < re_last_modified_revision e"] by (simp add: tab_ok_def)
  have mem: "x \<in> set (delta_routes show_addr r rt) \<longleftrightarrow> (\<exists>v e. tab_get (rt_table rt) v = Some e \<and> r < re_last_modified_revision e
      \<and> x = \<lparr>mi_vip = v, mi_ep = show_addr (re_endpoint e), mi_node_id = re_node_id e\<rparr>)" for x
    by (auto simp: delta_routes_def sync_snapshot_def from_sync_row_def tab_mem_iff [OF assms, symmetric] image_iff)
  show "(\<exists>x \<in> set (delta_routes show_addr r rt). mi_vip x = v) \<longleftrightarrow> (\<exists>e. tab_get (rt_table rt) v = Some e \<and> r < re_last_modified_revision e)"
    unfolding Bex_def mem by (metis MsynRouteItem.select_convs(1))
  show "tab_get (rt_table rt) v = Some e \<Longrightarrow> r < re_last_modified_revision e \<Longrightarrow>
       \<lparr>mi_vip = v, mi_ep = show_addr (re_endpoint e), mi_node_id = re_node_id e\<rparr> \<in> set (delta_routes show_addr r rt)"
    by (auto simp: mem)
qed

lemma delta_removed:
  assumes "tab_ok (rt_tombstones rt)"
  shows "v \<in> set (collect_removed_vips r (tombstone_revisions rt) (Some pending)) \<longleftrightarrow>
    (\<exists>rv t. tab_get (rt_tombstones rt) v = Some (rv, t) \<and> r < rv) \<or> v \<in> set pending"
  by (force simp: collect_removed_vips_def tombstone_revisions_def tab_mem_iff [OF assms, symmetric])

text \<open>Applying what the owner announces beyond a revision to its table at that revision gives its table now.\<close>

lemma delta_applies:
  assumes "rt_inv rt0" and "list_all (clocked t) ops" and "unat (rt_revision rt0) + total_bumps ops rt0 < 2 ^ 64"
    and rt1: "rt1 = fold rt_step ops rt0" and pending: "list_all (\<lambda>v. rt_lookup v rt1 = None) pending"
  shows "apply_epoch (collect_removed_vips (rt_revision rt0) (tombstone_revisions rt1) (Some pending))
      (delta_routes show_addr (rt_revision rt0) rt1) (table_view show_addr rt0) = table_view show_addr rt1"
proof
  fix v
  have inv: "rt_inv rt1" unfolding rt1 by (rule routing.run_inv [OF assms(1)])
  then have ok: "tab_ok (rt_table rt1)" "tab_ok (rt_tombstones rt1)" and tombs: "tombs_ok rt1"
    by (simp_all add: rt_inv_except_def tables_ok_def)
  have acc: "accounted (rt_revision rt0) t rt0 rt1 v" unfolding rt1 by (rule run_accounted [OF assms(2,3,1)])
  let ?r = "rt_revision rt0" and ?routes = "delta_routes show_addr (rt_revision rt0) rt1"
  let ?gone = "collect_removed_vips (rt_revision rt0) (tombstone_revisions rt1) (Some pending)"
  have nr: "apply_epoch ?gone ?routes (table_view show_addr rt0) v = (if v \<in> set ?gone then None else table_view show_addr rt0 v)"
    if "\<not> (\<exists>e. tab_get (rt_table rt1) v = Some e \<and> ?r < re_last_modified_revision e)"
    using that delta_routes_vips(2) [OF ok(1), of show_addr ?r v] by (subst apply_epoch_def, subst fold_routes_other) (auto simp: fold_remove)
  show "apply_epoch ?gone ?routes (table_view show_addr rt0) v = table_view show_addr rt1 v"
  proof (cases "tab_get (rt_table rt1) v")
    case None
    with nr acc delta_removed [OF ok(2), of v ?r pending] show ?thesis
      by (auto simp: table_view_def accounted_def split: option.splits)
  next
    case (Some e)
    show ?thesis
    proof (cases "?r < re_last_modified_revision e")
      case True
      from fold_routes_mem [OF delta_routes_vips(1) [OF ok(1)] delta_routes_vips(3) [OF ok(1) Some True]] Some
      show ?thesis by (simp add: apply_epoch_def table_view_def)
    next
      case False
      have "v \<notin> set ?gone"
        using Some tombs pending delta_removed [OF ok(2), of v ?r pending]
        by (auto simp: tombs_ok_def list_all_iff rt_lookup_def)
      with nr Some False acc show ?thesis
        by (auto simp: table_view_def accounted_def sync_view_def)
    qed
  qed
qed

text \<open>
  C3. A joiner that holds the owner's routes as of some revision, and receives the parts of the delta since that
  revision in any order and with repetitions, all within the lifetime of a buffer, completes the epoch with the
  last missing part, and removing the removed addresses and then storing the routes gives exactly the owner's
  routes. The owner may have run any operations in between, as long as the revision counter does not wrap and
  its tombstones are within their retention time.
\<close>

theorem msyn_replica_follows:
  assumes "json_ok ser de"
    and "rt0 = fold rt_step earlier (RoutingTable_new start)"
    and "list_all (clocked t) ops" and "unat (rt_revision rt0) + total_bumps ops rt0 < 2 ^ 64"
    and "rt1 = fold rt_step ops rt0"
    and "list_all (\<lambda>v. rt_lookup v rt1 = None) pending"
    and "build_msyn_delta_shards ser text_len show_addr (rt_revision rt0) (rt_revision rt1) sid (sync_snapshot rt1)
           (tombstone_revisions rt1) (Some pending) budget = Inr (Some texts)"
    and "m = fold msyn_step received []" and "sender_clear from_ep sid (rt_revision rt1) m"
    and "applied < rt_revision rt1"
    and "good_delivery (length texts) ds j now"
  shows "\<exists>p gone routes.
    fst (ingest_msyn_part from_ep (de (texts ! j)) applied now (fold (deliver de from_ep applied texts) ds m)) = Complete p
    \<and> assemble_removed_then_routes p = (gone, routes)
    \<and> apply_epoch gone routes (table_view show_addr rt0) = table_view show_addr rt1"
proof -
  let ?gone = "collect_removed_vips (rt_revision rt0) (tombstone_revisions rt1) (Some pending)"
  let ?routes = "delta_routes show_addr (rt_revision rt0) rt1"
  have shard: "shard_msyn_epoch ser text_len (rt_revision rt0) (rt_revision rt1) sid ?routes ?gone budget = Inr texts"
    using assms(7) by (auto simp: build_msyn_delta_shards_def Let_def delta_routes_def split: if_splits sum.splits)
  have m: "msyn_inv m" unfolding assms(8) by (rule msyn.run_inv [OF msyn_inv_empty])
  have inv: "rt_inv rt0" unfolding assms(2) by (rule routing.run_inv [OF rt_inv_new])
  from epoch_delivered [OF assms(1) shard m assms(9-11)] delta_applies [OF inv assms(3-6)] show ?thesis by blast
qed

text \<open>A concrete epoch: one new address, packed into one part, delivered to a joiner that has nothing yet.\<close>

definition demo_len :: "MsynPart \<Rightarrow> nat" where
  "demo_len p = 100 + 80 * length (mp_routes p) + 20 * length (mp_removed p)"

definition demo_table :: RoutingTable where
  "demo_table = fold rt_step [OpUpdate 1 ''10.0.0.2'' (ep_at 1) (Some ''n1'')] (RoutingTable_new 0)"

lemma demo_table_rows:
  "sync_snapshot demo_table = [\<lparr>sr_vip = ''10.0.0.2'', sr_endpoint = ep_at 1, sr_node_id = ''n1'', sr_state = Candidate,
     sr_last_modified_revision = 1\<rparr>]"
  "rt_tombstones demo_table = []" "rt_revision demo_table = 1"
proof -
  have eq: "demo_table = store_route 1 ''10.0.0.2'' (ep_at 1) (Some ''n1'') (RoutingTable_new 0)"
    unfolding demo_table_def by (simp add: rt_update_fresh new_table_empty prune_interval_long del: One_nat_def)
  show "sync_snapshot demo_table = [\<lparr>sr_vip = ''10.0.0.2'', sr_endpoint = ep_at 1, sr_node_id = ''n1'', sr_state = Candidate,
     sr_last_modified_revision = 1\<rparr>]"
    unfolding eq by (simp add: sync_snapshot_def store_route_def Let_def stamp_revision_def upd_entry_def route_changed_def
        new_table_empty tab_put_def tab_get_single touched_entry_def RouteEntry_new_def)
  show "rt_tombstones demo_table = []"
    unfolding eq store_route_tombstones by (simp add: RoutingTable_new_def tab_del_def)
  show "rt_revision demo_table = 1"
    unfolding eq store_route_revision by (simp add: new_table_empty route_changed_def)
qed

theorem msyn_replica_follows_witness:
  "\<exists>texts p gone routes.
     build_msyn_delta_shards id demo_len (\<lambda>_. ''1.2.3.4:1'') 0 1 7 (sync_snapshot demo_table) (tombstone_revisions demo_table) (Some []) 1024
       = Inr (Some texts)
     \<and> fst (ingest_msyn_part (ep_at 2) (part_value (texts ! 0)) 0 5 []) = Complete p
     \<and> assemble_removed_then_routes p = (gone, routes)
     \<and> apply_epoch gone routes (table_view (\<lambda>_. ''1.2.3.4:1'') (RoutingTable_new 0)) = table_view (\<lambda>_. ''1.2.3.4:1'') demo_table"
proof -
  define part where "part = serialize_part 0 1 7 0 1 [\<lparr>mi_vip = ''10.0.0.2'', mi_ep = ''1.2.3.4:1'', mi_node_id = ''n1''\<rparr>] []"
  have build: "build_msyn_delta_shards id demo_len (\<lambda>_. ''1.2.3.4:1'') 0 1 7 (sync_snapshot demo_table) (tombstone_revisions demo_table)
      (Some []) 1024 = Inr (Some [part])"
    by (simp add: build_msyn_delta_shards_def demo_table_rows tombstone_revisions_def collect_removed_vips_def shard_msyn_epoch_def Let_def
        from_sync_row_def demo_len_def serialize_part_def part_def MSYN_APPLY_MAX_ROUTES_def MSYN_APPLY_MAX_REMOVED_def
        MSYN_ASSEMBLE_MAX_PARTS_TOTAL_def)
  have new: "rt_revision (RoutingTable_new 0) = 0" by (simp add: RoutingTable_new_def)
  have "\<exists>p gone routes.
    fst (ingest_msyn_part (ep_at 2) (part_value ([part] ! 0)) 0 5 (fold (deliver part_value (ep_at 2) 0 [part]) [] [])) = Complete p
    \<and> assemble_removed_then_routes p = (gone, routes)
    \<and> apply_epoch gone routes (table_view (\<lambda>_. ''1.2.3.4:1'') (RoutingTable_new 0)) = table_view (\<lambda>_. ''1.2.3.4:1'') demo_table"
  proof (rule msyn_replica_follows [where ser = id and text_len = demo_len and earlier = "[]" and start = 0 and t = 0 and pending = "[]"
        and ops = "[OpUpdate 1 ''10.0.0.2'' (ep_at 1) (Some ''n1'')]" and sid = 7 and budget = 1024 and received = "[]"])
    show "build_msyn_delta_shards id demo_len (\<lambda>_. ''1.2.3.4:1'') (rt_revision (RoutingTable_new 0)) (rt_revision demo_table) 7
        (sync_snapshot demo_table) (tombstone_revisions demo_table) (Some []) 1024 = Inr (Some [part])"
      using build by (simp add: new demo_table_rows)
    show "demo_table = fold rt_step [OpUpdate 1 ''10.0.0.2'' (ep_at 1) (Some ''n1'')] (RoutingTable_new 0)" by (rule demo_table_def)
  qed (simp_all add: json_ok_def new demo_table_rows in_window_def TOMBSTONE_MIN_RETENTION_def from_secs_def
      sender_clear_def good_delivery_def MSYN_ASSEMBLE_TTL_def duration_since_def lessThan_Suc)
  with build show ?thesis by (intro exI [of _ "[part]"]) simp
qed

end
